(* ===== verification/Prelude.thy ===== *)
theory Prelude
  imports Main "HOL-Library.Word"
begin

text \<open>
  What every component of the development shares: the machine integers of the C code, the
  faults a C function can end in, byte order conversion, copying between byte arrays, reading and
  writing multi-byte fields of a byte array, and the locale of event-driven machines whose
  invariant is kept by every event.
\<close>

section \<open>Machine integers\<close>

type_synonym byte = "8 word"
type_synonym u16 = "16 word"
type_synonym u32 = "32 word"
type_synonym u64 = "64 word"

unbundle bit_operations_syntax

lemma of_nat_unat_id [simp]: "of_nat (unat w) = (w :: 'a::len word)"
  by simp

lemma unat_eq_of_nat: "unat w = n \<Longrightarrow> w = (of_nat n :: 'a::len word)"
  by (metis of_nat_unat_id)

lemma ucast_of_nat_u64:
  "n < 65536 \<Longrightarrow> (ucast (of_nat n :: u64) :: 'a::len word) = of_nat n"
proof -
  assume "n < 65536"
  then have "unat (of_nat n :: u64) = n" by (simp add: unat_of_nat)
  then show ?thesis by (metis of_nat_unat)
qed

lemma unat_u32_less: "unat (w :: u32) < 4294967296"
proof -
  have "unat w < 2 ^ LENGTH(32)" by (rule unsigned_less)
  then show ?thesis by simp
qed

lemma sint_u32_small: "unat (w :: u32) < 2147483648 \<Longrightarrow> sint w = int (unat w)"
proof -
  assume "unat w < 2147483648"
  then have "int (unat w) < int 2147483648" by (simp only: of_nat_less_iff)
  then have "uint w < 2147483648" by simp
  moreover have "- 2147483648 \<le> uint w" by (rule order_trans [OF _ uint_ge_0]) simp
  ultimately have "sint w = uint w" by (simp add: sint_uint signed_take_bit_int_eq_self)
  then show ?thesis by simp
qed

lemma unat_ucast_u32_u64 [simp]: "unat (ucast (a :: u32) :: u64) = unat a"
proof -
  have "unat a < 2 ^ 64" by (rule less_trans [OF unat_u32_less]) simp
  then show ?thesis by (simp add: unsigned_ucast_eq take_bit_nat_eq_self)
qed

lemma unat_of_int_u32: "0 \<le> k \<Longrightarrow> k < 4294967296 \<Longrightarrow> unat (of_int k :: u32) = nat k"
  by (elim nonneg_int_cases) (simp add: unat_of_nat)

lemma unat_ucast_u64_u32: "unat x < 4294967296 \<Longrightarrow> unat (ucast (x :: u64) :: u32) = unat x"
  by (simp add: unsigned_ucast_eq take_bit_nat_eq_self)

lemma scast_u32_u64:
  assumes "unat (a :: u32) < 2147483648"
  shows "(scast a :: u64) = ucast a"
proof (rule signed_word_eqI)
  have "int (unat a) < int 2147483648" using assms by (simp only: of_nat_less_iff)
  then have u: "uint a < 2147483648" by simp
  have "sint a = uint a" using sint_u32_small [OF assms] by simp
  moreover have "- 9223372036854775808 \<le> uint a" by (rule order_trans [OF _ uint_ge_0]) simp
  ultimately show "sint (scast a :: u64) = sint (ucast a :: u64)"
    using u by (simp add: signed_scast_eq signed_ucast_eq signed_take_bit_int_eq_self)
qed

section \<open>Searching a list\<close>

lemma find_SomeD: "find P xs = Some x \<Longrightarrow> x \<in> set xs \<and> P x"
  by (auto simp: find_Some_iff)

section \<open>Outcomes of C code\<close>

text \<open>
  A C function that reads or writes outside an object, follows a null pointer, waits for a lock
  its own thread holds, initialises a mutex in use or locks one that was destroyed, uses a value
  that was never set or memory it has freed, divides by zero, or loops forever has no result. Such an end is a \<open>fault\<close>; a function
  that can fault returns \<open>Inl\<close> of the fault or \<open>Inr\<close> of its result.
\<close>

datatype fault = Null_deref | Overrun | Self_deadlock | No_return | Assert_fail | Bad_mutex
  | Uninit | Freed | Div_by_zero

type_synonym 'a res = "fault + 'a"

definition rbind :: "'a res \<Rightarrow> ('a \<Rightarrow> 'b res) \<Rightarrow> 'b res" where
  "rbind m f = (case m of Inl e \<Rightarrow> Inl e | Inr x \<Rightarrow> f x)"

lemma rbind_Inr [simp]: "rbind (Inr x) f = f x"
  by (simp add: rbind_def)

lemma rbind_Inl [simp]: "rbind (Inl e) f = Inl e"
  by (simp add: rbind_def)

lemma rbind_eq_Inr_iff: "rbind m f = Inr y \<longleftrightarrow> (\<exists>x. m = Inr x \<and> f x = Inr y)"
  by (simp add: rbind_def split: sum.splits)

lemma rbind_InrE [elim!]:
  assumes "rbind m f = Inr y"
  obtains x where "m = Inr x" and "f x = Inr y"
  using assms by (auto simp: rbind_eq_Inr_iff)

lemma rbind_cong [fundef_cong]:
  "m = m' \<Longrightarrow> (\<And>x. m' = Inr x \<Longrightarrow> f x = f' x) \<Longrightarrow> rbind m f = rbind m' f'"
  by (simp add: rbind_def split: sum.splits)

text \<open>
  \<open>keeps P r\<close>: whenever \<open>r\<close> is a result, it satisfies \<open>P\<close>. \<open>ends_in P r\<close>: \<open>r\<close> is a result,
  and satisfies \<open>P\<close>.
\<close>

definition keeps :: "('a \<Rightarrow> bool) \<Rightarrow> 'a res \<Rightarrow> bool" where
  "keeps P r \<longleftrightarrow> (\<forall>x. r = Inr x \<longrightarrow> P x)"

lemma keeps_Inr [simp]: "keeps P (Inr x) = P x"
  by (simp add: keeps_def)

lemma keeps_Inl [simp]: "keeps P (Inl f)"
  by (simp add: keeps_def)

lemma keepsD: "keeps P r \<Longrightarrow> r = Inr x \<Longrightarrow> P x"
  by (simp add: keeps_def)

lemma keeps_rbind:
  "keeps Q m \<Longrightarrow> (\<And>x. Q x \<Longrightarrow> keeps P (f x)) \<Longrightarrow> keeps P (rbind m f)"
  by (auto simp: keeps_def rbind_eq_Inr_iff)

lemma keeps_mono: "keeps Q m \<Longrightarrow> (\<And>x. Q x \<Longrightarrow> P x) \<Longrightarrow> keeps P m"
  by (auto simp: keeps_def)

lemma keeps_if: "(c \<Longrightarrow> keeps P a) \<Longrightarrow> (\<not> c \<Longrightarrow> keeps P b) \<Longrightarrow> keeps P (if c then a else b)"
  by simp

definition ends_in :: "('a \<Rightarrow> bool) \<Rightarrow> 'a res \<Rightarrow> bool" where
  "ends_in P r \<longleftrightarrow> (\<exists>x. r = Inr x \<and> P x)"

lemma ends_in_Inr [simp]: "ends_in P (Inr x) = P x"
  by (simp add: ends_in_def)

lemma ends_in_Inl [simp]: "\<not> ends_in P (Inl f)"
  by (simp add: ends_in_def)

lemma ends_in_rbind:
  "ends_in Q m \<Longrightarrow> (\<And>x. Q x \<Longrightarrow> ends_in P (f x)) \<Longrightarrow> ends_in P (rbind m f)"
  by (auto simp: ends_in_def rbind_eq_Inr_iff)

lemma ends_in_mono: "ends_in Q m \<Longrightarrow> (\<And>x. Q x \<Longrightarrow> P x) \<Longrightarrow> ends_in P m"
  by (auto simp: ends_in_def)

text \<open>Following a pointer that may be null.\<close>

definition deref :: "'a option \<Rightarrow> 'a res" where
  "deref p = (case p of None \<Rightarrow> Inl Null_deref | Some x \<Rightarrow> Inr x)"

section \<open>Strings\<close>

abbreviation NUL :: char where
  "NUL \<equiv> CHR 0x00"

text \<open>What a \<open>char *\<close> points to: the characters before the first NUL.\<close>

definition c_str :: "string \<Rightarrow> string" where
  "c_str s = takeWhile (\<lambda>c. c \<noteq> NUL) s"

section \<open>Lines of a file\<close>

text \<open>
  \<open>fgets(buf, n + 1, file)\<close>: up to \<open>n\<close> characters, up to the first newline, and what is left of the
  file. The rest is shorter, so a loop over the lines ends.
\<close>

fun fgets :: "nat \<Rightarrow> string \<Rightarrow> string \<times> string" where
  "fgets 0 cs = ([], cs)"
| "fgets (Suc n) [] = ([], [])"
| "fgets (Suc n) (c # cs) =
     (if c = CHR 0x0A then ([c], cs) else let (l, rest) = fgets n cs in (c # l, rest))"

lemma fgets_shorter: "0 < n \<Longrightarrow> cs \<noteq> [] \<Longrightarrow> length (snd (fgets n cs)) < length cs"
proof (induction n cs rule: fgets.induct)
  case (3 n c cs)
  show ?case
  proof (cases "c = CHR 0x0A \<or> n = 0 \<or> cs = []")
    case True
    then show ?thesis by (cases n; cases cs) (auto split: prod.splits)
  next
    case False
    then have "length (snd (fgets n cs)) < length cs" using 3 by simp
    then show ?thesis using False by (cases "fgets n cs") simp
  qed
qed simp_all

lemma fgets_append: "fgets n cs = (l, rest) \<Longrightarrow> cs = l @ rest"
  by (induction n cs arbitrary: l rest rule: fgets.induct) (auto split: if_splits prod.splits)

lemma fgets_end:
  "fgets n cs = (l, rest) \<Longrightarrow> length l < n \<Longrightarrow> l = [] \<or> last l \<noteq> CHR 0x0A \<Longrightarrow> rest = []"
proof (induction n cs arbitrary: l rest rule: fgets.induct)
  case (3 n c cs)
  then show ?case by (cases "fgets n cs") (auto split: if_splits)
qed auto

section \<open>Byte order\<close>

text \<open>
  The hosts the code runs on are little-endian, so the conversions between host and network
  order reverse the bytes.
\<close>

definition ntohs :: "u16 \<Rightarrow> u16" where
  "ntohs w = push_bit 8 w OR drop_bit 8 w"

definition ntohl :: "u32 \<Rightarrow> u32" where
  "ntohl w = push_bit 24 w OR push_bit 8 (w AND push_bit 8 (mask 8))
     OR (drop_bit 8 w AND push_bit 8 (mask 8)) OR drop_bit 24 w"

abbreviation htons :: "u16 \<Rightarrow> u16" where
  "htons \<equiv> ntohs"

abbreviation htonl :: "u32 \<Rightarrow> u32" where
  "htonl \<equiv> ntohl"

lemma bit_ntohs:
  "bit (ntohs w) n \<longleftrightarrow> (n < 8 \<and> bit w (n + 8)) \<or> (8 \<le> n \<and> n < 16 \<and> bit w (n - 8))"
  by (auto simp: ntohs_def bit_simps add.commute dest: bit_imp_le_length)

lemma ntohs_ntohs [simp]: "ntohs (ntohs w) = w"
  by (rule bit_word_eqI) (auto simp: bit_ntohs)

lemma ntohs_inject [simp]: "ntohs v = ntohs w \<longleftrightarrow> v = w"
  by (metis ntohs_ntohs)

lemma bit_ntohl:
  "bit (ntohl w) n \<longleftrightarrow> (n < 8 \<and> bit w (n + 24)) \<or> (8 \<le> n \<and> n < 16 \<and> bit w (n + 8))
     \<or> (16 \<le> n \<and> n < 24 \<and> bit w (n - 8)) \<or> (24 \<le> n \<and> n < 32 \<and> bit w (n - 24))"
proof -
  have b: "\<not> bit w k" if "32 \<le> k" for k
    using that bit_imp_le_length [of w k] by auto
  consider "n < 8" | "8 \<le> n" "n < 16" | "16 \<le> n" "n < 24" | "24 \<le> n" "n < 32" | "32 \<le> n"
    by linarith
  then show ?thesis
    by cases (simp_all add: ntohl_def bit_simps b add.commute [of 8 n] add.commute [of 24 n]
        less_diff_conv2)
qed

lemma ntohl_ntohl [simp]: "ntohl (ntohl w) = w"
proof (rule bit_word_eqI)
  fix n assume "n < LENGTH(32)"
  then consider "n < 8" | "8 \<le> n" "n < 16" | "16 \<le> n" "n < 24" | "24 \<le> n" "n < 32"
    by (simp, linarith)
  then show "bit (ntohl (ntohl w)) n = bit w n"
    by cases (simp_all add: bit_ntohl less_diff_conv2 le_diff_conv2)
qed

section \<open>Byte arrays\<close>

text \<open>\<open>memput dst off src\<close> is \<open>dst\<close> after \<open>memcpy(dst + off, src, |src|)\<close>.\<close>

definition memput :: "'a list \<Rightarrow> nat \<Rightarrow> 'a list \<Rightarrow> 'a list" where
  "memput dst off src = take off dst @ src @ drop (off + length src) dst"

lemma length_memput [simp]:
  "off + length src \<le> length dst \<Longrightarrow> length (memput dst off src) = length dst"
  by (simp add: memput_def)

lemma memput_Nil [simp]: "memput dst off [] = dst"
  by (simp add: memput_def)

lemma nth_memput:
  "off + length src \<le> length dst \<Longrightarrow> i < length dst \<Longrightarrow>
   memput dst off src ! i = (if off \<le> i \<and> i < off + length src then src ! (i - off) else dst ! i)"
  by (auto simp: memput_def nth_append)

lemma take_drop_memput [simp]:
  "off + length src \<le> length dst \<Longrightarrow> take (length src) (drop off (memput dst off src)) = src"
  by (simp add: memput_def)

text \<open>Multi-byte fields of a byte array, as a little-endian host loads and stores them.\<close>

definition load16 :: "byte list \<Rightarrow> nat \<Rightarrow> u16" where
  "load16 p i = ucast (p ! i) OR push_bit 8 (ucast (p ! (i + 1)))"

definition load32 :: "byte list \<Rightarrow> nat \<Rightarrow> u32" where
  "load32 p i = ucast (p ! i) OR push_bit 8 (ucast (p ! (i + 1)))
     OR push_bit 16 (ucast (p ! (i + 2))) OR push_bit 24 (ucast (p ! (i + 3)))"

definition bytes16 :: "u16 \<Rightarrow> byte list" where
  "bytes16 w = [ucast w, ucast (drop_bit 8 w)]"

definition bytes32 :: "u32 \<Rightarrow> byte list" where
  "bytes32 w = [ucast w, ucast (drop_bit 8 w), ucast (drop_bit 16 w), ucast (drop_bit 24 w)]"

lemma length_bytes16 [simp]: "length (bytes16 w) = 2"
  by (simp add: bytes16_def)

lemma length_bytes32 [simp]: "length (bytes32 w) = 4"
  by (simp add: bytes32_def)

lemma load16_bytes16 [simp]: "load16 (bytes16 w) 0 = w"
  by (rule bit_word_eqI) (auto simp: load16_def bytes16_def bit_simps)

lemma load32_bytes32 [simp]: "load32 (bytes32 w) 0 = w"
proof (rule bit_word_eqI)
  fix n assume "n < LENGTH(32)"
  then consider "n < 8" | "8 \<le> n" "n < 16" | "16 \<le> n" "n < 24" | "24 \<le> n" "n < 32"
    by (simp, linarith)
  then show "bit (load32 (bytes32 w) 0) n = bit w n"
    by cases (auto simp: load32_def bytes32_def bit_simps)
qed

lemma load16_memput:
  "off + length src \<le> length p \<Longrightarrow> off \<le> i \<Longrightarrow> i + 2 \<le> off + length src \<Longrightarrow>
   load16 (memput p off src) i = load16 src (i - off)"
  by (simp add: load16_def nth_memput Suc_diff_le)

lemma load16_memput_other:
  "off + length src \<le> length p \<Longrightarrow> i + 2 \<le> length p \<Longrightarrow> i + 2 \<le> off \<or> off + length src \<le> i \<Longrightarrow>
   load16 (memput p off src) i = load16 p i"
  by (auto simp: load16_def nth_memput)

lemma load32_memput_other:
  "off + length src \<le> length p \<Longrightarrow> i + 4 \<le> length p \<Longrightarrow> i + 4 \<le> off \<or> off + length src \<le> i \<Longrightarrow>
   load32 (memput p off src) i = load32 p i"
  by (auto simp: load32_def nth_memput)

lemma load16_memput_same [simp]:
  "i + 2 \<le> length p \<Longrightarrow> load16 (memput p i (bytes16 w)) i = w"
  by (subst load16_memput) simp_all

lemma load32_memput_same [simp]:
  "i + 4 \<le> length p \<Longrightarrow> load32 (memput p i (bytes32 w)) i = w"
  using load32_bytes32 [of w]
  by (simp add: load32_def nth_memput numeral_2_eq_2)

section \<open>Event machines\<close>

text \<open>
  A component that handles one event after the other: if every event keeps an invariant, so does
  every sequence of events, however long, up to a fault.
\<close>

fun run_events :: "('ev \<Rightarrow> 's \<Rightarrow> 's res) \<Rightarrow> 'ev list \<Rightarrow> 's \<Rightarrow> 's res" where
  "run_events step [] s = Inr s"
| "run_events step (ev # evs) s = rbind (step ev s) (run_events step evs)"

locale event_machine =
  fixes inv :: "'s \<Rightarrow> bool"
    and step :: "'ev \<Rightarrow> 's \<Rightarrow> 's res"
    and ok :: "'ev \<Rightarrow> bool"
  assumes step_inv: "inv s \<Longrightarrow> ok ev \<Longrightarrow> step ev s = Inr s' \<Longrightarrow> inv s'"
begin

lemma run_inv:
  "inv s \<Longrightarrow> list_all ok evs \<Longrightarrow> run_events step evs s = Inr s' \<Longrightarrow> inv s'"
proof (induction evs arbitrary: s)
  case Nil
  then show ?case by simp
next
  case (Cons ev evs)
  then obtain s1 where s1: "step ev s = Inr s1" "run_events step evs s1 = Inr s'" by auto
  have "inv s1" using Cons.prems(1,2) s1(1) step_inv [of s ev s1] by simp
  then show ?case using Cons.IH [of s1] Cons.prems(2) s1(2) by simp
qed

lemma run_append:
  "run_events step (evs @ evs') s = rbind (run_events step evs s) (run_events step evs')"
  by (induction evs arbitrary: s) (simp_all add: rbind_def split: sum.splits)

end

text \<open>A machine whose admissible events cannot fault either.\<close>

locale total_event_machine = event_machine +
  assumes step_total: "inv s \<Longrightarrow> ok ev \<Longrightarrow> \<exists>s'. step ev s = Inr s'"
begin

lemma run_total:
  "inv s \<Longrightarrow> list_all ok evs \<Longrightarrow> \<exists>s'. run_events step evs s = Inr s' \<and> inv s'"
proof (induction evs arbitrary: s)
  case Nil
  then show ?case by simp
next
  case (Cons ev evs)
  then have ok: "ok ev" "list_all ok evs" by simp_all
  then obtain s1 where s1: "step ev s = Inr s1" using step_total [OF Cons.prems(1)] by blast
  have "inv s1" by (rule step_inv [OF Cons.prems(1) ok(1) s1])
  from Cons.IH [OF this ok(2)] s1 show ?case by simp
qed

end

end
