(* ===== verification/CircBuf.thy ===== *)
theory CircBuf
  imports Prelude
begin

text \<open>
  The circular buffer of libchitcp (\<open>chitcp/src/libchitcp/buffer.c\<close>, struct in
  \<open>chitcp/include/chitcp/buffer.h\<close>): a byte array of fixed size used as a FIFO of bytes, with
  the sequence numbers of the first and the next byte. All indices are \<open>uint32_t\<close>, so they are
  words; the C \<open>int\<close> locals are words too, read with \<open>sint\<close> where their sign matters.

  The code holds the buffer's mutex throughout an operation except while it waits on a condition
  variable. So between two waits an operation is one atomic step: \<open>cb_write_chunk\<close> is what
  \<open>circular_buffer_write\<close> does between two waits for room, and \<open>cb_read_core\<close> what a read does
  after its wait for data. A call that would wait in a program of one thread is \<open>Blocks\<close>.
\<close>

section \<open>State\<close>

record circular_buffer =
  cb_data :: "byte list"
  cb_seq_initial :: u32
  cb_seq_start :: u32
  cb_seq_end :: u32
  cb_start :: u32
  cb_end :: u32
  cb_count :: u32
  cb_closed :: bool
  cb_maxsize :: u32

definition CHITCP_OK :: int where "CHITCP_OK = 0"
definition CHITCP_ESOCKET :: int where "CHITCP_ESOCKET = -2"
definition CHITCP_EWOULDBLOCK :: int where "CHITCP_EWOULDBLOCK = -6"
definition CHITCP_EINVAL :: int where "CHITCP_EINVAL = -7"

lemmas retcodes = CHITCP_OK_def CHITCP_ESOCKET_def CHITCP_EWOULDBLOCK_def CHITCP_EINVAL_def

text \<open>
  What one call ends in: it returns a code with the new buffer, or it waits (with the buffer as
  it is at the wait, and what is left to do), or it copies outside an array.
\<close>

datatype 'a cb_outcome = Returns int 'a | Blocks 'a u32 | Undefined

section \<open>Operations\<close>

text \<open>\<open>malloc\<close> does not initialise the array: its bytes are the parameter \<open>mem\<close>.\<close>

definition circular_buffer_init :: "byte list \<Rightarrow> u32 \<Rightarrow> circular_buffer" where
  "circular_buffer_init mem maxsize =
     \<lparr>cb_data = mem, cb_seq_initial = 0, cb_seq_start = 0, cb_seq_end = 0, cb_start = 0,
      cb_end = 0, cb_count = 0, cb_closed = False, cb_maxsize = maxsize\<rparr>"

definition circular_buffer_set_seq_initial :: "circular_buffer \<Rightarrow> u32 \<Rightarrow> circular_buffer" where
  "circular_buffer_set_seq_initial buf seq_initial =
     buf\<lparr>cb_seq_initial := seq_initial, cb_seq_start := seq_initial,
         cb_seq_end := seq_initial + cb_end buf\<rparr>"

text \<open>
  \<open>memcpy(dst + off, src + soff, n)\<close>, with the copy refused where it leaves one of the arrays.
\<close>

definition memcpy_chk :: "byte list \<Rightarrow> u32 \<Rightarrow> byte list \<Rightarrow> u32 \<Rightarrow> u32 \<Rightarrow> byte list option" where
  "memcpy_chk dst off src soff n =
     (if unat off + unat n \<le> length dst \<and> unat soff + unat n \<le> length src
      then Some (memput dst (unat off) (take (unat n) (drop (unat soff) src)))
      else None)"

text \<open>
  One pass of the loop of \<open>circular_buffer_write\<close> (lines 98 to 123), after the wait for room:
  the buffer and \<open>written\<close> after it.
\<close>

definition cb_write_chunk ::
  "circular_buffer \<Rightarrow> byte list \<Rightarrow> u32 \<Rightarrow> u32 \<Rightarrow> (circular_buffer \<times> u32) option" where
  "cb_write_chunk buf data len written =
     (let towrite = (if len - written < cb_maxsize buf - cb_count buf then len - written
                     else cb_maxsize buf - cb_count buf);
          copied =
            (if cb_end buf + towrite > cb_maxsize buf then
               (let to_max = cb_maxsize buf - cb_end buf; after_max = towrite - to_max in
                case memcpy_chk (cb_data buf) (cb_end buf) data written to_max of
                  None \<Rightarrow> None
                | Some d \<Rightarrow>
                    (case memcpy_chk d 0 data (written + to_max) after_max of
                       None \<Rightarrow> None
                     | Some d' \<Rightarrow> Some (buf\<lparr>cb_data := d', cb_end := after_max\<rparr>)))
             else
               (case memcpy_chk (cb_data buf) (cb_end buf) data written towrite of
                  None \<Rightarrow> None
                | Some d \<Rightarrow> Some (buf\<lparr>cb_data := d, cb_end := cb_end buf + towrite\<rparr>)))
      in case copied of
           None \<Rightarrow> None
         | Some b \<Rightarrow> Some (b\<lparr>cb_count := cb_count b + towrite, cb_seq_end := cb_seq_end b + towrite\<rparr>,
                           written + towrite))"

function cb_write_loop ::
  "circular_buffer \<Rightarrow> byte list \<Rightarrow> u32 \<Rightarrow> u32 \<Rightarrow> circular_buffer cb_outcome" where
  "cb_write_loop buf data len written =
     (if written < len then
        (if cb_count buf = cb_maxsize buf then Blocks buf written
         else (case cb_write_chunk buf data len written of
                 None \<Rightarrow> Undefined
               | Some (buf', written') \<Rightarrow> cb_write_loop buf' data len written'))
      else Returns (sint written) buf)"
  by pat_completeness auto

lemma word_min_pos:
  fixes a b :: u32
  assumes "0 < a" and "0 < b"
  shows "0 < (if a < b then a else b)"
  using assms by simp

lemma sub_add_less:
  fixes w l t :: u32
  assumes "w < l" and "0 < t" and "t \<le> l - w"
  shows "unat (l - (w + t)) < unat (l - w)"
proof -
  have eq: "l - (w + t) = l - w - t" by (simp add: diff_diff_eq)
  have "unat (l - w - t) = unat (l - w) - unat t"
    using assms(3) by (simp add: unat_sub)
  moreover have "0 < unat t" using assms(2) by (simp add: word_less_nat_alt)
  moreover have "unat t \<le> unat (l - w)" using assms(3) by (simp add: word_le_nat_alt)
  ultimately show ?thesis by (simp only: eq)
qed

lemma cb_write_chunk_written:
  assumes "cb_write_chunk buf data len written = Some (buf', written')"
  shows "written' = written + (if len - written < cb_maxsize buf - cb_count buf then len - written
                     else cb_maxsize buf - cb_count buf)"
  using assms by (auto simp: cb_write_chunk_def Let_def split: option.splits if_splits)

termination cb_write_loop
proof (relation "measure (\<lambda>(buf, data, len, written). unat (len - written))", goal_cases)
  case 1
  show ?case by simp
next
  case (2 buf data len written ch buf' written')
  then have w: "written' = written + (if len - written < cb_maxsize buf - cb_count buf
      then len - written else cb_maxsize buf - cb_count buf)" (is "_ = written + ?t")
    using cb_write_chunk_written by metis
  have "len - written \<noteq> 0" using 2(1) by auto
  moreover have "cb_maxsize buf - cb_count buf \<noteq> 0" using 2(2) by auto
  ultimately have "0 < ?t" by (intro word_min_pos) (auto simp: word_gt_0)
  moreover have "?t \<le> len - written" by auto
  ultimately show ?case using 2(1) w sub_add_less by auto
qed

declare cb_write_loop.simps [simp del]

definition circular_buffer_write ::
  "circular_buffer \<Rightarrow> byte list \<Rightarrow> u32 \<Rightarrow> bool \<Rightarrow> circular_buffer cb_outcome" where
  "circular_buffer_write buf data len blocking =
     (if len \<le> 0 then Returns CHITCP_EINVAL buf
      else if cb_count buf + len > cb_maxsize buf \<and> \<not> blocking then Returns CHITCP_EWOULDBLOCK buf
      else cb_write_loop buf data (if len > cb_maxsize buf then cb_maxsize buf else len) 0)"

text \<open>
  \<open>__circular_buffer_read\<close> after its wait for data: lines 153 to 193. The bytes it copies into
  \<open>dst\<close> (when \<open>dst\<close> is not null) are the second part of the result.
\<close>

definition cb_read_core ::
  "circular_buffer \<Rightarrow> u32 \<Rightarrow> bool \<Rightarrow> (circular_buffer \<times> byte list) cb_outcome" where
  "cb_read_core buf len peeking =
     (let start = cb_start buf;
          toread = (if len < cb_count buf then len else cb_count buf);
          copied =
            (if start + toread > cb_maxsize buf then
               (let to_max = cb_maxsize buf - start; after_max = toread - to_max in
                if unat start + unat to_max \<le> length (cb_data buf)
                   \<and> unat after_max \<le> length (cb_data buf)
                then Some (take (unat to_max) (drop (unat start) (cb_data buf))
                           @ take (unat after_max) (cb_data buf), after_max)
                else None)
             else if unat start + unat toread \<le> length (cb_data buf)
             then Some (take (unat toread) (drop (unat start) (cb_data buf)), start + toread)
             else None)
      in case copied of
           None \<Rightarrow> Undefined
         | Some (dst, start') \<Rightarrow>
             Returns (sint toread)
               (if peeking then buf
                else buf\<lparr>cb_start := start', cb_count := cb_count buf - toread,
                         cb_seq_start := cb_seq_start buf + toread\<rparr>, dst))"

definition cb_read ::
  "circular_buffer \<Rightarrow> u32 \<Rightarrow> bool \<Rightarrow> bool \<Rightarrow> (circular_buffer \<times> byte list) cb_outcome" where
  "cb_read buf len blocking peeking =
     (if len \<le> 0 then Returns CHITCP_EINVAL (buf, [])
      else if cb_count buf = 0 \<and> \<not> blocking then Returns CHITCP_EWOULDBLOCK (buf, [])
      else if cb_count buf = 0 \<and> \<not> cb_closed buf then Blocks (buf, []) 0
      else if cb_closed buf \<and> cb_count buf = 0 then Returns 0 (buf, [])
      else cb_read_core buf len peeking)"

definition circular_buffer_read ::
  "circular_buffer \<Rightarrow> u32 \<Rightarrow> bool \<Rightarrow> (circular_buffer \<times> byte list) cb_outcome" where
  "circular_buffer_read buf len blocking = cb_read buf len blocking False"

definition circular_buffer_peek ::
  "circular_buffer \<Rightarrow> u32 \<Rightarrow> bool \<Rightarrow> (circular_buffer \<times> byte list) cb_outcome" where
  "circular_buffer_peek buf len blocking = cb_read buf len blocking True"

definition circular_buffer_first :: "circular_buffer \<Rightarrow> int" where
  "circular_buffer_first buf = sint (cb_seq_start buf)"

definition circular_buffer_next :: "circular_buffer \<Rightarrow> int" where
  "circular_buffer_next buf = sint (cb_seq_end buf)"

definition circular_buffer_capacity :: "circular_buffer \<Rightarrow> int" where
  "circular_buffer_capacity buf = sint (cb_maxsize buf)"

definition circular_buffer_count :: "circular_buffer \<Rightarrow> int" where
  "circular_buffer_count buf = sint (cb_count buf)"

definition circular_buffer_available :: "circular_buffer \<Rightarrow> int" where
  "circular_buffer_available buf = sint (cb_maxsize buf - cb_count buf)"

definition circular_buffer_close :: "circular_buffer \<Rightarrow> circular_buffer" where
  "circular_buffer_close buf = buf\<lparr>cb_closed := True\<rparr>"

section \<open>Well-formed buffers and their contents\<close>

text \<open>
  The array has \<open>maxsize\<close> bytes (a size that is positive as an \<open>int\<close>), \<open>count\<close> of them from
  \<open>start\<close> on, going round at the end, are the stored bytes, \<open>end\<close> is where the next byte goes,
  and the sequence numbers are as far apart as the stored bytes are many. \<open>start\<close> and \<open>end\<close>
  may be \<open>maxsize\<close> itself: the code only wraps an index that passes it.
\<close>

definition cb_wf :: "circular_buffer \<Rightarrow> bool" where
  "cb_wf b \<longleftrightarrow> length (cb_data b) = unat (cb_maxsize b) \<and> 0 < unat (cb_maxsize b)
     \<and> unat (cb_maxsize b) < 2 ^ 31
     \<and> unat (cb_count b) \<le> unat (cb_maxsize b)
     \<and> unat (cb_start b) \<le> unat (cb_maxsize b)
     \<and> unat (cb_end b) \<le> unat (cb_maxsize b)
     \<and> (unat (cb_start b) + unat (cb_count b)) mod unat (cb_maxsize b)
         = unat (cb_end b) mod unat (cb_maxsize b)"

definition cb_bytes :: "circular_buffer \<Rightarrow> byte list" where
  "cb_bytes b = map (\<lambda>i. cb_data b ! ((unat (cb_start b) + i) mod unat (cb_maxsize b)))
     [0..<unat (cb_count b)]"

lemma length_cb_bytes [simp]: "length (cb_bytes b) = unat (cb_count b)"
  by (simp add: cb_bytes_def)

lemma nth_cb_bytes:
  "i < unat (cb_count b) \<Longrightarrow>
   cb_bytes b ! i = cb_data b ! ((unat (cb_start b) + i) mod unat (cb_maxsize b))"
  by (simp add: cb_bytes_def)

lemma cb_bytes_Nil_iff: "cb_bytes b = [] \<longleftrightarrow> cb_count b = 0"
  by (auto simp: cb_bytes_def unat_eq_0)

text \<open>An index of a ring of size \<open>m\<close> is at most one turn past its start.\<close>

lemma ring_index:
  fixes s i m :: nat
  assumes "s \<le> m" and "i < m"
  shows "(s + i) mod m = (if s + i < m then s + i else s + i - m)"
  using assms by (auto simp: mod_if)

lemma ring_end:
  fixes s c e m :: nat
  assumes "0 < m" "c \<le> m" "s \<le> m" "e \<le> m" and "(s + c) mod m = e mod m"
  shows "s + c = e \<or> s + c = e + m \<or> s + c + m = e \<or> s + c = e + 2 * m"
  using assms by (auto simp: mod_if split: if_splits)

lemma unat_sub_le: "b \<le> a \<Longrightarrow> unat (a - b :: u32) = unat a - unat b"
  by (simp add: unat_sub)

lemma unat_add_lt: "unat (a :: u32) + unat b < 2 ^ 32 \<Longrightarrow> unat (a + b) = unat a + unat b"
  by (simp add: unat_word_ariths)

lemma memcpy_chk_Some:
  "unat off + unat n \<le> length dst \<Longrightarrow> unat soff + unat n \<le> length src \<Longrightarrow>
   memcpy_chk dst off src soff n = Some (memput dst (unat off) (take (unat n) (drop (unat soff) src)))"
  by (simp add: memcpy_chk_def)

text \<open>
  Copying \<open>src\<close> into the ring at \<open>e\<close> in two pieces, over free cells: every cell is either one of
  the new bytes, at its distance from \<open>e\<close>, or unchanged.
\<close>

lemma nth_memput_two:
  assumes "e \<le> length d" "a = length d - e" "a \<le> length src" "length src \<le> length d" "j < length d"
  shows "memput (memput d e (take a src)) 0 (drop a src) ! j =
     (if e \<le> j then src ! (j - e)
      else if j + a < length src then src ! (j + a) else d ! j)"
  using assms by (auto simp: nth_memput min_def add.commute)

lemma ring_append:
  fixes d src :: "'a list"
  assumes m: "0 < m" "c + t \<le> m" "s \<le> m" "e \<le> m" "(s + c) mod m = e mod m"
    and len: "length d = m" "length src = t" and i: "i < c + t"
    and d': "d' = (if e + t > m then memput (memput d e (take (m - e) src)) 0 (drop (m - e) src)
                   else memput d e src)"
  shows "d' ! ((s + i) mod m) = (if i < c then d ! ((s + i) mod m) else src ! (i - c))"
proof -
  have im: "i < m" using m i by simp
  have j: "(s + i) mod m = (if s + i < m then s + i else s + i - m)"
    by (rule ring_index) (use m im in auto)
  have jm: "(s + i) mod m < m" using m by simp
  have sc: "s + c = e \<or> s + c = e + m \<or> s + c + m = e \<or> s + c = e + 2 * m"
    using m by (intro ring_end) auto
  show ?thesis
  proof (cases "e + t > m")
    case True
    then have "d' ! ((s + i) mod m) = (let j = (s + i) mod m in
        if e \<le> j then src ! (j - e) else if j + (m - e) < t then src ! (j + (m - e)) else d ! j)"
      using d' nth_memput_two [of e d "m - e" src "(s + i) mod m"] m len jm by (simp add: Let_def)
    moreover have "(let j = (s + i) mod m in
        if e \<le> j then src ! (j - e) else if j + (m - e) < t then src ! (j + (m - e)) else d ! j)
        = (if i < c then d ! ((s + i) mod m) else src ! (i - c))"
      using sc m i True unfolding Let_def j
      by (auto split: if_splits intro!: arg_cong [where f = "(!) src"])
    ultimately show ?thesis by simp
  next
    case False
    then have "d' ! ((s + i) mod m) = (let j = (s + i) mod m in
        if e \<le> j \<and> j < e + t then src ! (j - e) else d ! j)"
      using d' m len jm by (simp add: nth_memput Let_def)
    moreover have "\<dots> = (if i < c then d ! ((s + i) mod m) else src ! (i - c))"
      using sc m i False unfolding Let_def j
      by (auto split: if_splits intro!: arg_cong [where f = "(!) src"])
    ultimately show ?thesis by simp
  qed
qed

lemma ring_end_next:
  fixes s c e m :: nat
  assumes "0 < m" "c + t \<le> m" "s \<le> m" "e \<le> m" "(s + c) mod m = e mod m"
  shows "(s + (c + t)) mod m = (if e + t > m then t - (m - e) else e + t) mod m"
proof -
  have "(s + (c + t)) mod m = ((s + c) mod m + t) mod m"
    by (simp add: mod_simps add.assoc)
  also have "\<dots> = (e + t) mod m" by (simp add: assms(5) mod_simps)
  also have "\<dots> = (if e + t > m then t - (m - e) else e + t) mod m"
  proof (cases "e + t > m")
    case True
    then have "t - (m - e) = e + t - m" using assms by simp
    with True show ?thesis by (simp add: le_mod_geq)
  qed simp
  finally show ?thesis .
qed

text \<open>What a pass of the write loop copies, where it puts it and where the end index goes.\<close>

definition chunk_len :: "circular_buffer \<Rightarrow> u32 \<Rightarrow> u32 \<Rightarrow> nat" where
  "chunk_len b len written = min (unat len - unat written) (unat (cb_maxsize b) - unat (cb_count b))"

definition put_data :: "circular_buffer \<Rightarrow> byte list \<Rightarrow> byte list" where
  "put_data b src =
     (let m = unat (cb_maxsize b); e = unat (cb_end b) in
      if e + length src > m
      then memput (memput (cb_data b) e (take (m - e) src)) 0 (drop (m - e) src)
      else memput (cb_data b) e src)"

definition put_end :: "circular_buffer \<Rightarrow> nat \<Rightarrow> nat" where
  "put_end b t =
     (let m = unat (cb_maxsize b); e = unat (cb_end b) in
      if e + t > m then t - (m - e) else e + t)"

lemma cb_write_chunk_eq:
  assumes wf: "cb_wf b" and w: "written < len" and len: "unat len \<le> length data"
  defines "t \<equiv> chunk_len b len written"
  defines "src \<equiv> take t (drop (unat written) data)"
  shows "cb_write_chunk b data len written =
    Some (b\<lparr>cb_data := put_data b src, cb_end := of_nat (put_end b t),
            cb_count := cb_count b + of_nat t, cb_seq_end := cb_seq_end b + of_nat t\<rparr>,
          written + of_nat t)"
proof -
  let ?m = "cb_maxsize b" and ?e = "cb_end b" and ?c = "cb_count b"
  have m: "unat ?m < 2 ^ 31" and c: "unat ?c \<le> unat ?m" and e: "unat ?e \<le> unat ?m"
    and ld: "length (cb_data b) = unat ?m"
    using wf by (auto simp: cb_wf_def)
  let ?t = "if len - written < ?m - ?c then len - written else ?m - ?c"
  have lw: "unat (len - written) = unat len - unat written" using w by (simp add: unat_sub)
  have mc: "unat (?m - ?c) = unat ?m - unat ?c" using c by (simp add: unat_sub word_le_nat_alt)
  have t: "unat ?t = t" using lw mc by (simp add: t_def chunk_len_def word_less_nat_alt)
  then have tw: "?t = of_nat t" by (rule unat_eq_of_nat)
  have tm: "t \<le> unat ?m" by (simp add: t_def chunk_len_def)
  have ut: "unat (of_nat t :: u32) = t" using t tw by simp
  have lsrc: "length src = t"
    using len w by (simp add: src_def t_def chunk_len_def word_less_nat_alt)
  have et: "unat (?e + of_nat t) = unat ?e + t"
    using m e tm ut by (subst unat_add_lt) auto
  have me: "unat (?m - ?e) = unat ?m - unat ?e" using e by (simp add: unat_sub word_le_nat_alt)
  have wt: "unat written + t \<le> length data"
    using len w by (simp add: t_def chunk_len_def word_less_nat_alt)
  have wl: "unat written + t \<le> unat len"
    using w by (simp add: t_def chunk_len_def word_less_nat_alt)
  show ?thesis
  proof (cases "unat ?e + t > unat ?m")
    case True
    let ?a = "unat ?m - unat ?e"
    have ua: "unat (of_nat t - (?m - ?e)) = t - ?a"
      using True e ut me by (subst unat_sub_le) (auto simp: word_le_nat_alt)
    have uw: "unat (written + (?m - ?e)) = unat written + ?a"
      using True e wl me unat_u32_less [of len] by (subst unat_add_lt) auto
    have c1: "memcpy_chk (cb_data b) ?e data written (?m - ?e)
        = Some (memput (cb_data b) (unat ?e) (take ?a src))"
      using True e wt me ld
      by (subst memcpy_chk_Some) (auto simp: src_def min_def)
    have dd: "drop ?a src = take (t - ?a) (drop (unat written + ?a) data)"
      by (simp add: src_def drop_take add.commute)
    have c2: "memcpy_chk (memput (cb_data b) (unat ?e) (take ?a src)) 0 data
          (written + (?m - ?e)) (of_nat t - (?m - ?e))
        = Some (put_data b src)"
      using True e wt me ld ua uw lsrc tm
      by (subst memcpy_chk_Some) (auto simp: put_data_def Let_def dd)
    have pe: "of_nat (put_end b t) = (of_nat t :: u32) - (?m - ?e)"
      using True unat_eq_of_nat [OF ua] by (simp add: put_end_def)
    have big: "?m < ?e + of_nat t" using True et by (simp add: word_less_nat_alt)
    show ?thesis
      unfolding cb_write_chunk_def tw Let_def using big c1 c2 pe by simp
  next
    case False
    have small: "\<not> ?m < ?e + of_nat t" using False et by (simp add: word_less_nat_alt)
    have "memcpy_chk (cb_data b) ?e data written (of_nat t) = Some (put_data b src)"
      using False wt ut ld lsrc by (simp add: memcpy_chk_def put_data_def Let_def src_def)
    moreover have "of_nat (put_end b t) = ?e + of_nat t" using False by (simp add: put_end_def)
    ultimately show ?thesis
      unfolding cb_write_chunk_def tw Let_def using small by simp
  qed
qed

lemma cb_write_chunk_spec:
  assumes wf: "cb_wf b" and w: "written < len" and len: "unat len \<le> length data"
  defines "t \<equiv> chunk_len b len written"
  shows "\<exists>b'. cb_write_chunk b data len written = Some (b', written + of_nat t) \<and> cb_wf b'
     \<and> cb_bytes b' = cb_bytes b @ take t (drop (unat written) data)
     \<and> unat (cb_count b') = unat (cb_count b) + t
     \<and> cb_maxsize b' = cb_maxsize b \<and> cb_seq_start b' = cb_seq_start b
     \<and> cb_seq_end b' = cb_seq_end b + of_nat t
     \<and> cb_seq_initial b' = cb_seq_initial b \<and> cb_closed b' = cb_closed b"
proof -
  let ?src = "take t (drop (unat written) data)"
  let ?b = "b\<lparr>cb_data := put_data b ?src, cb_end := of_nat (put_end b t),
            cb_count := cb_count b + of_nat t, cb_seq_end := cb_seq_end b + of_nat t\<rparr>"
  let ?m = "unat (cb_maxsize b)" and ?s = "unat (cb_start b)" and ?c = "unat (cb_count b)"
    and ?e = "unat (cb_end b)"
  have m: "0 < ?m" "?m < 2 ^ 31" and bnd: "?c \<le> ?m" "?s \<le> ?m" "?e \<le> ?m"
    and mode: "(?s + ?c) mod ?m = ?e mod ?m" and ld: "length (cb_data b) = ?m"
    using wf by (auto simp: cb_wf_def)
  have ct: "?c + t \<le> ?m" using bnd by (simp add: t_def chunk_len_def)
  have lsrc: "length ?src = t"
    using len w by (simp add: t_def chunk_len_def word_less_nat_alt)
  have ut: "unat (of_nat t :: u32) = t" using ct m by (simp add: unat_of_nat)
  have uc: "unat (cb_count ?b) = ?c + t"
    using ct m ut by (simp add: unat_add_lt)
  have pe: "put_end b t \<le> ?m" using ct bnd by (auto simp: put_end_def Let_def)
  then have ue: "unat (cb_end ?b) = put_end b t" using m by (simp add: unat_of_nat)
  have ring: "(?s + (?c + t)) mod ?m = put_end b t mod ?m"
    using ring_end_next [OF m(1) ct bnd(2,3) mode] by (simp add: put_end_def Let_def)
  have lp: "length (put_data b ?src) = ?m"
    using bnd ct ld lsrc by (auto simp: put_data_def Let_def)
  have wf': "cb_wf ?b"
    using m bnd ct lp uc ue pe ring by (simp add: cb_wf_def)
  have "cb_bytes ?b = cb_bytes b @ ?src"
  proof (rule nth_equalityI)
    show "length (cb_bytes ?b) = length (cb_bytes b @ ?src)" using uc lsrc by simp
  next
    fix i assume "i < length (cb_bytes ?b)"
    then have i: "i < ?c + t" using uc by simp
    have "cb_bytes ?b ! i = put_data b ?src ! ((?s + i) mod ?m)"
      using i uc by (simp add: nth_cb_bytes)
    also have "\<dots> = (if i < ?c then cb_data b ! ((?s + i) mod ?m) else ?src ! (i - ?c))"
      by (rule ring_append [OF m(1) ct bnd(2,3) mode ld lsrc i])
        (simp add: put_data_def Let_def lsrc)
    also have "\<dots> = (cb_bytes b @ ?src) ! i"
      by (simp add: nth_append nth_cb_bytes)
    finally show "cb_bytes ?b ! i = (cb_bytes b @ ?src) ! i" .
  qed
  with wf' uc show ?thesis
    using cb_write_chunk_eq [OF wf w len] by (simp add: t_def)
qed

text \<open>The whole write, in a program of one thread.\<close>

lemma cb_write_loop_step:
  "written < len \<Longrightarrow> cb_count b \<noteq> cb_maxsize b \<Longrightarrow>
   cb_write_chunk b data len written = Some (b', w') \<Longrightarrow>
   cb_write_loop b data len written = cb_write_loop b' data len w'"
  by (subst cb_write_loop.simps) simp

lemma cb_write_loop_fits:
  assumes wf: "cb_wf b" and len: "unat len \<le> length data" "0 < unat len"
    and fits: "unat (cb_count b) + unat len \<le> unat (cb_maxsize b)"
  shows "\<exists>b'. cb_write_loop b data len 0 = Returns (sint len) b' \<and> cb_wf b'
     \<and> cb_bytes b' = cb_bytes b @ take (unat len) data
     \<and> cb_maxsize b' = cb_maxsize b \<and> cb_seq_start b' = cb_seq_start b
     \<and> cb_seq_initial b' = cb_seq_initial b \<and> cb_closed b' = cb_closed b"
proof -
  have w: "0 < len" using len by (simp add: word_less_nat_alt)
  have t: "chunk_len b len 0 = unat len" using fits by (simp add: chunk_len_def)
  have nf: "cb_count b \<noteq> cb_maxsize b" using fits len by auto
  obtain b' where b': "cb_write_chunk b data len 0 = Some (b', len)" "cb_wf b'"
      "cb_bytes b' = cb_bytes b @ take (unat len) data"
      "cb_maxsize b' = cb_maxsize b" "cb_seq_start b' = cb_seq_start b"
      "cb_seq_initial b' = cb_seq_initial b" "cb_closed b' = cb_closed b"
    using cb_write_chunk_spec [OF wf w len(1)] t by auto
  have "cb_write_loop b data len 0 = Returns (sint len) b'"
    using cb_write_loop_step [OF w nf b'(1)] by (subst (asm) (2) cb_write_loop.simps) simp
  with b' show ?thesis by auto
qed

lemma cb_write_loop_full:
  assumes wf: "cb_wf b" and len: "unat len \<le> length data"
    and over: "unat (cb_maxsize b) < unat (cb_count b) + unat len"
  defines "t \<equiv> unat (cb_maxsize b) - unat (cb_count b)"
  shows "\<exists>b'. cb_write_loop b data len 0 = Blocks b' (of_nat t) \<and> cb_wf b'
     \<and> cb_bytes b' = cb_bytes b @ take t data \<and> cb_count b' = cb_maxsize b'"
proof -
  have cm: "unat (cb_count b) \<le> unat (cb_maxsize b)" using wf by (simp add: cb_wf_def)
  have w: "0 < len" using over cm by (simp add: word_less_nat_alt)
  have t: "chunk_len b len 0 = t" using over by (simp add: chunk_len_def t_def)
  obtain b' where b': "cb_write_chunk b data len 0 = Some (b', of_nat t)" "cb_wf b'"
      "cb_bytes b' = cb_bytes b @ take t data" "unat (cb_count b') = unat (cb_count b) + t"
      "cb_maxsize b' = cb_maxsize b"
    using cb_write_chunk_spec [OF wf w len] t by auto
  have full: "cb_count b' = cb_maxsize b'"
    using b' cm by (simp add: t_def word_unat_eq_iff)
  have tl: "(of_nat t :: u32) < len"
  proof -
    have "t < 4294967296" using unat_u32_less [of "cb_maxsize b"] by (simp add: t_def)
    then have "unat (of_nat t :: u32) = t" by (simp add: unat_of_nat)
    moreover have "t < unat len" using over cm by (simp add: t_def)
    ultimately show ?thesis by (simp add: word_less_nat_alt)
  qed
  show ?thesis
  proof (cases "cb_count b = cb_maxsize b")
    case True
    then have "cb_write_loop b data len 0 = Blocks b (of_nat t)"
      using w by (subst cb_write_loop.simps) (simp add: t_def)
    with True wf show ?thesis by (auto simp: t_def)
  next
    case False
    then have "cb_write_loop b data len 0 = Blocks b' (of_nat t)"
      using cb_write_loop_step [OF w False b'(1)] full tl
      by (subst (asm) (2) cb_write_loop.simps) simp
    with b' full show ?thesis by auto
  qed
qed


text \<open>The copy of a read, from the position of the first byte and around the end of the array.\<close>

lemma cb_read_core_spec:
  assumes wf: "cb_wf b" and n: "n = min (unat len) (unat (cb_count b))"
  shows "\<exists>b'. cb_read_core b len peeking
       = Returns (int n) (if peeking then b else b', take n (cb_bytes b))
     \<and> cb_wf b' \<and> cb_bytes b' = drop n (cb_bytes b)
     \<and> cb_maxsize b' = cb_maxsize b \<and> cb_seq_end b' = cb_seq_end b
     \<and> cb_seq_start b' = cb_seq_start b + of_nat n \<and> cb_closed b' = cb_closed b
     \<and> cb_seq_initial b' = cb_seq_initial b"
proof -
  let ?m = "unat (cb_maxsize b)" and ?s = "unat (cb_start b)" and ?c = "unat (cb_count b)"
  have m: "0 < ?m" "?m < 2 ^ 31" and bnd: "?c \<le> ?m" "?s \<le> ?m" "unat (cb_end b) \<le> ?m"
    and mode: "(?s + ?c) mod ?m = unat (cb_end b) mod ?m" and ld: "length (cb_data b) = ?m"
    using wf by (auto simp: cb_wf_def)
  let ?r = "if len < cb_count b then len else cb_count b"
  have ur: "unat ?r = n" by (simp add: n word_less_nat_alt)
  then have rw: "?r = of_nat n" by (rule unat_eq_of_nat)
  have nc: "n \<le> ?c" by (simp add: n)
  have un: "unat (of_nat n :: u32) = n" using ur rw by simp
  have sn: "sint (of_nat n :: u32) = int n"
    using nc bnd m un by (simp add: sint_u32_small)
  have es: "unat (cb_start b + of_nat n) = ?s + n"
    using m bnd nc un by (subst unat_add_lt) auto
  have ms: "unat (cb_maxsize b - cb_start b) = ?m - ?s"
    using bnd by (simp add: unat_sub_le word_le_nat_alt)
  define st where "st = (if ?s + n > ?m then n - (?m - ?s) else ?s + n)"
  define b' where "b' = b\<lparr>cb_start := of_nat st, cb_count := cb_count b - of_nat n,
                         cb_seq_start := cb_seq_start b + of_nat n\<rparr>"
  have st: "st \<le> ?m" using nc bnd by (auto simp: st_def)
  have dst: "take n (cb_bytes b) = (if ?s + n > ?m
      then take (?m - ?s) (drop ?s (cb_data b)) @ take (n - (?m - ?s)) (cb_data b)
      else take n (drop ?s (cb_data b)))" (is "_ = ?dst")
  proof (rule nth_equalityI)
    show "length (take n (cb_bytes b)) = length ?dst" using nc bnd ld by auto
  next
    fix i assume i: "i < length (take n (cb_bytes b))"
    then have im: "i < ?m" "i < n" "i < ?c" using bnd nc by auto
    then have "take n (cb_bytes b) ! i = cb_data b ! (if ?s + i < ?m then ?s + i else ?s + i - ?m)"
      by (simp add: nth_cb_bytes ring_index [OF bnd(2) im(1)])
    also have "\<dots> = ?dst ! i"
      using im bnd ld by (auto simp: nth_append intro!: arg_cong [where f = "(!) (cb_data b)"])
    finally show "take n (cb_bytes b) ! i = ?dst ! i" .
  qed
  have uc: "unat (cb_count b - of_nat n) = ?c - n"
    using nc un by (simp add: unat_sub_le word_le_nat_alt)
  have us: "unat (of_nat st :: u32) = st" using st m by (simp add: unat_of_nat)
  have shift: "(st + i) mod ?m = (?s + (n + i)) mod ?m" for i
  proof (cases "?s + n > ?m")
    case True
    then have "?s + (n + i) = (st + i) + ?m" using bnd by (simp add: st_def)
    then show ?thesis by (simp only: mod_add_self2)
  qed (simp add: st_def add.assoc)
  have wf': "cb_wf b'"
    using m bnd ld uc us st nc shift [of "?c - n"] mode by (simp add: cb_wf_def b'_def)
  have bytes: "cb_bytes b' = drop n (cb_bytes b)"
  proof (rule nth_equalityI)
    show "length (cb_bytes b') = length (drop n (cb_bytes b))" using uc by (simp add: b'_def)
  next
    fix i assume i: "i < length (cb_bytes b')"
    then have "i < ?c - n" using uc by (simp add: b'_def)
    then show "cb_bytes b' ! i = drop n (cb_bytes b) ! i"
      using uc us shift [of i] by (simp add: nth_cb_bytes b'_def)
  qed
  have core: "cb_read_core b len peeking
       = Returns (int n) (if peeking then b else b', take n (cb_bytes b))"
  proof (cases "?s + n > ?m")
    case True
    have big: "cb_maxsize b < cb_start b + of_nat n" using True es by (simp add: word_less_nat_alt)
    have am: "unat (of_nat n - (cb_maxsize b - cb_start b)) = n - (?m - ?s)"
      using True ms un by (subst unat_sub_le) (auto simp: word_le_nat_alt)
    have stw: "of_nat st = of_nat n - (cb_maxsize b - cb_start b)"
      using True unat_eq_of_nat [OF am] by (simp add: st_def)
    show ?thesis
      unfolding cb_read_core_def rw Let_def
      using big am ms ld bnd nc True sn dst by (simp add: b'_def stw)
  next
    case False
    have small: "\<not> cb_maxsize b < cb_start b + of_nat n"
      using False es by (simp add: word_less_nat_alt)
    show ?thesis
      unfolding cb_read_core_def rw Let_def
      using small un ld bnd nc False sn dst by (simp add: b'_def st_def)
  qed
  show ?thesis
    by (intro exI [of _ b'] conjI) (use core wf' bytes in \<open>simp_all add: b'_def\<close>)
qed

section \<open>Invariant\<close>

lemma cb_wf_init:
  "0 < unat maxsize \<Longrightarrow> unat maxsize < 2 ^ 31 \<Longrightarrow> length mem = unat maxsize \<Longrightarrow>
   cb_wf (circular_buffer_init mem maxsize)"
  by (simp add: cb_wf_def circular_buffer_init_def)

lemma cb_bytes_init [simp]: "cb_bytes (circular_buffer_init mem maxsize) = []"
  by (simp add: cb_bytes_def circular_buffer_init_def)

lemma cb_wf_close [simp]: "cb_wf (circular_buffer_close b) = cb_wf b"
  by (simp add: cb_wf_def circular_buffer_close_def)

lemma cb_bytes_close [simp]: "cb_bytes (circular_buffer_close b) = cb_bytes b"
  by (simp add: cb_bytes_def circular_buffer_close_def)

section \<open>Any number of writers and readers\<close>

text \<open>
  The buffer with the calls of \<open>circular_buffer_write\<close> that are under way (their data, the
  clamped length and \<open>written\<close>), and two ghost histories: the bytes copied in and the bytes read
  out, each in the order of the steps. A step is what a thread does between taking the mutex and
  releasing or waiting.
\<close>

record cb_sys =
  sys_buf :: circular_buffer
  sys_writers :: "(byte list \<times> u32 \<times> u32) list"
  sys_in :: "byte list"
  sys_out :: "byte list"

inductive cb_step :: "cb_sys \<Rightarrow> cb_sys \<Rightarrow> bool" where
  write_call:
    "0 < len \<Longrightarrow> unat len \<le> length data \<Longrightarrow>
     \<not> (cb_count (sys_buf s) + len > cb_maxsize (sys_buf s) \<and> \<not> blocking) \<Longrightarrow>
     cb_step s (s\<lparr>sys_writers := sys_writers s @
       [(data, if len > cb_maxsize (sys_buf s) then cb_maxsize (sys_buf s) else len, 0)]\<rparr>)"
| write_pass:
    "i < length (sys_writers s) \<Longrightarrow> sys_writers s ! i = (data, len, written) \<Longrightarrow>
     written < len \<Longrightarrow> cb_count (sys_buf s) \<noteq> cb_maxsize (sys_buf s) \<Longrightarrow>
     cb_write_chunk (sys_buf s) data len written = Some (b', written') \<Longrightarrow>
     cb_step s (s\<lparr>sys_buf := b', sys_writers := (sys_writers s)[i := (data, len, written')],
                  sys_in := sys_in s @ take (unat (written' - written)) (drop (unat written) data)\<rparr>)"
| write_return:
    "i < length (sys_writers s) \<Longrightarrow> sys_writers s ! i = (data, len, written) \<Longrightarrow>
     \<not> written < len \<Longrightarrow>
     cb_step s (s\<lparr>sys_writers := take i (sys_writers s) @ drop (Suc i) (sys_writers s)\<rparr>)"
| read_call:
    "circular_buffer_read (sys_buf s) len blocking = Returns r (b', dst) \<Longrightarrow>
     cb_step s (s\<lparr>sys_buf := b', sys_out := sys_out s @ dst\<rparr>)"
| peek_call:
    "circular_buffer_peek (sys_buf s) len blocking = Returns r (b', dst) \<Longrightarrow>
     cb_step s (s\<lparr>sys_buf := b'\<rparr>)"
| close_call:
    "cb_step s (s\<lparr>sys_buf := circular_buffer_close (sys_buf s)\<rparr>)"

inductive cb_reachable :: "u32 \<Rightarrow> cb_sys \<Rightarrow> bool" for maxsize where
  cb_start: "length mem = unat maxsize \<Longrightarrow>
     cb_reachable maxsize \<lparr>sys_buf = circular_buffer_init mem maxsize, sys_writers = [],
                           sys_in = [], sys_out = []\<rparr>"
| cb_next: "cb_reachable maxsize s \<Longrightarrow> cb_step s s' \<Longrightarrow> cb_reachable maxsize s'"

definition cb_sys_inv :: "u32 \<Rightarrow> cb_sys \<Rightarrow> bool" where
  "cb_sys_inv maxsize s \<longleftrightarrow> cb_wf (sys_buf s) \<and> cb_maxsize (sys_buf s) = maxsize
     \<and> sys_in s = sys_out s @ cb_bytes (sys_buf s)
     \<and> cb_seq_start (sys_buf s) = of_nat (length (sys_out s))
     \<and> cb_seq_end (sys_buf s) = of_nat (length (sys_in s))
     \<and> (\<forall>(data, len, written) \<in> set (sys_writers s). unat len \<le> length data)"

lemma cb_read_cases:
  assumes "cb_wf b" and "cb_read b len blocking peeking = Returns r (b', dst)"
  shows "(b' = b \<and> dst = [] \<and> cb_bytes b = [] \<or> b' = b \<and> len = 0 \<and> dst = [])
     \<or> (0 < len \<and> dst = take (min (unat len) (length (cb_bytes b))) (cb_bytes b)
        \<and> r = int (length dst) \<and> cb_wf b' \<and> cb_maxsize b' = cb_maxsize b
        \<and> cb_seq_end b' = cb_seq_end b
        \<and> (if peeking then b' = b
           else cb_bytes b' = drop (length dst) (cb_bytes b)
                \<and> cb_seq_start b' = cb_seq_start b + of_nat (length dst)))"
proof (cases "len = 0 \<or> cb_count b = 0")
  case True
  then show ?thesis using assms(2)
    by (auto simp: cb_read_def cb_bytes_def cb_read_core_def word_neq_0_conv [symmetric] split: if_splits)
next
  case False
  let ?n = "min (unat len) (unat (cb_count b))"
  have "cb_read b len blocking peeking = cb_read_core b len peeking"
    using False by (simp add: cb_read_def)
  then have c: "cb_read_core b len peeking = Returns r (b', dst)" using assms(2) by simp
  obtain c' where "cb_read_core b len peeking
       = Returns (int ?n) (if peeking then b else c', take ?n (cb_bytes b))"
     "cb_wf c'" "cb_bytes c' = drop ?n (cb_bytes b)" "cb_maxsize c' = cb_maxsize b"
     "cb_seq_start c' = cb_seq_start b + of_nat ?n" "cb_seq_end c' = cb_seq_end b"
    using cb_read_core_spec [OF assms(1) refl] by blast
  with c False show ?thesis
    using assms(1) by (auto simp: word_neq_0_conv split: if_splits)
qed

lemma cb_step_inv:
  assumes "cb_step s s'" and "cb_sys_inv maxsize s"
  shows "cb_sys_inv maxsize s'"
  using assms
proof (cases rule: cb_step.cases)
  case (write_call len data blocking)
  then show ?thesis using assms(2)
    by (auto simp: cb_sys_inv_def word_less_nat_alt)
next
  case (write_pass i data len written b' written')
  have inv: "cb_wf (sys_buf s)" "cb_maxsize (sys_buf s) = maxsize"
    "sys_in s = sys_out s @ cb_bytes (sys_buf s)"
    "cb_seq_start (sys_buf s) = of_nat (length (sys_out s))"
    "cb_seq_end (sys_buf s) = of_nat (length (sys_in s))"
    and ws: "\<forall>(data, len, written) \<in> set (sys_writers s). unat len \<le> length data"
    using assms(2) by (auto simp: cb_sys_inv_def)
  have len: "unat len \<le> length data"
    using ws write_pass(2,3) by (metis (no_types, lifting) case_prodD nth_mem)
  let ?t = "chunk_len (sys_buf s) len written"
  have b': "written' = written + of_nat ?t" "cb_wf b'"
    "cb_bytes b' = cb_bytes (sys_buf s) @ take ?t (drop (unat written) data)"
    "cb_maxsize b' = cb_maxsize (sys_buf s)" "cb_seq_start b' = cb_seq_start (sys_buf s)"
    "cb_seq_end b' = cb_seq_end (sys_buf s) + of_nat ?t"
    using cb_write_chunk_spec [OF inv(1) write_pass(4) len] write_pass(6) by auto
  have lt: "min (length data - unat written) ?t = ?t" using len by (simp add: chunk_len_def)
  have "?t \<le> unat len" by (simp add: chunk_len_def)
  then have "?t < 4294967296" using unat_u32_less [of len] by simp
  then have "unat (written' - written) = ?t" using b'(1) by (simp add: unat_of_nat)
  moreover have "\<forall>(data, len, written) \<in> set ((sys_writers s)[i := (data, len, written')]).
      unat len \<le> length data"
    using ws len set_update_subset_insert [of "sys_writers s" i "(data, len, written')"] by auto
  ultimately show ?thesis using inv b' lt write_pass(1) by (simp add: cb_sys_inv_def)
next
  case (write_return i data len written)
  then show ?thesis using assms(2)
    by (auto simp: cb_sys_inv_def dest: in_set_takeD in_set_dropD)
next
  case (read_call len blocking r b' dst)
  have inv: "cb_wf (sys_buf s)" using assms(2) by (simp add: cb_sys_inv_def)
  show ?thesis
    using cb_read_cases [OF inv read_call(2) [unfolded circular_buffer_read_def]]
      assms(2) read_call(1)
    by (auto simp: cb_sys_inv_def cb_bytes_Nil_iff)
next
  case (peek_call len blocking r b' dst)
  have inv: "cb_wf (sys_buf s)" using assms(2) by (simp add: cb_sys_inv_def)
  show ?thesis
    using cb_read_cases [OF inv peek_call(2) [unfolded circular_buffer_peek_def]]
      assms(2) peek_call(1)
    by (auto simp: cb_sys_inv_def cb_bytes_Nil_iff)
next
  case close_call
  then show ?thesis using assms(2)
    by (simp add: cb_sys_inv_def) (simp add: circular_buffer_close_def)
qed

lemma cb_reachable_inv:
  assumes "cb_reachable maxsize s" "0 < unat maxsize" "unat maxsize < 2 ^ 31"
  shows "cb_sys_inv maxsize s"
  using assms
proof (induction rule: cb_reachable.induct)
  case (cb_start mem)
  then show ?case
    by (simp add: cb_sys_inv_def cb_wf_init) (simp add: circular_buffer_init_def)
next
  case (cb_next s s')
  then show ?case using cb_step_inv by blast
qed

section \<open>The interface its clients use\<close>

text \<open>
  What the clients of the buffer in chitcpd rely on: non-blocking writes and reads of a bounded
  queue of bytes. \<open>put\<close> and \<open>get\<close> return the code the C function returns.
\<close>

locale byte_queue =
  fixes ok :: "'b \<Rightarrow> bool"
    and contents :: "'b \<Rightarrow> byte list"
    and cap :: "'b \<Rightarrow> nat"
    and put :: "'b \<Rightarrow> byte list \<Rightarrow> int \<times> 'b"
    and get :: "'b \<Rightarrow> nat \<Rightarrow> int \<times> 'b \<times> byte list"
  assumes bounded: "ok b \<Longrightarrow> length (contents b) \<le> cap b"
    and put_fits: "ok b \<Longrightarrow> bs \<noteq> [] \<Longrightarrow> length (contents b) + length bs \<le> cap b \<Longrightarrow>
      \<exists>b'. put b bs = (int (length bs), b') \<and> ok b' \<and> contents b' = contents b @ bs
        \<and> cap b' = cap b"
    and put_refused: "ok b \<Longrightarrow> bs \<noteq> [] \<Longrightarrow> length bs < 2 ^ 31 \<Longrightarrow>
      cap b < length (contents b) + length bs \<Longrightarrow> put b bs = (CHITCP_EWOULDBLOCK, b)"
    and get_some: "ok b \<Longrightarrow> 0 < n \<Longrightarrow> n < 2 ^ 32 \<Longrightarrow> contents b \<noteq> [] \<Longrightarrow>
      \<exists>b'. get b n = (int (min n (length (contents b))), b', take n (contents b)) \<and> ok b'
        \<and> contents b' = drop n (contents b) \<and> cap b' = cap b"
    and get_empty: "ok b \<Longrightarrow> 0 < n \<Longrightarrow> n < 2 ^ 32 \<Longrightarrow> contents b = [] \<Longrightarrow>
      get b n = (CHITCP_EWOULDBLOCK, b, [])"

datatype queue_op = Put "byte list" | Get nat

definition op_ok :: "queue_op \<Rightarrow> bool" where
  "op_ok p = (case p of Put bs \<Rightarrow> bs \<noteq> [] \<and> length bs < 2 ^ 31 | Get n \<Rightarrow> 0 < n \<and> n < 2 ^ 32)"

fun run_queue ::
  "('b \<Rightarrow> byte list \<Rightarrow> int \<times> 'b) \<Rightarrow> ('b \<Rightarrow> nat \<Rightarrow> int \<times> 'b \<times> byte list) \<Rightarrow>
   queue_op list \<Rightarrow> 'b \<Rightarrow> (int \<times> byte list) list \<times> 'b" where
  "run_queue put get [] b = ([], b)"
| "run_queue put get (Put bs # ps) b =
     (let (r, b') = put b bs; (rs, b'') = run_queue put get ps b' in ((r, []) # rs, b''))"
| "run_queue put get (Get n # ps) b =
     (let (r, b', dst) = get b n; (rs, b'') = run_queue put get ps b' in ((r, dst) # rs, b''))"

text \<open>The abstract queue: a list of at most \<open>m\<close> bytes.\<close>

definition list_put :: "nat \<Rightarrow> byte list \<Rightarrow> byte list \<Rightarrow> int \<times> byte list" where
  "list_put m q bs =
     (if length q + length bs \<le> m then (int (length bs), q @ bs) else (CHITCP_EWOULDBLOCK, q))"

definition list_get :: "byte list \<Rightarrow> nat \<Rightarrow> int \<times> byte list \<times> byte list" where
  "list_get q n =
     (if q = [] then (CHITCP_EWOULDBLOCK, q, [])
      else (int (min n (length q)), drop n q, take n q))"

context byte_queue
begin

lemma put_list_put:
  assumes "ok b" "bs \<noteq> []" "length bs < 2 ^ 31" "put b bs = (r, b')"
  shows "list_put (cap b) (contents b) bs = (r, contents b') \<and> ok b' \<and> cap b' = cap b"
proof (cases "length (contents b) + length bs \<le> cap b")
  case True
  then show ?thesis using put_fits [OF assms(1,2) True] assms by (auto simp: list_put_def)
next
  case False
  then show ?thesis using put_refused [OF assms(1-3)] assms by (auto simp: list_put_def)
qed

lemma get_list_get:
  assumes "ok b" "0 < n" "n < 2 ^ 32" "get b n = (r, b', dst)"
  shows "list_get (contents b) n = (r, contents b', dst) \<and> ok b' \<and> cap b' = cap b"
proof (cases "contents b = []")
  case True
  then show ?thesis using get_empty [OF assms(1-3) True] assms by (auto simp: list_get_def)
next
  case False
  then show ?thesis using get_some [OF assms(1-3) False] assms by (auto simp: list_get_def)
qed

lemma run_refines:
  assumes "ok b" and "list_all op_ok ps" and "run_queue put get ps b = (rs, b')"
  shows "run_queue (list_put (cap b)) list_get ps (contents b) = (rs, contents b')
    \<and> ok b' \<and> cap b' = cap b"
  using assms
proof (induction ps arbitrary: b rs)
  case Nil
  then show ?case by simp
next
  case (Cons p ps)
  show ?case
  proof (cases p)
    case (Put bs)
    obtain r1 b1 where p1: "put b bs = (r1, b1)" by force
    obtain rs1 b2 where p2: "run_queue put get ps b1 = (rs1, b2)" by force
    then have "b2 = b'" using Cons.prems(3) Put p1 by auto
    with p2 have p2: "run_queue put get ps b1 = (rs1, b')" by simp
    have b1: "list_put (cap b) (contents b) bs = (r1, contents b1)" "ok b1" "cap b1 = cap b"
      using put_list_put [OF Cons.prems(1) _ _ p1] Cons.prems(2) Put by (auto simp: op_ok_def)
    show ?thesis
      using Cons.IH [of b1 rs1] b1(2) p2 Cons.prems Put p1 p2 b1 by auto
  next
    case (Get n)
    obtain r1 b1 d where p1: "get b n = (r1, b1, d)" by (cases "get b n") auto
    obtain rs1 b2 where p2: "run_queue put get ps b1 = (rs1, b2)" by force
    then have "b2 = b'" using Cons.prems(3) Get p1 by auto
    with p2 have p2: "run_queue put get ps b1 = (rs1, b')" by simp
    have b1: "list_get (contents b) n = (r1, contents b1, d)" "ok b1" "cap b1 = cap b"
      using get_list_get [OF Cons.prems(1) _ _ p1] Cons.prems(2) Get by (auto simp: op_ok_def)
    show ?thesis
      using Cons.IH [of b1 rs1] b1(2) p2 Cons.prems Get p1 p2 b1 by auto
  qed
qed

end

text \<open>The buffer's non-blocking calls, as the client sees them.\<close>

definition nb_write :: "circular_buffer \<Rightarrow> byte list \<Rightarrow> int \<times> circular_buffer" where
  "nb_write b bs =
     (case circular_buffer_write b bs (of_nat (length bs)) False of
        Returns r b' \<Rightarrow> (r, b')
      | _ \<Rightarrow> (CHITCP_EINVAL, b))"

definition nb_read :: "circular_buffer \<Rightarrow> nat \<Rightarrow> int \<times> circular_buffer \<times> byte list" where
  "nb_read b n =
     (case circular_buffer_read b (of_nat n) False of
        Returns r (b', dst) \<Rightarrow> (r, b', dst)
      | _ \<Rightarrow> (CHITCP_EINVAL, b, []))"

lemma cb_wf_bounds:
  assumes "cb_wf b"
  shows "unat (cb_count b) \<le> unat (cb_maxsize b)" "unat (cb_maxsize b) < 2 ^ 31"
    "0 < unat (cb_maxsize b)"
  using assms by (auto simp: cb_wf_def)

lemma cb_write_fits:
  assumes wf: "cb_wf b" and len: "unat len \<le> length data" "0 < len"
    and fits: "unat (cb_count b) + unat len \<le> unat (cb_maxsize b)"
  shows "\<exists>b'. circular_buffer_write b data len blocking = Returns (int (unat len)) b' \<and> cb_wf b'
     \<and> cb_bytes b' = cb_bytes b @ take (unat len) data \<and> cb_maxsize b' = cb_maxsize b
     \<and> cb_seq_start b' = cb_seq_start b \<and> cb_closed b' = cb_closed b"
proof -
  note bnd = cb_wf_bounds [OF wf]
  have "unat (cb_count b + len) = unat (cb_count b) + unat len"
    using fits bnd by (simp add: unat_add_lt)
  then have g: "\<not> cb_maxsize b < cb_count b + len" "\<not> cb_maxsize b < len"
    using fits by (simp_all add: word_less_nat_alt)
  have "sint len = int (unat len)" using fits bnd by (simp add: sint_u32_small)
  then show ?thesis
    using cb_write_loop_fits [OF wf len(1) _ fits] len g
    by (auto simp: circular_buffer_write_def word_less_nat_alt)
qed

lemma cb_write_refused:
  assumes wf: "cb_wf b" and len: "0 < len" "unat len < 2 ^ 31"
    and over: "unat (cb_maxsize b) < unat (cb_count b) + unat len"
  shows "circular_buffer_write b data len False = Returns CHITCP_EWOULDBLOCK b"
proof -
  note bnd = cb_wf_bounds [OF wf]
  have "unat (cb_count b + len) = unat (cb_count b) + unat len"
    using len bnd by (simp add: unat_add_lt)
  then have "cb_maxsize b < cb_count b + len" using over by (simp add: word_less_nat_alt)
  moreover have "len \<noteq> 0" using len by auto
  ultimately show ?thesis by (simp add: circular_buffer_write_def)
qed

lemma cb_read_some:
  assumes wf: "cb_wf b" and len: "0 < len" and ne: "cb_bytes b \<noteq> []"
  shows "\<exists>b'. cb_read b len blocking peeking
       = Returns (int (min (unat len) (length (cb_bytes b))))
           (if peeking then b else b', take (unat len) (cb_bytes b))
     \<and> cb_wf b' \<and> cb_bytes b' = drop (unat len) (cb_bytes b)
     \<and> cb_maxsize b' = cb_maxsize b \<and> cb_closed b' = cb_closed b
     \<and> cb_seq_end b' = cb_seq_end b \<and> cb_seq_initial b' = cb_seq_initial b"
proof -
  have c: "cb_count b \<noteq> 0" using ne by (auto simp: cb_bytes_def)
  let ?n = "min (unat len) (unat (cb_count b))"
  have "take ?n (cb_bytes b) = take (unat len) (cb_bytes b)"
    "drop ?n (cb_bytes b) = drop (unat len) (cb_bytes b)" by (auto simp: min_def)
  moreover have "cb_read b len blocking peeking = cb_read_core b len peeking"
    using c len by (auto simp: cb_read_def)
  ultimately show ?thesis
    using cb_read_core_spec [OF wf refl, of len peeking] by auto
qed

interpretation cb: byte_queue cb_wf cb_bytes "\<lambda>b. unat (cb_maxsize b)" nb_write nb_read
proof unfold_locales
  fix b :: circular_buffer and bs :: "byte list"
  assume wf: "cb_wf b"
  note bnd = cb_wf_bounds [OF wf]
  show "length (cb_bytes b) \<le> unat (cb_maxsize b)" using bnd by simp
  assume ne: "bs \<noteq> []"
  {
    assume fits: "length (cb_bytes b) + length bs \<le> unat (cb_maxsize b)"
    have u: "unat (of_nat (length bs) :: u32) = length bs" using fits bnd by (simp add: unat_of_nat)
    show "\<exists>b'. nb_write b bs = (int (length bs), b') \<and> cb_wf b' \<and> cb_bytes b' = cb_bytes b @ bs
        \<and> unat (cb_maxsize b') = unat (cb_maxsize b)"
      using cb_write_fits [OF wf, of "of_nat (length bs)" bs False] u ne fits
      by (auto simp: nb_write_def word_less_nat_alt)
  next
    assume "length bs < 2 ^ 31" and over: "unat (cb_maxsize b) < length (cb_bytes b) + length bs"
    then have u: "unat (of_nat (length bs) :: u32) = length bs" by (simp add: unat_of_nat)
    with ne over \<open>length bs < 2 ^ 31\<close> show "nb_write b bs = (CHITCP_EWOULDBLOCK, b)"
      using cb_write_refused [OF wf, of "of_nat (length bs)" bs]
      by (simp add: nb_write_def word_less_nat_alt)
  }
next
  fix b :: circular_buffer and n :: nat
  assume wf: "cb_wf b" and n: "0 < n" "n < 2 ^ 32"
  have u: "unat (of_nat n :: u32) = n" using n by (simp add: unat_of_nat)
  then have n0: "(0 :: u32) < of_nat n" using n by (simp add: word_less_nat_alt)
  {
    assume "cb_bytes b \<noteq> []"
    then show "\<exists>b'. nb_read b n = (int (min n (length (cb_bytes b))), b', take n (cb_bytes b))
        \<and> cb_wf b' \<and> cb_bytes b' = drop n (cb_bytes b)
        \<and> unat (cb_maxsize b') = unat (cb_maxsize b)"
      using cb_read_some [OF wf n0, of False False] u
      by (auto simp: nb_read_def circular_buffer_read_def)
  next
    assume "cb_bytes b = []"
    then show "nb_read b n = (CHITCP_EWOULDBLOCK, b, [])"
      using n0 by (auto simp: nb_read_def circular_buffer_read_def cb_read_def cb_bytes_Nil_iff)
  }
qed


lemma advance_within:
  fixes w l :: u32
  assumes "w < l" and "0 < t" and "t \<le> unat l - unat w"
  shows "w < w + of_nat t \<and> w + of_nat t \<le> l"
proof -
  have "t < 4294967296" using assms(3) unat_u32_less [of l] by simp
  then have u: "unat (of_nat t :: u32) = t" by (simp add: unat_of_nat)
  have "unat (w + of_nat t) = unat w + t"
    using assms u unat_u32_less [of l] by (subst unat_add_lt) (auto simp: word_less_nat_alt)
  then show ?thesis using assms by (simp add: word_less_nat_alt word_le_nat_alt)
qed

text \<open>
  The guard of a non-blocking write adds in 32 bits. On a buffer that holds at least one byte
  a length within \<open>count\<close> of \<open>2 ^ 32\<close> passes it, and the call that must not block does what
  a blocking one does.
\<close>
lemma cb_nonblocking_wrap:
  assumes "cb_wf b" "unat len \<le> length data"
    and "2 ^ 32 \<le> unat (cb_count b) + unat len"
  shows "circular_buffer_write b data len False = circular_buffer_write b data len True"
proof -
  note bnd = cb_wf_bounds [OF assms(1)]
  have "unat (cb_count b + len) = (unat (cb_count b) + unat len) mod 2 ^ 32"
    by (simp add: unat_word_ariths)
  also have "\<dots> = unat (cb_count b) + unat len - 2 ^ 32"
    using assms(3) bnd unat_u32_less [of len] by (simp add: le_mod_geq)
  also have "\<dots> < unat (cb_count b)" using unat_u32_less [of len] assms(3) by simp
  finally have "\<not> cb_maxsize b < cb_count b + len"
    using bnd by (simp add: word_less_nat_alt)
  then show ?thesis by (simp add: circular_buffer_write_def)
qed

section \<open>Properties\<close>

text \<open>
  C3: However calls of write, read and peek of any number of threads interleave, as long as nobody
  has closed it the buffer is a FIFO: at every such state the bytes copied in are the bytes read out followed
  by the bytes held, in order; at most \<open>maxsize\<close> are held; the reported first and next sequence
  numbers are the (wrapped) numbers of bytes read and written; and a writer that has bytes left
  and room can always make a pass that stays inside the array and brings it forward. (A closed
  buffer is left out: \<open>buffer.h\<close> says that its writers return, and in the code they go on.)
\<close>
theorem cb_fifo:
  assumes "cb_reachable maxsize s" "0 < unat maxsize" "unat maxsize < 2 ^ 31"
    and "\<not> cb_closed (sys_buf s)"
  shows "sys_in s = sys_out s @ cb_bytes (sys_buf s)
    \<and> int (length (cb_bytes (sys_buf s))) = circular_buffer_count (sys_buf s)
    \<and> circular_buffer_count (sys_buf s) \<le> circular_buffer_capacity (sys_buf s)
    \<and> circular_buffer_first (sys_buf s) = sint (of_nat (length (sys_out s)) :: u32)
    \<and> circular_buffer_next (sys_buf s) = sint (of_nat (length (sys_in s)) :: u32)
    \<and> (\<forall>(data, len, written) \<in> set (sys_writers s).
         written < len \<longrightarrow> cb_count (sys_buf s) \<noteq> cb_maxsize (sys_buf s) \<longrightarrow>
         (\<exists>b' written'. cb_write_chunk (sys_buf s) data len written = Some (b', written')
            \<and> written < written' \<and> written' \<le> len))"
proof -
  have inv: "cb_wf (sys_buf s)" "sys_in s = sys_out s @ cb_bytes (sys_buf s)"
    "cb_seq_start (sys_buf s) = of_nat (length (sys_out s))"
    "cb_seq_end (sys_buf s) = of_nat (length (sys_in s))"
    and ws: "\<forall>(data, len, written) \<in> set (sys_writers s). unat len \<le> length data"
    using cb_reachable_inv [OF assms(1-3)] by (auto simp: cb_sys_inv_def)
  note bnd = cb_wf_bounds [OF inv(1)]
  have pass: "\<exists>b' written'. cb_write_chunk (sys_buf s) data len written = Some (b', written')
            \<and> written < written' \<and> written' \<le> len"
    if w: "(data, len, written) \<in> set (sys_writers s)" "written < len"
      "cb_count (sys_buf s) \<noteq> cb_maxsize (sys_buf s)" for data len written
  proof -
    have "unat len \<le> length data" using ws w(1) by auto
    then obtain b' where
      "cb_write_chunk (sys_buf s) data len written
         = Some (b', written + of_nat (chunk_len (sys_buf s) len written))"
      using cb_write_chunk_spec [OF inv(1) w(2)] by auto
    moreover have "0 < chunk_len (sys_buf s) len written"
      "chunk_len (sys_buf s) len written \<le> unat len - unat written"
      using w(2,3) bnd by (auto simp: chunk_len_def word_less_nat_alt word_unat_eq_iff)
    ultimately show ?thesis using advance_within [OF w(2)] by blast
  qed
  have "uint (cb_count (sys_buf s)) \<le> uint (cb_maxsize (sys_buf s))"
    using bnd(1) by (simp only: word_le_nat_alt [symmetric] word_le_def)
  then show ?thesis using inv bnd pass
    by (auto simp: circular_buffer_count_def circular_buffer_capacity_def sint_u32_small
        circular_buffer_first_def circular_buffer_next_def)
qed

text \<open>A buffer of four bytes with \<open>ab\<close> written and \<open>a\<close> read.\<close>

definition cb_demo :: cb_sys where
  "cb_demo = \<lparr>sys_buf = circular_buffer_init [0, 0, 0, 0] 4, sys_writers = [], sys_in = [],
              sys_out = []\<rparr>"

theorem cb_fifo_witness:
  "\<exists>s. cb_reachable 4 s \<and> sys_out s = [97] \<and> sys_in s = [97] @ cb_bytes (sys_buf s)
     \<and> cb_bytes (sys_buf s) = [98]"
proof -
  let ?s0 = "cb_demo"
  let ?s1 = "?s0\<lparr>sys_writers := [([97, 98], 2, 0)]\<rparr>"
  let ?b2 = "circular_buffer_init [97, 98, 0, 0] 4\<lparr>cb_end := 2, cb_count := 2, cb_seq_end := 2\<rparr>"
  let ?s2 = "?s1\<lparr>sys_buf := ?b2, sys_writers := [([97, 98], 2, 2)], sys_in := [97, 98]\<rparr>"
  let ?b3 = "?b2\<lparr>cb_start := 1, cb_count := 1, cb_seq_start := 1\<rparr>"
  let ?s3 = "?s2\<lparr>sys_buf := ?b3, sys_out := [97]\<rparr>"
  have r0: "cb_reachable 4 ?s0"
    unfolding cb_demo_def by (rule cb_start) simp
  have "cb_step ?s0 ?s1"
    using write_call [of 2 "[97, 98]" ?s0 False]
    by (simp add: cb_demo_def circular_buffer_init_def)
  with r0 have r1: "cb_reachable 4 ?s1" by (rule cb_next)
  have "cb_write_chunk (sys_buf ?s1) [97, 98] 2 0 = Some (?b2, 2)"
    by (simp add: cb_demo_def circular_buffer_init_def cb_write_chunk_def memcpy_chk_def memput_def)
  then have "cb_step ?s1 ?s2"
    using write_pass [of 0 ?s1 "[97, 98]" 2 0 ?b2 2]
    by (simp add: cb_demo_def circular_buffer_init_def)
  with r1 have r2: "cb_reachable 4 ?s2" by (rule cb_next)
  have "circular_buffer_read ?b2 1 False = Returns 1 (?b3, [97])"
    by (simp add: circular_buffer_read_def cb_read_def cb_read_core_def circular_buffer_init_def)
  then have "cb_step ?s2 ?s3"
    using read_call [of ?s2 1 False 1 ?b3 "[97]"] by (simp add: cb_demo_def)
  with r2 have r3: "cb_reachable 4 ?s3" by (rule cb_next)
  have "sys_in ?s3 = sys_out ?s3 @ cb_bytes (sys_buf ?s3)"
    using cb_fifo [OF r3] by (simp add: circular_buffer_init_def)
  moreover have "cb_bytes ?b3 = [98]"
    by (simp add: cb_bytes_def circular_buffer_init_def)
  ultimately show ?thesis using r3 by (intro exI [of _ ?s3]) simp
qed

text \<open>
  C16: Run without blocking, a buffer that is not closed implements a bounded list of bytes: any
  sequence of non-blocking writes of 1 to \<open>2 ^ 31 - 1\<close> bytes and reads of 1 to \<open>2 ^ 32 - 1\<close> bytes returns the
  same codes and the same bytes as on a list of at most \<open>maxsize\<close> bytes, writes that do not fit and
  reads of an empty buffer included. (A call with length 0 is refused; for longer writes the guard
  wraps round, see \<open>cb_nonblocking_wrap\<close>.)
\<close>
theorem cb_refines_bounded_list:
  assumes "cb_wf b" "\<not> cb_closed b"
    and "list_all op_ok ps" and "run_queue nb_write nb_read ps b = (rs, b')"
  shows "run_queue (list_put (unat (cb_maxsize b))) list_get ps (cb_bytes b) = (rs, cb_bytes b')"
  using cb.run_refines [OF assms(1,3,4)] by simp

theorem cb_refines_bounded_list_witness:
  "\<exists>b'. run_queue nb_write nb_read
       [Put [1, 2, 3], Get 2, Put [4, 5, 6], Put [7], Get 9, Get 1]
       (circular_buffer_init [0, 0, 0, 0] 4)
     = ([(3, []), (2, [1, 2]), (3, []), (CHITCP_EWOULDBLOCK, []), (4, [3, 4, 5, 6]),
         (CHITCP_EWOULDBLOCK, [])], b')"
proof -
  let ?b = "circular_buffer_init [0, 0, 0, 0] 4"
  let ?ps = "[Put [1, 2, 3], Get 2, Put [4, 5, 6], Put [7], Get 9, Get 1]"
  obtain rs b' where run: "run_queue nb_write nb_read ?ps ?b = (rs, b')" by force
  have "cb_wf ?b" by (rule cb_wf_init) simp_all
  moreover have "\<not> cb_closed ?b" by (simp add: circular_buffer_init_def)
  moreover have "list_all op_ok ?ps" by (simp add: op_ok_def)
  ultimately have "run_queue (list_put (unat (cb_maxsize ?b))) list_get ?ps (cb_bytes ?b)
      = (rs, cb_bytes b')"
    using run by (rule cb_refines_bounded_list)
  moreover have "unat (cb_maxsize ?b) = 4" by (simp add: circular_buffer_init_def)
  ultimately have "run_queue (list_put 4) list_get ?ps [] = (rs, cb_bytes b')"
    by (simp only: cb_bytes_init)
  moreover have "run_queue (list_put 4) list_get ?ps [] = ([(3, []), (2, [1, 2]), (3, []),
      (CHITCP_EWOULDBLOCK, []), (4, [3, 4, 5, 6]), (CHITCP_EWOULDBLOCK, [])], [])"
    by (simp add: list_put_def list_get_def)
  ultimately show ?thesis using run by simp
qed

text \<open>
  A blocking write longer than the free room writes exactly the bytes that fit and then waits
  with the rest; one longer than the capacity is cut down to the capacity first (so it returns
  fewer bytes than asked for even when blocking); one that fits is written whole.
\<close>
theorem cb_blocking_write:
  assumes "cb_wf b" "0 < len" "unat len \<le> length data"
  defines "m \<equiv> min (unat len) (unat (cb_maxsize b))"
  defines "room \<equiv> unat (cb_maxsize b) - length (cb_bytes b)"
  shows "(if m \<le> room
          then \<exists>b'. circular_buffer_write b data len True = Returns (int m) b'
                 \<and> cb_bytes b' = cb_bytes b @ take m data
          else \<exists>b'. circular_buffer_write b data len True = Blocks b' (of_nat room)
                 \<and> cb_bytes b' = cb_bytes b @ take room data \<and> cb_count b' = cb_maxsize b')"
proof -
  note bnd = cb_wf_bounds [OF assms(1)]
  define l where "l = (if len > cb_maxsize b then cb_maxsize b else len)"
  have l: "unat l = m" by (auto simp: l_def m_def word_less_nat_alt)
  have l0: "0 < unat l" "unat l \<le> length data"
    using bnd assms by (auto simp: l m_def word_less_nat_alt)
  have sl: "sint l = int m" using bnd by (subst sint_u32_small) (auto simp: l m_def)
  have eq: "circular_buffer_write b data len True = cb_write_loop b data l 0"
    using assms(2) by (auto simp: circular_buffer_write_def l_def)
  show ?thesis
  proof (cases "m \<le> room")
    case True
    then have "unat (cb_count b) + unat l \<le> unat (cb_maxsize b)"
      using bnd by (simp add: l room_def)
    with True show ?thesis
      using cb_write_loop_fits [OF assms(1) l0(2,1)] eq sl l by auto
  next
    case False
    then have "unat (cb_maxsize b) < unat (cb_count b) + unat l"
      using bnd by (simp add: l room_def)
    with False show ?thesis
      using cb_write_loop_full [OF assms(1) l0(2)] eq by (auto simp: room_def)
  qed
qed

theorem cb_blocking_write_witness:
  "\<exists>b'. circular_buffer_write (circular_buffer_init [0, 0] 2) [1, 2, 3] 3 True = Returns 2 b'
     \<and> cb_bytes b' = [1, 2]"
proof -
  have "cb_wf (circular_buffer_init [0, 0] 2)" by (rule cb_wf_init) simp_all
  from cb_blocking_write [OF this, of 3 "[1, 2, 3]"] show ?thesis
    by (simp add: circular_buffer_init_def cb_bytes_def)
qed

end
