(* ===== verification/Packet.thy ===== *)
theory Packet
  imports Prelude
begin

text \<open>
  The TCP packets of chitcp (\<open>include/chitcp/packet.h\<close>, \<open>src/libchitcp/packet.c\<close>) and the
  chiTCP header they travel behind (\<open>chitcpd_send_tcp_packet\<close> in
  \<open>src/chitcpd/connection.c\<close>). A packet is its raw bytes; the struct's \<open>length\<close> is the length of
  the list. The header is the struct \<open>tcphdr\<close> as a little-endian host lays it out: 20 bytes, with
  \<open>doff\<close> in the upper half of byte 12 and the flags in byte 13.

  The accessors read a header of at least 20 bytes. The one place where a shorter packet can reach
  them, \<open>chitcpd_tcp_handle_packet\<close> on a packet from the network, checks it and faults.
\<close>

section \<open>Layout\<close>

type_synonym packet = "byte list"

definition TCP_HEADER_NOOPTIONS_SIZE :: nat where
  "TCP_HEADER_NOOPTIONS_SIZE = 20"

definition header_ok :: "packet \<Rightarrow> bool" where
  "header_ok p \<longleftrightarrow> TCP_HEADER_NOOPTIONS_SIZE \<le> length p"

definition hdr_source :: "packet \<Rightarrow> u16" where "hdr_source p = load16 p 0"
definition hdr_dest :: "packet \<Rightarrow> u16" where "hdr_dest p = load16 p 2"
definition hdr_doff :: "packet \<Rightarrow> nat" where "hdr_doff p = unat (drop_bit 4 (p ! 12))"
definition hdr_fin :: "packet \<Rightarrow> bool" where "hdr_fin p = bit (p ! 13) 0"
definition hdr_syn :: "packet \<Rightarrow> bool" where "hdr_syn p = bit (p ! 13) 1"
definition hdr_ack :: "packet \<Rightarrow> bool" where "hdr_ack p = bit (p ! 13) 4"

definition SEG_SEQ :: "packet \<Rightarrow> u32" where "SEG_SEQ p = ntohl (load32 p 4)"
definition SEG_ACK :: "packet \<Rightarrow> u32" where "SEG_ACK p = ntohl (load32 p 8)"
definition SEG_WND :: "packet \<Rightarrow> u16" where "SEG_WND p = ntohs (load16 p 14)"

text \<open>
  The payload length is a \<open>size_t\<close>: a data offset past the end of the packet makes it wrap.
\<close>

definition TCP_PAYLOAD_LEN :: "packet \<Rightarrow> u64" where
  "TCP_PAYLOAD_LEN p = of_nat (length p) - of_nat (hdr_doff p * 4)"

definition TCP_PAYLOAD_START :: "packet \<Rightarrow> byte list" where
  "TCP_PAYLOAD_START p = drop (hdr_doff p * 4) p"

definition SEG_LEN :: "packet \<Rightarrow> u64" where
  "SEG_LEN p = of_bool (hdr_syn p) + of_bool (hdr_fin p) + TCP_PAYLOAD_LEN p"

lemmas hdr_defs = hdr_source_def hdr_dest_def hdr_doff_def hdr_fin_def hdr_syn_def hdr_ack_def
  SEG_SEQ_def SEG_ACK_def SEG_WND_def

section \<open>Building packets\<close>

text \<open>A 1-bit field of the header byte \<open>i\<close>.\<close>

definition put_flag :: "packet \<Rightarrow> nat \<Rightarrow> nat \<Rightarrow> bool \<Rightarrow> packet" where
  "put_flag p i n b = p[i := (if b then set_bit n (p ! i) else unset_bit n (p ! i))]"

text \<open>
  \<open>chitcp_tcp_packet_create\<close>: a zeroed packet with a data offset of five words and a copy of the
  payload. \<open>None\<close> is the null pointer; it is only followed when \<open>payload_len\<close> is not zero.
\<close>

definition chitcp_tcp_packet_create :: "byte list option \<Rightarrow> u16 \<Rightarrow> packet res" where
  "chitcp_tcp_packet_create payload payload_len =
     (let raw = (replicate (TCP_HEADER_NOOPTIONS_SIZE + unat payload_len) (0 :: byte))[12 := 0x50]
      in if payload_len = 0 then Inr raw
         else case payload of
                None \<Rightarrow> Inl Null_deref
              | Some d \<Rightarrow>
                  (if length d < unat payload_len then Inl Overrun
                   else Inr (memput raw TCP_HEADER_NOOPTIONS_SIZE (take (unat payload_len) d))))"

text \<open>The ports are kept in network order, as they lie in a \<open>sockaddr\<close>.\<close>

definition set_header_ports :: "u16 \<Rightarrow> u16 \<Rightarrow> packet \<Rightarrow> packet" where
  "set_header_ports lport rport p = memput (memput p 0 (bytes16 lport)) 2 (bytes16 rport)"

text \<open>The fields \<open>chitcpd_tcp_send_packet\<close> fills in.\<close>

definition set_header_fields ::
  "u32 \<Rightarrow> u32 \<Rightarrow> bool \<Rightarrow> bool \<Rightarrow> bool \<Rightarrow> u16 \<Rightarrow> packet \<Rightarrow> packet" where
  "set_header_fields sq ak fin syn ack win p =
     (let p = memput p 4 (bytes32 (htonl sq));
          p = memput p 8 (bytes32 (htonl ak));
          p = put_flag p 13 0 fin;
          p = put_flag p 13 1 syn;
          p = put_flag p 13 4 ack
      in memput p 14 (bytes16 (htons win)))"

section \<open>Framing\<close>

text \<open>
  The chiTCP header: the length of the packet in network order (truncated to 16 bits), the
  protocol number 1 and thirteen zero bytes.
\<close>

definition chitcp_frame :: "packet \<Rightarrow> byte list" where
  "chitcp_frame p =
     bytes16 (htons (of_nat (length p))) @ [1] @ replicate 13 0 @ p"

text \<open>
  What the receiver of the stream does with it: read 16 bytes, then as many as the header says.
\<close>

definition chitcp_unframe :: "byte list \<Rightarrow> (byte \<times> packet \<times> byte list) option" where
  "chitcp_unframe s =
     (if length s < 16 then None
      else let n = unat (ntohs (load16 s 0)) in
           if length s < 16 + n then None
           else Some (s ! 2, take n (drop 16 s), drop (16 + n) s))"

section \<open>Lemmas\<close>

lemma length_put_flag [simp]: "length (put_flag p i n b) = length p"
  by (simp add: put_flag_def)

lemma nth_put_flag_other: "i \<noteq> j \<Longrightarrow> put_flag p i n b ! j = p ! j"
  by (simp add: put_flag_def)

lemma bit_put_flag:
  "i < length p \<Longrightarrow> n < 8 \<Longrightarrow>
   bit (put_flag p i n b ! i) m = (if m = n then b else bit (p ! i) m)"
  by (auto simp: put_flag_def bit_simps)

lemma load16_put_flag: "i + 2 \<le> j \<or> j < i \<Longrightarrow> load16 (put_flag p j n b) i = load16 p i"
  by (auto simp: load16_def nth_put_flag_other)

lemma load32_put_flag: "i + 4 \<le> j \<or> j < i \<Longrightarrow> load32 (put_flag p j n b) i = load32 p i"
  by (auto simp: load32_def nth_put_flag_other)

lemma drop_put_flag: "i < n \<Longrightarrow> drop n (put_flag p i k b) = drop n p"
  by (simp add: put_flag_def drop_update_cancel)

lemma drop_memput: "off + length src \<le> n \<Longrightarrow> n \<le> length p \<Longrightarrow> drop n (memput p off src) = drop n p"
  by (simp add: memput_def)

lemma length_set_header_ports [simp]:
  "20 \<le> length p \<Longrightarrow> length (set_header_ports l r p) = length p"
  by (simp add: set_header_ports_def)

lemma length_set_header_fields [simp]:
  "20 \<le> length p \<Longrightarrow> length (set_header_fields sq ak fin syn ack win p) = length p"
  by (simp add: set_header_fields_def Let_def)

lemma packet_create_ok:
  assumes "chitcp_tcp_packet_create payload n = Inr p"
  shows "length p = 20 + unat n" "p ! 12 = 0x50" "p ! 13 = 0"
    "drop 20 p = (case payload of None \<Rightarrow> [] | Some d \<Rightarrow> take (unat n) d)"
proof -
  have "length p = 20 + unat n \<and> p ! 12 = 0x50 \<and> p ! 13 = 0
    \<and> drop 20 p = (case payload of None \<Rightarrow> [] | Some d \<Rightarrow> take (unat n) d)"
    using assms
    by (auto simp: chitcp_tcp_packet_create_def Let_def TCP_HEADER_NOOPTIONS_SIZE_def nth_memput
        memput_def nth_append
        split: if_splits option.splits)
  then show "length p = 20 + unat n" "p ! 12 = 0x50" "p ! 13 = 0"
    "drop 20 p = (case payload of None \<Rightarrow> [] | Some d \<Rightarrow> take (unat n) d)" by auto
qed

lemma packet_create_null [simp]:
  "chitcp_tcp_packet_create None 0 = Inr ((replicate 20 0)[12 := 0x50])"
  by (simp add: chitcp_tcp_packet_create_def TCP_HEADER_NOOPTIONS_SIZE_def)

lemma packet_create_some:
  "unat n \<le> length d \<Longrightarrow> \<exists>p. chitcp_tcp_packet_create (Some d) n = Inr p"
  by (simp add: chitcp_tcp_packet_create_def Let_def)

lemma built_packet:
  assumes "chitcp_tcp_packet_create payload n = Inr p0"
    and p_def: "p = set_header_fields sq ak fin syn ack win (set_header_ports lport rport p0)"
  shows "length p = 20 + unat n" and "hdr_source p = lport" and "hdr_dest p = rport"
    and "hdr_doff p = 5" and "SEG_SEQ p = sq" and "SEG_ACK p = ak" and "SEG_WND p = win"
    and "hdr_fin p = fin" and "hdr_syn p = syn" and "hdr_ack p = ack"
    and "TCP_PAYLOAD_START p = (case payload of None \<Rightarrow> [] | Some d \<Rightarrow> take (unat n) d)"
    and "TCP_PAYLOAD_LEN p = of_nat (unat n)"
proof -
  note c = packet_create_ok [OF assms(1)]
  note f = p_def set_header_fields_def set_header_ports_def Let_def
  show len: "length p = 20 + unat n" using c by (simp add: f)
  show "hdr_source p = lport" using c
    by (simp add: f hdr_source_def load16_memput_other load16_put_flag)
  show "hdr_dest p = rport" using c
    by (simp add: f hdr_dest_def load16_memput_other load16_put_flag)
  have p12: "p ! 12 = 0x50" using c
    by (simp add: f nth_memput nth_put_flag_other)
  then show doff: "hdr_doff p = 5" by (simp add: hdr_doff_def)
  show "SEG_SEQ p = sq" using c
    by (simp add: f SEG_SEQ_def load32_memput_other load32_put_flag)
  show "SEG_ACK p = ak" using c
    by (simp add: f SEG_ACK_def load32_memput_other load32_put_flag)
  show "SEG_WND p = win" using c
    by (simp add: f SEG_WND_def)
  show "hdr_fin p = fin" "hdr_syn p = syn" "hdr_ack p = ack" using c
    by (simp_all add: f hdr_fin_def hdr_syn_def hdr_ack_def nth_memput bit_put_flag)
  have "drop 20 p = drop 20 p0" using c
    by (simp add: f drop_put_flag drop_memput)
  then show "TCP_PAYLOAD_START p = (case payload of None \<Rightarrow> [] | Some d \<Rightarrow> take (unat n) d)"
    using c doff by (simp add: TCP_PAYLOAD_START_def)
  show "TCP_PAYLOAD_LEN p = of_nat (unat n)" using len doff by (simp add: TCP_PAYLOAD_LEN_def)
qed

section \<open>The receiving thread\<close>

text \<open>
  \<open>chitcpd_connection_thread_func\<close>: it reads the stream of one peer until the peer closes it.
  \<open>recv\<close> returns at least one byte and at most what was asked for and what is there; how many is
  the parameter \<open>chunk\<close>, indexed by the number of the call. The header variable and the
  1000-byte buffer live across iterations, so after a short read they still hold old bytes.
\<close>

datatype conn_end = Peer_closed | Bad_proto | Buf_overrun

definition recv_count :: "(nat \<Rightarrow> nat) \<Rightarrow> nat \<Rightarrow> nat \<Rightarrow> byte list \<Rightarrow> nat" where
  "recv_count chunk k n s = min (min n (length s)) (max 1 (chunk k))"

function connection_loop ::
  "(nat \<Rightarrow> nat) \<Rightarrow> nat \<Rightarrow> byte list \<Rightarrow> byte list \<Rightarrow> byte list \<Rightarrow> packet list \<times> conn_end" where
  "connection_loop chunk k header buf s =
     (if s = [] then ([], Peer_closed)
      else
        let n = recv_count chunk k 16 s;
            header = memput header 0 (take n s);
            s = drop n s;
            payload_len = unat (ntohs (load16 header 0))
        in if header ! 2 = 1 then
             (if 1000 < payload_len then ([], Buf_overrun)
              else if s = [] \<or> payload_len = 0 then ([], Peer_closed)
              else
                let m = recv_count chunk (k + 1) payload_len s;
                    buf = memput buf 0 (take m s);
                    (ps, e) = connection_loop chunk (k + 2) header buf (drop m s)
                in (take payload_len buf # ps, e))
           else ([], Bad_proto))"
  by pat_completeness auto

termination
proof (relation "measure (\<lambda>(chunk, k, header, buf, s). length s)", goal_cases)
  case (2 chunk k header buf s n header' s' payload_len m buf')
  have "0 < n" using 2(1,2) by (simp add: recv_count_def)
  with 2(1,3) show ?case by (simp add: 2(4))
qed simp

declare connection_loop.simps [simp del]

definition whole_reads :: "(nat \<Rightarrow> nat) \<Rightarrow> bool" where
  "whole_reads chunk \<longleftrightarrow> (\<forall>k. 1000 \<le> chunk k)"

lemma recv_count_whole:
  assumes "whole_reads chunk" "n \<le> 1000"
  shows "recv_count chunk k n s = min n (length s)"
proof -
  have "1000 \<le> chunk k" using assms(1) by (simp add: whole_reads_def)
  then show ?thesis using assms(2) by (simp add: recv_count_def)
qed

lemma connection_loop_step:
  assumes "s \<noteq> []" "recv_count chunk k 16 s = n" "memput header 0 (take n s) = h" "drop n s = s'"
    and "h ! 2 = 1" "unat (ntohs (load16 h 0)) = l" "l \<le> 1000" "0 < l" "s' \<noteq> []"
    and "recv_count chunk (k + 1) l s' = m" "memput buf 0 (take m s') = b"
  shows "connection_loop chunk k header buf s =
    (let (ps, e) = connection_loop chunk (k + 2) h b (drop m s') in (take l b # ps, e))"
  using assms by (subst connection_loop.simps) (simp add: Let_def)

lemma frame_parts:
  "length (chitcp_frame p) = 16 + length p" "drop 16 (chitcp_frame p @ rest) = p @ rest"
  "length (take 16 (chitcp_frame p @ rest)) = 16"
  "load16 (take 16 (chitcp_frame p @ rest)) 0 = htons (of_nat (length p))"
  "take 16 (chitcp_frame p @ rest) ! 2 = 1"
  using load16_bytes16 [of "htons (of_nat (length p))"]
  by (simp_all add: chitcp_frame_def load16_def nth_append)

lemma connection_loop_frame:
  assumes "whole_reads chunk" "0 < length p" "length p \<le> 1000" "length header = 16"
    and "length buf = 1000"
  shows "connection_loop chunk k header buf (chitcp_frame p @ rest) =
    (let (ps, e) = connection_loop chunk (k + 2) (take 16 (chitcp_frame p @ rest))
         (p @ drop (length p) buf) rest
     in (p # ps, e))"
proof -
  have ne: "chitcp_frame p @ rest \<noteq> []" by (simp add: chitcp_frame_def)
  have h: "memput header 0 (take 16 (chitcp_frame p @ rest)) = take 16 (chitcp_frame p @ rest)"
    using assms(4) frame_parts(3) [of p rest] by (simp add: memput_def del: length_take)
  have u: "unat (of_nat (length p) :: u16) = length p"
    using assms(3) by (simp add: unat_of_nat)
  have n: "recv_count chunk k 16 (chitcp_frame p @ rest) = 16"
    by (simp add: recv_count_whole [OF assms(1)] frame_parts)
  have m: "recv_count chunk (k + 1) (length p) (p @ rest) = length p"
    by (simp add: recv_count_whole [OF assms(1,3)])
  have b: "memput buf 0 (take (length p) (p @ rest)) = p @ drop (length p) buf"
    using assms(3,5) by (simp add: memput_def)
  have "p @ rest \<noteq> []" using assms(2) by simp
  note step = connection_loop_step [OF ne n h frame_parts(2,5) _ assms(3,2) this m b]
  have "unat (ntohs (load16 (take 16 (chitcp_frame p @ rest)) 0)) = length p"
    unfolding frame_parts(4) ntohs_ntohs by (rule u)
  from step [OF this] show ?thesis by simp
qed

text \<open>
  When every \<open>recv\<close> returns all it was asked for, the connection thread hands on exactly the
  packets the peer sent, in order, and ends when the peer closes, for packets of 1 to 1000 bytes.
\<close>
lemma connection_reads:
  assumes "whole_reads chunk" and "\<forall>p \<in> set ps. 0 < length p \<and> length p \<le> 1000"
    and "length header = 16" and "length buf = 1000"
  shows "connection_loop chunk k header buf (concat (map chitcp_frame ps)) = (ps, Peer_closed)"
  using assms
proof (induction ps arbitrary: k header buf)
  case Nil
  then show ?case by (simp add: connection_loop.simps)
next
  case (Cons p ps)
  then have p: "0 < length p" "length p \<le> 1000" by auto
  show ?case
    using connection_loop_frame [OF Cons.prems(1) p Cons.prems(3,4)] Cons.IH Cons.prems p
      frame_parts(3)
    by simp
qed

section \<open>Properties\<close>

text \<open>
  Fields written into a packet are read back: whatever ports, sequence and acknowledgement
  numbers, flags, window and payload a packet is built with, its accessors return them, and its
  payload is the first \<open>payload_len\<close> bytes of the buffer.
\<close>
theorem packet_roundtrip:
  assumes "unat n \<le> length d"
  shows "\<exists>p0. chitcp_tcp_packet_create (Some d) n = Inr p0 \<and>
    (let p = set_header_fields sq ak fin syn ack win (set_header_ports lport rport p0) in
     length p = 20 + unat n \<and> (hdr_source p, hdr_dest p) = (lport, rport)
     \<and> (SEG_SEQ p, SEG_ACK p, SEG_WND p) = (sq, ak, win)
     \<and> (hdr_fin p, hdr_syn p, hdr_ack p) = (fin, syn, ack)
     \<and> TCP_PAYLOAD_START p = take (unat n) d \<and> unat (TCP_PAYLOAD_LEN p) = unat n
     \<and> SEG_LEN p = of_bool syn + of_bool fin + of_nat (unat n))"
proof -
  obtain p0 where p0: "chitcp_tcp_packet_create (Some d) n = Inr p0"
    using packet_create_some [OF assms] by blast
  have "unat n < 2 ^ LENGTH(16)" by (rule unsigned_less)
  then have "unat (of_nat (unat n) :: u64) = unat n"
    unfolding unat_of_nat by (intro mod_less) (simp add: order_less_trans)
  with p0 show ?thesis
    by (intro exI [of _ p0]) (simp add: Let_def built_packet [OF p0 refl] SEG_LEN_def)
qed

theorem packet_roundtrip_witness:
  "\<exists>p0. chitcp_tcp_packet_create (Some [1, 2, 3]) 2 = Inr p0 \<and>
     SEG_SEQ (set_header_fields 7 8 True False True 9 (set_header_ports 1 2 p0)) = 7 \<and>
     TCP_PAYLOAD_START (set_header_fields 7 8 True False True 9 (set_header_ports 1 2 p0)) = [1, 2]"
  using packet_roundtrip [of 2 "[1, 2, 3]" 7 8 True False True 9 1 2] by (auto simp: Let_def)

text \<open>
  Framing loses nothing: reading a chiTCP frame off the stream gives protocol number 1 and
  exactly the packet, and leaves what follows it, for every packet of less than \<open>2 ^ 16\<close> bytes.
\<close>
theorem unframe_frame:
  assumes "length p < 2 ^ 16"
  shows "chitcp_unframe (chitcp_frame p @ rest) = Some (1, p, rest)"
proof -
  have "length (chitcp_frame p) = 16 + length p" by (simp add: chitcp_frame_def)
  moreover have "load16 (chitcp_frame p @ rest) 0 = htons (of_nat (length p))"
    using load16_bytes16 [of "htons (of_nat (length p))"]
    by (simp add: chitcp_frame_def load16_def nth_append)
  moreover have "(chitcp_frame p @ rest) ! 2 = 1"
    by (simp add: chitcp_frame_def nth_append)
  moreover have "unat (of_nat (length p) :: u16) = length p"
    using assms by (simp add: unat_of_nat)
  ultimately show ?thesis
    by (simp add: chitcp_unframe_def Let_def) (simp add: chitcp_frame_def)
qed

theorem unframe_frame_witness:
  "chitcp_unframe (chitcp_frame [5, 6] @ [7]) = Some (1, [5, 6], [7])"
  by (rule unframe_frame) simp

text \<open>
  A header that arrives in two pieces is taken for two headers: with one byte in the first read
  the rest of the frame is read as payload or refused.
\<close>
lemma short_read_corrupts:
  "connection_loop (\<lambda>k. 1) 0 (replicate 16 0) (replicate 1000 0) (chitcp_frame [5, 6])
     = ([], Bad_proto)"
  by (subst connection_loop.simps)
    (simp add: Let_def recv_count_def chitcp_frame_def memput_def bytes16_def load16_def)

end
