(* ===== verification/Tcp_Time.thy ===== *)
theory Tcp_Time
  imports Prelude
begin

text \<open>
  The time arithmetic of \<open>chitcpd/tcp.c\<close> (lines 185 to 269 and 297 to 313): \<open>struct timespec\<close>,
  its sum and difference, and the comparisons the retransmission timeout is computed with. The
  fields of the struct are \<open>long\<close>; the locals \<open>sec\<close> and \<open>nsec\<close> are \<open>int\<close>, so sums are taken in 32
  bits and sign-extended back.
\<close>

section \<open>Times\<close>

datatype timespec = Timespec (tv_sec: u64) (tv_nsec: u64)

text \<open>The conversions from \<open>long\<close> to \<open>int\<close> and back.\<close>

definition int_of_long :: "u64 \<Rightarrow> u32" where "int_of_long w = ucast w"
definition long_of_int :: "u32 \<Rightarrow> u64" where "long_of_int w = scast w"

definition timespec_add :: "timespec \<Rightarrow> timespec \<Rightarrow> timespec" where
  "timespec_add t1 t2 =
     (let sec = int_of_long (tv_sec t1 + tv_sec t2);
          nsec = int_of_long (tv_nsec t1 + tv_nsec t2)
      in if sint nsec \<ge> 1000000000
         then Timespec (long_of_int (sec + 1)) (long_of_int (nsec - 1000000000))
         else Timespec (long_of_int sec) (long_of_int nsec))"

text \<open>The sign of the nanoseconds' comparison is the opposite of what the comment promises.\<close>

definition timespec_comp :: "timespec \<Rightarrow> timespec \<Rightarrow> int" where
  "timespec_comp t1 t2 =
     (if int_of_long (tv_sec t1) = int_of_long (tv_sec t2) then
        (if int_of_long (tv_nsec t1) = int_of_long (tv_nsec t2) then 0
         else if sint (int_of_long (tv_nsec t1)) > sint (int_of_long (tv_nsec t2)) then -1
         else 1)
      else if sint (int_of_long (tv_sec t1)) < sint (int_of_long (tv_sec t2)) then -1
      else 1)"

definition timespec_min :: "timespec \<Rightarrow> timespec \<Rightarrow> timespec" where
  "timespec_min t1 t2 = (if timespec_comp t1 t2 \<noteq> 0 then t1 else t2)"

definition timespec_max :: "timespec \<Rightarrow> timespec \<Rightarrow> timespec" where
  "timespec_max t1 t2 = (if timespec_comp t1 t2 \<noteq> 0 then t2 else t1)"

definition timespec_sub :: "timespec \<Rightarrow> timespec \<Rightarrow> timespec" where
  "timespec_sub t1 t2 =
     (let nsec = int_of_long (tv_nsec t1 - tv_nsec t2);
          sec = int_of_long (tv_sec t1 - tv_sec t2)
      in if sint nsec < 0
         then Timespec (long_of_int (sec - 1)) (long_of_int (nsec + 1000000000))
         else Timespec (long_of_int sec) (long_of_int nsec))"

text \<open>
  The loop of \<open>timespec_scalar_mult\<close> (lines 264 to 267) that splits nanoseconds into seconds.
\<close>

function split_nsec :: "u32 \<Rightarrow> u32 \<Rightarrow> u32 \<times> u32" where
  "split_nsec sec nsec =
     (if sint nsec \<ge> 1000000000 then split_nsec (sec + 1) (nsec - 1000000000) else (sec, nsec))"
  by pat_completeness auto

lemma sint_sub_billion:
  assumes "1000000000 \<le> sint (w :: u32)"
  shows "sint (w - 1000000000) = sint w - 1000000000"
proof -
  have "sint w < 2147483648" using sint_lt [of w] by simp
  then show ?thesis
    using assms by (subst sint_word_ariths) (simp add: signed_take_bit_int_eq_self)
qed

termination split_nsec
  by (relation "measure (\<lambda>(sec, nsec). nat (sint nsec))") (auto simp: sint_sub_billion)

declare split_nsec.simps [simp del]

text \<open>
  \<open>mul\<close> is the multiplication of an \<open>int\<close> by the double argument, converted back to \<open>int\<close>.
  The seconds are scaled to nanoseconds in 32 bits.
\<close>

definition timespec_scalar_mult :: "timespec \<Rightarrow> (u32 \<Rightarrow> u32) \<Rightarrow> timespec" where
  "timespec_scalar_mult t mul =
     (let sec = int_of_long (tv_sec t) * 1000000000;
          nsec = mul (int_of_long (tv_nsec t + long_of_int sec));
          (sec, nsec) = split_nsec 0 nsec
      in Timespec (long_of_int sec) (long_of_int nsec))"

definition timed_out_at :: "timespec \<Rightarrow> timespec \<Rightarrow> bool" where
  "timed_out_at curtime membertime =
     (if tv_sec curtime = tv_sec membertime then sint (tv_nsec curtime) > sint (tv_nsec membertime)
      else sint (tv_sec curtime) > sint (tv_sec membertime))"

section \<open>The order of times\<close>

text \<open>Times are ordered by seconds, then nanoseconds, both read as signed.\<close>

lemma sint_neq: "tv_sec s \<noteq> tv_sec t \<Longrightarrow> sint (tv_sec s) \<noteq> sint (tv_sec t)"
  using signed_word_eqI by auto

instantiation timespec :: linorder
begin

definition less_eq_timespec :: "timespec \<Rightarrow> timespec \<Rightarrow> bool" where
  "less_eq_timespec s t \<longleftrightarrow> sint (tv_sec s) < sint (tv_sec t)
     \<or> tv_sec s = tv_sec t \<and> sint (tv_nsec s) \<le> sint (tv_nsec t)"

definition less_timespec :: "timespec \<Rightarrow> timespec \<Rightarrow> bool" where
  "less_timespec s t \<longleftrightarrow> sint (tv_sec s) < sint (tv_sec t)
     \<or> tv_sec s = tv_sec t \<and> sint (tv_nsec s) < sint (tv_nsec t)"

instance
proof
  fix r s t :: timespec
  show "(s < t) = (s \<le> t \<and> \<not> t \<le> s)"
    by (auto simp: less_eq_timespec_def less_timespec_def)
  show "s \<le> s" by (simp add: less_eq_timespec_def)
  show "r \<le> s \<Longrightarrow> s \<le> t \<Longrightarrow> r \<le> t" by (auto simp: less_eq_timespec_def)
  show "s \<le> t \<Longrightarrow> t \<le> s \<Longrightarrow> s = t"
    by (cases s; cases t) (auto simp: less_eq_timespec_def intro: signed_word_eqI)
  show "s \<le> t \<or> t \<le> s"
    by (cases "tv_sec s = tv_sec t") (use sint_neq [of s t] in \<open>auto simp: less_eq_timespec_def\<close>)
qed

end

lemma timed_out_at_iff: "timed_out_at now t \<longleftrightarrow> t < now"
  by (auto simp: timed_out_at_def less_timespec_def)

section \<open>Lemmas\<close>

text \<open>Times in the range the code works in, and the nanoseconds they stand for.\<close>

definition time_ok :: "timespec \<Rightarrow> bool" where
  "time_ok t \<longleftrightarrow> 0 \<le> sint (tv_sec t) \<and> sint (tv_sec t) < 2 ^ 30
     \<and> 0 \<le> sint (tv_nsec t) \<and> sint (tv_nsec t) < 1000000000"

definition nanos :: "timespec \<Rightarrow> int" where
  "nanos t = sint (tv_sec t) * 1000000000 + sint (tv_nsec t)"

lemma sint_int_of_long:
  assumes "- 2147483648 \<le> sint w" "sint w < 2147483648"
  shows "sint (int_of_long w) = sint w"
proof -
  have "sint (int_of_long w) = signed_take_bit 31 (uint w)"
    by (simp add: int_of_long_def signed_ucast_eq)
  also have "\<dots> = signed_take_bit 31 (sint w)"
    by (simp add: sint_uint signed_take_bit_signed_take_bit)
  also have "\<dots> = sint w" using assms by (simp add: signed_take_bit_int_eq_self)
  finally show ?thesis .
qed

lemma sint_long_of_int [simp]: "sint (long_of_int w) = sint w"
proof -
  have "- 2147483648 \<le> sint w \<and> sint w < 2147483648" using sint_ge [of w] sint_lt [of w] by simp
  then show ?thesis
    by (simp add: long_of_int_def signed_scast_eq signed_take_bit_int_eq_self)
qed

lemma sint_add64:
  fixes v w :: u64
  assumes "\<bar>sint v + sint w\<bar> < 2 ^ 62"
  shows "sint (v + w) = sint v + sint w"
  using assms by (subst sint_word_ariths) (simp add: signed_take_bit_int_eq_self)

lemma sint_sub64:
  fixes v w :: u64
  assumes "\<bar>sint v - sint w\<bar> < 2 ^ 62"
  shows "sint (v - w) = sint v - sint w"
  using assms by (subst sint_word_ariths) (simp add: signed_take_bit_int_eq_self)

lemma sint_add32:
  fixes v w :: u32
  assumes "- 2147483648 \<le> sint v + sint w" "sint v + sint w < 2147483648"
  shows "sint (v + w) = sint v + sint w"
  using assms by (subst sint_word_ariths) (simp add: signed_take_bit_int_eq_self)

lemma sint_sub32:
  fixes v w :: u32
  assumes "- 2147483648 \<le> sint v - sint w" "sint v - sint w < 2147483648"
  shows "sint (v - w) = sint v - sint w"
  using assms by (subst sint_word_ariths) (simp add: signed_take_bit_int_eq_self)

lemmas sint_ops = sint_int_of_long sint_add64 sint_sub64 sint_add32 sint_sub32

lemma int_of_long_eq:
  assumes "time_ok s" "time_ok t"
  shows "int_of_long (tv_sec s) = int_of_long (tv_sec t) \<longleftrightarrow> tv_sec s = tv_sec t"
    and "int_of_long (tv_nsec s) = int_of_long (tv_nsec t) \<longleftrightarrow> tv_nsec s = tv_nsec t"
proof -
  have "sint (int_of_long (tv_sec s)) = sint (tv_sec s)" "sint (int_of_long (tv_sec t)) = sint (tv_sec t)"
    "sint (int_of_long (tv_nsec s)) = sint (tv_nsec s)" "sint (int_of_long (tv_nsec t)) = sint (tv_nsec t)"
    using assms by (auto simp: time_ok_def intro!: sint_int_of_long)
  then show "int_of_long (tv_sec s) = int_of_long (tv_sec t) \<longleftrightarrow> tv_sec s = tv_sec t"
    "int_of_long (tv_nsec s) = int_of_long (tv_nsec t) \<longleftrightarrow> tv_nsec s = tv_nsec t"
    by (metis signed_word_eqI)+
qed

lemma timespec_comp_zero:
  "time_ok s \<Longrightarrow> time_ok t \<Longrightarrow> timespec_comp s t = 0 \<longleftrightarrow> s = t"
  by (auto simp: timespec_comp_def int_of_long_eq intro: timespec.expand)

text \<open>
  So the minimum and the maximum both return an argument by position: the first and the second,
  whichever is smaller.
\<close>

lemma timespec_min_first: "time_ok s \<Longrightarrow> time_ok t \<Longrightarrow> timespec_min s t = s"
  by (simp add: timespec_min_def timespec_comp_zero)

lemma timespec_max_second: "time_ok s \<Longrightarrow> time_ok t \<Longrightarrow> timespec_max s t = t"
  by (simp add: timespec_max_def timespec_comp_zero)

lemma timespec_add_nanos:
  assumes "time_ok s" "time_ok t"
  shows "nanos (timespec_add s t) = nanos s + nanos t"
    and "0 \<le> sint (tv_nsec (timespec_add s t))" "sint (tv_nsec (timespec_add s t)) < 1000000000"
proof -
  let ?sec = "int_of_long (tv_sec s + tv_sec t)" and ?ns = "int_of_long (tv_nsec s + tv_nsec t)"
  have sec: "sint ?sec = sint (tv_sec s) + sint (tv_sec t)"
    and ns: "sint ?ns = sint (tv_nsec s) + sint (tv_nsec t)"
    using assms by (simp_all add: time_ok_def sint_ops)
  have sec1: "sint (?sec + 1) = sint ?sec + 1"
    using assms by (subst sint_add32) (simp_all add: sec time_ok_def)
  show "nanos (timespec_add s t) = nanos s + nanos t"
    and "0 \<le> sint (tv_nsec (timespec_add s t))" "sint (tv_nsec (timespec_add s t)) < 1000000000"
    using assms
    by (auto simp: timespec_add_def Let_def nanos_def sec ns sec1 sint_sub_billion time_ok_def)
qed

lemma timespec_sub_nanos:
  assumes "time_ok s" "time_ok t"
  shows "nanos (timespec_sub s t) = nanos s - nanos t"
    and "0 \<le> sint (tv_nsec (timespec_sub s t))" "sint (tv_nsec (timespec_sub s t)) < 1000000000"
proof -
  let ?sec = "int_of_long (tv_sec s - tv_sec t)" and ?ns = "int_of_long (tv_nsec s - tv_nsec t)"
  have sec: "sint ?sec = sint (tv_sec s) - sint (tv_sec t)"
    and ns: "sint ?ns = sint (tv_nsec s) - sint (tv_nsec t)"
    using assms by (simp_all add: time_ok_def sint_int_of_long sint_sub64 abs_less_iff)
  have sec1: "sint (?sec - 1) = sint ?sec - 1"
    using assms by (subst sint_sub32) (simp_all add: sec time_ok_def)
  have ns1: "sint (?ns + 1000000000) = sint ?ns + 1000000000" if "sint ?ns < 0"
    using assms that by (subst sint_add32) (simp_all add: ns time_ok_def)
  show "nanos (timespec_sub s t) = nanos s - nanos t"
    and "0 \<le> sint (tv_nsec (timespec_sub s t))" "sint (tv_nsec (timespec_sub s t)) < 1000000000"
    using assms ns1
    by (auto simp: timespec_sub_def Let_def nanos_def sec ns sec1 time_ok_def)
qed

section \<open>Properties\<close>

text \<open>
  C33: The sum and the difference of two times in range are exact and normalised: they stand for
  the sum and the difference of the nanoseconds, with a nanosecond field from 0 to 999999999
  (so a negative difference borrows from the seconds).
\<close>
theorem timespec_arith_exact:
  assumes "time_ok s" "time_ok t"
  shows "nanos (timespec_add s t) = nanos s + nanos t
    \<and> nanos (timespec_sub s t) = nanos s - nanos t
    \<and> sint (tv_nsec (timespec_add s t)) \<in> {0..<1000000000}
    \<and> sint (tv_nsec (timespec_sub s t)) \<in> {0..<1000000000}"
  using timespec_add_nanos [OF assms] timespec_sub_nanos [OF assms] by simp

theorem timespec_arith_exact_witness:
  "nanos (timespec_sub (Timespec 2 1) (Timespec 1 2)) = 999999999"
  using timespec_arith_exact [of "Timespec 2 1" "Timespec 1 2"]
  by (simp add: time_ok_def nanos_def)

text \<open>
  The clamp of the retransmission timeout does not clamp: for any times in range
  \<open>timespec_min(upper, timespec_max(srtt, lower))\<close> is \<open>upper\<close>, because \<open>timespec_min\<close> and
  \<open>timespec_max\<close> take every non-zero result of the comparison for the same answer.
\<close>
theorem clamp_is_upper:
  assumes "time_ok srtt" "time_ok lower" "time_ok upper"
  shows "timespec_min upper (timespec_max srtt lower) = upper"
  using assms by (simp add: timespec_max_second timespec_min_first)

theorem clamp_is_upper_witness:
  "timespec_min (Timespec 0 999999999) (timespec_max (Timespec 0 5000000) (Timespec 0 100000))
     = Timespec 0 999999999"
  by (rule clamp_is_upper) (simp_all add: time_ok_def)

text \<open>The comparison is right on the seconds and inverted on the nanoseconds.\<close>

lemma timespec_comp_inverted:
  "time_ok s \<Longrightarrow> time_ok t \<Longrightarrow> tv_sec s = tv_sec t \<Longrightarrow> timespec_comp s t = -1 \<longleftrightarrow> t < s"
  using sint_int_of_long [of "tv_nsec s"] sint_int_of_long [of "tv_nsec t"]
  by (auto simp: timespec_comp_def int_of_long_eq less_timespec_def time_ok_def)

end
