(* ===== verification/Tcp.thy ===== *)
theory Tcp
  imports CircBuf Packet Tcp_Time "HOL-Library.Signed_Division"
begin

text \<open>
  The TCP of chitcp, \<open>src/chitcpd/tcp.c\<close>: the state of an active socket (\<open>tcp_data_t\<close> in
  \<open>tcp.h\<close> and the fields of \<open>chisocketentry_t\<close> and \<open>active_chisocket_state_t\<close> that the protocol
  reads), one definition per function of the file, and the dispatch of events by the TCP thread
  (\<open>tcp_thread.c\<close>).

  The thread of a socket is the only one that changes the protocol variables, so a handler is a
  function from the socket to the socket after it, or a fault. The mutexes whose acquisition by
  this thread cannot fail are left out; \<open>lock_retrans_q\<close>, which a handler can keep on return, is a
  boolean, and taking it again is the fault \<open>Self_deadlock\<close>.
\<close>

section \<open>State\<close>

datatype tcp_state = CLOSED | LISTEN | SYN_RCVD | SYN_SENT | ESTABLISHED | FIN_WAIT_1
  | FIN_WAIT_2 | CLOSE_WAIT | CLOSING | TIME_WAIT | LAST_ACK

datatype socket_type = SOCKET_ACTIVE | SOCKET_PASSIVE | SOCKET_UNINITIALIZED

datatype tcp_event = APPLICATION_CONNECT | APPLICATION_SEND | APPLICATION_RECEIVE
  | APPLICATION_CLOSE | PACKET_ARRIVAL | TIMEOUT | CLEANUP

datatype debug_response = DBG_RESP_NONE | DBG_RESP_DROP | DBG_RESP_DUPLICATE | DBG_RESP_WITHHOLD
  | DBG_RESP_DRAW_WITHHELD | DBG_RESP_STOP | DBG_RESP_ACCEPT_MONITOR

record reqmember =
  rq_packet :: packet
  rq_sent :: timespec
  rq_timeout :: timespec

record tcp_data =
  retrans_q :: "reqmember list"
  retrans_q_locked :: bool
  rto :: timespec
  srtt :: timespec
  upper :: timespec
  lower :: timespec
  mostrecentackin :: timespec
  oop_packet_list :: "packet list"
  pending_packets :: "packet list"
  withheld_packets :: "packet list"
  ISS :: u32
  SND_UNA :: u32
  SND_NXT :: u32
  SND_WND :: u32
  IRS :: u32
  RCV_NXT :: u32
  RCV_WND :: u32
  send_buf :: circular_buffer
  recv_buf :: circular_buffer
  closing :: bool
  finsent :: bool

record event_flags =
  app_close :: bool
  app_connect :: bool
  app_recv :: bool
  app_send :: bool
  net_recv :: bool
  cleanup :: bool
  timeout :: bool

text \<open>
  The socket: its TCP data, the fields of its table entry and the environment it has consumed.
  \<open>wire\<close> is the stream of bytes accepted by the real TCP connection; the counters say how many
  answers of the environment (below) have been used.
\<close>

record socket = tcp_data +
  tcp_state :: tcp_state
  actpas_type :: socket_type
  local_port :: u16
  remote_port :: u16
  flags :: event_flags
  wire :: "byte list"
  n_clock :: nat
  n_debug :: nat
  n_send :: nat
  n_rand :: nat
  n_alloc :: nat

text \<open>
  The environment: the \<open>k\<close>-th reading of the clock, the \<open>k\<close>-th answer of the debug monitor, the
  \<open>k\<close>-th result of \<open>send\<close>, the \<open>k\<close>-th \<open>rand()\<close>, the multiplications of an \<open>int\<close> by the doubles
  \<open>alpha\<close>, \<open>1.0 - alpha\<close> and \<open>beta\<close>, \<open>list_sort\<close> of simclist on the out-of-order list, and the
  \<open>k\<close>-th block of the allocator (see \<open>calloc_none\<close>).
\<close>

record env =
  e_clock :: "nat \<Rightarrow> timespec"
  e_debug :: "nat \<Rightarrow> debug_response"
  e_send :: "nat \<Rightarrow> int"
  e_rand :: "nat \<Rightarrow> u32"
  e_alpha :: "u32 \<Rightarrow> u32"
  e_alpha1 :: "u32 \<Rightarrow> u32"
  e_beta :: "u32 \<Rightarrow> u32"
  e_sort :: "packet list \<Rightarrow> packet list"
  e_alloc :: "nat \<Rightarrow> int list"

definition TCP_BUFFER_SIZE :: u32 where "TCP_BUFFER_SIZE = 4096"
definition TCP_MSS :: int where "TCP_MSS = 536"

section \<open>Sending\<close>

definition clock_gettime :: "env \<Rightarrow> socket \<Rightarrow> timespec \<times> socket" where
  "clock_gettime E e = (e_clock E (n_clock e), e\<lparr>n_clock := Suc (n_clock e)\<rparr>)"

definition debug_breakpoint :: "env \<Rightarrow> socket \<Rightarrow> debug_response \<times> socket" where
  "debug_breakpoint E e = (e_debug E (n_debug e), e\<lparr>n_debug := Suc (n_debug e)\<rparr>)"

text \<open>
  The loop of \<open>chitcpd_send_tcp_packet\<close> (lines 445 to 452): what \<open>send\<close> accepts goes on the wire;
  a result of zero or less ends it with -1. \<open>send\<close> accepts at most what it was given.
\<close>

function send_loop :: "env \<Rightarrow> byte list \<Rightarrow> socket \<Rightarrow> int \<times> socket" where
  "send_loop E buf e =
     (if buf = [] then (0, e)
      else let nbytes = e_send E (n_send e); e = e\<lparr>n_send := Suc (n_send e)\<rparr> in
           if nbytes \<le> 0 then (-1, e)
           else let n = min (nat nbytes) (length buf)
                in send_loop E (drop n buf) (e\<lparr>wire := wire e @ take n buf\<rparr>))"
  by pat_completeness auto

termination
  by (relation "measure (\<lambda>(E, buf, e). length buf)") (auto simp: min_def)

declare send_loop.simps [simp del]

definition send_tcp_packet :: "env \<Rightarrow> packet \<Rightarrow> socket \<Rightarrow> socket" where
  "send_tcp_packet E p e =
     (let (r, e) = debug_breakpoint E e in
      if r = DBG_RESP_DROP then e else snd (send_loop E (chitcp_frame p) e))"

definition update_tcp_state :: "env \<Rightarrow> tcp_state \<Rightarrow> socket \<Rightarrow> socket" where
  "update_tcp_state E newstate e =
     (let e = e\<lparr>tcp_state := newstate\<rparr>;
          (r, e) = debug_breakpoint E e
      in if newstate = CLOSED \<and> actpas_type e = SOCKET_ACTIVE
         then e\<lparr>flags := (flags e)\<lparr>cleanup := True\<rparr>\<rparr> else e)"

definition chitcpd_timeout :: "socket \<Rightarrow> socket" where
  "chitcpd_timeout e = e\<lparr>flags := (flags e)\<lparr>timeout := True\<rparr>\<rparr>"

definition chitcpd_tcp_packet_create :: "byte list option \<Rightarrow> u16 \<Rightarrow> socket \<Rightarrow> packet res" where
  "chitcpd_tcp_packet_create payload payload_len e =
     rbind (chitcp_tcp_packet_create payload payload_len) (\<lambda>p.
       if actpas_type e = SOCKET_ACTIVE
       then Inr (set_header_ports (local_port e) (remote_port e) p)
       else Inl Assert_fail)"

section \<open>The retransmission queue\<close>

definition make_reqmember :: "env \<Rightarrow> packet \<Rightarrow> socket \<Rightarrow> reqmember \<times> socket" where
  "make_reqmember E p e =
     (let (curtime, e) = clock_gettime E e in
      (\<lparr>rq_packet = p, rq_sent = curtime, rq_timeout = timespec_add curtime (rto e)\<rparr>, e))"

text \<open>The mutex \<open>lock_retrans_q\<close> is not recursive.\<close>

definition lock_retrans_q :: "socket \<Rightarrow> socket res" where
  "lock_retrans_q e =
     (if retrans_q_locked e then Inl Self_deadlock else Inr (e\<lparr>retrans_q_locked := True\<rparr>))"

definition unlock_retrans_q :: "socket \<Rightarrow> socket" where
  "unlock_retrans_q e = e\<lparr>retrans_q_locked := False\<rparr>"

definition add_packet_to_retrans_q :: "env \<Rightarrow> packet \<Rightarrow> socket \<Rightarrow> socket res" where
  "add_packet_to_retrans_q E p e =
     (let (m, e) = make_reqmember E p e in
      rbind (lock_retrans_q e) (\<lambda>e.
        Inr (unlock_retrans_q (e\<lparr>retrans_q := retrans_q e @ [m]\<rparr>))))"

definition update_rto :: "env \<Rightarrow> timespec \<Rightarrow> socket \<Rightarrow> socket" where
  "update_rto E recentrtt e =
     (let s = timespec_scalar_mult (srtt e) (e_alpha E);
          s = timespec_add s (timespec_scalar_mult recentrtt (e_alpha1 E));
          s = timespec_scalar_mult s (e_beta E);
          r = timespec_min (upper e) (timespec_max s (lower e))
      in e\<lparr>srtt := s, rto := r\<rparr>)"

definition timed_out :: "env \<Rightarrow> reqmember \<Rightarrow> socket \<Rightarrow> bool \<times> socket" where
  "timed_out E m e =
     (let (curtime, e) = clock_gettime E e in (timed_out_at curtime (rq_timeout m), e))"

text \<open>
  The array \<open>to_delete\<close> (lines 343 and 448) is \<open>calloc(sizeof(int)*lsize, 0)\<close>: a request for elements
  of no bytes. C promises not one \<open>int\<close> in it; what can be read and written there, and what is in it,
  is up to the allocator. \<open>e_alloc E k\<close> are the ints of the \<open>k\<close>-th such block: \<open>[]\<close> is the block C
  promises (and NULL), and any access beyond the list is the fault \<open>Overrun\<close>.
\<close>

definition calloc_none :: "env \<Rightarrow> socket \<Rightarrow> int list \<times> socket" where
  "calloc_none E e = (e_alloc E (n_alloc e), e\<lparr>n_alloc := Suc (n_alloc e)\<rparr>)"

definition mark_delete :: "int list \<Rightarrow> nat \<Rightarrow> int list res" where
  "mark_delete to_delete i =
     (if i < length to_delete then Inr (to_delete[i := 1]) else Inl Overrun)"

text \<open>
  A block that happens to hold \<open>n\<close> ints, none of which happens to be 1, and an allocator that rounds
  every request for nothing up to such a block. glibc on 64 bits does so for \<open>n = 6\<close>: its smallest
  block has 24 usable bytes, and \<open>calloc\<close> clears them. The code relies on this; C does not promise it.
\<close>

definition block_room :: "int list \<Rightarrow> nat \<Rightarrow> bool" where
  "block_room b n \<longleftrightarrow> n \<le> length b \<and> (\<forall>j < n. b ! j \<noteq> 1)"

definition alloc_room :: "env \<Rightarrow> nat \<Rightarrow> bool" where
  "alloc_room E n \<longleftrightarrow> (\<forall>k. block_room (e_alloc E k) n)"

text \<open>
  The loop that deletes the marked positions \<open>0, \<dots>, lsize - 1\<close> (lines 402 to 408 and 489 to 495):
  \<open>ndel\<close> deletions have shifted the rest to the left.
\<close>

definition list_delete_at :: "'a list \<Rightarrow> nat \<Rightarrow> 'a list" where
  "list_delete_at q pos = (if pos < length q then take pos q @ drop (Suc pos) q else q)"

fun delete_marked :: "int list \<Rightarrow> nat list \<Rightarrow> nat \<Rightarrow> 'a list \<Rightarrow> 'a list res" where
  "delete_marked to_delete [] ndel q = Inr q"
| "delete_marked to_delete (j # js) ndel q =
     (if length to_delete \<le> j then Inl Overrun
      else if to_delete ! j = 1
      then delete_marked to_delete js (Suc ndel) (list_delete_at q (j - ndel))
      else delete_marked to_delete js ndel q)"

text \<open>
  The test of \<open>process_q_after_ack\<close>: the sum of the 32-bit sequence number and the 64-bit length,
  against the acknowledged number held in an \<open>int\<close>, is a comparison of 64-bit unsigned numbers.
\<close>

definition fully_acked :: "u32 \<Rightarrow> packet \<Rightarrow> bool" where
  "fully_acked unack p \<longleftrightarrow> ucast (SEG_SEQ p) + SEG_LEN p \<le> (scast unack :: u64)"

fun ack_pass ::
  "env \<Rightarrow> u32 \<Rightarrow> nat \<Rightarrow> reqmember list \<Rightarrow> int list \<Rightarrow> socket \<Rightarrow> (int list \<times> socket) res" where
  "ack_pass E unack i [] to_delete e = Inr (to_delete, e)"
| "ack_pass E unack i (cur # q) to_delete e =
     (if fully_acked unack (rq_packet cur)
      then (let e = update_rto E (timespec_sub (mostrecentackin e) (rq_sent cur)) e
            in rbind (mark_delete to_delete i) (\<lambda>to_delete. ack_pass E unack (Suc i) q to_delete e))
      else ack_pass E unack (Suc i) q to_delete e)"

definition process_q_after_ack :: "env \<Rightarrow> socket \<Rightarrow> socket res" where
  "process_q_after_ack E e =
     (let unack = SND_UNA e; lsize = length (retrans_q e); (to_delete, e) = calloc_none E e in
      rbind (lock_retrans_q e) (\<lambda>e.
      rbind (ack_pass E unack 0 (retrans_q e) to_delete e) (\<lambda>(to_delete, e).
      rbind (delete_marked to_delete [0..<lsize] 0 (retrans_q e)) (\<lambda>q.
        Inr (unlock_retrans_q (e\<lparr>retrans_q := q\<rparr>))))))"

text \<open>First pass of \<open>process_timeout\<close> (lines 351 to 363); \<open>i\<close> counts the elements.\<close>

fun lowest_timed_out :: "env \<Rightarrow> nat \<Rightarrow> u32 \<Rightarrow> reqmember list \<Rightarrow> socket \<Rightarrow> u32 \<times> socket" where
  "lowest_timed_out E i lowestseq [] e = (lowestseq, e)"
| "lowest_timed_out E i lowestseq (cur # q) e =
     (let (late, e) = timed_out E cur e;
          sq = SEG_SEQ (rq_packet cur);
          lowestseq' = (if late then (let l = (if i = 0 then sq else lowestseq)
                                      in if sq < l then sq else l)
                        else lowestseq)
      in lowest_timed_out E (Suc i) lowestseq' q e)"

fun resend_all :: "env \<Rightarrow> packet list \<Rightarrow> socket \<Rightarrow> socket res" where
  "resend_all E [] e = Inr e"
| "resend_all E (p # ps) e =
     rbind (add_packet_to_retrans_q E p (send_tcp_packet E p e)) (resend_all E ps)"

text \<open>
  Second pass of \<open>process_timeout\<close> (lines 378 to 400): the elements up to \<open>lowestseq\<close> are marked and
  collected in \<open>to_req\<close>.
\<close>

fun timeout_pass ::
  "u32 \<Rightarrow> nat \<Rightarrow> reqmember list \<Rightarrow> int list \<Rightarrow> packet list \<Rightarrow> (int list \<times> packet list) res" where
  "timeout_pass lowestseq i [] to_delete to_req = Inr (to_delete, to_req)"
| "timeout_pass lowestseq i (cur # q) to_delete to_req =
     (if SEG_SEQ (rq_packet cur) \<le> lowestseq
      then rbind (mark_delete to_delete i) (\<lambda>to_delete.
             timeout_pass lowestseq (Suc i) q to_delete (to_req @ [rq_packet cur]))
      else timeout_pass lowestseq (Suc i) q to_delete to_req)"

text \<open>
  \<open>process_timeout\<close>. The mutex stays locked on the early return, as in the code.
\<close>

definition process_timeout :: "env \<Rightarrow> socket \<Rightarrow> socket res" where
  "process_timeout E e =
     rbind (lock_retrans_q e) (\<lambda>e.
       let lsize = length (retrans_q e);
           (to_delete, e) = calloc_none E e;
           (lowestseq, e) = lowest_timed_out E 0 0 (retrans_q e) e in
       if lowestseq = 0 then Inr e
       else
         rbind (timeout_pass lowestseq 0 (retrans_q e) to_delete []) (\<lambda>(to_delete, to_req).
         rbind (delete_marked to_delete [0..<lsize] 0 (retrans_q e)) (\<lambda>q.
         rbind (resend_all E to_req (unlock_retrans_q (e\<lparr>retrans_q := q\<rparr>)))
           (process_q_after_ack E))))"

section \<open>Out-of-order packets\<close>

definition packet_comparator :: "packet \<Rightarrow> packet \<Rightarrow> int" where
  "packet_comparator p q = of_bool (SEG_SEQ p < SEG_SEQ q) - of_bool (SEG_SEQ p > SEG_SEQ q)"

definition packet_seeker :: "packet \<Rightarrow> u32 \<Rightarrow> bool" where
  "packet_seeker p sequence \<longleftrightarrow> SEG_SEQ p = sequence"

definition add_p_to_oop :: "env \<Rightarrow> packet \<Rightarrow> socket \<Rightarrow> socket" where
  "add_p_to_oop E p e = e\<lparr>oop_packet_list := e_sort E (p # oop_packet_list e)\<rparr>"

text \<open>When a packet with the expected number is in the list, the head of the list is taken.\<close>

definition process_oop_after_new_packet :: "socket \<Rightarrow> socket" where
  "process_oop_after_new_packet e =
     (case List.find (\<lambda>p. packet_seeker p (RCV_NXT e)) (oop_packet_list e) of
        None \<Rightarrow> e
      | Some _ \<Rightarrow> e\<lparr>oop_packet_list := tl (oop_packet_list e),
                    pending_packets := hd (oop_packet_list e) # pending_packets e\<rparr>)"

section \<open>Building and sending a segment\<close>

text \<open>
  \<open>chitcpd_tcp_send_packet\<close>; \<open>len\<close> is the \<open>size_t\<close> argument, cut to 16 bits by
  \<open>chitcpd_tcp_packet_create\<close> and to 32 by the assignment to \<open>SND_NXT\<close>.
\<close>

definition tcp_send_packet ::
  "env \<Rightarrow> byte list option \<Rightarrow> u64 \<Rightarrow> bool \<Rightarrow> bool \<Rightarrow> u32 \<Rightarrow> bool \<Rightarrow> socket \<Rightarrow> socket res" where
  "tcp_send_packet E buf len fin noack sq syn e =
     rbind (chitcpd_tcp_packet_create buf (ucast len) e) (\<lambda>p.
       let p = set_header_fields sq (RCV_NXT e) fin syn (\<not> noack) (ucast (RCV_WND e)) p;
           e = send_tcp_packet E p e
       in rbind (if fin \<or> syn \<or> len \<noteq> 0 then add_packet_to_retrans_q E p e else Inr e) (\<lambda>e.
            Inr (e\<lparr>SND_NXT := SND_NXT e + ucast len\<rparr>)))"

text \<open>A segment without data: \<open>chitcpd_tcp_send_packet(si, entry, NULL, 0, fin, noack, seq, syn)\<close>.\<close>

abbreviation send_ctl :: "env \<Rightarrow> bool \<Rightarrow> bool \<Rightarrow> u32 \<Rightarrow> bool \<Rightarrow> socket \<Rightarrow> socket res" where
  "send_ctl E fin noack sq syn \<equiv> tcp_send_packet E None 0 fin noack sq syn"

abbreviation send_ack :: "env \<Rightarrow> socket \<Rightarrow> socket res" where
  "send_ack E e \<equiv> send_ctl E False False (SND_NXT e) False e"

section \<open>Arriving packets\<close>

text \<open>
  The result of a call that must not wait: outside the array is a fault, a wait in the socket's
  own thread is one too (nobody else empties the buffer it would wait for).
\<close>

definition cb_res :: "'a cb_outcome \<Rightarrow> (int \<times> 'a) res" where
  "cb_res out = (case out of Returns r b \<Rightarrow> Inr (r, b) | Blocks b w \<Rightarrow> Inl No_return
     | Undefined \<Rightarrow> Inl Overrun)"

definition available32 :: "circular_buffer \<Rightarrow> u32" where
  "available32 b = of_int (circular_buffer_available b)"

text \<open>What a SYN says about the peer's numbers: lines 652 to 656 and 681 to 684.\<close>

definition note_syn :: "packet \<Rightarrow> socket \<Rightarrow> socket" where
  "note_syn p e =
     (let e = e\<lparr>RCV_NXT := SEG_SEQ p + 1, IRS := SEG_SEQ p\<rparr>;
          e = e\<lparr>recv_buf := circular_buffer_set_seq_initial (recv_buf e) (IRS e)\<rparr>
      in e\<lparr>RCV_WND := available32 (recv_buf e)\<rparr>)"

text \<open>LISTEN: lines 649 to 663.\<close>

definition handle_in_listen :: "env \<Rightarrow> packet \<Rightarrow> socket \<Rightarrow> socket res" where
  "handle_in_listen E p e =
     (if hdr_syn p then
        let e = note_syn p e
        in rbind (send_ctl E False False (ISS e) True e) (\<lambda>e. Inr (update_tcp_state E SYN_RCVD e))
      else Inr e)"

text \<open>SYN_SENT: lines 669 to 701.\<close>

definition handle_in_syn_sent :: "env \<Rightarrow> packet \<Rightarrow> socket \<Rightarrow> socket res" where
  "handle_in_syn_sent E p e =
     (if hdr_ack p \<and> SND_UNA e \<le> SEG_ACK p \<and> SEG_ACK p \<le> SND_NXT e \<and> hdr_syn p then
        rbind (process_q_after_ack E (e\<lparr>SND_UNA := SEG_ACK p\<rparr>)) (\<lambda>e.
          let e = note_syn p e
          in if SND_UNA e > ISS e
             then send_ack E (update_tcp_state E ESTABLISHED e)
             else send_ctl E False False (ISS e) True (update_tcp_state E SYN_RCVD e))
      else Inr e)"

text \<open>
  The acknowledgement of an expected segment (lines 722 to 783), in the state \<open>our_state\<close> the
  socket had when the packet was taken. The boolean says that the function returns at once.
\<close>

definition handle_ack :: "env \<Rightarrow> tcp_state \<Rightarrow> packet \<Rightarrow> socket \<Rightarrow> (bool \<times> socket) res" where
  "handle_ack E our_state p e =
     (let seg_ack = SEG_ACK p in
      if our_state = SYN_RCVD then
        (if SND_UNA e \<le> seg_ack \<and> seg_ack \<le> SND_NXT e
         then rbind (process_q_after_ack E (e\<lparr>SND_UNA := seg_ack\<rparr>)) (\<lambda>e.
                Inr (False, update_tcp_state E ESTABLISHED e))
         else Inr (False, e))
      else if our_state \<in> {ESTABLISHED, FIN_WAIT_1, FIN_WAIT_2, CLOSE_WAIT, CLOSING} then
        (if SND_UNA e < seg_ack \<and> seg_ack \<le> SND_NXT e \<or> seg_ack < SND_UNA e
            \<or> \<not> seg_ack > SND_NXT e
         then rbind (if SND_UNA e < seg_ack \<and> seg_ack \<le> SND_NXT e
                     then process_q_after_ack E (e\<lparr>SND_UNA := seg_ack\<rparr>) else Inr e) (\<lambda>e.
                Inr (False,
                  if our_state = FIN_WAIT_1 \<and> SND_UNA e = SND_NXT e
                  then update_tcp_state E FIN_WAIT_2 e
                  else if our_state = CLOSING \<and> SND_UNA e = SND_NXT e
                  then update_tcp_state E CLOSED (update_tcp_state E TIME_WAIT e)
                  else e))
         else rbind (send_ack E e) (\<lambda>e. Inr (True, e)))
      else if our_state = LAST_ACK then Inr (True, update_tcp_state E CLOSED e)
      else Inr (False, e))"

text \<open>The text of an expected segment (lines 785 to 807).\<close>

definition handle_text :: "env \<Rightarrow> tcp_state \<Rightarrow> packet \<Rightarrow> socket \<Rightarrow> socket res" where
  "handle_text E our_state p e =
     (if our_state \<in> {ESTABLISHED, FIN_WAIT_1, FIN_WAIT_2} \<and> TCP_PAYLOAD_LEN p > 0 then
        let avail = available32 (recv_buf e);
            tocopy = (if TCP_PAYLOAD_LEN p \<le> (scast avail :: u64) then ucast (TCP_PAYLOAD_LEN p)
                      else avail)
        in rbind (cb_res (circular_buffer_write (recv_buf e) (TCP_PAYLOAD_START p) tocopy False))
             (\<lambda>(r, b).
               let e = e\<lparr>recv_buf := b\<rparr>;
                   e = e\<lparr>RCV_WND := available32 (recv_buf e), RCV_NXT := RCV_NXT e + tocopy\<rparr>
               in send_ack E e)
      else Inr e)"

text \<open>The FIN of an expected segment (lines 809 to 840).\<close>

definition handle_fin :: "env \<Rightarrow> tcp_state \<Rightarrow> packet \<Rightarrow> socket \<Rightarrow> socket res" where
  "handle_fin E our_state p e =
     (if hdr_fin p then
        rbind
          (if our_state = SYN_RCVD \<or> our_state = ESTABLISHED then
             rbind (send_ack E e) (\<lambda>e. Inr (update_tcp_state E CLOSE_WAIT e))
           else if our_state = FIN_WAIT_1 then
             rbind (send_ack E e) (\<lambda>e.
               Inr (if SND_UNA e = SND_NXT e
                    then update_tcp_state E CLOSED (update_tcp_state E TIME_WAIT e)
                    else update_tcp_state E CLOSING e))
           else if our_state = FIN_WAIT_2 then
             rbind (send_ack E e) (\<lambda>e.
               Inr (update_tcp_state E CLOSED (update_tcp_state E TIME_WAIT e)))
           else Inr e)
          (\<lambda>e. Inr (e\<lparr>recv_buf := circular_buffer_close (recv_buf e)\<rparr>))
      else Inr e)"

text \<open>
  The window tests of line 846. In the second disjunct \<open>seq\<close>, an \<open>int\<close>, is sign-extended to the
  64 bits of \<open>SEG_LEN\<close>.
\<close>

definition in_window :: "packet \<Rightarrow> socket \<Rightarrow> bool" where
  "in_window p e \<longleftrightarrow>
     (let sq = SEG_SEQ p; last = (scast sq :: u64) + SEG_LEN p - 1;
          edge = RCV_NXT e + RCV_WND e
      in RCV_NXT e \<le> sq \<and> sq < edge
         \<or> ucast (RCV_NXT e) \<le> last \<and> last < ucast edge)"

text \<open>The states from SYN_RCVD on: lines 709 to 851.\<close>

definition handle_otherwise :: "env \<Rightarrow> tcp_state \<Rightarrow> packet \<Rightarrow> socket \<Rightarrow> socket res" where
  "handle_otherwise E our_state p e =
     (if RCV_WND e = 0 \<and> SEG_LEN p > 0 then send_ack E e
      else if SEG_SEQ p = RCV_NXT e then
        (if hdr_ack p then
           rbind (handle_ack E our_state p e) (\<lambda>(returns, e).
             if returns then Inr e
             else rbind (handle_text E our_state p e) (\<lambda>e.
                  rbind (handle_fin E our_state p e) (\<lambda>e.
                    Inr (process_oop_after_new_packet e))))
         else Inr (process_oop_after_new_packet e))
      else if in_window p e then Inr (add_p_to_oop E p e)
      else Inr e)"

text \<open>
  \<open>chitcpd_tcp_handle_packet\<close>. \<open>list_fetch\<close> of an empty list is the null pointer, which is
  followed at once; a packet shorter than a header is read past its end.
\<close>

definition handle_packet :: "env \<Rightarrow> socket \<Rightarrow> socket res" where
  "handle_packet E e =
     (case pending_packets e of
        [] \<Rightarrow> Inl Null_deref
      | p # ps \<Rightarrow>
          if \<not> header_ok p then Inl Overrun
          else
            let e = e\<lparr>pending_packets := ps, SND_WND := ucast (SEG_WND p)\<rparr>;
                e = (if hdr_ack p then (let (t, e) = clock_gettime E e in e\<lparr>mostrecentackin := t\<rparr>)
                     else e)
            in case tcp_state e of
                 CLOSED \<Rightarrow> Inr e
               | LISTEN \<Rightarrow> handle_in_listen E p e
               | SYN_SENT \<Rightarrow> handle_in_syn_sent E p e
               | s \<Rightarrow> handle_otherwise E s p e)"

section \<open>Sending the application's data\<close>

text \<open>
  The loop of \<open>chitcpd_tcp_process_send_buffer\<close> (lines 880 to 902) over the \<open>read\<close> bytes taken
  from the send buffer. It may never end, so it is a partial function: \<open>None\<close> is the loop that
  runs forever. A negative \<open>len\<close> makes \<open>malloc\<close> fail.
\<close>

definition segment_len :: "int \<Rightarrow> int \<Rightarrow> int \<Rightarrow> int" where
  "segment_len bytes_read wnd x =
     (let len = (if bytes_read - x < TCP_MSS then bytes_read - x else TCP_MSS) in
      if len > wnd then wnd else len)"

partial_function (option) segment_loop ::
  "env \<Rightarrow> byte list \<Rightarrow> int \<Rightarrow> int \<Rightarrow> int \<Rightarrow> socket \<Rightarrow> socket res option" where
  "segment_loop E buf bytes_read wnd x e =
     (if x < bytes_read then
        let len = segment_len bytes_read wnd x in
        if 0 < len \<and> (x < 0 \<or> int (length buf) < x + len) then Some (Inl Overrun)
        else
          case tcp_send_packet E (if len < 0 then None else Some (take (nat len) (drop (nat x) buf)))
                 (of_int len) False False (SND_NXT e) False e of
            Inl f \<Rightarrow> Some (Inl f)
          | Inr e \<Rightarrow> segment_loop E buf bytes_read wnd (x + len) e
      else Some (Inr e))"

definition process_send_buffer :: "env \<Rightarrow> socket \<Rightarrow> socket res" where
  "process_send_buffer E e =
     rbind (cb_res (circular_buffer_read (send_buf e) (SND_WND e) False)) (\<lambda>(r, b, buf).
       let e = e\<lparr>send_buf := b\<rparr>;
           wnd = sint (SND_WND e - (SND_NXT e - SND_UNA e))
       in case segment_loop E buf r wnd 0 e of None \<Rightarrow> Inl No_return | Some res \<Rightarrow> res)"

section \<open>Initialisation\<close>

definition set_tcp_vars :: "u32 \<Rightarrow> socket \<Rightarrow> socket" where
  "set_tcp_vars iss e =
     e\<lparr>ISS := iss, SND_UNA := iss, SND_NXT := iss + 1, SND_WND := 1,
       send_buf := circular_buffer_set_seq_initial (send_buf e) iss,
       finsent := False, retrans_q := [], retrans_q_locked := False, oop_packet_list := [],
       srtt := Timespec 0 5000000, rto := Timespec 0 5000000,
       upper := Timespec 0 999999999, lower := Timespec 0 100000,
       IRS := 0, RCV_NXT := 0, RCV_WND := available32 (recv_buf e)\<rparr>"

definition tcp_data_init :: "env \<Rightarrow> socket \<Rightarrow> socket" where
  "tcp_data_init E e =
     (let r = e_rand E (n_rand e);
          e = e\<lparr>n_rand := Suc (n_rand e), pending_packets := [], withheld_packets := []\<rparr>
      in set_tcp_vars (of_int (sint r smod 255 * 1000)) e)"

section \<open>Handlers of the states\<close>

text \<open>The event TIMEOUT in every state that has it.\<close>

definition handle_timeout :: "env \<Rightarrow> socket \<Rightarrow> socket res" where
  "handle_timeout E e = rbind (process_q_after_ack E e) (process_timeout E)"

text \<open>Sending a FIN once.\<close>

definition send_fin_once :: "env \<Rightarrow> socket \<Rightarrow> socket res" where
  "send_fin_once E e =
     (if \<not> finsent e
      then rbind (send_ctl E True False (SND_NXT e) False e) (\<lambda>e. Inr (e\<lparr>finsent := True\<rparr>))
      else Inr e)"

definition handle_CLOSED :: "env \<Rightarrow> tcp_event \<Rightarrow> socket \<Rightarrow> socket res" where
  "handle_CLOSED E event e =
     (case event of
        APPLICATION_CONNECT \<Rightarrow>
          (let e = tcp_data_init E e in
           rbind (send_ctl E False True (ISS e) True e) (\<lambda>e. Inr (update_tcp_state E SYN_SENT e)))
      | PACKET_ARRIVAL \<Rightarrow> handle_packet E e
      | _ \<Rightarrow> Inr e)"

definition handle_LISTEN :: "env \<Rightarrow> tcp_event \<Rightarrow> socket \<Rightarrow> socket res" where
  "handle_LISTEN E event e = (if event = PACKET_ARRIVAL then handle_packet E e else Inr e)"

definition handle_SYN_RCVD :: "env \<Rightarrow> tcp_event \<Rightarrow> socket \<Rightarrow> socket res" where
  "handle_SYN_RCVD E event e =
     (case event of PACKET_ARRIVAL \<Rightarrow> handle_packet E e | TIMEOUT \<Rightarrow> handle_timeout E e | _ \<Rightarrow> Inr e)"

definition handle_SYN_SENT :: "env \<Rightarrow> tcp_event \<Rightarrow> socket \<Rightarrow> socket res" where
  "handle_SYN_SENT E event e =
     (case event of PACKET_ARRIVAL \<Rightarrow> handle_packet E e | TIMEOUT \<Rightarrow> handle_timeout E e | _ \<Rightarrow> Inr e)"

definition handle_ESTABLISHED :: "env \<Rightarrow> tcp_event \<Rightarrow> socket \<Rightarrow> socket res" where
  "handle_ESTABLISHED E event e =
     (case event of
        APPLICATION_SEND \<Rightarrow> process_send_buffer E e
      | PACKET_ARRIVAL \<Rightarrow> handle_packet E e
      | APPLICATION_RECEIVE \<Rightarrow> Inr (e\<lparr>RCV_WND := available32 (recv_buf e)\<rparr>)
      | APPLICATION_CLOSE \<Rightarrow>
          (let e = e\<lparr>closing := True, send_buf := circular_buffer_close (send_buf e)\<rparr> in
           rbind (if circular_buffer_count (send_buf e) = 0 then send_fin_once E e
                  else process_send_buffer E e)
             (\<lambda>e. Inr (update_tcp_state E FIN_WAIT_1 e)))
      | TIMEOUT \<Rightarrow> handle_timeout E e
      | _ \<Rightarrow> Inr e)"

definition handle_FIN_WAIT_1 :: "env \<Rightarrow> tcp_event \<Rightarrow> socket \<Rightarrow> socket res" where
  "handle_FIN_WAIT_1 E event e =
     (case event of
        PACKET_ARRIVAL \<Rightarrow>
          rbind (handle_packet E e) (\<lambda>e.
            if circular_buffer_count (send_buf e) = 0 \<and> closing e then send_fin_once E e
            else process_send_buffer E e)
      | TIMEOUT \<Rightarrow> handle_timeout E e
      | _ \<Rightarrow> Inr e)"

definition handle_FIN_WAIT_2 :: "env \<Rightarrow> tcp_event \<Rightarrow> socket \<Rightarrow> socket res" where
  "handle_FIN_WAIT_2 E event e =
     (case event of PACKET_ARRIVAL \<Rightarrow> handle_packet E e | TIMEOUT \<Rightarrow> handle_timeout E e | _ \<Rightarrow> Inr e)"

definition handle_CLOSE_WAIT :: "env \<Rightarrow> tcp_event \<Rightarrow> socket \<Rightarrow> socket res" where
  "handle_CLOSE_WAIT E event e =
     (case event of
        APPLICATION_CLOSE \<Rightarrow>
          (let e = e\<lparr>closing := True, send_buf := circular_buffer_close (send_buf e)\<rparr> in
           if circular_buffer_count (send_buf e) = 0
           then rbind (send_fin_once E e) (\<lambda>e. Inr (update_tcp_state E LAST_ACK e))
           else process_send_buffer E e)
      | PACKET_ARRIVAL \<Rightarrow>
          rbind (handle_packet E e) (\<lambda>e.
            if circular_buffer_count (send_buf e) = 0 \<and> closing e
            then rbind (send_fin_once E e) (\<lambda>e. Inr (update_tcp_state E CLOSING e))
            else Inr e)
      | TIMEOUT \<Rightarrow> handle_timeout E e
      | _ \<Rightarrow> Inr e)"

definition handle_CLOSING :: "env \<Rightarrow> tcp_event \<Rightarrow> socket \<Rightarrow> socket res" where
  "handle_CLOSING E event e =
     (case event of PACKET_ARRIVAL \<Rightarrow> handle_packet E e | TIMEOUT \<Rightarrow> handle_timeout E e | _ \<Rightarrow> Inr e)"

definition handle_TIME_WAIT :: "env \<Rightarrow> tcp_event \<Rightarrow> socket \<Rightarrow> socket res" where
  "handle_TIME_WAIT E event e = Inr e"

definition handle_LAST_ACK :: "env \<Rightarrow> tcp_event \<Rightarrow> socket \<Rightarrow> socket res" where
  "handle_LAST_ACK E event e = (if event = PACKET_ARRIVAL then handle_packet E e else Inr e)"

section \<open>The TCP thread\<close>

text \<open>\<open>chitcpd_dispatch_tcp\<close>: the handler is chosen by the state before the event.\<close>

definition dispatch_tcp :: "env \<Rightarrow> tcp_event \<Rightarrow> socket \<Rightarrow> socket res" where
  "dispatch_tcp E event e =
     (case tcp_state e of
        CLOSED \<Rightarrow> handle_CLOSED E event e
      | LISTEN \<Rightarrow> handle_LISTEN E event e
      | SYN_RCVD \<Rightarrow> handle_SYN_RCVD E event e
      | SYN_SENT \<Rightarrow> handle_SYN_SENT E event e
      | ESTABLISHED \<Rightarrow> handle_ESTABLISHED E event e
      | FIN_WAIT_1 \<Rightarrow> handle_FIN_WAIT_1 E event e
      | FIN_WAIT_2 \<Rightarrow> handle_FIN_WAIT_2 E event e
      | CLOSE_WAIT \<Rightarrow> handle_CLOSE_WAIT E event e
      | CLOSING \<Rightarrow> handle_CLOSING E event e
      | TIME_WAIT \<Rightarrow> handle_TIME_WAIT E event e
      | LAST_ACK \<Rightarrow> handle_LAST_ACK E event e)"

lemmas handlers = handle_CLOSED_def handle_LISTEN_def handle_SYN_RCVD_def handle_SYN_SENT_def
  handle_ESTABLISHED_def handle_FIN_WAIT_1_def handle_FIN_WAIT_2_def handle_CLOSE_WAIT_def
  handle_CLOSING_def handle_TIME_WAIT_def handle_LAST_ACK_def

text \<open>
  One iteration of the loop of \<open>chitcpd_tcp_thread_func\<close> (lines 272 to 350), from a state with
  some flag set: the boolean is \<open>done\<close>. While no flag is set the thread waits (\<open>None\<close>).
\<close>

definition thread_step :: "env \<Rightarrow> socket \<Rightarrow> (bool \<times> socket) res option" where
  "thread_step E e =
     (let f = flags e; continue = (\<lambda>r. Some (rbind r (\<lambda>e. Inr (False, e)))) in
      if app_close f then
        continue (dispatch_tcp E APPLICATION_CLOSE (e\<lparr>flags := f\<lparr>app_close := False\<rparr>\<rparr>))
      else if app_connect f then
        continue (dispatch_tcp E APPLICATION_CONNECT (e\<lparr>flags := f\<lparr>app_connect := False\<rparr>\<rparr>))
      else if app_recv f then
        continue (dispatch_tcp E APPLICATION_RECEIVE (e\<lparr>flags := f\<lparr>app_recv := False\<rparr>\<rparr>))
      else if app_send f then
        continue (dispatch_tcp E APPLICATION_SEND (e\<lparr>flags := f\<lparr>app_send := False\<rparr>\<rparr>))
      else if net_recv f then
        continue (rbind (dispatch_tcp E PACKET_ARRIVAL (e\<lparr>flags := f\<lparr>net_recv := False\<rparr>\<rparr>))
          (\<lambda>e. Inr (if pending_packets e \<noteq> []
                    then e\<lparr>flags := (flags e)\<lparr>net_recv := True\<rparr>\<rparr> else e)))
      else if cleanup f then
        (if tcp_state e = CLOSED
         then Some (rbind (dispatch_tcp E CLEANUP e) (\<lambda>e. Inr (True, e)))
         else Some (Inl Assert_fail))
      else if timeout f then
        continue (dispatch_tcp E TIMEOUT (e\<lparr>flags := f\<lparr>timeout := False\<rparr>\<rparr>))
      else None)"

text \<open>The network side: \<open>chitcpd_enqueue_packet\<close> of \<open>connection.c\<close>.\<close>

definition enqueue_packet :: "env \<Rightarrow> packet \<Rightarrow> socket \<Rightarrow> socket" where
  "enqueue_packet E p e =
     (let (r, e) = debug_breakpoint E e;
          e = (if r = DBG_RESP_WITHHOLD \<or> r = DBG_RESP_DUPLICATE
               then e\<lparr>withheld_packets := withheld_packets e @ [p]\<rparr> else e);
          e = (if r = DBG_RESP_DRAW_WITHHELD
               then (case withheld_packets e of
                       [] \<Rightarrow> e
                     | q # qs \<Rightarrow> e\<lparr>withheld_packets := qs,
                                   pending_packets := pending_packets e @ [q]\<rparr>)
               else e)
      in if r \<in> {DBG_RESP_NONE, DBG_RESP_DRAW_WITHHELD, DBG_RESP_DUPLICATE}
         then e\<lparr>pending_packets := pending_packets e @ [p],
                flags := (flags e)\<lparr>net_recv := True\<rparr>\<rparr>
         else e)"

section \<open>The application's calls\<close>

text \<open>
  The handlers of \<open>chisocket_send\<close>, \<open>chisocket_recv\<close> and \<open>chisocket_close\<close> in \<open>handlers.c\<close>, on
  the entry of a valid descriptor. They run in the application's thread: they only touch the
  buffers and the event flags. A call that waits for room, for data or (\<open>chisocket_close\<close>, after
  it has raised the flag) for a closing state is \<open>App_waits\<close>.
\<close>

datatype errno = EINVAL | ENOTCONN | EOPNOTSUPP | EBADF | ENOMEM | EAGAIN | EALREADY

datatype app_outcome = App_done int "errno option" "byte list" socket | App_waits socket
  | App_fault fault

definition app_error :: "errno \<Rightarrow> socket \<Rightarrow> app_outcome" where
  "app_error err e = App_done (-1) (Some err) [] e"

definition app_send_call :: "byte list \<Rightarrow> socket \<Rightarrow> app_outcome" where
  "app_send_call data e =
     (if data = [] then app_error EINVAL e
      else if tcp_state e = CLOSED then app_error ENOTCONN e
      else if tcp_state e = LISTEN then app_error EOPNOTSUPP e
      else if tcp_state e \<notin> {SYN_SENT, SYN_RCVD, ESTABLISHED, CLOSE_WAIT}
      then app_error ENOTCONN e
      else case circular_buffer_write (send_buf e) data (of_nat (length data)) True of
             Undefined \<Rightarrow> App_fault Overrun
           | Blocks b w \<Rightarrow> App_waits (e\<lparr>send_buf := b\<rparr>)
           | Returns nbytes b \<Rightarrow>
               (let e = e\<lparr>send_buf := b\<rparr> in
                if nbytes < 0 then app_error EINVAL e
                else App_done nbytes None []
                       (if tcp_state e \<in> {ESTABLISHED, CLOSE_WAIT}
                        then e\<lparr>flags := (flags e)\<lparr>app_send := True\<rparr>\<rparr> else e)))"

definition app_recv_call :: "nat \<Rightarrow> socket \<Rightarrow> app_outcome" where
  "app_recv_call len e =
     (if len = 0 then app_error EINVAL e
      else if tcp_state e = CLOSED then app_error ENOTCONN e
      else if tcp_state e = LISTEN \<and> actpas_type e = SOCKET_PASSIVE then app_error ENOTCONN e
      else if tcp_state e \<in> {LAST_ACK, TIME_WAIT, CLOSING} then App_done 0 None [] e
      else case circular_buffer_read (recv_buf e) (of_nat len) True of
             Undefined \<Rightarrow> App_fault Overrun
           | Blocks b w \<Rightarrow> App_waits e
           | Returns nbytes (b, d) \<Rightarrow>
               (let e = e\<lparr>recv_buf := b\<rparr> in
                if nbytes < 0 then app_error EINVAL e
                else if nbytes = 0 then
                  (if tcp_state e \<in> {CLOSING, TIME_WAIT, CLOSE_WAIT, LAST_ACK, CLOSED}
                   then App_done 0 None [] e else App_fault Assert_fail)
                else App_done nbytes None d
                       (if tcp_state e \<in> {ESTABLISHED, FIN_WAIT_1, FIN_WAIT_2}
                        then e\<lparr>flags := (flags e)\<lparr>app_recv := True\<rparr>\<rparr> else e)))"

definition app_close_call :: "socket \<Rightarrow> app_outcome" where
  "app_close_call e =
     (if tcp_state e = CLOSED then app_error ENOTCONN e
      else if tcp_state e \<in> {LISTEN, SYN_SENT, SYN_RCVD} then app_error EOPNOTSUPP e
      else if tcp_state e \<in> {FIN_WAIT_1, FIN_WAIT_2, CLOSING, LAST_ACK, TIME_WAIT}
      then app_error ENOTCONN e
      else App_waits (e\<lparr>flags := (flags e)\<lparr>app_close := True\<rparr>\<rparr>))"

section \<open>Everything that can happen to a socket\<close>

datatype socket_event = Ev_thread | Ev_packet packet | Ev_timer | Ev_send "byte list"
  | Ev_recv nat | Ev_close

definition app_result :: "app_outcome \<Rightarrow> socket res" where
  "app_result out = (case out of App_done r err d e \<Rightarrow> Inr e | App_waits e \<Rightarrow> Inr e
     | App_fault f \<Rightarrow> Inl f)"

text \<open>The thread waits while no flag is set; after a cleanup it is gone and the entry is free.\<close>

definition socket_step :: "env \<Rightarrow> socket_event \<Rightarrow> socket \<Rightarrow> socket res" where
  "socket_step E ev e =
     (case ev of
        Ev_thread \<Rightarrow> (case thread_step E e of None \<Rightarrow> Inr e | Some r \<Rightarrow> rbind r (\<lambda>(d, e). Inr e))
      | Ev_packet p \<Rightarrow> Inr (enqueue_packet E p e)
      | Ev_timer \<Rightarrow> Inr (chitcpd_timeout e)
      | Ev_send data \<Rightarrow> app_result (app_send_call data e)
      | Ev_recv n \<Rightarrow> app_result (app_recv_call n e)
      | Ev_close \<Rightarrow> app_result (app_close_call e))"

end
