(* ===== verification/Tcp_Frame.thy ===== *)
theory Tcp_Frame
  imports Tcp
begin

text \<open>
  What each operation of the TCP model leaves alone, and when it succeeds: the sending operations
  only append to the wire and the retransmission queue and consume answers of the environment.
\<close>

section \<open>Sending\<close>

lemma send_loop_frame:
  "\<exists>w k. snd (send_loop E buf e) = e\<lparr>wire := wire e @ w, n_send := k\<rparr>"
proof (induction E buf e rule: send_loop.induct)
  case (1 E buf e)
  show ?case
  proof (cases "buf = []")
    case True
    then have "snd (send_loop E buf e) = e\<lparr>wire := wire e @ [], n_send := n_send e\<rparr>"
      by (simp add: send_loop.simps)
    then show ?thesis by blast
  next
    case ne: False
    let ?e = "e\<lparr>n_send := Suc (n_send e)\<rparr>"
    show ?thesis
    proof (cases "e_send E (n_send e) \<le> 0")
      case True
      then have "snd (send_loop E buf e) = e\<lparr>wire := wire e @ [], n_send := Suc (n_send e)\<rparr>"
        using ne by (simp add: send_loop.simps)
      then show ?thesis by blast
    next
      case False
      define n where "n = min (nat (e_send E (n_send e))) (length buf)"
      have step: "send_loop E buf e = send_loop E (drop n buf) (?e\<lparr>wire := wire ?e @ take n buf\<rparr>)"
        using ne False by (subst send_loop.simps) (simp add: Let_def n_def)
      obtain w k where "snd (send_loop E (drop n buf) (?e\<lparr>wire := wire ?e @ take n buf\<rparr>))
          = (?e\<lparr>wire := wire ?e @ take n buf\<rparr>)\<lparr>wire := wire (?e\<lparr>wire := wire ?e @ take n buf\<rparr>) @ w,
             n_send := k\<rparr>"
        using 1 [OF ne refl refl _ n_def] False by auto
      with step have "snd (send_loop E buf e) = e\<lparr>wire := wire e @ (take n buf @ w), n_send := k\<rparr>"
        by simp
      then show ?thesis by blast
    qed
  qed
qed

text \<open>When every \<open>send\<close> accepts all it is given, the whole frame goes on the wire at once.\<close>

definition send_whole :: "env \<Rightarrow> bool" where
  "send_whole E \<longleftrightarrow> (\<forall>k. 70000 \<le> e_send E k)"

lemma send_loop_whole:
  assumes "send_whole E" "buf \<noteq> []" "length buf \<le> 70000"
  shows "send_loop E buf e = (0, e\<lparr>wire := wire e @ buf, n_send := Suc (n_send e)\<rparr>)"
proof -
  have "70000 \<le> e_send E (n_send e)" using assms(1) by (simp add: send_whole_def)
  then show ?thesis
    using assms(2,3) by (subst send_loop.simps) (simp add: Let_def send_loop.simps nat_le_iff)
qed

lemma send_tcp_packet_frame:
  "\<exists>w j k. send_tcp_packet E p e = e\<lparr>wire := wire e @ w, n_debug := j, n_send := k\<rparr>"
proof -
  let ?e = "e\<lparr>n_debug := Suc (n_debug e)\<rparr>"
  obtain w k where l: "snd (send_loop E (chitcp_frame p) ?e)
      = ?e\<lparr>wire := wire ?e @ w, n_send := k\<rparr>"
    using send_loop_frame by blast
  show ?thesis
  proof (cases "e_debug E (n_debug e) = DBG_RESP_DROP")
    case True
    then have "send_tcp_packet E p e
        = e\<lparr>wire := wire e @ [], n_debug := Suc (n_debug e), n_send := n_send e\<rparr>"
      by (simp add: send_tcp_packet_def debug_breakpoint_def)
    then show ?thesis by blast
  next
    case False
    then have "send_tcp_packet E p e
        = e\<lparr>wire := wire e @ w, n_debug := Suc (n_debug e), n_send := k\<rparr>"
      using l by (simp add: send_tcp_packet_def debug_breakpoint_def)
    then show ?thesis by blast
  qed
qed

text \<open>No breakpoint drops or withholds anything: the monitor lets every packet pass.\<close>

definition no_monitor :: "env \<Rightarrow> bool" where
  "no_monitor E \<longleftrightarrow> (\<forall>k. e_debug E k = DBG_RESP_NONE)"

lemma send_tcp_packet_whole:
  assumes "send_whole E" "no_monitor E" "length p < 65536"
  shows "send_tcp_packet E p e = e\<lparr>wire := wire e @ chitcp_frame p,
     n_debug := Suc (n_debug e), n_send := Suc (n_send e)\<rparr>"
proof -
  have "chitcp_frame p \<noteq> []" "length (chitcp_frame p) \<le> 70000"
    using assms(3) by (simp_all add: chitcp_frame_def)
  from send_loop_whole [OF assms(1) this] assms(2) show ?thesis
    by (simp add: send_tcp_packet_def debug_breakpoint_def no_monitor_def)
qed

section \<open>State changes\<close>

lemma update_tcp_state_frame:
  "\<exists>f. update_tcp_state E s e = e\<lparr>tcp_state := s, n_debug := Suc (n_debug e), flags := f\<rparr>"
proof (cases "s = CLOSED \<and> actpas_type e = SOCKET_ACTIVE")
  case True
  then have "update_tcp_state E s e = e\<lparr>tcp_state := s, n_debug := Suc (n_debug e),
      flags := (flags e)\<lparr>cleanup := True\<rparr>\<rparr>"
    by (simp add: update_tcp_state_def debug_breakpoint_def)
  then show ?thesis by blast
next
  case False
  then have "update_tcp_state E s e = e\<lparr>tcp_state := s, n_debug := Suc (n_debug e),
      flags := flags e\<rparr>"
    by (auto simp: update_tcp_state_def debug_breakpoint_def)
  then show ?thesis by blast
qed

lemma update_tcp_state_sel [simp]:
  "tcp_state (update_tcp_state E s e) = s"
  "retrans_q (update_tcp_state E s e) = retrans_q e"
  "retrans_q_locked (update_tcp_state E s e) = retrans_q_locked e"
  "SND_UNA (update_tcp_state E s e) = SND_UNA e"
  "SND_NXT (update_tcp_state E s e) = SND_NXT e"
  "SND_WND (update_tcp_state E s e) = SND_WND e"
  "ISS (update_tcp_state E s e) = ISS e"
  "IRS (update_tcp_state E s e) = IRS e"
  "RCV_NXT (update_tcp_state E s e) = RCV_NXT e"
  "RCV_WND (update_tcp_state E s e) = RCV_WND e"
  "send_buf (update_tcp_state E s e) = send_buf e"
  "recv_buf (update_tcp_state E s e) = recv_buf e"
  "oop_packet_list (update_tcp_state E s e) = oop_packet_list e"
  "pending_packets (update_tcp_state E s e) = pending_packets e"
  "closing (update_tcp_state E s e) = closing e"
  "finsent (update_tcp_state E s e) = finsent e"
  "actpas_type (update_tcp_state E s e) = actpas_type e"
  "wire (update_tcp_state E s e) = wire e"
  "local_port (update_tcp_state E s e) = local_port e"
  "remote_port (update_tcp_state E s e) = remote_port e"
  using update_tcp_state_frame [of E s e] by auto

section \<open>The retransmission queue\<close>

lemma add_packet_to_retrans_q_eq:
  "add_packet_to_retrans_q E p e =
     (if retrans_q_locked e then Inl Self_deadlock
      else Inr (e\<lparr>n_clock := Suc (n_clock e), retrans_q := retrans_q e @
        [\<lparr>rq_packet = p, rq_sent = e_clock E (n_clock e),
          rq_timeout = timespec_add (e_clock E (n_clock e)) (rto e)\<rparr>]\<rparr>))"
  by (simp add: add_packet_to_retrans_q_def make_reqmember_def clock_gettime_def
      lock_retrans_q_def unlock_retrans_q_def)

text \<open>Deleting the marked positions one after the other keeps exactly the unmarked elements.\<close>

lemma list_delete_at_append:
  "list_delete_at (xs @ y # ys) (length xs) = xs @ ys"
  by (simp add: list_delete_at_def)

lemma delete_marked_aux:
  assumes "j = length xs + ndel" "j + length ys \<le> length b"
    and "\<forall>k < length ys. (b ! (j + k) = 1) = P (ys ! k)"
  shows "delete_marked b [j..<j + length ys] ndel (xs @ ys) = Inr (xs @ filter (\<lambda>y. \<not> P y) ys)"
  using assms
proof (induction ys arbitrary: j ndel xs)
  case Nil
  then show ?case by simp
next
  case (Cons y ys)
  have tl: "\<forall>k < length ys. (b ! (Suc j + k) = 1) = P (ys ! k)"
    using Cons.prems(3) by (auto dest: spec [of _ "Suc _"])
  have hd: "(b ! j = 1) = P y" using Cons.prems(3) by (auto dest: spec [of _ 0])
  have js: "[j..<j + length (y # ys)] = j # [Suc j..<Suc j + length ys]" by (simp add: upt_rec)
  show ?case
  proof (cases "P y")
    case True
    then have "delete_marked b [j..<j + length (y # ys)] ndel (xs @ y # ys)
        = delete_marked b [Suc j..<Suc j + length ys] (Suc ndel) (xs @ ys)"
      using Cons.prems hd list_delete_at_append [of xs y ys] unfolding js by simp
    then show ?thesis
      using Cons.IH [of "Suc j" xs "Suc ndel"] Cons.prems True tl by simp
  next
    case False
    then show ?thesis
      using Cons.IH [of "Suc j" "xs @ [y]" ndel] Cons.prems hd tl unfolding js by simp
  qed
qed

lemma delete_marked_filter:
  assumes "length q \<le> length b" "\<forall>k < length q. (b ! k = 1) = P (q ! k)"
  shows "delete_marked b [0..<length q] 0 q = Inr (filter (\<lambda>y. \<not> P y) q)"
  using delete_marked_aux [of 0 "[]" 0 q b P] assms by simp

text \<open>Whatever the block holds, nothing is added; a block that is too short is overrun.\<close>

lemma delete_marked_subset:
  "delete_marked b js ndel q = Inr q' \<Longrightarrow> set q' \<subseteq> set q"
proof (induction b js ndel q rule: delete_marked.induct)
  case (2 b j js ndel q)
  have "set (list_delete_at q (j - ndel)) \<subseteq> set q"
    by (auto simp: list_delete_at_def dest: in_set_takeD in_set_dropD)
  with 2 show ?case by (auto split: if_splits)
qed simp

lemma delete_marked_short:
  "\<exists>j \<in> set js. length b \<le> j \<Longrightarrow> delete_marked b js ndel q = Inl Overrun"
  by (induction b js ndel q rule: delete_marked.induct) auto

text \<open>
  The marking pass: it overruns the block, or marks exactly the acknowledged elements and changes
  nothing of the socket but the timeouts.
\<close>

lemma ack_pass_cases:
  "ack_pass E unack i q b e = Inl Overrun \<or>
   (\<exists>b' s r. ack_pass E unack i q b e = Inr (b', e\<lparr>srtt := s, rto := r\<rparr>) \<and> length b' = length b)"
proof (induction E unack i q b e rule: ack_pass.induct)
  case (1 E unack i b e)
  have "ack_pass E unack i [] b e = Inr (b, e\<lparr>srtt := srtt e, rto := rto e\<rparr>)" by simp
  then show ?case by blast
next
  case (2 E unack i cur q b e)
  show ?case
  proof (cases "fully_acked unack (rq_packet cur)")
    case True
    let ?e = "update_rto E (timespec_sub (mostrecentackin e) (rq_sent cur)) e"
    show ?thesis
    proof (cases "i < length b")
      case False
      then show ?thesis using True by (simp add: Let_def mark_delete_def)
    next
      case room: True
      then have step: "ack_pass E unack i (cur # q) b e = ack_pass E unack (Suc i) q (b[i := 1]) ?e"
        using True by (simp add: Let_def mark_delete_def)
      have "mark_delete b i = Inr (b[i := 1])" using room by (simp add: mark_delete_def)
      from 2(1) [OF True refl this] show ?thesis
      proof (elim disjE exE conjE)
        assume "ack_pass E unack (Suc i) q (b[i := 1]) ?e = Inl Overrun"
        then show ?thesis using step by simp
      next
        fix b' s r
        assume "ack_pass E unack (Suc i) q (b[i := 1]) ?e = Inr (b', ?e\<lparr>srtt := s, rto := r\<rparr>)"
          and "length b' = length (b[i := 1])"
        moreover have "?e\<lparr>srtt := s, rto := r\<rparr> = e\<lparr>srtt := s, rto := r\<rparr>"
          by (simp add: update_rto_def Let_def)
        ultimately show ?thesis unfolding step by (intro disjI2 exI [of _ b'] exI [of _ s] exI [of _ r]) simp
      qed
    qed
  qed (use 2(2) in simp)
qed

lemma ack_pass_marks:
  assumes "i + length q \<le> length b"
  obtains b' s r where "ack_pass E unack i q b e = Inr (b', e\<lparr>srtt := s, rto := r\<rparr>)"
    and "length b' = length b" "\<forall>k < i. b' ! k = b ! k"
    and "\<forall>k < length q. b' ! (i + k) =
      (if fully_acked unack (rq_packet (q ! k)) then 1 else b ! (i + k))"
  using assms
proof (induction q arbitrary: thesis i b e)
  case Nil
  show ?case by (rule Nil(1) [of b "rto e" "srtt e"]) simp_all
next
  case (Cons cur q)
  define acked where "acked = fully_acked unack (rq_packet cur)"
  define b1 where "b1 = (if acked then b[i := 1] else b)"
  define e1 where "e1 = (if acked
    then update_rto E (timespec_sub (mostrecentackin e) (rq_sent cur)) e else e)"
  have l: "Suc i + length q \<le> length b1" using Cons.prems(2) by (simp add: b1_def)
  obtain b' s r where IH: "ack_pass E unack (Suc i) q b1 e1 = Inr (b', e1\<lparr>srtt := s, rto := r\<rparr>)"
    "length b' = length b1" "\<forall>k < Suc i. b' ! k = b1 ! k"
    "\<forall>k < length q. b' ! (Suc i + k) =
      (if fully_acked unack (rq_packet (q ! k)) then 1 else b1 ! (Suc i + k))"
    using Cons.IH [OF _ l, of e1] by blast
  have step: "ack_pass E unack i (cur # q) b e = ack_pass E unack (Suc i) q b1 e1"
    using Cons.prems(2) by (simp add: b1_def e1_def acked_def mark_delete_def Let_def)
  have e1: "e1\<lparr>srtt := s, rto := r\<rparr> = e\<lparr>srtt := s, rto := r\<rparr>"
    by (simp add: e1_def update_rto_def Let_def)
  show ?case
  proof (rule Cons.prems(1) [of b' r s])
    show "ack_pass E unack i (cur # q) b e = Inr (b', e\<lparr>srtt := s, rto := r\<rparr>)"
      using step IH(1) e1 by simp
    show "length b' = length b" using IH(2) by (simp add: b1_def)
    show "\<forall>k < i. b' ! k = b ! k" using IH(3) by (simp add: b1_def)
    show "\<forall>k < length (cur # q). b' ! (i + k) =
      (if fully_acked unack (rq_packet ((cur # q) ! k)) then 1 else b ! (i + k))"
    proof (intro allI impI)
      fix k assume k: "k < length (cur # q)"
      show "b' ! (i + k) = (if fully_acked unack (rq_packet ((cur # q) ! k)) then 1 else b ! (i + k))"
      proof (cases k)
        case 0
        then have "b' ! (i + k) = b1 ! i" using IH(3) by simp
        then show ?thesis using Cons.prems(2) 0 by (simp add: b1_def acked_def)
      next
        case (Suc m)
        then show ?thesis using IH(4) k by (simp add: b1_def)
      qed
    qed
  qed
qed

text \<open>With room in the block the acknowledged packets, and only they, leave the queue.\<close>

lemma process_q_after_ack_ok:
  assumes "\<not> retrans_q_locked e" "block_room (e_alloc E (n_alloc e)) (length (retrans_q e))"
  shows "\<exists>s r. process_q_after_ack E e = Inr (e\<lparr>srtt := s, rto := r, n_alloc := Suc (n_alloc e),
    retrans_q := filter (\<lambda>m. \<not> fully_acked (SND_UNA e) (rq_packet m)) (retrans_q e)\<rparr>)"
proof -
  let ?b = "e_alloc E (n_alloc e)"
  let ?e = "e\<lparr>n_alloc := Suc (n_alloc e), retrans_q_locked := True\<rparr>"
  let ?q = "filter (\<lambda>m. \<not> fully_acked (SND_UNA e) (rq_packet m)) (retrans_q e)"
  have room: "0 + length (retrans_q e) \<le> length ?b" "\<forall>k < length (retrans_q e). ?b ! k \<noteq> 1"
    using assms(2) by (simp_all add: block_room_def)
  obtain b s r where p: "ack_pass E (SND_UNA e) 0 (retrans_q e) ?b ?e = Inr (b, ?e\<lparr>srtt := s, rto := r\<rparr>)"
    and b: "length b = length ?b" "\<forall>k < length (retrans_q e). b ! (0 + k) =
      (if fully_acked (SND_UNA e) (rq_packet (retrans_q e ! k)) then 1 else ?b ! (0 + k))"
    by (rule ack_pass_marks [OF room(1)])
  have "delete_marked b [0..<length (retrans_q e)] 0 (retrans_q e) = Inr ?q"
    using room b by (intro delete_marked_filter) auto
  then have "process_q_after_ack E e = Inr (unlock_retrans_q (?e\<lparr>srtt := s, rto := r, retrans_q := ?q\<rparr>))"
    using assms(1) p by (simp add: process_q_after_ack_def lock_retrans_q_def calloc_none_def Let_def)
  moreover have "unlock_retrans_q (?e\<lparr>srtt := s, rto := r, retrans_q := ?q\<rparr>)
      = e\<lparr>srtt := s, rto := r, n_alloc := Suc (n_alloc e), retrans_q := ?q\<rparr>"
    using assms(1) by (simp add: unlock_retrans_q_def)
  ultimately show ?thesis by metis
qed

text \<open>A block with fewer ints than the queue has elements is overrun.\<close>

lemma process_q_after_ack_short:
  assumes "\<not> retrans_q_locked e" "length (e_alloc E (n_alloc e)) < length (retrans_q e)"
  shows "process_q_after_ack E e = Inl Overrun"
proof -
  let ?b = "e_alloc E (n_alloc e)"
  let ?e = "e\<lparr>n_alloc := Suc (n_alloc e), retrans_q_locked := True\<rparr>"
  from ack_pass_cases [of E "SND_UNA e" 0 "retrans_q e" ?b ?e] show ?thesis
  proof (elim disjE exE conjE)
    assume "ack_pass E (SND_UNA e) 0 (retrans_q e) ?b ?e = Inl Overrun"
    then show ?thesis
      using assms(1) by (simp add: process_q_after_ack_def lock_retrans_q_def calloc_none_def Let_def)
  next
    fix b s r
    assume p: "ack_pass E (SND_UNA e) 0 (retrans_q e) ?b ?e = Inr (b, ?e\<lparr>srtt := s, rto := r\<rparr>)"
      and "length b = length ?b"
    then have "delete_marked b [0..<length (retrans_q e)] 0 (retrans_q e) = Inl Overrun"
      using assms(2) by (intro delete_marked_short) auto
    then show ?thesis
      using assms(1) p by (simp add: process_q_after_ack_def lock_retrans_q_def calloc_none_def Let_def)
  qed
qed

text \<open>Whatever the block, a call that returns leaves part of the queue.\<close>

lemma process_q_after_ack_frame:
  assumes "process_q_after_ack E e = Inr e'"
  obtains s r q where "e' = e\<lparr>srtt := s, rto := r, n_alloc := Suc (n_alloc e), retrans_q := q\<rparr>"
    and "set q \<subseteq> set (retrans_q e)"
proof -
  let ?b = "e_alloc E (n_alloc e)"
  let ?e = "e\<lparr>n_alloc := Suc (n_alloc e), retrans_q_locked := True\<rparr>"
  have free: "\<not> retrans_q_locked e"
    using assms by (auto simp: process_q_after_ack_def lock_retrans_q_def calloc_none_def Let_def)
  have run: "process_q_after_ack E e =
      rbind (ack_pass E (SND_UNA e) 0 (retrans_q e) ?b ?e) (\<lambda>(b, e1).
      rbind (delete_marked b [0..<length (retrans_q e)] 0 (retrans_q e1)) (\<lambda>q.
        Inr (unlock_retrans_q (e1\<lparr>retrans_q := q\<rparr>))))"
    using free by (simp add: process_q_after_ack_def lock_retrans_q_def calloc_none_def Let_def)
  from ack_pass_cases [of E "SND_UNA e" 0 "retrans_q e" ?b ?e] obtain b s r where
    p: "ack_pass E (SND_UNA e) 0 (retrans_q e) ?b ?e = Inr (b, ?e\<lparr>srtt := s, rto := r\<rparr>)"
    using assms run by auto
  then obtain q where d: "delete_marked b [0..<length (retrans_q e)] 0 (retrans_q e) = Inr q"
    using assms run by (cases "delete_marked b [0..<length (retrans_q e)] 0 (retrans_q e)") auto
  show ?thesis
  proof (rule that)
    show "set q \<subseteq> set (retrans_q e)" by (rule delete_marked_subset [OF d])
    have "e' = unlock_retrans_q (?e\<lparr>srtt := s, rto := r, retrans_q := q\<rparr>)"
      using assms run p d by simp
    also have "\<dots> = e\<lparr>srtt := s, rto := r, n_alloc := Suc (n_alloc e), retrans_q := q\<rparr>"
      using free by (simp add: unlock_retrans_q_def)
    finally show "e' = e\<lparr>srtt := s, rto := r, n_alloc := Suc (n_alloc e), retrans_q := q\<rparr>" .
  qed
qed

lemma process_q_after_ack_locked:
  "retrans_q_locked e \<Longrightarrow> process_q_after_ack E e = Inl Self_deadlock"
  by (simp add: process_q_after_ack_def lock_retrans_q_def calloc_none_def Let_def)

section \<open>Segments\<close>

definition segment :: "byte list \<Rightarrow> bool \<Rightarrow> bool \<Rightarrow> u32 \<Rightarrow> bool \<Rightarrow> socket \<Rightarrow> packet" where
  "segment d fin noack sq syn e =
     (case chitcp_tcp_packet_create (Some d) (of_nat (length d)) of
        Inl f \<Rightarrow> []
      | Inr p \<Rightarrow> set_header_fields sq (RCV_NXT e) fin syn (\<not> noack) (ucast (RCV_WND e))
                   (set_header_ports (local_port e) (remote_port e) p))"

lemma create_segment:
  assumes "length d < 65536"
  shows "\<exists>p. chitcp_tcp_packet_create (Some d) (of_nat (length d)) = Inr p"
  using assms by (intro packet_create_some) (simp add: unat_of_nat)

lemma segment_fields:
  assumes "length d < 65536"
  shows "length (segment d fin noack sq syn e) = 20 + length d"
    and "SEG_SEQ (segment d fin noack sq syn e) = sq"
    and "SEG_ACK (segment d fin noack sq syn e) = RCV_NXT e"
    and "SEG_WND (segment d fin noack sq syn e) = ucast (RCV_WND e)"
    and "hdr_fin (segment d fin noack sq syn e) = fin"
    and "hdr_syn (segment d fin noack sq syn e) = syn"
    and "hdr_ack (segment d fin noack sq syn e) = (\<not> noack)"
    and "hdr_doff (segment d fin noack sq syn e) = 5"
    and "TCP_PAYLOAD_START (segment d fin noack sq syn e) = d"
    and "TCP_PAYLOAD_LEN (segment d fin noack sq syn e) = of_nat (length d)"
    and "hdr_source (segment d fin noack sq syn e) = local_port e"
    and "hdr_dest (segment d fin noack sq syn e) = remote_port e"
proof -
  obtain p where p: "chitcp_tcp_packet_create (Some d) (of_nat (length d)) = Inr p"
    using create_segment [OF assms] by blast
  have u: "unat (of_nat (length d) :: u16) = length d" using assms by (simp add: unat_of_nat)
  have "segment d fin noack sq syn e = set_header_fields sq (RCV_NXT e) fin syn (\<not> noack)
      (ucast (RCV_WND e)) (set_header_ports (local_port e) (remote_port e) p)"
    by (simp add: segment_def p)
  note b = built_packet [OF p this]
  show "length (segment d fin noack sq syn e) = 20 + length d"
    "SEG_SEQ (segment d fin noack sq syn e) = sq"
    "SEG_ACK (segment d fin noack sq syn e) = RCV_NXT e"
    "SEG_WND (segment d fin noack sq syn e) = ucast (RCV_WND e)"
    "hdr_fin (segment d fin noack sq syn e) = fin"
    "hdr_syn (segment d fin noack sq syn e) = syn"
    "hdr_ack (segment d fin noack sq syn e) = (\<not> noack)"
    "hdr_doff (segment d fin noack sq syn e) = 5"
    "TCP_PAYLOAD_START (segment d fin noack sq syn e) = d"
    "TCP_PAYLOAD_LEN (segment d fin noack sq syn e) = of_nat (length d)"
    "hdr_source (segment d fin noack sq syn e) = local_port e"
    "hdr_dest (segment d fin noack sq syn e) = remote_port e"
    using b by (simp_all add: u)
qed

lemma segment_header_ok: "length d < 65536 \<Longrightarrow> header_ok (segment d fin noack sq syn e)"
  by (simp add: header_ok_def TCP_HEADER_NOOPTIONS_SIZE_def segment_fields)

lemma create_empty [simp]:
  "chitcp_tcp_packet_create (Some []) 0 = Inr ((replicate 20 0)[12 := 0x50])"
  by (simp add: chitcp_tcp_packet_create_def TCP_HEADER_NOOPTIONS_SIZE_def)

text \<open>The buffers a segment can be built from: data of its length, or a null pointer for none.\<close>

definition seg_buf :: "byte list option \<Rightarrow> byte list \<Rightarrow> bool" where
  "seg_buf buf d \<longleftrightarrow> length d < 65536 \<and> (buf = Some d \<or> buf = None \<and> d = [])"

definition new_reqmember :: "env \<Rightarrow> packet \<Rightarrow> socket \<Rightarrow> reqmember" where
  "new_reqmember E p e = \<lparr>rq_packet = p, rq_sent = e_clock E (n_clock e),
     rq_timeout = timespec_add (e_clock E (n_clock e)) (rto e)\<rparr>"

lemma rq_packet_new [simp]: "rq_packet (new_reqmember E p e) = p"
  by (simp add: new_reqmember_def)

lemma tcp_send_packet_eq:
  assumes "actpas_type e = SOCKET_ACTIVE" "seg_buf buf d"
  shows "tcp_send_packet E buf (of_nat (length d)) fin noack sq syn e =
    (let p = segment d fin noack sq syn e; e' = send_tcp_packet E p e in
     if fin \<or> syn \<or> d \<noteq> []
     then (if retrans_q_locked e then Inl Self_deadlock
           else Inr (e'\<lparr>n_clock := Suc (n_clock e), retrans_q := retrans_q e @ [new_reqmember E p e],
                       SND_NXT := SND_NXT e + of_nat (length d)\<rparr>))
     else Inr e')"
proof -
  have len: "length d < 65536" and buf: "buf = Some d \<or> buf = None \<and> d = []"
    using assms(2) by (auto simp: seg_buf_def)
  obtain p where p: "chitcp_tcp_packet_create (Some d) (of_nat (length d)) = Inr p"
    using create_segment [OF len] by blast
  have c: "chitcp_tcp_packet_create buf (ucast (of_nat (length d) :: u64)) = Inr p"
  proof -
    have "(ucast (of_nat (length d) :: u64) :: u16) = of_nat (length d)"
      by (rule ucast_of_nat_u64) (rule len)
    then show ?thesis using p buf by auto
  qed
  have seg: "set_header_fields sq (RCV_NXT e) fin syn (\<not> noack) (ucast (RCV_WND e))
      (set_header_ports (local_port e) (remote_port e) p) = segment d fin noack sq syn e"
    by (simp add: segment_def p)
  have nz: "(of_nat (length d) :: u64) \<noteq> 0 \<longleftrightarrow> d \<noteq> []"
  proof -
    have "unat (of_nat (length d) :: u64) = length d" using len by (simp add: unat_of_nat)
    then have "(of_nat (length d) :: u64) = 0 \<longleftrightarrow> length d = 0"
      by (simp only: unat_eq_0 [symmetric])
    then show ?thesis by simp
  qed
  have cast: "(ucast (of_nat (length d) :: u64) :: u32) = of_nat (length d)"
    by (rule ucast_of_nat_u64) (rule len)
  obtain w j k where s: "send_tcp_packet E (segment d fin noack sq syn e) e
      = e\<lparr>wire := wire e @ w, n_debug := j, n_send := k\<rparr>"
    using send_tcp_packet_frame by blast
  have d0: "\<not> (fin \<or> syn \<or> d \<noteq> []) \<Longrightarrow> (of_nat (length d) :: u32) = 0" by simp
  let ?p = "segment d fin noack sq syn e"
  have "tcp_send_packet E buf (of_nat (length d)) fin noack sq syn e =
      rbind (if fin \<or> syn \<or> d \<noteq> [] then add_packet_to_retrans_q E ?p (send_tcp_packet E ?p e)
             else Inr (send_tcp_packet E ?p e))
        (\<lambda>e. Inr (e\<lparr>SND_NXT := SND_NXT e + of_nat (length d)\<rparr>))"
    by (simp only: tcp_send_packet_def chitcpd_tcp_packet_create_def c rbind_Inr assms(1) simp_thms
        if_True Let_def seg nz cast)
  moreover define q where "q = ?p"
  moreover define sends where "sends = (fin \<or> syn \<or> d \<noteq> [])"
  ultimately show ?thesis
    using d0 s [folded q_def]
    by (cases sends) (simp_all add: add_packet_to_retrans_q_eq new_reqmember_def Let_def)
qed

end
