(* ===== verification/Tcp_Inv.thy ===== *)
theory Tcp_Inv
  imports Tcp_Frame "HOL-Library.Multiset"
begin

text \<open>
  The invariant of a socket and the transitions of its state machine: every event handler keeps
  the invariant and moves the state along the edges of a fixed diagram, whatever the environment
  answers.
\<close>

section \<open>The socket invariant\<close>

text \<open>
  An active socket with well-formed buffers, whose own packets have a whole header. Nothing is
  asked of the packets that wait to be handled: they come from the network.
\<close>

definition tcp_inv :: "socket \<Rightarrow> bool" where
  "tcp_inv e \<longleftrightarrow> actpas_type e = SOCKET_ACTIVE \<and> cb_wf (send_buf e) \<and> cb_wf (recv_buf e)
     \<and> (\<forall>m \<in> set (retrans_q e). header_ok (rq_packet m))
     \<and> (\<forall>p \<in> set (oop_packet_list e). header_ok p)"

text \<open>\<open>list_sort\<close> returns the same elements in ascending order of their sequence numbers.\<close>

definition sort_ok :: "env \<Rightarrow> bool" where
  "sort_ok E \<longleftrightarrow> (\<forall>ps. mset (e_sort E ps) = mset ps \<and> sorted (map SEG_SEQ (e_sort E ps)))"

lemma sort_ok_set: "sort_ok E \<Longrightarrow> set (e_sort E ps) = set ps"
  by (metis mset_eq_setD sort_ok_def)

text \<open>
  Two sockets that differ at most in what sending and taking the time touch: the wire, the
  retransmission queue (longer), the timeout estimate and the counters.
\<close>

definition sent_more :: "socket \<Rightarrow> socket \<Rightarrow> bool" where
  "sent_more e e' \<longleftrightarrow> (\<exists>w j k c q n. (\<forall>m \<in> set q. header_ok (rq_packet m)) \<and>
     e' = e\<lparr>wire := wire e @ w, n_debug := j, n_send := k, n_clock := c,
            retrans_q := retrans_q e @ q, SND_NXT := n\<rparr>)"

lemma tcp_send_packet_sent:
  assumes "actpas_type e = SOCKET_ACTIVE" "seg_buf buf d"
    and "tcp_send_packet E buf (of_nat (length d)) fin noack sq syn e = Inr e'"
  shows "sent_more e e' \<and> SND_NXT e' = SND_NXT e + of_nat (length d)
    \<and> (retrans_q_locked e \<longrightarrow> d = [] \<and> \<not> fin \<and> \<not> syn)"
proof -
  have len: "length d < 65536" using assms(2) by (simp add: seg_buf_def)
  let ?p = "segment d fin noack sq syn e"
  obtain w j k where s: "send_tcp_packet E ?p e
      = e\<lparr>wire := wire e @ w, n_debug := j, n_send := k\<rparr>"
    using send_tcp_packet_frame by blast
  show ?thesis
  proof (cases "fin \<or> syn \<or> d \<noteq> []")
    case True
    then have e': "\<not> retrans_q_locked e" "e' = e\<lparr>wire := wire e @ w, n_debug := j, n_send := k,
        n_clock := Suc (n_clock e), retrans_q := retrans_q e @ [new_reqmember E ?p e],
        SND_NXT := SND_NXT e + of_nat (length d)\<rparr>"
      using assms(3) unfolding tcp_send_packet_eq [OF assms(1,2)] s Let_def
      by (auto split: if_splits)
    have "header_ok (rq_packet (new_reqmember E ?p e))"
      by (simp add: segment_header_ok len)
    with e' show ?thesis unfolding sent_more_def
      by (intro conjI exI [of _ w] exI [of _ j] exI [of _ k] exI [of _ "Suc (n_clock e)"]
        exI [of _ "[new_reqmember E ?p e]"] exI [of _ "SND_NXT e + of_nat (length d)"]) auto
  next
    case False
    then have e': "e' = e\<lparr>wire := wire e @ w, n_debug := j, n_send := k\<rparr>"
      using assms(3) unfolding tcp_send_packet_eq [OF assms(1,2)] s Let_def by simp
    then show ?thesis using False unfolding sent_more_def
      by (intro conjI exI [of _ w] exI [of _ j] exI [of _ k] exI [of _ "n_clock e"]
        exI [of _ "[]"] exI [of _ "SND_NXT e"]) auto
  qed
qed

lemma seg_buf_null [simp]: "seg_buf None []"
  by (simp add: seg_buf_def)

lemmas send_ctl_sent = tcp_send_packet_sent [OF _ seg_buf_null, simplified]

lemma sent_more_inv: "sent_more e e' \<Longrightarrow> tcp_inv e \<Longrightarrow> tcp_inv e'"
  by (auto simp: sent_more_def tcp_inv_def)

lemma sent_more_sel:
  assumes "sent_more e e'"
  shows "tcp_state e' = tcp_state e" "SND_UNA e' = SND_UNA e" "SND_WND e' = SND_WND e"
    "RCV_NXT e' = RCV_NXT e" "RCV_WND e' = RCV_WND e" "send_buf e' = send_buf e"
    "recv_buf e' = recv_buf e" "retrans_q_locked e' = retrans_q_locked e"
    "oop_packet_list e' = oop_packet_list e" "pending_packets e' = pending_packets e"
    "closing e' = closing e" "finsent e' = finsent e" "actpas_type e' = actpas_type e"
    "ISS e' = ISS e" "flags e' = flags e"
  using assms by (auto simp: sent_more_def)

text \<open>A call of an operation with the state and the invariant it starts from.\<close>

definition at_state :: "tcp_state set \<Rightarrow> socket \<Rightarrow> bool" where
  "at_state S e \<longleftrightarrow> tcp_inv e \<and> tcp_state e \<in> S"

lemma at_stateI: "tcp_inv e \<Longrightarrow> tcp_state e \<in> S \<Longrightarrow> at_state S e"
  by (simp add: at_state_def)

lemma at_state_mono: "at_state S e \<Longrightarrow> S \<subseteq> T \<Longrightarrow> at_state T e"
  by (auto simp: at_state_def)

lemma update_tcp_state_inv [simp]: "tcp_inv (update_tcp_state E s e) = tcp_inv e"
  by (simp add: tcp_inv_def)

lemma at_update [simp]: "at_state S (update_tcp_state E s e) \<longleftrightarrow> tcp_inv e \<and> s \<in> S"
  by (simp add: at_state_def)

lemma keeps_send_ctl:
  assumes "at_state S e"
  shows "keeps (at_state S) (send_ctl E fin noack sq syn e)"
proof (unfold keeps_def, intro allI impI)
  fix x assume x: "send_ctl E fin noack sq syn e = Inr x"
  have "actpas_type e = SOCKET_ACTIVE" using assms by (simp add: at_state_def tcp_inv_def)
  then have "sent_more e x" using send_ctl_sent x by blast
  with assms show "at_state S x"
    by (simp add: at_state_def sent_more_inv sent_more_sel)
qed

lemma keeps_process_q:
  assumes "at_state S e"
  shows "keeps (at_state S) (process_q_after_ack E e)"
proof (unfold keeps_def, intro allI impI)
  fix e' assume "process_q_after_ack E e = Inr e'"
  then obtain s r q where "e' = e\<lparr>srtt := s, rto := r, n_alloc := Suc (n_alloc e), retrans_q := q\<rparr>"
    and "set q \<subseteq> set (retrans_q e)"
    by (rule process_q_after_ack_frame)
  then show "at_state S e'" using assms by (auto simp: at_state_def tcp_inv_def)
qed


text \<open>Changes of the protocol variables do not touch the invariant.\<close>

lemma at_state_vars [simp]:
  "at_state S (e\<lparr>SND_UNA := u\<rparr>) = at_state S e"
  "at_state S (e\<lparr>SND_NXT := u\<rparr>) = at_state S e"
  "at_state S (e\<lparr>SND_WND := u\<rparr>) = at_state S e"
  "at_state S (e\<lparr>RCV_NXT := u\<rparr>) = at_state S e"
  "at_state S (e\<lparr>RCV_WND := u\<rparr>) = at_state S e"
  "at_state S (e\<lparr>IRS := u\<rparr>) = at_state S e"
  "at_state S (e\<lparr>closing := b\<rparr>) = at_state S e"
  "at_state S (e\<lparr>finsent := b\<rparr>) = at_state S e"
  "at_state S (e\<lparr>pending_packets := ps\<rparr>) = at_state S e"
  "at_state S (e\<lparr>retrans_q_locked := b\<rparr>) = at_state S e"
  "at_state S (e\<lparr>mostrecentackin := t\<rparr>) = at_state S e"
  "at_state S (e\<lparr>n_clock := k\<rparr>) = at_state S e"
  "at_state S (e\<lparr>n_alloc := k\<rparr>) = at_state S e"
  "at_state S (e\<lparr>flags := f\<rparr>) = at_state S e"
  by (simp_all add: at_state_def tcp_inv_def)

lemma at_state_recv_buf:
  "at_state S e \<Longrightarrow> cb_wf b \<Longrightarrow> at_state S (e\<lparr>recv_buf := b\<rparr>)"
  by (simp add: at_state_def tcp_inv_def)

lemma at_state_send_buf:
  "at_state S e \<Longrightarrow> cb_wf b \<Longrightarrow> at_state S (e\<lparr>send_buf := b\<rparr>)"
  by (simp add: at_state_def tcp_inv_def)

lemma at_state_wf: "at_state S e \<Longrightarrow> cb_wf (recv_buf e) \<and> cb_wf (send_buf e)"
  by (simp add: at_state_def tcp_inv_def)

lemma cb_wf_set_seq [simp]: "cb_wf (circular_buffer_set_seq_initial b s) = cb_wf b"
  by (simp add: cb_wf_def circular_buffer_set_seq_initial_def)

lemma cb_bytes_set_seq [simp]: "cb_bytes (circular_buffer_set_seq_initial b s) = cb_bytes b"
  by (simp add: cb_bytes_def circular_buffer_set_seq_initial_def)

lemma cb_maxsize_set_seq [simp]:
  "cb_maxsize (circular_buffer_set_seq_initial b s) = cb_maxsize b"
  by (simp add: circular_buffer_set_seq_initial_def)

section \<open>Handlers of packets\<close>

lemma keeps_ack_state:
  "at_state S e \<Longrightarrow> s \<in> T \<Longrightarrow>
   keeps (at_state T) (rbind (send_ctl E fin noack sq syn e) (\<lambda>e. Inr (update_tcp_state E s e)))"
  by (rule keeps_rbind [OF keeps_send_ctl]) (auto simp: at_state_def)

lemma at_note_syn [simp]: "at_state S (note_syn p e) = at_state S e"
  by (simp add: note_syn_def Let_def at_state_def tcp_inv_def)

lemma note_syn_sel [simp]:
  "SND_UNA (note_syn p e) = SND_UNA e" "SND_NXT (note_syn p e) = SND_NXT e"
  "ISS (note_syn p e) = ISS e" "RCV_NXT (note_syn p e) = SEG_SEQ p + 1"
  "retrans_q (note_syn p e) = retrans_q e" "retrans_q_locked (note_syn p e) = retrans_q_locked e"
  "tcp_state (note_syn p e) = tcp_state e" "pending_packets (note_syn p e) = pending_packets e"
  "actpas_type (note_syn p e) = actpas_type e" "wire (note_syn p e) = wire e"
  "local_port (note_syn p e) = local_port e" "remote_port (note_syn p e) = remote_port e"
  "SND_WND (note_syn p e) = SND_WND e" "send_buf (note_syn p e) = send_buf e"
  "flags (note_syn p e) = flags e" "oop_packet_list (note_syn p e) = oop_packet_list e"
  "cb_bytes (recv_buf (note_syn p e)) = cb_bytes (recv_buf e)"
  "cb_maxsize (recv_buf (note_syn p e)) = cb_maxsize (recv_buf e)"
  "RCV_WND (note_syn p e) = available32 (recv_buf (note_syn p e))"
  by (simp_all add: note_syn_def Let_def)

lemma keeps_listen:
  assumes "at_state {LISTEN} e"
  shows "keeps (at_state {LISTEN, SYN_RCVD}) (handle_in_listen E p e)"
proof (cases "hdr_syn p")
  case True
  have "at_state {LISTEN} (note_syn p e)" using assms by simp
  then show ?thesis
    using True keeps_ack_state by (simp add: handle_in_listen_def Let_def)
next
  case False
  then show ?thesis using assms by (simp add: handle_in_listen_def at_state_def)
qed

lemma keeps_syn_sent:
  assumes "at_state {SYN_SENT} e"
  shows "keeps (at_state {SYN_SENT, ESTABLISHED, SYN_RCVD}) (handle_in_syn_sent E p e)"
proof (cases "hdr_ack p \<and> SND_UNA e \<le> SEG_ACK p \<and> SEG_ACK p \<le> SND_NXT e \<and> hdr_syn p")
  case True
  have "keeps (at_state {SYN_SENT}) (process_q_after_ack E (e\<lparr>SND_UNA := SEG_ACK p\<rparr>))"
    using assms by (intro keeps_process_q) simp
  moreover have "keeps (at_state {SYN_SENT, ESTABLISHED, SYN_RCVD})
      (send_ctl E False False sq syn (update_tcp_state E s (note_syn p x)))"
    if "at_state {SYN_SENT} x" "s = ESTABLISHED \<or> s = SYN_RCVD" for x s sq syn
  proof (rule keeps_send_ctl)
    have "at_state {SYN_SENT} (note_syn p x)" using that(1) by simp
    then have "tcp_inv (note_syn p x)" by (simp only: at_state_def)
    then show "at_state {SYN_SENT, ESTABLISHED, SYN_RCVD} (update_tcp_state E s (note_syn p x))"
      using that(2) by auto
  qed
  ultimately show ?thesis
    unfolding handle_in_syn_sent_def if_P [OF True] Let_def
    by (auto intro!: keeps_rbind)
next
  case False
  then show ?thesis using assms by (auto simp: handle_in_syn_sent_def at_state_def)
qed

text \<open>The acknowledgement part: the state moves only along its own edges.\<close>

definition ack_states :: "tcp_state \<Rightarrow> tcp_state set" where
  "ack_states s = (case s of SYN_RCVD \<Rightarrow> {SYN_RCVD, ESTABLISHED} | FIN_WAIT_1 \<Rightarrow> {FIN_WAIT_1, FIN_WAIT_2}
     | CLOSING \<Rightarrow> {CLOSING, CLOSED} | LAST_ACK \<Rightarrow> {LAST_ACK, CLOSED} | _ \<Rightarrow> {s})"

lemma self_ack_states [simp]: "s \<in> ack_states s"
  by (cases s) (simp_all add: ack_states_def)

lemma keeps_ack:
  assumes "at_state {s} e"
  shows "keeps (\<lambda>(r, e). at_state (ack_states s) e) (handle_ack E s p e)"
proof -
  have q: "keeps (at_state {s}) (if c then process_q_after_ack E (e\<lparr>SND_UNA := u\<rparr>) else Inr e)" for c u
    using assms by (auto intro!: keeps_process_q)
  have q': "keeps (at_state {s}) (process_q_after_ack E (e\<lparr>SND_UNA := u\<rparr>))" for u
    using assms by (auto intro!: keeps_process_q)
  have a: "keeps (\<lambda>(r, e). at_state (ack_states s) e) (rbind (send_ack E e) (\<lambda>e. Inr (True, e)))"
    by (rule keeps_rbind [OF keeps_send_ctl [OF assms]]) (auto elim: at_state_mono)
  consider "s = SYN_RCVD" | "s \<in> {ESTABLISHED, FIN_WAIT_1, FIN_WAIT_2, CLOSE_WAIT, CLOSING}"
    | "s = LAST_ACK" | "s \<in> {CLOSED, LISTEN, SYN_SENT, TIME_WAIT}"
    by (cases s) auto
  then show ?thesis
  proof cases
    case 1
    show ?thesis using assms 1
      by (auto simp: handle_ack_def ack_states_def Let_def at_state_def
          intro!: keeps_rbind [OF q'])
  next
    case 2
    let ?c = "SND_UNA e < SEG_ACK p \<and> SEG_ACK p \<le> SND_NXT e"
    let ?g = "\<lambda>e. if s = FIN_WAIT_1 \<and> SND_UNA e = SND_NXT e then update_tcp_state E FIN_WAIT_2 e
      else if s = CLOSING \<and> SND_UNA e = SND_NXT e
      then update_tcp_state E CLOSED (update_tcp_state E TIME_WAIT e) else e"
    have "handle_ack E s p e =
      (if ?c \<or> SEG_ACK p < SND_UNA e \<or> \<not> SEG_ACK p > SND_NXT e
       then rbind (if ?c then process_q_after_ack E (e\<lparr>SND_UNA := SEG_ACK p\<rparr>) else Inr e)
              (\<lambda>e. Inr (False, ?g e))
       else rbind (send_ack E e) (\<lambda>e. Inr (True, e)))"
    proof -
      have "s \<noteq> SYN_RCVD" using 2 by auto
      then show ?thesis unfolding handle_ack_def Let_def using 2 by (simp only: if_True if_False)
    qed
    moreover have "at_state (ack_states s) (?g x)" if "at_state {s} x" for x
      using 2 that by (auto simp: ack_states_def at_state_def)
    ultimately show ?thesis
      by (simp only:) (intro keeps_if a keeps_rbind [OF q], simp)
  next
    case 3
    then show ?thesis using assms by (auto simp: handle_ack_def ack_states_def Let_def at_state_def)
  next
    case 4
    then have "handle_ack E s p e = Inr (False, e)"
      unfolding handle_ack_def Let_def by (elim insertE) simp_all
    then show ?thesis using assms by (auto elim: at_state_mono)
  qed
qed

lemma cb_write_short:
  assumes wf: "cb_wf b" and short: "length d < unat len" and l0: "0 < len"
    and fits: "unat (cb_count b) + unat len \<le> unat (cb_maxsize b)"
  shows "circular_buffer_write b d len False = Undefined"
proof -
  note bnd = cb_wf_bounds [OF wf]
  have e: "unat (cb_end b) \<le> unat (cb_maxsize b)" using wf by (simp add: cb_wf_def)
  have add: "unat (cb_count b + len) = unat (cb_count b) + unat len"
    "unat (cb_end b + len) = unat (cb_end b) + unat len"
    using fits bnd e by (simp_all add: unat_add_lt)
  have g: "\<not> cb_maxsize b < cb_count b + len" "\<not> cb_maxsize b < len"
    using fits add by (simp_all add: word_less_nat_alt)
  have nf: "cb_count b \<noteq> cb_maxsize b" using fits l0 by (auto simp: word_less_nat_alt)
  have tw: "(if len - 0 < cb_maxsize b - cb_count b then len - 0 else cb_maxsize b - cb_count b) = len"
    using fits bnd
    by (auto simp: word_less_nat_alt word_unat_eq_iff unat_sub_le word_le_nat_alt)
  have ms: "unat (cb_maxsize b - cb_end b) = unat (cb_maxsize b) - unat (cb_end b)"
    using e by (simp add: unat_sub_le word_le_nat_alt)
  have "cb_write_chunk b d len 0 = None"
  proof (cases "cb_maxsize b < cb_end b + len")
    case True
    then have big: "unat (cb_maxsize b) < unat (cb_end b) + unat len"
      using add by (simp add: word_less_nat_alt)
    have rest: "unat (len - (cb_maxsize b - cb_end b))
        = unat len - (unat (cb_maxsize b) - unat (cb_end b))"
      using big e ms by (subst unat_sub_le) (auto simp: word_le_nat_alt)
    have "memcpy_chk x 0 d (cb_maxsize b - cb_end b) (len - (cb_maxsize b - cb_end b)) = None" for x
      unfolding memcpy_chk_def rest ms using short big e by auto
    then show ?thesis
      unfolding cb_write_chunk_def tw Let_def using True by (simp split: option.splits)
  next
    case False
    have "memcpy_chk (cb_data b) (cb_end b) d 0 len = None"
      using short by (simp add: memcpy_chk_def)
    then show ?thesis
      unfolding cb_write_chunk_def tw Let_def using False by simp
  qed
  then have "cb_write_loop b d len 0 = Undefined"
    using l0 nf by (subst cb_write_loop.simps) simp
  then show ?thesis using g l0 by (simp add: circular_buffer_write_def)
qed

lemma cb_res_write:
  assumes "cb_wf b" "cb_res (circular_buffer_write b d len False) = Inr (r, b')"
    and "unat len \<le> unat (cb_maxsize b) - unat (cb_count b)"
  shows "cb_wf b'"
proof -
  note bnd = cb_wf_bounds [OF assms(1)]
  show ?thesis
  proof (cases "len = 0")
    case True
    then show ?thesis using assms by (simp add: circular_buffer_write_def cb_res_def)
  next
    case False
    then have l0: "0 < len" by (simp add: word_neq_0_conv)
    have fits: "unat (cb_count b) + unat len \<le> unat (cb_maxsize b)" using assms(3) bnd by simp
    show ?thesis
    proof (cases "unat len \<le> length d")
      case True
      then show ?thesis
        using cb_write_fits [OF assms(1) True l0 fits, of False] assms(2) by (auto simp: cb_res_def)
    next
      case short: False
      have "circular_buffer_write b d len False = Undefined"
        by (rule cb_write_short [OF assms(1) _ l0 fits]) (use short in simp)
      then show ?thesis using assms(2) by (simp add: cb_res_def)
    qed
  qed
qed

lemma unat_available32:
  assumes "cb_wf b"
  shows "unat (available32 b) = unat (cb_maxsize b) - unat (cb_count b)"
proof -
  have "available32 b = cb_maxsize b - cb_count b"
    by (simp add: available32_def circular_buffer_available_def)
  then show ?thesis using cb_wf_bounds [OF assms] by (simp add: unat_sub_le word_le_nat_alt)
qed

text \<open>The number of bytes the code copies is the payload's length or the room, if that is less.\<close>

definition text_len :: "packet \<Rightarrow> circular_buffer \<Rightarrow> u32" where
  "text_len p b =
     (if TCP_PAYLOAD_LEN p \<le> (scast (available32 b) :: u64) then ucast (TCP_PAYLOAD_LEN p)
      else available32 b)"

lemma unat_text_len:
  assumes "cb_wf b"
  shows "unat (text_len p b) = min (unat (TCP_PAYLOAD_LEN p)) (unat (cb_maxsize b) - unat (cb_count b))"
proof -
  note bnd = cb_wf_bounds [OF assms] and av = unat_available32 [OF assms]
  have s: "(scast (available32 b) :: u64) = ucast (available32 b)"
    using av bnd by (intro scast_u32_u64) simp
  show ?thesis
  proof (cases "TCP_PAYLOAD_LEN p \<le> (scast (available32 b) :: u64)")
    case True
    then have "unat (TCP_PAYLOAD_LEN p) \<le> unat (available32 b)"
      unfolding s word_le_nat_alt by simp
    moreover have "unat (ucast (TCP_PAYLOAD_LEN p) :: u32) = unat (TCP_PAYLOAD_LEN p)"
      using calculation unat_u32_less [of "available32 b"] by (intro unat_ucast_u64_u32) simp
    ultimately show ?thesis using True av by (simp add: text_len_def)
  next
    case False
    then have "unat (available32 b) < unat (TCP_PAYLOAD_LEN p)"
      unfolding s word_le_nat_alt by simp
    then show ?thesis using False av by (simp add: text_len_def)
  qed
qed

definition has_text :: "tcp_state \<Rightarrow> packet \<Rightarrow> bool" where
  "has_text s p \<longleftrightarrow> s \<in> {ESTABLISHED, FIN_WAIT_1, FIN_WAIT_2} \<and> TCP_PAYLOAD_LEN p > 0"

lemma handle_text_eq:
  "handle_text E s p e =
     (if has_text s p then
        rbind (cb_res (circular_buffer_write (recv_buf e) (TCP_PAYLOAD_START p)
                 (text_len p (recv_buf e)) False))
          (\<lambda>(r, b). send_ack E (e\<lparr>recv_buf := b, RCV_WND := available32 b,
             RCV_NXT := RCV_NXT e + text_len p (recv_buf e)\<rparr>))
      else Inr e)"
  by (simp add: handle_text_def has_text_def text_len_def Let_def)

lemma keeps_text:
  assumes "at_state S e"
  shows "keeps (at_state S) (handle_text E s p e)"
proof (cases "has_text s p")
  case True
  have wf: "cb_wf (recv_buf e)" using assms by (simp add: at_state_wf)
  have "keeps (at_state S) (send_ack E (e\<lparr>recv_buf := b, RCV_WND := w, RCV_NXT := n\<rparr>))"
    if "cb_wf b" for b w n
    using assms that by (intro keeps_send_ctl) (simp add: at_state_recv_buf)
  moreover have "keeps (\<lambda>(r, b). cb_wf b) (cb_res (circular_buffer_write (recv_buf e)
      (TCP_PAYLOAD_START p) (text_len p (recv_buf e)) False))"
    using cb_res_write [OF wf] unat_text_len [OF wf] by (auto simp: keeps_def)
  ultimately show ?thesis
    using True unfolding handle_text_eq by (auto intro!: keeps_rbind)
next
  case False
  then show ?thesis using assms by (simp add: handle_text_eq)
qed

text \<open>The FIN part moves the state as its name says, from the state the packet was taken in.\<close>

definition fin_states :: "tcp_state \<Rightarrow> tcp_state set \<Rightarrow> tcp_state set" where
  "fin_states s S = (case s of SYN_RCVD \<Rightarrow> insert CLOSE_WAIT S | ESTABLISHED \<Rightarrow> insert CLOSE_WAIT S
     | FIN_WAIT_1 \<Rightarrow> {CLOSED, CLOSING} \<union> S | FIN_WAIT_2 \<Rightarrow> insert CLOSED S | _ \<Rightarrow> S)"

lemma subset_fin_states: "S \<subseteq> fin_states s S"
  by (cases s) (auto simp: fin_states_def)

lemma tcp_inv_close [simp]:
  "tcp_inv (e\<lparr>recv_buf := circular_buffer_close (recv_buf e)\<rparr>) = tcp_inv e"
  "tcp_inv (e\<lparr>send_buf := circular_buffer_close (send_buf e)\<rparr>) = tcp_inv e"
  by (simp_all add: tcp_inv_def)

lemma keeps_fin:
  assumes "at_state S e"
  shows "keeps (at_state (fin_states s S)) (handle_fin E s p e)"
proof (cases "hdr_fin p")
  case True
  have close: "at_state T (e\<lparr>recv_buf := circular_buffer_close (recv_buf e)\<rparr>)" if "at_state T e" for T e
    using that by (simp add: at_state_recv_buf at_state_wf)
  have upd: "keeps (at_state T) (rbind (send_ack E e) (\<lambda>e. Inr (f e)))"
    if "\<And>e. at_state S e \<Longrightarrow> at_state T (f e)" for T f
    by (rule keeps_rbind [OF keeps_send_ctl [OF assms]]) (use that in simp)
  consider "s \<in> {SYN_RCVD, ESTABLISHED}" | "s = FIN_WAIT_1" | "s = FIN_WAIT_2"
    | "s \<notin> {SYN_RCVD, ESTABLISHED, FIN_WAIT_1, FIN_WAIT_2}" by auto
  then show ?thesis
  proof cases
    case 1
    then have T: "fin_states s S = insert CLOSE_WAIT S" by (auto simp: fin_states_def)
    have c: "s = SYN_RCVD \<or> s = ESTABLISHED" using 1 by auto
    show ?thesis unfolding handle_fin_def if_P [OF True] if_P [OF c] T
      by (rule keeps_rbind [OF upd]) (auto simp: at_state_def)
  next
    case 2
    show ?thesis unfolding handle_fin_def if_P [OF True]
      by (simp add: 2 fin_states_def)
        (rule keeps_rbind [OF upd [where T = "insert CLOSED (insert CLOSING S)"]], auto simp: at_state_def)
  next
    case 3
    show ?thesis unfolding handle_fin_def if_P [OF True]
      by (simp add: 3 fin_states_def)
        (rule keeps_rbind [OF upd [where T = "insert CLOSED S"]], auto simp: at_state_def)
  next
    case 4
    have "handle_fin E s p e = Inr (e\<lparr>recv_buf := circular_buffer_close (recv_buf e)\<rparr>)"
      using 4 True by (simp add: handle_fin_def)
    then show ?thesis
      using close [OF at_state_mono [OF assms subset_fin_states]] by simp
  qed
next
  case False
  then show ?thesis
    using at_state_mono [OF assms subset_fin_states] by (simp add: handle_fin_def)
qed

lemma at_oop:
  assumes "at_state S e"
  shows "at_state S (process_oop_after_new_packet e)"
proof -
  have "set (tl (oop_packet_list e)) \<subseteq> set (oop_packet_list e)"
    by (cases "oop_packet_list e") auto
  then show ?thesis
    using assms by (auto simp: process_oop_after_new_packet_def at_state_def tcp_inv_def
        split: option.splits)
qed

lemma at_add_oop:
  assumes "at_state S e" "sort_ok E" "header_ok p"
  shows "at_state S (add_p_to_oop E p e)"
  using assms by (auto simp: add_p_to_oop_def at_state_def tcp_inv_def sort_ok_set)

definition packet_states :: "tcp_state \<Rightarrow> tcp_state set" where
  "packet_states s = (case s of LISTEN \<Rightarrow> {LISTEN, SYN_RCVD}
     | SYN_SENT \<Rightarrow> {SYN_SENT, ESTABLISHED, SYN_RCVD} | _ \<Rightarrow> fin_states s (ack_states s))"

lemma self_packet_states: "s \<in> packet_states s"
proof -
  have "s \<in> fin_states s (ack_states s)" by (rule subsetD [OF subset_fin_states self_ack_states])
  then show ?thesis by (cases s) (simp_all add: packet_states_def)
qed

lemma keeps_otherwise:
  assumes "at_state {s} e" "sort_ok E" "header_ok p"
  shows "keeps (at_state (fin_states s (ack_states s))) (handle_otherwise E s p e)"
proof -
  have sub: "{s} \<subseteq> fin_states s (ack_states s)" "ack_states s \<subseteq> fin_states s (ack_states s)"
    using subsetD [OF subset_fin_states self_ack_states] subset_fin_states [of "ack_states s" s]
    by simp_all
  have here: "at_state (fin_states s (ack_states s)) e'" if "at_state {s} e'" for e'
    using at_state_mono [OF that sub(1)] .
  have text_fin: "keeps (at_state (fin_states s (ack_states s)))
      (rbind (handle_text E s p e') (\<lambda>e. rbind (handle_fin E s p e)
        (\<lambda>e. Inr (process_oop_after_new_packet e))))" if "at_state (ack_states s) e'" for e'
    by (rule keeps_rbind [OF keeps_text [OF that]], rule keeps_rbind [OF keeps_fin])
      (assumption, simp, rule at_oop, assumption)
  have acked: "keeps (at_state (fin_states s (ack_states s)))
      (rbind (handle_ack E s p e) (\<lambda>(returns, e). if returns then Inr e
        else rbind (handle_text E s p e) (\<lambda>e. rbind (handle_fin E s p e)
          (\<lambda>e. Inr (process_oop_after_new_packet e)))))"
    by (rule keeps_rbind [OF keeps_ack [OF assms(1)]])
      (auto intro: text_fin at_state_mono [OF _ sub(2)])
  show ?thesis
    unfolding handle_otherwise_def
    using acked here [OF at_oop [OF assms(1)]] here [OF at_add_oop [OF assms]] here [OF assms(1)]
      keeps_mono [OF keeps_send_ctl [OF assms(1)] here]
    by simp
qed

lemma keeps_handle_packet:
  assumes "tcp_inv e" "sort_ok E"
  shows "keeps (at_state (packet_states (tcp_state e))) (handle_packet E e)"
proof (cases "pending_packets e")
  case Nil
  then show ?thesis by (simp add: handle_packet_def)
next
  case (Cons p ps)
  let ?e1 = "e\<lparr>pending_packets := ps, SND_WND := ucast (SEG_WND p)\<rparr>"
  define e' where "e' = (if hdr_ack p then (let (t, e) = clock_gettime E ?e1 in e\<lparr>mostrecentackin := t\<rparr>)
     else ?e1)"
  have st: "tcp_state e' = tcp_state e" by (simp add: e'_def clock_gettime_def)
  have at: "at_state {tcp_state e} e'"
    using assms(1) by (simp add: e'_def clock_gettime_def) (simp add: at_state_def)
  have eq: "handle_packet E e = (if \<not> header_ok p then Inl Overrun else
      case tcp_state e of CLOSED \<Rightarrow> Inr e' | LISTEN \<Rightarrow> handle_in_listen E p e'
        | SYN_SENT \<Rightarrow> handle_in_syn_sent E p e' | s \<Rightarrow> handle_otherwise E s p e')"
    unfolding handle_packet_def Cons list.case Let_def e'_def [symmetric, unfolded Let_def] st ..
  show ?thesis
  proof (cases "header_ok p")
    case True
    show ?thesis
      unfolding eq using True at assms(2)
      by (cases "tcp_state e")
        (simp_all add: packet_states_def keeps_listen keeps_syn_sent keeps_otherwise at_state_mono
          fin_states_def [of CLOSED] ack_states_def [of CLOSED])
  next
    case False
    then show ?thesis by (simp add: eq)
  qed
qed

section \<open>Sending data and timeouts\<close>

lemma at_state_sent:
  "at_state S e \<Longrightarrow> \<forall>m \<in> set q. header_ok (rq_packet m) \<Longrightarrow>
   at_state S (e\<lparr>wire := w, n_debug := j, n_send := k, n_clock := c, retrans_q := retrans_q e @ q\<rparr>)"
  "at_state S e \<Longrightarrow> at_state S (e\<lparr>wire := w, n_debug := j, n_send := k\<rparr>)"
  by (auto simp: at_state_def tcp_inv_def)

lemma at_send_tcp_packet: "at_state S e \<Longrightarrow> at_state S (send_tcp_packet E p e)"
  using send_tcp_packet_frame [of E p e] by (auto simp: at_state_sent)

lemma keeps_add_packet:
  assumes "at_state S e" "header_ok p"
  shows "keeps (at_state S) (add_packet_to_retrans_q E p e)"
  using assms by (simp add: add_packet_to_retrans_q_eq) (auto simp: at_state_def tcp_inv_def)

lemma keeps_tcp_send_packet:
  assumes "at_state S e"
  shows "keeps (at_state S) (tcp_send_packet E buf len fin noack sq syn e)"
proof (cases "chitcpd_tcp_packet_create buf (ucast len) e")
  case (Inl f)
  then show ?thesis by (simp add: tcp_send_packet_def)
next
  case (Inr p)
  then obtain p0 where p0: "chitcp_tcp_packet_create buf (ucast len) = Inr p0"
    "p = set_header_ports (local_port e) (remote_port e) p0"
    by (auto simp: chitcpd_tcp_packet_create_def split: if_splits)
  let ?p = "set_header_fields sq (RCV_NXT e) fin syn (\<not> noack) (ucast (RCV_WND e)) p"
  have "length p0 \<ge> 20" using packet_create_ok(1) [OF p0(1)] by simp
  then have hp: "header_ok ?p"
    using p0(2) by (simp add: header_ok_def TCP_HEADER_NOOPTIONS_SIZE_def)
  have s: "at_state S (send_tcp_packet E ?p e)" using assms by (rule at_send_tcp_packet)
  have "keeps (at_state S) (if c then add_packet_to_retrans_q E ?p (send_tcp_packet E ?p e)
      else Inr (send_tcp_packet E ?p e))" for c
    using s keeps_add_packet [OF s hp] by simp
  then show ?thesis
    unfolding tcp_send_packet_def Inr rbind_Inr Let_def by (rule keeps_rbind) simp
qed

lemma keeps_segment_loop:
  assumes "segment_loop E buf r wnd x e = Some res" and "at_state S e"
  shows "keeps (at_state S) res"
proof -
  have "at_state S e \<longrightarrow> keeps (at_state S) res"
  proof (rule segment_loop.raw_induct [where xa = "(((((E, buf), r), wnd), x), e)" and
        P = "\<lambda>E buf r wnd x e res. at_state S e \<longrightarrow> keeps (at_state S) res", unfolded prod.case],
        goal_cases)
    case (1 loop E buf r wnd x e res)
    show ?case
    proof
      assume at: "at_state S e"
      let ?len = "segment_len r wnd x"
      let ?send = "tcp_send_packet E (if ?len < 0 then None else Some (take (nat ?len) (drop (nat x) buf)))
                 (of_int ?len) False False (SND_NXT e) False e"
      have k: "keeps (at_state S) ?send" by (rule keeps_tcp_send_packet [OF at])
      show "keeps (at_state S) res"
      proof (cases "x < r")
        case True
        show ?thesis
        proof (cases "0 < ?len \<and> (x < 0 \<or> int (length buf) < x + ?len)")
          case True
          then show ?thesis using 1(2) \<open>x < r\<close> by (auto simp: Let_def)
        next
          case False
          show ?thesis
          proof (cases ?send)
            case (Inl f)
            then have "res = Inl f" using 1(2) \<open>x < r\<close> False by (simp add: Let_def)
            then show ?thesis by simp
          next
            case (Inr e')
            then have l: "loop E buf r wnd (x + ?len) e' = Some res"
              using 1(2) \<open>x < r\<close> False by (simp add: Let_def)
            have "at_state S e'" using k Inr by (simp add: keeps_def)
            with 1(1) [OF l] show ?thesis by simp
          qed
        qed
      next
        case False
        then show ?thesis using 1(2) at by auto
      qed
    qed
  next
    case 2
    show ?case by (rule assms(1))
  qed
  with assms(2) show ?thesis by simp
qed

lemma keeps_psb:
  assumes "at_state S e"
  shows "keeps (at_state S) (process_send_buffer E e)"
proof -
  have wf: "cb_wf (send_buf e)" using assms by (simp add: at_state_wf)
  have b: "keeps (\<lambda>(r, b, buf). cb_wf b) (cb_res (circular_buffer_read (send_buf e) (SND_WND e) False))"
    using cb_read_cases [OF wf, of "SND_WND e" False False] wf
    by (auto simp: keeps_def cb_res_def circular_buffer_read_def split: cb_outcome.splits)
  show ?thesis
    unfolding process_send_buffer_def
    by (rule keeps_rbind [OF b])
      (auto simp: Let_def split: option.splits prod.splits
        intro!: keeps_segment_loop at_state_send_buf assms)
qed

lemma lowest_timed_out_frame:
  "\<exists>k. snd (lowest_timed_out E i l q e) = e\<lparr>n_clock := k\<rparr>"
proof (induction q arbitrary: i l e)
  case Nil
  have "snd (lowest_timed_out E i l [] e) = e\<lparr>n_clock := n_clock e\<rparr>" by simp
  then show ?case by blast
next
  case (Cons cur q)
  let ?e = "e\<lparr>n_clock := Suc (n_clock e)\<rparr>"
  have "\<exists>l'. lowest_timed_out E i l (cur # q) e = lowest_timed_out E (Suc i) l' q ?e"
    by (auto simp: timed_out_def clock_gettime_def Let_def)
  then obtain l' where "lowest_timed_out E i l (cur # q) e = lowest_timed_out E (Suc i) l' q ?e" ..
  then show ?case using Cons.IH [of "Suc i" l' ?e] by auto
qed

lemma keeps_resend_all:
  "at_state S e \<Longrightarrow> \<forall>p \<in> set ps. header_ok p \<Longrightarrow> keeps (at_state S) (resend_all E ps e)"
proof (induction ps arbitrary: e)
  case Nil
  then show ?case by simp
next
  case (Cons p ps)
  have "at_state S (send_tcp_packet E p e)" using Cons.prems by (simp add: at_send_tcp_packet)
  then show ?case
    using Cons by (auto intro!: keeps_rbind [OF keeps_add_packet])
qed

lemma timeout_pass_packets:
  "timeout_pass l i q b req = Inr (b', req') \<Longrightarrow> set req' \<subseteq> set req \<union> rq_packet ` set q"
proof (induction l i q b req rule: timeout_pass.induct)
  case (2 l i cur q b req)
  then show ?case
    by (auto simp: mark_delete_def split: if_splits)
qed simp

lemma keeps_process_timeout:
  assumes "at_state S e"
  shows "keeps (at_state S) (process_timeout E e)"
proof (cases "retrans_q_locked e")
  case True
  then show ?thesis by (simp add: process_timeout_def lock_retrans_q_def)
next
  case False
  let ?e = "e\<lparr>retrans_q_locked := True, n_alloc := Suc (n_alloc e)\<rparr>"
  obtain l k where low: "lowest_timed_out E 0 0 (retrans_q ?e) ?e = (l, ?e\<lparr>n_clock := k\<rparr>)"
    using lowest_timed_out_frame [of E 0 0 "retrans_q ?e" ?e] by (metis prod.collapse)
  have at': "at_state S (?e\<lparr>n_clock := k\<rparr>)" using assms by simp
  have eq: "process_timeout E e = (if l = 0 then Inr (?e\<lparr>n_clock := k\<rparr>)
      else rbind (timeout_pass l 0 (retrans_q e) (e_alloc E (n_alloc e)) []) (\<lambda>(b, req).
           rbind (delete_marked b [0..<length (retrans_q e)] 0 (retrans_q e)) (\<lambda>q.
           rbind (resend_all E req (unlock_retrans_q (?e\<lparr>n_clock := k, retrans_q := q\<rparr>)))
             (process_q_after_ack E))))"
    using False low by (simp add: process_timeout_def lock_retrans_q_def calloc_none_def Let_def)
  have resend: "keeps (at_state S) (rbind (resend_all E req
      (unlock_retrans_q (?e\<lparr>n_clock := k, retrans_q := q\<rparr>))) (process_q_after_ack E))"
    if "timeout_pass l 0 (retrans_q e) (e_alloc E (n_alloc e)) [] = Inr (b, req)"
      "delete_marked b [0..<length (retrans_q e)] 0 (retrans_q e) = Inr q" for b req q
  proof (intro keeps_rbind [OF keeps_resend_all] keeps_process_q)
    show "at_state S (unlock_retrans_q (?e\<lparr>n_clock := k, retrans_q := q\<rparr>))"
      using assms delete_marked_subset [OF that(2)]
      by (auto simp: unlock_retrans_q_def at_state_def tcp_inv_def)
    show "\<forall>p \<in> set req. header_ok p"
      using assms timeout_pass_packets [OF that(1)] by (auto simp: at_state_def tcp_inv_def)
  qed
  have pass: "keeps (\<lambda>(b, req). timeout_pass l 0 (retrans_q e) (e_alloc E (n_alloc e)) [] = Inr (b, req))
      (timeout_pass l 0 (retrans_q e) (e_alloc E (n_alloc e)) [])"
    by (auto simp: keeps_def)
  have del: "keeps (\<lambda>q. delete_marked b [0..<length (retrans_q e)] 0 (retrans_q e) = Inr q)
      (delete_marked b [0..<length (retrans_q e)] 0 (retrans_q e))" for b
    by (auto simp: keeps_def)
  show ?thesis
    unfolding eq using at'
    by (auto intro!: keeps_rbind [OF pass] keeps_rbind [OF del] resend)
qed

section \<open>Events\<close>

lemma keeps_handle_timeout:
  assumes "at_state S e"
  shows "keeps (at_state S) (handle_timeout E e)"
  unfolding handle_timeout_def
  by (rule keeps_rbind [OF keeps_process_q [OF assms]]) (rule keeps_process_timeout)

lemma keeps_send_fin_once:
  assumes "at_state S e"
  shows "keeps (at_state S) (send_fin_once E e)"
  using assms by (auto simp: send_fin_once_def intro!: keeps_rbind [OF keeps_send_ctl])

text \<open>The diagram: where an event can take a socket.\<close>

definition event_states :: "tcp_event \<Rightarrow> tcp_state \<Rightarrow> tcp_state set" where
  "event_states ev s =
     (case (ev, s) of
        (APPLICATION_CONNECT, CLOSED) \<Rightarrow> {SYN_SENT}
      | (APPLICATION_CLOSE, ESTABLISHED) \<Rightarrow> {FIN_WAIT_1}
      | (APPLICATION_CLOSE, CLOSE_WAIT) \<Rightarrow> {CLOSE_WAIT, LAST_ACK}
      | (PACKET_ARRIVAL, LISTEN) \<Rightarrow> {LISTEN, SYN_RCVD}
      | (PACKET_ARRIVAL, SYN_SENT) \<Rightarrow> {SYN_SENT, SYN_RCVD, ESTABLISHED}
      | (PACKET_ARRIVAL, SYN_RCVD) \<Rightarrow> {SYN_RCVD, ESTABLISHED, CLOSE_WAIT}
      | (PACKET_ARRIVAL, ESTABLISHED) \<Rightarrow> {ESTABLISHED, CLOSE_WAIT}
      | (PACKET_ARRIVAL, FIN_WAIT_1) \<Rightarrow> {FIN_WAIT_1, FIN_WAIT_2, CLOSING, CLOSED}
      | (PACKET_ARRIVAL, FIN_WAIT_2) \<Rightarrow> {FIN_WAIT_2, CLOSED}
      | (PACKET_ARRIVAL, CLOSE_WAIT) \<Rightarrow> {CLOSE_WAIT, CLOSING}
      | (PACKET_ARRIVAL, CLOSING) \<Rightarrow> {CLOSING, CLOSED}
      | (PACKET_ARRIVAL, LAST_ACK) \<Rightarrow> {LAST_ACK, CLOSED}
      | _ \<Rightarrow> {s})"

lemma packet_event_states: "packet_states s \<subseteq> event_states PACKET_ARRIVAL s"
  by (cases s) (auto simp: packet_states_def fin_states_def ack_states_def event_states_def)

lemma keeps_packet:
  assumes "tcp_inv e" "sort_ok E" "tcp_state e = s"
  shows "keeps (at_state (event_states PACKET_ARRIVAL s)) (handle_packet E e)"
  by (rule keeps_mono [OF keeps_handle_packet [OF assms(1,2)]])
    (erule at_state_mono, simp add: assms(3) packet_event_states)

lemma set_tcp_vars_inv:
  "tcp_inv e \<Longrightarrow> tcp_inv (tcp_data_init E e)"
  by (simp add: tcp_data_init_def set_tcp_vars_def Let_def tcp_inv_def)

lemma tcp_state_init [simp]: "tcp_state (tcp_data_init E e) = tcp_state e"
  by (simp add: tcp_data_init_def set_tcp_vars_def Let_def)

lemma keeps_dispatch:
  assumes inv: "tcp_inv e" and sort: "sort_ok E"
  shows "keeps (at_state (event_states ev (tcp_state e))) (dispatch_tcp E ev e)"
proof -
  let ?s = "tcp_state e"
  have here: "at_state {?s} e" using inv by (simp add: at_state_def)
  have stay: "keeps (at_state (event_states ev ?s)) (Inr e)"
    if "?s \<in> event_states ev ?s"
    using that inv by (simp add: at_state_def)
  note pkt = keeps_packet [OF inv sort refl]
  note tmo = keeps_handle_timeout [OF here]
  note psb = keeps_psb [OF here]
  let ?c = "e\<lparr>closing := True, send_buf := circular_buffer_close (send_buf e)\<rparr>"
  have inv_c: "tcp_inv ?c" using inv by (simp add: tcp_inv_def)
  have at_c: "at_state {?s} ?c" using inv_c by (simp add: at_state_def)
  show ?thesis
  proof (cases ?s)
    case CLOSED
    have "at_state {CLOSED} (tcp_data_init E e)"
      using set_tcp_vars_inv [OF inv] CLOSED by (simp add: at_state_def)
    then have "keeps (at_state {SYN_SENT}) (rbind (send_ctl E False True sq True (tcp_data_init E e))
        (\<lambda>e. Inr (update_tcp_state E SYN_SENT e)))" for sq
      by (intro keeps_ack_state) auto
    then show ?thesis using CLOSED pkt stay
      by (cases ev) (auto simp: dispatch_tcp_def handle_CLOSED_def event_states_def Let_def)
  next
    case LISTEN
    then show ?thesis using pkt stay
      by (cases ev) (auto simp: dispatch_tcp_def handle_LISTEN_def event_states_def)
  next
    case SYN_RCVD
    then show ?thesis using pkt stay tmo
      by (cases ev) (auto simp: dispatch_tcp_def handle_SYN_RCVD_def event_states_def)
  next
    case SYN_SENT
    then show ?thesis using pkt stay tmo
      by (cases ev) (auto simp: dispatch_tcp_def handle_SYN_SENT_def event_states_def)
  next
    case ESTABLISHED
    have "keeps (at_state {?s}) (if circular_buffer_count (send_buf ?c) = 0 then send_fin_once E ?c
                  else process_send_buffer E ?c)"
      using at_c by (auto intro: keeps_send_fin_once keeps_psb)
    then have cl: "keeps (at_state {FIN_WAIT_1}) (rbind (if circular_buffer_count (send_buf ?c) = 0
        then send_fin_once E ?c else process_send_buffer E ?c)
        (\<lambda>e. Inr (update_tcp_state E FIN_WAIT_1 e)))"
      by (rule keeps_rbind) (simp add: at_state_def)
    have rc: "keeps (at_state {?s}) (Inr (e\<lparr>RCV_WND := w\<rparr>))" for w
      using here by simp
    show ?thesis
    proof (cases ev)
      case APPLICATION_CLOSE
      then show ?thesis using ESTABLISHED cl
        by (simp add: dispatch_tcp_def handle_ESTABLISHED_def event_states_def Let_def)
    qed (use ESTABLISHED pkt stay tmo psb rc in
        \<open>simp_all add: dispatch_tcp_def handle_ESTABLISHED_def event_states_def\<close>)
  next
    case FIN_WAIT_1
    have "keeps (at_state (event_states PACKET_ARRIVAL ?s)) (rbind (handle_packet E e) (\<lambda>e.
            if circular_buffer_count (send_buf e) = 0 \<and> closing e then send_fin_once E e
            else process_send_buffer E e))"
      by (rule keeps_rbind [OF pkt]) (auto intro: keeps_send_fin_once keeps_psb)
    then show ?thesis using FIN_WAIT_1 stay tmo
      by (cases ev) (simp_all add: dispatch_tcp_def handle_FIN_WAIT_1_def event_states_def)
  next
    case FIN_WAIT_2
    then show ?thesis using pkt stay tmo
      by (cases ev) (auto simp: dispatch_tcp_def handle_FIN_WAIT_2_def event_states_def)
  next
    case CLOSE_WAIT
    have fin: "keeps (at_state T) (rbind (send_fin_once E e) (\<lambda>e. Inr (update_tcp_state E s e)))"
      if "at_state S e" "s \<in> T" for S T e s
      by (rule keeps_rbind [OF keeps_send_fin_once [OF that(1)]]) (use that(2) in \<open>simp add: at_state_def\<close>)
    have ps: "packet_states CLOSE_WAIT = {CLOSE_WAIT}"
      by (simp add: packet_states_def fin_states_def ack_states_def)
    have "keeps (at_state {CLOSE_WAIT}) (handle_packet E e)"
      using keeps_handle_packet [OF inv sort] CLOSE_WAIT ps by simp
    then have pk: "keeps (at_state {CLOSE_WAIT, CLOSING}) (rbind (handle_packet E e) (\<lambda>e.
            if circular_buffer_count (send_buf e) = 0 \<and> closing e
            then rbind (send_fin_once E e) (\<lambda>e. Inr (update_tcp_state E CLOSING e))
            else Inr e))"
      by (rule keeps_rbind) (auto intro: fin elim: at_state_mono)
    have cl: "keeps (at_state {CLOSE_WAIT, LAST_ACK})
        (if circular_buffer_count (send_buf ?c) = 0
           then rbind (send_fin_once E ?c) (\<lambda>e. Inr (update_tcp_state E LAST_ACK e))
           else process_send_buffer E ?c)"
      using at_c CLOSE_WAIT
      by (auto intro!: fin keeps_mono [OF keeps_psb [of "{CLOSE_WAIT}"]] elim: at_state_mono)
    show ?thesis
    proof (cases ev)
      case APPLICATION_CLOSE
      then show ?thesis using CLOSE_WAIT cl
        by (simp add: dispatch_tcp_def handle_CLOSE_WAIT_def event_states_def Let_def)
    qed (use CLOSE_WAIT pk stay tmo in
        \<open>simp_all add: dispatch_tcp_def handle_CLOSE_WAIT_def event_states_def\<close>)
  next
    case CLOSING
    then show ?thesis using pkt stay tmo
      by (cases ev) (auto simp: dispatch_tcp_def handle_CLOSING_def event_states_def)
  next
    case TIME_WAIT
    then show ?thesis using stay
      by (cases ev) (auto simp: dispatch_tcp_def handle_TIME_WAIT_def event_states_def)
  next
    case LAST_ACK
    then show ?thesis using pkt stay
      by (cases ev) (auto simp: dispatch_tcp_def handle_LAST_ACK_def event_states_def)
  qed
qed

section \<open>Runs\<close>

text \<open>Between two events the socket keeps its invariant and is never left in TIME_WAIT.\<close>

definition socket_inv :: "socket \<Rightarrow> bool" where
  "socket_inv e \<longleftrightarrow> tcp_inv e \<and> tcp_state e \<noteq> TIME_WAIT"

lemma event_states_no_time_wait: "s \<noteq> TIME_WAIT \<Longrightarrow> TIME_WAIT \<notin> event_states ev s"
  by (cases ev; cases s) (simp_all add: event_states_def)

lemma socket_inv_flags [simp]: "socket_inv (e\<lparr>flags := f\<rparr>) = socket_inv e"
  by (simp add: socket_inv_def tcp_inv_def)

lemma dispatch_inv:
  assumes "socket_inv e" "sort_ok E"
  shows "keeps socket_inv (dispatch_tcp E ev e)"
proof (rule keeps_mono [OF keeps_dispatch])
  fix x assume "at_state (event_states ev (tcp_state e)) x"
  then show "socket_inv x"
    using event_states_no_time_wait [of "tcp_state e" ev] assms(1)
    by (auto simp: at_state_def socket_inv_def)
qed (use assms in \<open>simp_all add: socket_inv_def\<close>)

lemma thread_step_inv:
  assumes "socket_inv e" "sort_ok E" "thread_step E e = Some r"
  shows "keeps (\<lambda>(d, e). socket_inv e) r"
proof -
  have d: "keeps socket_inv (dispatch_tcp E ev e)"
    "keeps socket_inv (dispatch_tcp E ev (e\<lparr>flags := f\<rparr>))" for ev f
    using assms by (simp_all add: dispatch_inv)
  have c: "keeps (\<lambda>(d, e). socket_inv e) (rbind m (\<lambda>e. Inr (b, e)))" if "keeps socket_inv m" for m b
    by (rule keeps_rbind [OF that]) simp
  have n: "keeps socket_inv (rbind (dispatch_tcp E ev (e\<lparr>flags := f\<rparr>))
      (\<lambda>e. Inr (if pending_packets e \<noteq> [] then e\<lparr>flags := (flags e)\<lparr>net_recv := True\<rparr>\<rparr> else e)))"
    for ev f
    by (rule keeps_rbind [OF d(2)]) simp
  show ?thesis
    using assms(3) c [OF d(1)] c [OF d(2)] c [OF n]
    unfolding thread_step_def Let_def
    by (auto split: if_splits)
qed

lemma enqueue_inv: "socket_inv e \<Longrightarrow> socket_inv (enqueue_packet E p e)"
  by (auto simp: enqueue_packet_def debug_breakpoint_def Let_def socket_inv_def tcp_inv_def
      split: list.splits)

lemma cb_blocking_write_wf:
  assumes "cb_wf b" "unat len \<le> length d"
  shows "circular_buffer_write b d len True = Returns r b' \<Longrightarrow> cb_wf b'"
    and "circular_buffer_write b d len True = Blocks b' w \<Longrightarrow> cb_wf b'"
    and "circular_buffer_write b d len True \<noteq> Undefined"
proof -
  note bnd = cb_wf_bounds [OF assms(1)]
  define l where "l = (if len > cb_maxsize b then cb_maxsize b else len)"
  have l: "unat l \<le> length d"
    using assms(2) by (auto simp: l_def word_less_nat_alt)
  have w: "circular_buffer_write b d len True =
      (if len = 0 then Returns CHITCP_EINVAL b else cb_write_loop b d l 0)"
    by (simp add: circular_buffer_write_def l_def)
  have l0: "len \<noteq> 0 \<Longrightarrow> 0 < unat l"
    using bnd by (simp add: l_def word_neq_0_conv word_less_nat_alt)
  have "len = 0 \<or> (\<exists>b'. cb_write_loop b d l 0 = Returns (sint l) b' \<and> cb_wf b')
      \<or> (\<exists>b' w. cb_write_loop b d l 0 = Blocks b' w \<and> cb_wf b')"
    using cb_write_loop_fits [OF assms(1) l l0] cb_write_loop_full [OF assms(1) l]
    by (meson linorder_not_less)
  then show "circular_buffer_write b d len True = Returns r b' \<Longrightarrow> cb_wf b'"
    "circular_buffer_write b d len True = Blocks b' w \<Longrightarrow> cb_wf b'"
    "circular_buffer_write b d len True \<noteq> Undefined"
    using w assms(1) by (auto split: if_splits)
qed

lemma app_calls_inv:
  assumes "socket_inv e"
  shows "keeps socket_inv (app_result (app_send_call d e))"
    and "keeps socket_inv (app_result (app_recv_call n e))"
    and "keeps socket_inv (app_result (app_close_call e))"
proof -
  have wf: "cb_wf (send_buf e)" "cb_wf (recv_buf e)"
    using assms by (auto simp: socket_inv_def tcp_inv_def)
  have sb: "socket_inv (e\<lparr>send_buf := b\<rparr>)" "socket_inv (e\<lparr>recv_buf := b\<rparr>)" if "cb_wf b" for b
    using assms that by (auto simp: socket_inv_def tcp_inv_def)
  have "(length d :: nat) mod 2 ^ 32 \<le> length d" by simp
  then have len: "unat (of_nat (length d) :: u32) \<le> length d" by (simp add: unat_of_nat)
  note w = cb_blocking_write_wf [OF wf(1) len]
  show "keeps socket_inv (app_result (app_send_call d e))"
    using assms w sb
    by (auto simp: app_send_call_def app_result_def app_error_def Let_def split: cb_outcome.splits)
  have rd: "circular_buffer_read (recv_buf e) k True = Returns r (b, x) \<Longrightarrow> cb_wf b" for k r b x
    using cb_read_cases [OF wf(2)] wf(2) by (fastforce simp: circular_buffer_read_def)
  show "keeps socket_inv (app_result (app_recv_call n e))"
    using assms rd sb
    by (auto simp: app_recv_call_def app_result_def app_error_def Let_def split: cb_outcome.splits)
  show "keeps socket_inv (app_result (app_close_call e))"
    using assms by (auto simp: app_close_call_def app_result_def app_error_def)
qed

lemma socket_step_inv:
  assumes "sort_ok E" "socket_inv e"
  shows "keeps socket_inv (socket_step E ev e)"
proof (cases ev)
  case Ev_thread
  show ?thesis
  proof (cases "thread_step E e")
    case None
    then show ?thesis using assms Ev_thread by (simp add: socket_step_def)
  next
    case (Some r)
    have "keeps (\<lambda>(d, e). socket_inv e) r" by (rule thread_step_inv [OF assms(2,1) Some])
    then have "keeps socket_inv (rbind r (\<lambda>(d, e). Inr e))" by (rule keeps_rbind) auto
    then show ?thesis using Some Ev_thread by (simp add: socket_step_def)
  qed
qed (use assms app_calls_inv enqueue_inv in \<open>auto simp: socket_step_def chitcpd_timeout_def\<close>)

text \<open>The socket with its environment is an event machine.\<close>

definition env_inv :: "env \<times> socket \<Rightarrow> bool" where
  "env_inv = (\<lambda>(E, e). sort_ok E \<and> socket_inv e)"

definition env_step :: "socket_event \<Rightarrow> env \<times> socket \<Rightarrow> (env \<times> socket) res" where
  "env_step ev = (\<lambda>(E, e). rbind (socket_step E ev e) (\<lambda>e. Inr (E, e)))"

interpretation tcp: event_machine env_inv env_step "\<lambda>_. True"
proof unfold_locales
  fix s s' ev
  assume "env_inv s" "env_step ev s = Inr s'"
  then show "env_inv s'"
    using socket_step_inv by (auto simp: env_inv_def env_step_def keeps_def)
qed

lemma run_env_step:
  "run_events env_step evs (E, e) = rbind (run_events (socket_step E) evs e) (\<lambda>e. Inr (E, e))"
  by (induction evs arbitrary: e) (simp_all add: env_step_def rbind_def split: sum.splits)

section \<open>Properties\<close>


text \<open>
  C14: Over any sequence of iterations of the TCP thread, arriving packets, expiring timers and
  calls of the application, a socket that starts well formed is well formed at every point the
  sequence gets to, and is never left in TIME_WAIT (the handler of that state says it should not
  run, and it does not).
\<close>
theorem socket_runs_safely:
  assumes "tcp_inv e" "tcp_state e \<noteq> TIME_WAIT" "sort_ok E"
    and "run_events (socket_step E) evs e = Inr e'"
  shows "tcp_inv e' \<and> tcp_state e' \<noteq> TIME_WAIT"
proof -
  have inv: "env_inv (E, e)" using assms(1-3) by (simp add: env_inv_def socket_inv_def)
  have ok: "list_all (\<lambda>_. True) evs" by (simp add: list_all_iff)
  have run: "run_events env_step evs (E, e) = Inr (E, e')"
    using assms(4) by (simp add: run_env_step)
  from tcp.run_inv [OF inv ok run] show ?thesis by (simp add: env_inv_def socket_inv_def)
qed

end
