(* ===== verification/Tcp_Props.thy ===== *)
theory Tcp_Props
  imports Tcp_Inv
begin

text \<open>
  What the TCP of chitcp does on a run: the three-way handshake of two sockets, the delivery of an
  expected segment, the acknowledgement of the retransmission queue, the segmentation of the send
  buffer and the timeout. The witnesses at the end run it on a small socket.
\<close>


section \<open>A quiet environment\<close>

text \<open>
  The monitor lets everything pass, \<open>send\<close> accepts what it gets, \<open>rand()\<close> is not negative. Under
  it a call of \<open>tcp_send_packet\<close> has one outcome, given in full.
\<close>

definition quiet :: "env \<Rightarrow> bool" where
  "quiet E \<longleftrightarrow> no_monitor E \<and> send_whole E \<and> (\<forall>k. 0 \<le> sint (e_rand E k)) \<and> sort_ok E"

definition after_send :: "env \<Rightarrow> packet \<Rightarrow> bool \<Rightarrow> u32 \<Rightarrow> socket \<Rightarrow> socket" where
  "after_send E p queued n e =
     (let e' = e\<lparr>wire := wire e @ chitcp_frame p, n_debug := Suc (n_debug e),
                 n_send := Suc (n_send e)\<rparr>
      in if queued
         then e'\<lparr>n_clock := Suc (n_clock e), retrans_q := retrans_q e @ [new_reqmember E p e],
                 SND_NXT := SND_NXT e + n\<rparr>
         else e')"

lemma quiet_send:
  assumes "quiet E" "actpas_type e = SOCKET_ACTIVE" "seg_buf buf d"
    and "\<not> retrans_q_locked e \<or> \<not> (fin \<or> syn \<or> d \<noteq> [])" "length d < 60000"
  shows "tcp_send_packet E buf (of_nat (length d)) fin noack sq syn e =
    Inr (after_send E (segment d fin noack sq syn e) (fin \<or> syn \<or> d \<noteq> []) (of_nat (length d)) e)"
proof -
  have l: "length (segment d fin noack sq syn e) < 65536"
    using assms(5) by (simp add: segment_fields)
  have "send_tcp_packet E (segment d fin noack sq syn e) e
      = e\<lparr>wire := wire e @ chitcp_frame (segment d fin noack sq syn e),
          n_debug := Suc (n_debug e), n_send := Suc (n_send e)\<rparr>"
    using assms(1) l by (simp add: send_tcp_packet_whole quiet_def)
  then show ?thesis
    using assms(4) unfolding tcp_send_packet_eq [OF assms(2,3)] after_send_def Let_def
    by auto
qed

lemmas quiet_send_ctl = quiet_send [OF _ _ seg_buf_null, simplified]

lemma after_send_sel [simp]:
  "tcp_state (after_send E p b n e) = tcp_state e"
  "SND_UNA (after_send E p b n e) = SND_UNA e"
  "SND_NXT (after_send E p b n e) = (if b then SND_NXT e + n else SND_NXT e)"
  "SND_WND (after_send E p b n e) = SND_WND e"
  "ISS (after_send E p b n e) = ISS e"
  "RCV_NXT (after_send E p b n e) = RCV_NXT e"
  "RCV_WND (after_send E p b n e) = RCV_WND e"
  "retrans_q_locked (after_send E p b n e) = retrans_q_locked e"
  "retrans_q (after_send E p b n e) =
     (if b then retrans_q e @ [new_reqmember E p e] else retrans_q e)"
  "actpas_type (after_send E p b n e) = actpas_type e"
  "wire (after_send E p b n e) = wire e @ chitcp_frame p"
  "recv_buf (after_send E p b n e) = recv_buf e"
  "send_buf (after_send E p b n e) = send_buf e"
  "pending_packets (after_send E p b n e) = pending_packets e"
  "oop_packet_list (after_send E p b n e) = oop_packet_list e"
  "finsent (after_send E p b n e) = finsent e"
  "closing (after_send E p b n e) = closing e"
  "flags (after_send E p b n e) = flags e"
  "local_port (after_send E p b n e) = local_port e"
  "remote_port (after_send E p b n e) = remote_port e"
  by (simp_all add: after_send_def Let_def)

text \<open>The acknowledgement of the queue, with its two unknowns named.\<close>

lemma process_q_cases:
  assumes "\<not> retrans_q_locked e" "alloc_room E (length (retrans_q e))"
  obtains s r where "process_q_after_ack E e = Inr (e\<lparr>srtt := s, rto := r, n_alloc := Suc (n_alloc e),
    retrans_q := filter (\<lambda>m. \<not> fully_acked (SND_UNA e) (rq_packet m)) (retrans_q e)\<rparr>)"
  using process_q_after_ack_ok [OF assms(1)] assms(2) unfolding alloc_room_def by blast

lemma alloc_room_mono: "alloc_room E n \<Longrightarrow> m \<le> n \<Longrightarrow> alloc_room E m"
  by (meson alloc_room_def block_room_def le_trans less_le_trans)

lemma alloc_room_0 [simp]: "alloc_room E 0"
  by (simp add: alloc_room_def block_room_def)

text \<open>A packet of length \<open>l\<close> below the 2 GB mark is acknowledged by the number that follows it.\<close>

lemma fully_acked_iff:
  assumes "unat u < 2147483648" "unat (SEG_SEQ p) + n < 2147483648" "SEG_LEN p = of_nat n"
  shows "fully_acked u p \<longleftrightarrow> unat (SEG_SEQ p) + n \<le> unat u"
proof -
  have n: "unat (of_nat n :: u64) = n" using assms(2) by (simp add: unat_of_nat)
  have "unat (ucast (SEG_SEQ p) + (of_nat n :: u64)) = unat (SEG_SEQ p) + n"
    using assms(2) n by (simp add: unat_word_ariths)
  then show ?thesis
    unfolding fully_acked_def assms(3) scast_u32_u64 [OF assms(1)] word_le_nat_alt by simp
qed

lemma SEG_LEN_segment:
  "length d < 65536 \<Longrightarrow>
   SEG_LEN (segment d fin noack sq syn e) = of_nat (length d + of_bool syn + of_bool fin)"
  by (simp add: SEG_LEN_def segment_fields)

section \<open>The three-way handshake\<close>

text \<open>A segment without data, by the fields that matter.\<close>

definition ctl :: "packet \<Rightarrow> u32 \<Rightarrow> u32 \<Rightarrow> bool \<Rightarrow> bool \<Rightarrow> bool" where
  "ctl p sq ak syn ack \<longleftrightarrow> header_ok p \<and> SEG_SEQ p = sq \<and> SEG_ACK p = ak \<and> hdr_syn p = syn
     \<and> hdr_ack p = ack \<and> \<not> hdr_fin p \<and> TCP_PAYLOAD_LEN p = 0 \<and> SEG_LEN p = of_nat (of_bool syn)"

lemma ctl_segment: "ctl (segment [] False noack sq syn e) sq (RCV_NXT e) syn (\<not> noack)"
  by (simp add: ctl_def segment_fields segment_header_ok SEG_LEN_segment)

lemma init_vars:
  assumes "quiet E"
  obtains iss where "tcp_data_init E e = set_tcp_vars iss (e\<lparr>n_rand := Suc (n_rand e),
      pending_packets := [], withheld_packets := []\<rparr>)" and "unat iss < 255000"
proof -
  let ?r = "sint (e_rand E (n_rand e))"
  have r: "0 \<le> ?r" using assms by (simp add: quiet_def)
  then have m: "?r smod 255 = ?r mod 255" by (auto simp: smod_int_alt_def sgn_if)
  have "0 \<le> ?r mod 255 * 1000" "?r mod 255 * 1000 < 255000"
    using pos_mod_bound [of 255 ?r] by simp_all
  then have "unat (of_int (?r smod 255 * 1000) :: u32) < 255000"
    unfolding m by (subst unat_of_int_u32) simp_all
  then show ?thesis by (rule that [rotated]) (simp add: tcp_data_init_def Let_def)
qed

lemma set_tcp_vars_sel [simp]:
  "tcp_state (set_tcp_vars i e) = tcp_state e" "actpas_type (set_tcp_vars i e) = actpas_type e"
  "ISS (set_tcp_vars i e) = i" "SND_UNA (set_tcp_vars i e) = i" "SND_NXT (set_tcp_vars i e) = i + 1"
  "retrans_q (set_tcp_vars i e) = []" "retrans_q_locked (set_tcp_vars i e) = False"
  "wire (set_tcp_vars i e) = wire e" "oop_packet_list (set_tcp_vars i e) = []"
  "recv_buf (set_tcp_vars i e) = recv_buf e" "flags (set_tcp_vars i e) = flags e"
  "pending_packets (set_tcp_vars i e) = pending_packets e"
  "send_buf (set_tcp_vars i e) = circular_buffer_set_seq_initial (send_buf e) i"
  "RCV_WND (set_tcp_vars i e) = available32 (recv_buf e)"
  by (simp_all add: set_tcp_vars_def)

text \<open>A socket that is about to synchronise: the state \<open>tcp_data_init\<close> leaves it in.\<close>

definition fresh :: "u32 \<Rightarrow> socket \<Rightarrow> bool" where
  "fresh iss e \<longleftrightarrow> actpas_type e = SOCKET_ACTIVE \<and> ISS e = iss \<and> SND_UNA e = iss
     \<and> SND_NXT e = iss + 1 \<and> retrans_q e = [] \<and> \<not> retrans_q_locked e \<and> oop_packet_list e = []
     \<and> unat iss < 255000"

lemma flags_update_tcp_state [simp]: "st \<noteq> CLOSED \<Longrightarrow> flags (update_tcp_state E st e) = flags e"
  by (simp add: update_tcp_state_def debug_breakpoint_def Let_def)

text \<open>The flags and the contents of the buffers stay, and the window offered is the room there is.\<close>

definition bufs_kept :: "socket \<Rightarrow> socket \<Rightarrow> bool" where
  "bufs_kept e e' \<longleftrightarrow> cb_bytes (send_buf e') = cb_bytes (send_buf e)
     \<and> cb_maxsize (send_buf e') = cb_maxsize (send_buf e)
     \<and> cb_bytes (recv_buf e') = cb_bytes (recv_buf e)
     \<and> cb_maxsize (recv_buf e') = cb_maxsize (recv_buf e)
     \<and> flags e' = flags e \<and> RCV_WND e' = available32 (recv_buf e')"

lemma client_connects:
  assumes "quiet E" "actpas_type c = SOCKET_ACTIVE" "tcp_state c = CLOSED"
  obtains c1 p1 iss m where "dispatch_tcp E APPLICATION_CONNECT c = Inr c1"
    and "wire c1 = wire c @ chitcp_frame p1" "tcp_state c1 = SYN_SENT"
    and "actpas_type c1 = SOCKET_ACTIVE" "ISS c1 = iss" "SND_UNA c1 = iss" "SND_NXT c1 = iss + 1"
    and "retrans_q c1 = [m]" "rq_packet m = p1" "\<not> retrans_q_locked c1" "unat iss < 255000"
    and "oop_packet_list c1 = []"
    and "ctl p1 iss (SEG_ACK p1) True False"
    and "bufs_kept c c1" "pending_packets c1 = []" "length p1 = 20"
proof -
  obtain iss where i: "tcp_data_init E c = set_tcp_vars iss (c\<lparr>n_rand := Suc (n_rand c),
      pending_packets := [], withheld_packets := []\<rparr>)" and b: "unat iss < 255000"
    using init_vars [OF assms(1)] by blast
  define e where "e = tcp_data_init E c"
  define p1 where "p1 = segment [] False True iss True e"
  have e: "actpas_type e = SOCKET_ACTIVE" "ISS e = iss" "SND_UNA e = iss" "SND_NXT e = iss + 1"
    "retrans_q e = []" "\<not> retrans_q_locked e" "wire e = wire c" "oop_packet_list e = []"
    "pending_packets e = []" "bufs_kept c e"
    using assms(2) by (simp_all add: e_def i bufs_kept_def)
  have "send_ctl E False True iss True e = Inr (after_send E p1 True 0 e)"
    using quiet_send_ctl [OF assms(1) e(1), of False True True iss] e(6) by (simp add: p1_def)
  then have d: "dispatch_tcp E APPLICATION_CONNECT c
      = Inr (update_tcp_state E SYN_SENT (after_send E p1 True 0 e))"
    using assms(3) by (simp add: dispatch_tcp_def handle_CLOSED_def Let_def e_def [symmetric] e(2))
  show ?thesis
    by (rule that [OF d, of p1 iss "new_reqmember E p1 e"])
      (use b e(10) ctl_segment [of True iss True e] in
        \<open>simp_all add: e p1_def ctl_def bufs_kept_def segment_fields\<close>)
qed

text \<open>A SYN-like packet of the queue is dropped once the number after it is acknowledged.\<close>

lemma ctl_acked:
  assumes "ctl p iss ak True ack" "unat iss < 255000"
  shows "fully_acked (iss + 1) p"
proof -
  have u: "unat (iss + 1) = unat iss + 1"
    using assms(2) by (subst unat_add_lt) simp_all
  then show ?thesis
    using assms by (subst fully_acked_iff [where n = 1]) (simp_all add: ctl_def)
qed

lemma plus_one_window:
  assumes "unat (iss :: u32) < 255000"
  shows "iss \<le> iss + 1" "iss < iss + 1"
proof -
  have "unat (iss + 1) = unat iss + 1" using assms by (subst unat_add_lt) simp_all
  then show "iss \<le> iss + 1" "iss < iss + 1" by (simp_all add: word_le_nat_alt word_less_nat_alt)
qed

text \<open>What handling a packet does first: the packet is taken and the window and time noted.\<close>

definition taken :: "env \<Rightarrow> packet \<Rightarrow> packet list \<Rightarrow> socket \<Rightarrow> socket" where
  "taken E p ps e =
     (let e = e\<lparr>pending_packets := ps, SND_WND := ucast (SEG_WND p)\<rparr>
      in if hdr_ack p then e\<lparr>n_clock := Suc (n_clock e), mostrecentackin := e_clock E (n_clock e)\<rparr>
         else e)"

lemma taken_sel [simp]:
  "tcp_state (taken E p ps e) = tcp_state e" "actpas_type (taken E p ps e) = actpas_type e"
  "ISS (taken E p ps e) = ISS e" "SND_UNA (taken E p ps e) = SND_UNA e"
  "SND_NXT (taken E p ps e) = SND_NXT e" "RCV_NXT (taken E p ps e) = RCV_NXT e"
  "RCV_WND (taken E p ps e) = RCV_WND e" "retrans_q (taken E p ps e) = retrans_q e"
  "retrans_q_locked (taken E p ps e) = retrans_q_locked e" "wire (taken E p ps e) = wire e"
  "oop_packet_list (taken E p ps e) = oop_packet_list e" "recv_buf (taken E p ps e) = recv_buf e"
  "send_buf (taken E p ps e) = send_buf e" "pending_packets (taken E p ps e) = ps"
  "SND_WND (taken E p ps e) = ucast (SEG_WND p)"
  "local_port (taken E p ps e) = local_port e" "remote_port (taken E p ps e) = remote_port e"
  "flags (taken E p ps e) = flags e"
  by (simp_all add: taken_def Let_def)

lemma handle_packet_taken:
  assumes "pending_packets e = p # ps" "header_ok p"
  shows "handle_packet E e = (case tcp_state e of CLOSED \<Rightarrow> Inr (taken E p ps e)
      | LISTEN \<Rightarrow> handle_in_listen E p (taken E p ps e)
      | SYN_SENT \<Rightarrow> handle_in_syn_sent E p (taken E p ps e)
      | s \<Rightarrow> handle_otherwise E s p (taken E p ps e))"
proof -
  let ?e1 = "e\<lparr>pending_packets := ps, SND_WND := ucast (SEG_WND p)\<rparr>"
  have t: "(if hdr_ack p then (case clock_gettime E ?e1 of (t, e) \<Rightarrow> e\<lparr>mostrecentackin := t\<rparr>) else ?e1)
      = taken E p ps e"
    by (simp add: clock_gettime_def taken_def)
  show ?thesis
    using assms(2) unfolding handle_packet_def assms(1) list.case Let_def t taken_sel by simp
qed

text \<open>The state of a socket in the middle of the handshake.\<close>

definition half_open :: "tcp_state \<Rightarrow> u32 \<Rightarrow> packet \<Rightarrow> socket \<Rightarrow> bool" where
  "half_open s iss p e \<longleftrightarrow> tcp_state e = s \<and> actpas_type e = SOCKET_ACTIVE \<and> ISS e = iss
     \<and> SND_UNA e = iss \<and> SND_NXT e = iss + 1 \<and> map rq_packet (retrans_q e) = [p]
     \<and> \<not> retrans_q_locked e \<and> unat iss < 255000 \<and> oop_packet_list e = []"

lemma server_answers:
  assumes "quiet E" "fresh iss s" "tcp_state s = LISTEN" "pending_packets s = [p1]"
    and "ctl p1 ciss ak True False"
  obtains s1 p2 where "dispatch_tcp E PACKET_ARRIVAL s = Inr s1"
    and "wire s1 = wire s @ chitcp_frame p2" "half_open SYN_RCVD iss p2 s1"
    and "RCV_NXT s1 = ciss + 1" "ctl p2 iss (ciss + 1) True True"
    and "pending_packets s1 = []" "flags s1 = flags s" "bufs_kept s s1"
    and "SEG_WND p2 = ucast (RCV_WND s1)" "length p2 = 20"
proof -
  define e where "e = note_syn p1 (taken E p1 [] s)"
  define p2 where "p2 = segment [] False False iss True e"
  have p1: "header_ok p1" "hdr_syn p1" "SEG_SEQ p1 = ciss" using assms(5) by (auto simp: ctl_def)
  have e: "actpas_type e = SOCKET_ACTIVE" "ISS e = iss" "SND_UNA e = iss" "SND_NXT e = iss + 1"
    "retrans_q e = []" "\<not> retrans_q_locked e" "wire e = wire s" "RCV_NXT e = ciss + 1"
    using assms(2) p1 by (simp_all add: e_def fresh_def)
  have oop: "oop_packet_list e = []" "pending_packets e = []" "bufs_kept s e"
    using assms(2) by (simp_all add: e_def fresh_def bufs_kept_def)
  have "send_ctl E False False iss True e = Inr (after_send E p2 True 0 e)"
    using quiet_send_ctl [OF assms(1) e(1), of False True False iss] e(6) by (simp add: p2_def)
  then have d: "dispatch_tcp E PACKET_ARRIVAL s
      = Inr (update_tcp_state E SYN_RCVD (after_send E p2 True 0 e))"
    using assms(3) p1(2)
    by (simp add: dispatch_tcp_def handle_LISTEN_def handle_packet_taken [OF assms(4) p1(1)]
        handle_in_listen_def e_def [symmetric] e(2))
  show ?thesis
    by (rule that [OF d, of p2])
      (use assms(2) oop(3) ctl_segment [of False iss True e] in
        \<open>simp_all add: e half_open_def fresh_def p2_def oop(1,2) bufs_kept_def segment_fields\<close>)
qed

lemma client_established:
  assumes "quiet E" "alloc_room E 1" "half_open SYN_SENT iss p1 c" "pending_packets c = [p2]"
    and "ctl p1 iss ak True False" "ctl p2 siss (iss + 1) True True"
  obtains c1 p3 where "dispatch_tcp E PACKET_ARRIVAL c = Inr c1"
    and "wire c1 = wire c @ chitcp_frame p3" "tcp_state c1 = ESTABLISHED"
    and "SND_UNA c1 = iss + 1" "SND_NXT c1 = iss + 1" "RCV_NXT c1 = siss + 1"
    and "retrans_q c1 = []" "ctl p3 (iss + 1) (siss + 1) False True"
    and "pending_packets c1 = []" "\<not> retrans_q_locked c1" "oop_packet_list c1 = []" "bufs_kept c c1"
    and "SND_WND c1 = ucast (SEG_WND p2)" "SEG_WND p3 = ucast (RCV_WND c1)"
    and "length p3 = 20"
proof -
  let ?t = "taken E p2 [] c"
  let ?u = "?t\<lparr>SND_UNA := iss + 1\<rparr>"
  have b: "unat iss < 255000" and h: "tcp_state c = SYN_SENT" "actpas_type c = SOCKET_ACTIVE"
    "ISS c = iss" "SND_UNA c = iss" "SND_NXT c = iss + 1" "map rq_packet (retrans_q c) = [p1]"
    "\<not> retrans_q_locked c" "oop_packet_list c = []"
    using assms(3) by (auto simp: half_open_def)
  have p2: "header_ok p2" "hdr_syn p2" "hdr_ack p2" "SEG_SEQ p2 = siss" "SEG_ACK p2 = iss + 1"
    using assms(6) by (auto simp: ctl_def)
  have room: "alloc_room E (length (retrans_q ?u))"
    using assms(2) h(6) by (auto simp: map_eq_Cons_conv)
  obtain a r where q: "process_q_after_ack E ?u = Inr (?u\<lparr>srtt := a, rto := r,
      n_alloc := Suc (n_alloc ?u),
      retrans_q := filter (\<lambda>m. \<not> fully_acked (SND_UNA ?u) (rq_packet m)) (retrans_q ?u)\<rparr>)"
    by (rule process_q_cases [OF _ room]) (use h in simp_all)
  have "filter (\<lambda>m. \<not> fully_acked (iss + 1) (rq_packet m)) (retrans_q c) = []"
    using h(6) ctl_acked [OF assms(5) b] by (auto simp: filter_empty_conv)
  then have q: "process_q_after_ack E ?u = Inr (?u\<lparr>srtt := a, rto := r, n_alloc := Suc (n_alloc ?u), retrans_q := []\<rparr>)"
    using q by simp
  define e where "e = update_tcp_state E ESTABLISHED
      (note_syn p2 (?u\<lparr>srtt := a, rto := r, n_alloc := Suc (n_alloc ?u), retrans_q := []\<rparr>))"
  define p3 where "p3 = segment [] False False (iss + 1) False e"
  have e: "actpas_type e = SOCKET_ACTIVE" "SND_UNA e = iss + 1" "SND_NXT e = iss + 1"
    "RCV_NXT e = siss + 1" "retrans_q e = []" "wire e = wire c" "tcp_state e = ESTABLISHED"
    "pending_packets e = []" "\<not> retrans_q_locked e" "oop_packet_list e = []"
    "SND_WND e = ucast (SEG_WND p2)" and kept: "bufs_kept c e"
    using h p2 by (simp_all add: e_def bufs_kept_def)
  have snd: "send_ack E e = Inr (after_send E p3 False 0 e)"
    using quiet_send_ctl [OF assms(1) e(1), of False False False "iss + 1"] e(3)
    by (simp add: p3_def)
  have "handle_in_syn_sent E p2 ?t = send_ack E e"
    using h p2 plus_one_window [OF b] q
    by (simp add: handle_in_syn_sent_def e_def Let_def)
  then have d: "dispatch_tcp E PACKET_ARRIVAL c = Inr (after_send E p3 False 0 e)"
    using h(1) snd
    by (simp add: dispatch_tcp_def handle_SYN_SENT_def handle_packet_taken [OF assms(4) p2(1)])
  show ?thesis
    by (rule that [OF d, of p3])
      (use kept ctl_segment [of False "iss + 1" False e] in
        \<open>simp_all add: e p3_def bufs_kept_def segment_fields\<close>)
qed

lemma server_established:
  assumes "quiet E" "alloc_room E 1" "half_open SYN_RCVD iss p2 s" "pending_packets s = [p3]"
    and "ctl p2 iss ak True True" "RCV_NXT s = sq" "ctl p3 sq (iss + 1) False True"
  obtains s1 where "dispatch_tcp E PACKET_ARRIVAL s = Inr s1"
    and "wire s1 = wire s" "tcp_state s1 = ESTABLISHED"
    and "SND_UNA s1 = iss + 1" "SND_NXT s1 = iss + 1" "RCV_NXT s1 = sq" "retrans_q s1 = []"
    and "pending_packets s1 = []" "\<not> retrans_q_locked s1" "oop_packet_list s1 = []"
    and "send_buf s1 = send_buf s" "recv_buf s1 = recv_buf s" "flags s1 = flags s"
    and "RCV_WND s1 = RCV_WND s" "SND_WND s1 = ucast (SEG_WND p3)"
proof -
  let ?t = "taken E p3 [] s"
  let ?u = "?t\<lparr>SND_UNA := iss + 1\<rparr>"
  have b: "unat iss < 255000" and h: "tcp_state s = SYN_RCVD" "actpas_type s = SOCKET_ACTIVE"
    "ISS s = iss" "SND_UNA s = iss" "SND_NXT s = iss + 1" "map rq_packet (retrans_q s) = [p2]"
    "\<not> retrans_q_locked s" "oop_packet_list s = []"
    using assms(3) by (auto simp: half_open_def)
  have p3: "header_ok p3" "hdr_ack p3" "SEG_SEQ p3 = sq" "SEG_ACK p3 = iss + 1" "\<not> hdr_fin p3"
    "SEG_LEN p3 = 0"
    using assms(7) by (auto simp: ctl_def)
  have room: "alloc_room E (length (retrans_q ?u))"
    using assms(2) h(6) by (auto simp: map_eq_Cons_conv)
  obtain a r where q: "process_q_after_ack E ?u = Inr (?u\<lparr>srtt := a, rto := r,
      n_alloc := Suc (n_alloc ?u),
      retrans_q := filter (\<lambda>m. \<not> fully_acked (SND_UNA ?u) (rq_packet m)) (retrans_q ?u)\<rparr>)"
    by (rule process_q_cases [OF _ room]) (use h in simp_all)
  have "filter (\<lambda>m. \<not> fully_acked (iss + 1) (rq_packet m)) (retrans_q s) = []"
    using h(6) ctl_acked [OF assms(5) b] by (auto simp: filter_empty_conv)
  then have q: "process_q_after_ack E ?u = Inr (?u\<lparr>srtt := a, rto := r, n_alloc := Suc (n_alloc ?u), retrans_q := []\<rparr>)"
    using q by simp
  define e where "e = update_tcp_state E ESTABLISHED (?u\<lparr>srtt := a, rto := r, n_alloc := Suc (n_alloc ?u), retrans_q := []\<rparr>)"
  have e: "SND_UNA e = iss + 1" "SND_NXT e = iss + 1" "RCV_NXT e = sq" "retrans_q e = []"
    "wire e = wire s" "tcp_state e = ESTABLISHED" "oop_packet_list e = []"
    "pending_packets e = []" "\<not> retrans_q_locked e" "send_buf e = send_buf s"
    "recv_buf e = recv_buf s" "flags e = flags s" "RCV_WND e = RCV_WND s"
    "SND_WND e = ucast (SEG_WND p3)"
    using h assms(6) by (simp_all add: e_def)
  have ack: "handle_ack E SYN_RCVD p3 ?t = Inr (False, e)"
    using h p3 plus_one_window [OF b] q by (simp add: handle_ack_def e_def Let_def)
  have "handle_otherwise E SYN_RCVD p3 ?t = Inr (process_oop_after_new_packet e)"
    using p3 assms(6) ack
    by (simp add: handle_otherwise_def handle_text_def handle_fin_def)
  moreover have "process_oop_after_new_packet e = e"
    by (simp add: process_oop_after_new_packet_def e)
  ultimately have d: "dispatch_tcp E PACKET_ARRIVAL s = Inr e"
    using h(1)
    by (simp add: dispatch_tcp_def handle_SYN_RCVD_def handle_packet_taken [OF assms(4) p3(1)])
  show ?thesis by (rule that [OF d]) (simp_all add: e)
qed

text \<open>
  Two sockets after the handshake: synchronised, with their buffers and flags untouched, and each
  with the window of the other.
\<close>

definition opened :: "socket \<Rightarrow> socket \<Rightarrow> socket \<Rightarrow> socket \<Rightarrow> bool" where
  "opened c s c2 s2 \<longleftrightarrow> tcp_state c2 = ESTABLISHED \<and> tcp_state s2 = ESTABLISHED
     \<and> RCV_NXT s2 = SND_NXT c2 \<and> RCV_NXT c2 = SND_NXT s2
     \<and> SND_UNA c2 = SND_NXT c2 \<and> SND_UNA s2 = SND_NXT s2 \<and> retrans_q c2 = [] \<and> retrans_q s2 = []
     \<and> pending_packets c2 = [] \<and> pending_packets s2 = []
     \<and> oop_packet_list c2 = [] \<and> oop_packet_list s2 = []
     \<and> \<not> retrans_q_locked c2 \<and> \<not> retrans_q_locked s2 \<and> bufs_kept c c2 \<and> bufs_kept s s2
     \<and> SND_WND c2 = ucast (ucast (RCV_WND s2) :: u16)
     \<and> SND_WND s2 = ucast (ucast (RCV_WND c2) :: u16)
     \<and> unat (SND_NXT c2) \<le> 255000 \<and> unat (SND_NXT s2) \<le> 255000"

lemma bufs_kept_trans: "bufs_kept e e1 \<Longrightarrow> bufs_kept e1 e' \<Longrightarrow> bufs_kept e e'"
  by (simp add: bufs_kept_def)

lemma bufs_kept_pending [simp]: "bufs_kept (e\<lparr>pending_packets := ps\<rparr>) e' = bufs_kept e e'"
  by (simp add: bufs_kept_def)

lemma handshake:
  assumes "quiet E1" "quiet E2" "alloc_room E1 1" "alloc_room E2 1"
    and "actpas_type c = SOCKET_ACTIVE" "tcp_state c = CLOSED"
    and "fresh siss s" "tcp_state s = LISTEN"
  obtains c1 p1 s1 p2 c2 p3 s2 where
    "dispatch_tcp E1 APPLICATION_CONNECT c = Inr c1" "wire c1 = wire c @ chitcp_frame p1"
    "dispatch_tcp E2 PACKET_ARRIVAL (s\<lparr>pending_packets := [p1]\<rparr>) = Inr s1"
    "wire s1 = wire s @ chitcp_frame p2"
    "dispatch_tcp E1 PACKET_ARRIVAL (c1\<lparr>pending_packets := [p2]\<rparr>) = Inr c2"
    "wire c2 = wire c1 @ chitcp_frame p3"
    "dispatch_tcp E2 PACKET_ARRIVAL (s1\<lparr>pending_packets := [p3]\<rparr>) = Inr s2"
    "opened c s c2 s2" "length p1 = 20" "length p2 = 20" "length p3 = 20"
proof -
  obtain c1 p1 iss m where c1: "dispatch_tcp E1 APPLICATION_CONNECT c = Inr c1"
    "wire c1 = wire c @ chitcp_frame p1" "tcp_state c1 = SYN_SENT"
    "actpas_type c1 = SOCKET_ACTIVE" "ISS c1 = iss" "SND_UNA c1 = iss" "SND_NXT c1 = iss + 1"
    "retrans_q c1 = [m]" "rq_packet m = p1" "\<not> retrans_q_locked c1" "unat iss < 255000"
    "oop_packet_list c1 = []" and p1: "ctl p1 iss (SEG_ACK p1) True False"
    and kc: "bufs_kept c c1" "pending_packets c1 = []" "length p1 = 20"
    by (rule client_connects [OF assms(1,5,6)])
  have "fresh siss (s\<lparr>pending_packets := [p1]\<rparr>)" "tcp_state (s\<lparr>pending_packets := [p1]\<rparr>) = LISTEN"
    "pending_packets (s\<lparr>pending_packets := [p1]\<rparr>) = [p1]" using assms(7,8) by (simp_all add: fresh_def)
  then obtain s1 p2 where s1: "dispatch_tcp E2 PACKET_ARRIVAL (s\<lparr>pending_packets := [p1]\<rparr>) = Inr s1"
    "wire s1 = wire (s\<lparr>pending_packets := [p1]\<rparr>) @ chitcp_frame p2" "half_open SYN_RCVD siss p2 s1"
    "RCV_NXT s1 = iss + 1" "ctl p2 siss (iss + 1) True True" "pending_packets s1 = []"
    "flags s1 = flags (s\<lparr>pending_packets := [p1]\<rparr>)" "bufs_kept (s\<lparr>pending_packets := [p1]\<rparr>) s1" "SEG_WND p2 = ucast (RCV_WND s1)"
    "length p2 = 20"
    by (rule server_answers [OF assms(2) _ _ _ p1])
  have "half_open SYN_SENT iss p1 (c1\<lparr>pending_packets := [p2]\<rparr>)"
    "pending_packets (c1\<lparr>pending_packets := [p2]\<rparr>) = [p2]"
    using c1 by (simp_all add: half_open_def)
  then obtain c2 p3 where c2: "dispatch_tcp E1 PACKET_ARRIVAL (c1\<lparr>pending_packets := [p2]\<rparr>) = Inr c2"
    "wire c2 = wire (c1\<lparr>pending_packets := [p2]\<rparr>) @ chitcp_frame p3" "tcp_state c2 = ESTABLISHED"
    "SND_UNA c2 = iss + 1" "SND_NXT c2 = iss + 1" "RCV_NXT c2 = siss + 1" "retrans_q c2 = []"
    "ctl p3 (iss + 1) (siss + 1) False True" "pending_packets c2 = []" "\<not> retrans_q_locked c2"
    "oop_packet_list c2 = []" "bufs_kept (c1\<lparr>pending_packets := [p2]\<rparr>) c2"
    "SND_WND c2 = ucast (SEG_WND p2)" "SEG_WND p3 = ucast (RCV_WND c2)" "length p3 = 20"
    by (rule client_established [OF assms(1,3) _ _ p1 s1(5)])
  have "half_open SYN_RCVD siss p2 (s1\<lparr>pending_packets := [p3]\<rparr>)"
    "pending_packets (s1\<lparr>pending_packets := [p3]\<rparr>) = [p3]"
    "RCV_NXT (s1\<lparr>pending_packets := [p3]\<rparr>) = iss + 1"
    using s1(3,4) by (simp_all add: half_open_def)
  then obtain s2 where s2: "dispatch_tcp E2 PACKET_ARRIVAL (s1\<lparr>pending_packets := [p3]\<rparr>) = Inr s2"
    "tcp_state s2 = ESTABLISHED" "SND_UNA s2 = siss + 1" "SND_NXT s2 = siss + 1"
    "RCV_NXT s2 = iss + 1" "retrans_q s2 = []" "pending_packets s2 = []" "\<not> retrans_q_locked s2"
    "oop_packet_list s2 = []" "SND_WND s2 = ucast (SEG_WND p3)"
    "RCV_WND s2 = RCV_WND (s1\<lparr>pending_packets := [p3]\<rparr>)"
    "send_buf s2 = send_buf (s1\<lparr>pending_packets := [p3]\<rparr>)"
    "recv_buf s2 = recv_buf (s1\<lparr>pending_packets := [p3]\<rparr>)"
    "flags s2 = flags (s1\<lparr>pending_packets := [p3]\<rparr>)"
    by (rule server_established [OF assms(2,4) _ _ s1(5) _ c2(8)]) blast
  have "bufs_kept s s2" using s1(8) s2 by (simp add: bufs_kept_def)
  moreover have "unat (iss + 1) \<le> 255000" "unat (siss + 1) \<le> 255000"
    using c1(11) assms(7) by (simp_all add: fresh_def unat_add_lt)
  ultimately have "opened c s c2 s2"
    using s1 c2 s2 bufs_kept_trans [OF kc(1)] by (simp add: opened_def)
  then show ?thesis
    by (intro that [OF c1(1,2) s1(1) _ c2(1) _ s2(1)]) (simp_all add: s1(2,10) c2(2,15) kc(3))
qed

section \<open>Expected segments\<close>

text \<open>An acceptable acknowledgement in ESTABLISHED.\<close>

lemma ack_established:
  assumes "\<not> retrans_q_locked e" "\<not> SND_NXT e < SEG_ACK p" "alloc_room E (length (retrans_q e))"
  obtains a r k q where "handle_ack E ESTABLISHED p e = Inr (False,
      e\<lparr>SND_UNA := (if SND_UNA e < SEG_ACK p then SEG_ACK p else SND_UNA e),
        srtt := a, rto := r, n_alloc := k, retrans_q := q\<rparr>)"
    and "q = (if SND_UNA e < SEG_ACK p
      then filter (\<lambda>m. \<not> fully_acked (SEG_ACK p) (rq_packet m)) (retrans_q e) else retrans_q e)"
proof (cases "SND_UNA e < SEG_ACK p")
  case True
  let ?u = "e\<lparr>SND_UNA := SEG_ACK p\<rparr>"
  obtain a r where q: "process_q_after_ack E ?u = Inr (?u\<lparr>srtt := a, rto := r,
      n_alloc := Suc (n_alloc ?u),
      retrans_q := filter (\<lambda>m. \<not> fully_acked (SND_UNA ?u) (rq_packet m)) (retrans_q ?u)\<rparr>)"
    by (rule process_q_cases [of ?u E]) (use assms(1,3) in simp_all)
  have "SEG_ACK p \<le> SND_NXT e" using assms(2) by simp
  then have "handle_ack E ESTABLISHED p e = Inr (False, ?u\<lparr>srtt := a, rto := r,
      n_alloc := Suc (n_alloc e), retrans_q := filter (\<lambda>m. \<not> fully_acked (SEG_ACK p) (rq_packet m)) (retrans_q e)\<rparr>)"
    using True q by (simp add: handle_ack_def Let_def)
  then show ?thesis using True by (intro that) auto
next
  case False
  then have "handle_ack E ESTABLISHED p e = Inr (False, e)"
    using assms(2) by (simp add: handle_ack_def Let_def)
  then have "handle_ack E ESTABLISHED p e = Inr (False, e\<lparr>SND_UNA := SND_UNA e,
      srtt := srtt e, rto := rto e, n_alloc := n_alloc e, retrans_q := retrans_q e\<rparr>)"
    by simp
  then show ?thesis using False by (intro that [of "retrans_q e" "n_alloc e" "rto e" "srtt e"]) auto
qed

text \<open>
  A data segment: a whole header, the flag ACK alone, and a data offset inside the packet, so that
  the payload is \<open>d\<close>.
\<close>

definition data_segment :: "packet \<Rightarrow> u32 \<Rightarrow> byte list \<Rightarrow> bool" where
  "data_segment p sq d \<longleftrightarrow> header_ok p \<and> SEG_SEQ p = sq \<and> hdr_ack p \<and> \<not> hdr_syn p \<and> \<not> hdr_fin p
     \<and> TCP_PAYLOAD_START p = d \<and> TCP_PAYLOAD_LEN p = of_nat (length d)
     \<and> 0 < length d \<and> length d < 65536"

lemma data_segment_len:
  assumes "data_segment p sq d"
  shows "unat (TCP_PAYLOAD_LEN p) = length d" "TCP_PAYLOAD_LEN p > 0"
proof -
  show l: "unat (TCP_PAYLOAD_LEN p) = length d"
    using assms by (simp add: data_segment_def unat_of_nat)
  show "TCP_PAYLOAD_LEN p > 0" using assms l by (simp add: word_less_nat_alt data_segment_def)
qed

text \<open>The write of the text: the part that fits is appended to the receive buffer.\<close>

lemma text_write:
  assumes "cb_wf b" and "data_segment p sq d"
  defines "n \<equiv> min (length d) (unat (cb_maxsize b) - length (cb_bytes b))"
  obtains r b' where "cb_res (circular_buffer_write b (TCP_PAYLOAD_START p) (text_len p b) False)
      = Inr (r, b')"
    and "cb_wf b'" "cb_bytes b' = cb_bytes b @ take n d" "cb_maxsize b' = cb_maxsize b"
    and "text_len p b = of_nat n" "unat (available32 b') = unat (available32 b) - n"
proof -
  note bnd = cb_wf_bounds [OF assms(1)]
  have u: "unat (text_len p b) = n"
    using unat_text_len [OF assms(1), of p] data_segment_len [OF assms(2)] by (simp add: n_def)
  then have tl: "text_len p b = of_nat n" by (rule unat_eq_of_nat)
  have d: "TCP_PAYLOAD_START p = d" using assms(2) by (simp add: data_segment_def)
  show ?thesis
  proof (cases "n = 0")
    case True
    then have "circular_buffer_write b d (text_len p b) False = Returns CHITCP_EINVAL b"
      by (simp add: tl circular_buffer_write_def)
    then show ?thesis
      using True by (intro that [of CHITCP_EINVAL b]) (simp_all add: cb_res_def d assms(1) tl)
  next
    case False
    have "unat (text_len p b) \<le> length d" "0 < text_len p b"
      "unat (cb_count b) + unat (text_len p b) \<le> unat (cb_maxsize b)"
      using False u bnd by (auto simp: n_def word_less_nat_alt)
    from cb_write_fits [OF assms(1) this, of False] obtain b' where
      b': "circular_buffer_write b d (text_len p b) False = Returns (int n) b'" "cb_wf b'"
        "cb_bytes b' = cb_bytes b @ take n d" "cb_maxsize b' = cb_maxsize b"
      using u by auto
    have "unat (cb_count b') = unat (cb_count b) + n"
    proof -
      have "length (cb_bytes b') = unat (cb_count b) + n" using b'(3) by (simp add: n_def)
      then show ?thesis by simp
    qed
    then have "unat (available32 b') = unat (available32 b) - n"
      using unat_available32 [OF b'(2)] unat_available32 [OF assms(1)] b'(4) by simp
    then show ?thesis
      using b' by (intro that [of "int n" b']) (simp_all add: cb_res_def d tl)
  qed
qed

lemma oop_frame:
  "\<exists>q ps. process_oop_after_new_packet e = e\<lparr>oop_packet_list := q, pending_packets := ps\<rparr>"
proof (cases "List.find (\<lambda>p. packet_seeker p (RCV_NXT e)) (oop_packet_list e)")
  case None
  then have "process_oop_after_new_packet e
      = e\<lparr>oop_packet_list := oop_packet_list e, pending_packets := pending_packets e\<rparr>"
    by (simp add: process_oop_after_new_packet_def)
  then show ?thesis by blast
next
  case (Some p)
  then show ?thesis by (auto simp: process_oop_after_new_packet_def)
qed

lemma oop_effect:
  "(oop_packet_list (process_oop_after_new_packet e),
    pending_packets (process_oop_after_new_packet e)) =
   (if \<exists>x \<in> set (oop_packet_list e). SEG_SEQ x = RCV_NXT e
    then (tl (oop_packet_list e), hd (oop_packet_list e) # pending_packets e)
    else (oop_packet_list e, pending_packets e))"
proof (cases "List.find (\<lambda>p. packet_seeker p (RCV_NXT e)) (oop_packet_list e)")
  case None
  then have "\<not> (\<exists>x \<in> set (oop_packet_list e). SEG_SEQ x = RCV_NXT e)"
    by (auto simp: find_None_iff packet_seeker_def)
  with None show ?thesis by (simp add: process_oop_after_new_packet_def)
next
  case (Some p)
  then have "\<exists>x \<in> set (oop_packet_list e). SEG_SEQ x = RCV_NXT e"
    by (auto simp: find_Some_iff packet_seeker_def)
  with Some show ?thesis by (simp add: process_oop_after_new_packet_def)
qed

lemma deliver_text:
  assumes q: "quiet E" and inv: "tcp_inv e" and st: "tcp_state e = ESTABLISHED"
    and lk: "\<not> retrans_q_locked e" and pk: "pending_packets e = p # ps"
    and seg: "data_segment p (RCV_NXT e) d" and wnd: "RCV_WND e \<noteq> 0"
    and ack: "\<not> SND_NXT e < SEG_ACK p" and room: "alloc_room E (length (retrans_q e))"
  defines "n \<equiv> min (length d) (unat (cb_maxsize (recv_buf e)) - length (cb_bytes (recv_buf e)))"
  obtains e' e1 where "dispatch_tcp E PACKET_ARRIVAL e = Inr e'" "tcp_state e' = ESTABLISHED"
    and "cb_bytes (recv_buf e') = cb_bytes (recv_buf e) @ take n d"
    and "RCV_NXT e' = RCV_NXT e + of_nat n"
    and "unat (RCV_WND e') = unat (available32 (recv_buf e)) - n"
    and "wire e' = wire e @ chitcp_frame (segment [] False False (SND_NXT e) False e1)"
    and "RCV_NXT e1 = RCV_NXT e'" "RCV_WND e1 = RCV_WND e'"
    and "SND_UNA e' = (if SND_UNA e < SEG_ACK p then SEG_ACK p else SND_UNA e)"
    and "\<not> retrans_q_locked e'" "tcp_inv e'"
    and "(oop_packet_list e', pending_packets e') =
      (if \<exists>x \<in> set (oop_packet_list e). SEG_SEQ x = RCV_NXT e'
       then (tl (oop_packet_list e), hd (oop_packet_list e) # ps)
       else (oop_packet_list e, ps))"
    and "cb_maxsize (recv_buf e') = cb_maxsize (recv_buf e)" "SND_NXT e' = SND_NXT e"
    and "length (retrans_q e') \<le> length (retrans_q e)"
proof -
  have sort: "sort_ok E" using q by (simp add: quiet_def)
  let ?t = "taken E p ps e"
  have hp: "header_ok p" "hdr_ack p" "\<not> hdr_fin p" "SEG_SEQ p = RCV_NXT e"
    using seg by (auto simp: data_segment_def)
  have wf: "cb_wf (recv_buf e)" and act: "actpas_type e = SOCKET_ACTIVE"
    using inv by (auto simp: tcp_inv_def)
  obtain a r k rq where ha: "handle_ack E ESTABLISHED p ?t = Inr (False,
      ?t\<lparr>SND_UNA := (if SND_UNA ?t < SEG_ACK p then SEG_ACK p else SND_UNA ?t),
        srtt := a, rto := r, n_alloc := k, retrans_q := rq\<rparr>)"
    and rq: "rq = (if SND_UNA ?t < SEG_ACK p
      then filter (\<lambda>m. \<not> fully_acked (SEG_ACK p) (rq_packet m)) (retrans_q ?t) else retrans_q ?t)"
    by (rule ack_established [of ?t p E]) (use lk ack room in simp_all)
  define u where "u = ?t\<lparr>SND_UNA := (if SND_UNA ?t < SEG_ACK p then SEG_ACK p else SND_UNA ?t),
        srtt := a, rto := r, n_alloc := k, retrans_q := rq\<rparr>"
  have u: "recv_buf u = recv_buf e" "actpas_type u = SOCKET_ACTIVE" "RCV_NXT u = RCV_NXT e"
    "SND_NXT u = SND_NXT e" "wire u = wire e" "tcp_state u = ESTABLISHED"
    "\<not> retrans_q_locked u" "SND_UNA u = (if SND_UNA e < SEG_ACK p then SEG_ACK p else SND_UNA e)"
    using act st lk by (simp_all add: u_def)
  have "length rq \<le> length (retrans_q e)" by (simp add: rq)
  then have shorter: "length (retrans_q u) \<le> length (retrans_q e)" by (simp add: u_def)
  obtain rr b' where w: "cb_res (circular_buffer_write (recv_buf e) (TCP_PAYLOAD_START p)
      (text_len p (recv_buf e)) False) = Inr (rr, b')"
    "cb_bytes b' = cb_bytes (recv_buf e) @ take n d" "text_len p (recv_buf e) = of_nat n"
    "unat (available32 b') = unat (available32 (recv_buf e)) - n"
    "cb_maxsize b' = cb_maxsize (recv_buf e)"
    by (rule text_write [OF wf seg]) (simp add: n_def)
  define e1 where "e1 = u\<lparr>recv_buf := b', RCV_WND := available32 b', RCV_NXT := RCV_NXT e + of_nat n\<rparr>"
  let ?p = "segment [] False False (SND_NXT e) False e1"
  have has: "has_text ESTABLISHED p" using data_segment_len(2) [OF seg] by (simp add: has_text_def)
  have "send_ack E e1 = Inr (after_send E ?p False 0 e1)"
    using quiet_send_ctl [OF q, of e1 False False False "SND_NXT e"] u by (simp add: e1_def)
  then have ht: "handle_text E ESTABLISHED p u = Inr (after_send E ?p False 0 e1)"
    using w has u by (simp add: handle_text_eq e1_def)
  obtain oq pp where oop: "process_oop_after_new_packet (after_send E ?p False 0 e1)
      = (after_send E ?p False 0 e1)\<lparr>oop_packet_list := oq, pending_packets := pp\<rparr>"
    using oop_frame by blast
  define e' where "e' = (after_send E ?p False 0 e1)\<lparr>oop_packet_list := oq, pending_packets := pp\<rparr>"
  have ho: "handle_otherwise E ESTABLISHED p ?t = Inr e'"
    using hp wnd ha [folded u_def] ht oop
    by (simp add: handle_otherwise_def handle_fin_def e'_def)
  then have d: "dispatch_tcp E PACKET_ARRIVAL e = Inr e'"
    using st by (simp add: dispatch_tcp_def handle_ESTABLISHED_def handle_packet_taken [OF pk hp(1)])
  have "tcp_inv e'"
    using keepsD [OF keeps_dispatch [OF inv sort] d] by (simp add: at_state_def)
  moreover have "(oop_packet_list e', pending_packets e') =
      (if \<exists>x \<in> set (oop_packet_list e). SEG_SEQ x = RCV_NXT e'
       then (tl (oop_packet_list e), hd (oop_packet_list e) # ps)
       else (oop_packet_list e, ps))"
    using oop_effect [of "after_send E ?p False 0 e1"] oop by (simp add: e'_def e1_def u_def)
  ultimately show ?thesis
    by (intro that [OF d, of e1]) (simp_all add: e'_def e1_def u w shorter)
qed

section \<open>Segmentation\<close>

text \<open>The sequence numbers of consecutive segments.\<close>

fun seg_numbers :: "u32 \<Rightarrow> byte list list \<Rightarrow> u32 list" where
  "seg_numbers sq [] = []"
| "seg_numbers sq (d # ds) = sq # seg_numbers (sq + of_nat (length d)) ds"

text \<open>
  \<open>e'\<close> is \<open>e\<close> after the payloads \<open>ds\<close> went out one after the other: each on the wire and in the
  retransmission queue, numbered consecutively.
\<close>

definition sent_segments :: "socket \<Rightarrow> byte list list \<Rightarrow> socket \<Rightarrow> bool" where
  "sent_segments e ds e' \<longleftrightarrow> (\<exists>ms. retrans_q e' = retrans_q e @ ms
     \<and> map (TCP_PAYLOAD_START \<circ> rq_packet) ms = ds
     \<and> map (SEG_SEQ \<circ> rq_packet) ms = seg_numbers (SND_NXT e) ds
     \<and> wire e' = wire e @ concat (map (chitcp_frame \<circ> rq_packet) ms))
   \<and> SND_NXT e' = SND_NXT e + of_nat (length (concat ds))
   \<and> SND_UNA e' = SND_UNA e \<and> SND_WND e' = SND_WND e \<and> send_buf e' = send_buf e
   \<and> recv_buf e' = recv_buf e \<and> tcp_state e' = tcp_state e
   \<and> actpas_type e' = actpas_type e \<and> retrans_q_locked e' = retrans_q_locked e"

lemma sent_segments_Nil [simp]: "sent_segments e [] e"
  by (simp add: sent_segments_def)






text \<open>With no room left in the window the loop sends empty segments for ever.\<close>

lemma segment_loop_stuck:
  assumes "actpas_type e = SOCKET_ACTIVE" "x < bytes_read"
  shows "segment_loop E buf bytes_read 0 x e = None"
proof (rule ccontr)
  assume "segment_loop E buf bytes_read 0 x e \<noteq> None"
  then obtain y where y: "segment_loop E buf bytes_read 0 x e = Some y" by blast
  have "\<not> ((0 :: int) = 0 \<and> actpas_type e = SOCKET_ACTIVE \<and> x < bytes_read)"
  proof (rule segment_loop.raw_induct [where xa = "(((((E, buf), bytes_read), 0), x), e)" and y = y and
        P = "\<lambda>E buf r wnd x e res. \<not> (wnd = 0 \<and> actpas_type e = SOCKET_ACTIVE \<and> x < r)",
        unfolded prod.case], goal_cases)
    case (1 loop E buf r wnd x e res)
    show ?case
    proof
      assume a: "wnd = 0 \<and> actpas_type e = SOCKET_ACTIVE \<and> x < r"
      then have len: "segment_len r wnd x = 0"
        by (auto simp: segment_len_def TCP_MSS_def Let_def)
      have sb: "seg_buf (Some []) []" by (simp add: seg_buf_def)
      let ?e = "send_tcp_packet E (segment [] False False (SND_NXT e) False e) e"
      have snd: "tcp_send_packet E (Some []) 0 False False (SND_NXT e) False e = Inr ?e"
        using tcp_send_packet_eq [OF _ sb, of e E False False "SND_NXT e" False] a by simp
      have act: "actpas_type ?e = SOCKET_ACTIVE"
        using a send_tcp_packet_frame [of E "segment [] False False (SND_NXT e) False e" e] by auto
      have "loop E buf r wnd x ?e = Some res"
        using 1(2) a len snd by (simp add: Let_def)
      from 1(1) [OF this] act a show False by simp
    qed
  next
    case 2
    show ?case by (rule y)
  qed
  with assms show False by simp
qed

section \<open>Timeouts\<close>

text \<open>
  \<open>lowestseq\<close> is set from the first packet of the queue or not at all: it starts as 0, and no
  sequence number is below 0.
\<close>

lemma lowest_stays_zero: "0 < i \<Longrightarrow> fst (lowest_timed_out E i 0 q e) = 0"
proof (induction q arbitrary: i e)
  case Nil
  then show ?case by simp
next
  case (Cons cur q)
  have "lowest_timed_out E i 0 (cur # q) e
      = lowest_timed_out E (Suc i) 0 q (e\<lparr>n_clock := Suc (n_clock e)\<rparr>)"
    using Cons.prems by (simp add: timed_out_def clock_gettime_def Let_def)
  then show ?case using Cons.IH by simp
qed

definition head_on_time :: "env \<Rightarrow> socket \<Rightarrow> bool" where
  "head_on_time E e \<longleftrightarrow> (case retrans_q e of [] \<Rightarrow> True
     | m # q \<Rightarrow> \<not> timed_out_at (e_clock E (n_clock e)) (rq_timeout m))"

lemma lowest_on_time:
  assumes "head_on_time E e"
  obtains k where "lowest_timed_out E 0 0 (retrans_q e) e = (0, e\<lparr>n_clock := k\<rparr>)"
proof -
  have "fst (lowest_timed_out E 0 0 (retrans_q e) e) = 0"
  proof (cases "retrans_q e")
    case Nil
    then show ?thesis by simp
  next
    case (Cons m q)
    then have "lowest_timed_out E 0 0 (retrans_q e) e
        = lowest_timed_out E 1 0 q (e\<lparr>n_clock := Suc (n_clock e)\<rparr>)"
      using assms by (simp add: head_on_time_def timed_out_def clock_gettime_def)
    then show ?thesis by (simp add: lowest_stays_zero)
  qed
  with lowest_timed_out_frame [of E 0 0 "retrans_q e" e] show ?thesis
    by (metis prod.collapse that)
qed

lemma timeout_keeps_lock:
  assumes "\<not> retrans_q_locked e" "head_on_time E e"
  obtains k where "process_timeout E e = Inr (e\<lparr>retrans_q_locked := True,
    n_alloc := Suc (n_alloc e), n_clock := k\<rparr>)"
proof -
  let ?e = "e\<lparr>retrans_q_locked := True, n_alloc := Suc (n_alloc e)\<rparr>"
  have "head_on_time E ?e" using assms(2) by (simp add: head_on_time_def split: list.splits)
  then obtain k where "lowest_timed_out E 0 0 (retrans_q ?e) ?e = (0, ?e\<lparr>n_clock := k\<rparr>)"
    by (rule lowest_on_time)
  then show ?thesis
    using assms(1) by (intro that [of k]) (simp add: process_timeout_def lock_retrans_q_def calloc_none_def Let_def)
qed

text \<open>Sending data with the mutex held.\<close>

lemma segment_loop_deadlocks:
  assumes "actpas_type e = SOCKET_ACTIVE" "retrans_q_locked e" "0 < wnd"
    and "bytes_read = int (length buf)" "0 < bytes_read"
  shows "segment_loop E buf bytes_read wnd 0 e = Some (Inl Self_deadlock)"
proof -
  define len where "len = segment_len bytes_read wnd 0"
  have len: "0 < len" "len \<le> bytes_read" "len \<le> TCP_MSS"
    using assms(3,5) by (auto simp: len_def segment_len_def TCP_MSS_def Let_def)
  define d where "d = take (nat len) buf"
  have ld: "length d = nat len" using len assms(4) by (simp add: d_def)
  have sb: "seg_buf (Some d) d" using len(3) ld by (simp add: seg_buf_def TCP_MSS_def)
  have ne: "d \<noteq> []" using ld len(1) by auto
  have "of_nat (length d) = (of_int len :: u64)" using ld len(1) by simp
  then have "tcp_send_packet E (Some d) (of_int len) False False (SND_NXT e) False e
      = Inl Self_deadlock"
    using tcp_send_packet_eq [OF assms(1) sb, of E False False "SND_NXT e" False] ne assms(2) by simp
  then show ?thesis
    using len assms(5) len_def [symmetric] d_def [symmetric]
    by (subst segment_loop.simps) (simp add: Let_def assms(4))
qed

lemma send_buffer_deadlocks:
  assumes inv: "tcp_inv e" and lk: "retrans_q_locked e"
    and ne: "cb_bytes (send_buf e) \<noteq> []" and w0: "SND_WND e \<noteq> 0"
    and wnd: "0 < sint (SND_WND e - (SND_NXT e - SND_UNA e))"
  shows "process_send_buffer E e = Inl Self_deadlock"
proof -
  have wf: "cb_wf (send_buf e)" and act: "actpas_type e = SOCKET_ACTIVE"
    using inv by (auto simp: tcp_inv_def)
  have w: "0 < SND_WND e" using w0 by (simp add: word_neq_0_conv)
  let ?n = "min (unat (SND_WND e)) (length (cb_bytes (send_buf e)))"
  have n: "0 < ?n" using w ne by (simp add: word_less_nat_alt cb_bytes_Nil_iff unat_gt_0)
  from cb_read_some [OF wf w ne, of False False] obtain b' where
    b': "circular_buffer_read (send_buf e) (SND_WND e) False
        = Returns (int ?n) (b', take ?n (cb_bytes (send_buf e)))"
    unfolding circular_buffer_read_def by (auto simp: min_def)
  let ?e = "e\<lparr>send_buf := b'\<rparr>" and ?buf = "take ?n (cb_bytes (send_buf e))"
  have "segment_loop E ?buf (int ?n) (sint (SND_WND e - (SND_NXT e - SND_UNA e))) 0 ?e
      = Some (Inl Self_deadlock)"
    by (rule segment_loop_deadlocks) (use act lk wnd n in auto)
  then show ?thesis using b' by (simp add: process_send_buffer_def cb_res_def Let_def)
qed

section \<open>A socket to run it on\<close>

definition demo_env :: env where
  "demo_env = \<lparr>e_clock = (\<lambda>k. Timespec (of_nat k) 0), e_debug = (\<lambda>k. DBG_RESP_NONE),
     e_send = (\<lambda>k. 70000), e_rand = (\<lambda>k. 1), e_alpha = id, e_alpha1 = id, e_beta = id,
     e_sort = sort_key SEG_SEQ, e_alloc = (\<lambda>k. replicate 6 0)\<rparr>"

definition no_flags :: event_flags where
  "no_flags = \<lparr>app_close = False, app_connect = False, app_recv = False, app_send = False,
     net_recv = False, cleanup = False, timeout = False\<rparr>"

definition demo_buf :: circular_buffer where
  "demo_buf = circular_buffer_init (replicate 8 0) 8"

text \<open>An active socket with numbers 1000 and 1001 and empty buffers of eight bytes.\<close>

definition demo_socket :: "tcp_state \<Rightarrow> socket" where
  "demo_socket st = \<lparr>retrans_q = [], retrans_q_locked = False, rto = Timespec 0 5000000,
     srtt = Timespec 0 5000000, upper = Timespec 0 999999999, lower = Timespec 0 100000,
     mostrecentackin = Timespec 0 0, oop_packet_list = [], pending_packets = [],
     withheld_packets = [], ISS = 1000, SND_UNA = 1000, SND_NXT = 1001, SND_WND = 10, IRS = 0,
     RCV_NXT = 7, RCV_WND = 8, send_buf = demo_buf, recv_buf = demo_buf, closing = False,
     finsent = False, tcp_state = st, actpas_type = SOCKET_ACTIVE, local_port = 1,
     remote_port = 2, flags = no_flags, wire = [], n_clock = 0, n_debug = 0, n_send = 0,
     n_rand = 0, n_alloc = 0\<rparr>"

lemma demo_quiet: "quiet demo_env"
  by (simp add: quiet_def no_monitor_def send_whole_def sort_ok_def demo_env_def)

lemma demo_room: "n \<le> 6 \<Longrightarrow> alloc_room demo_env n"
  by (simp add: alloc_room_def block_room_def demo_env_def)

lemma demo_sort: "sort_ok demo_env"
  using demo_quiet by (simp add: quiet_def)

lemma demo_buf_wf: "cb_wf demo_buf" "cb_bytes demo_buf = []" "cb_maxsize demo_buf = 8"
  unfolding demo_buf_def
  by (rule cb_wf_init, simp_all, simp add: circular_buffer_init_def)

lemma demo_inv: "tcp_inv (demo_socket st)"
  by (simp add: tcp_inv_def demo_socket_def demo_buf_wf)

lemma demo_fresh: "fresh 1000 (demo_socket st)"
  by (simp add: fresh_def demo_socket_def)

lemma demo_sel [simp]:
  "tcp_state (demo_socket st) = st" "actpas_type (demo_socket st) = SOCKET_ACTIVE"
  "retrans_q_locked (demo_socket st) = False" "RCV_NXT (demo_socket st) = 7"
  "SND_NXT (demo_socket st) = 1001" "SND_UNA (demo_socket st) = 1000"
  "SND_WND (demo_socket st) = 10" "RCV_WND (demo_socket st) = 8"
  "recv_buf (demo_socket st) = demo_buf" "send_buf (demo_socket st) = demo_buf"
  "retrans_q (demo_socket st) = []" "wire (demo_socket st) = []"
  by (simp_all add: demo_socket_def)

text \<open>The same socket with three bytes to send.\<close>

definition demo_sender :: "tcp_state \<Rightarrow> socket" where
  "demo_sender st = (demo_socket st)\<lparr>send_buf := snd (nb_write demo_buf [1, 2, 3])\<rparr>"

lemma demo_sender_buf:
  "cb_wf (snd (nb_write demo_buf [1, 2, 3]))"
  "cb_bytes (snd (nb_write demo_buf [1, 2, 3])) = [1, 2, 3]"
  using cb.put_fits [OF demo_buf_wf(1), of "[1, 2, 3]"] by (auto simp: demo_buf_wf)

lemma demo_sender_inv: "tcp_inv (demo_sender st)"
  using demo_inv [of st] demo_sender_buf by (simp add: demo_sender_def tcp_inv_def)

section \<open>Properties\<close>

text \<open>
  C2: The three-way handshake. A closed client and a listening server, initialised by
  \<open>tcp_data_init\<close>, both become ESTABLISHED when the three packets they put on the wire reach the
  other side: each then expects exactly the number the other will send next, has everything it
  sent acknowledged and nothing left to retransmit. The initial numbers are whatever \<open>rand()\<close> gave.
  Each end acknowledges the one packet of its queue through an array of no bytes, so both need an
  allocator whose empty blocks hold an \<open>int\<close> (\<open>alloc_room\<close>), which C does not promise; no monitor
  drops a packet and the real connections take each packet whole (\<open>quiet\<close>).
\<close>
theorem three_way_handshake:
  assumes "quiet E1" "quiet E2" "alloc_room E1 1" "alloc_room E2 1"
    and "actpas_type c = SOCKET_ACTIVE" "tcp_state c = CLOSED"
    and "fresh siss s" "tcp_state s = LISTEN"
  shows "\<exists>c1 p1 s1 p2 c2 p3 s2.
    dispatch_tcp E1 APPLICATION_CONNECT c = Inr c1 \<and> wire c1 = wire c @ chitcp_frame p1
    \<and> dispatch_tcp E2 PACKET_ARRIVAL (s\<lparr>pending_packets := [p1]\<rparr>) = Inr s1
    \<and> wire s1 = wire s @ chitcp_frame p2
    \<and> dispatch_tcp E1 PACKET_ARRIVAL (c1\<lparr>pending_packets := [p2]\<rparr>) = Inr c2
    \<and> wire c2 = wire c1 @ chitcp_frame p3
    \<and> dispatch_tcp E2 PACKET_ARRIVAL (s1\<lparr>pending_packets := [p3]\<rparr>) = Inr s2
    \<and> tcp_state c2 = ESTABLISHED \<and> tcp_state s2 = ESTABLISHED
    \<and> RCV_NXT s2 = SND_NXT c2 \<and> RCV_NXT c2 = SND_NXT s2
    \<and> SND_UNA c2 = SND_NXT c2 \<and> SND_UNA s2 = SND_NXT s2
    \<and> retrans_q c2 = [] \<and> retrans_q s2 = []"
proof -
  obtain c1 p1 s1 p2 c2 p3 s2 where
    "dispatch_tcp E1 APPLICATION_CONNECT c = Inr c1" "wire c1 = wire c @ chitcp_frame p1"
    "dispatch_tcp E2 PACKET_ARRIVAL (s\<lparr>pending_packets := [p1]\<rparr>) = Inr s1"
    "wire s1 = wire s @ chitcp_frame p2"
    "dispatch_tcp E1 PACKET_ARRIVAL (c1\<lparr>pending_packets := [p2]\<rparr>) = Inr c2"
    "wire c2 = wire c1 @ chitcp_frame p3"
    "dispatch_tcp E2 PACKET_ARRIVAL (s1\<lparr>pending_packets := [p3]\<rparr>) = Inr s2"
    "opened c s c2 s2"
    by (rule handshake [OF assms]) (rule that; assumption)
  then show ?thesis unfolding opened_def by metis
qed

theorem three_way_handshake_witness:
  "\<exists>c1 p1 s1 p2 c2 p3 s2.
     dispatch_tcp demo_env APPLICATION_CONNECT (demo_socket CLOSED) = Inr c1
     \<and> dispatch_tcp demo_env PACKET_ARRIVAL (demo_socket LISTEN\<lparr>pending_packets := [p1]\<rparr>) = Inr s1
     \<and> dispatch_tcp demo_env PACKET_ARRIVAL (c1\<lparr>pending_packets := [p2]\<rparr>) = Inr c2
     \<and> dispatch_tcp demo_env PACKET_ARRIVAL (s1\<lparr>pending_packets := [p3]\<rparr>) = Inr s2
     \<and> tcp_state c2 = ESTABLISHED \<and> tcp_state s2 = ESTABLISHED"
  using three_way_handshake [OF demo_quiet demo_quiet _ _ _ _ demo_fresh [of LISTEN],
      of "demo_socket CLOSED"] demo_room [of 1]
  by (simp, elim exE conjE, intro exI conjI) assumption+


text \<open>
  A segment whose acknowledgement is beyond \<open>SND_NXT\<close> is refused: its data is not delivered,
  no variable moves and the state stays; the only effect is one acknowledgement on the wire.
\<close>
theorem future_ack_refused:
  assumes "quiet E" "tcp_inv e" "tcp_state e \<in> {ESTABLISHED, FIN_WAIT_2, CLOSING}"
    and "pending_packets e = p # ps" "header_ok p" "hdr_ack p" "SEG_SEQ p = RCV_NXT e"
    and "RCV_WND e \<noteq> 0" "SND_NXT e < SEG_ACK p" "SND_UNA e \<le> SEG_ACK p"
  shows "\<exists>e' ackp. dispatch_tcp E PACKET_ARRIVAL e = Inr e' \<and> tcp_state e' = tcp_state e
    \<and> recv_buf e' = recv_buf e \<and> RCV_NXT e' = RCV_NXT e \<and> SND_UNA e' = SND_UNA e
    \<and> SND_NXT e' = SND_NXT e \<and> retrans_q e' = retrans_q e \<and> pending_packets e' = ps
    \<and> wire e' = wire e @ chitcp_frame ackp \<and> SEG_ACK ackp = RCV_NXT e"
proof -
  let ?t = "taken E p ps e"
  let ?p = "segment [] False False (SND_NXT e) False ?t"
  have act: "actpas_type ?t = SOCKET_ACTIVE" using assms(2) by (simp add: tcp_inv_def)
  have snd: "send_ack E ?t = Inr (after_send E ?p False 0 ?t)"
    using quiet_send_ctl [OF assms(1) act, of False False False "SND_NXT e"] by simp
  have "\<not> SEG_ACK p \<le> SND_NXT e" "\<not> SEG_ACK p < SND_UNA e" using assms(9,10) by simp_all
  then have "handle_ack E (tcp_state e) p ?t = Inr (True, after_send E ?p False 0 ?t)"
    using assms(3,9) snd by (auto simp: handle_ack_def Let_def)
  then have "handle_otherwise E (tcp_state e) p ?t = Inr (after_send E ?p False 0 ?t)"
    using assms(6-8) by (simp add: handle_otherwise_def)
  then have "handle_packet E e = Inr (after_send E ?p False 0 ?t)"
    using assms(3) by (auto simp: handle_packet_taken [OF assms(4,5)])
  then have "dispatch_tcp E PACKET_ARRIVAL e = Inr (after_send E ?p False 0 ?t)"
    using assms(3)
    by (auto simp: dispatch_tcp_def handle_ESTABLISHED_def handle_FIN_WAIT_2_def handle_CLOSING_def)
  then show ?thesis by (auto simp: segment_fields)
qed

lemma data_segment_segment:
  "length d < 65536 \<Longrightarrow> d \<noteq> [] \<Longrightarrow> data_segment (segment d False False sq False e) sq d"
  by (simp add: data_segment_def segment_fields segment_header_ok)



theorem future_ack_refused_witness:
  "\<exists>e' ackp. dispatch_tcp demo_env PACKET_ARRIVAL
      (demo_socket ESTABLISHED\<lparr>pending_packets :=
         [segment [65] False False 7 False (demo_socket ESTABLISHED\<lparr>RCV_NXT := 5000\<rparr>)]\<rparr>) = Inr e'
    \<and> RCV_NXT e' = 7 \<and> wire e' = chitcp_frame ackp \<and> SEG_ACK ackp = 7"
proof -
  let ?p = "segment [65] False False 7 False (demo_socket ESTABLISHED\<lparr>RCV_NXT := 5000\<rparr>)"
  let ?e = "demo_socket ESTABLISHED\<lparr>pending_packets := [?p]\<rparr>"
  have inv: "tcp_inv ?e" using demo_inv [of ESTABLISHED] by (simp add: tcp_inv_def)
  have "header_ok ?p" "hdr_ack ?p" "SEG_SEQ ?p = RCV_NXT ?e" "RCV_WND ?e \<noteq> 0"
    "SND_NXT ?e < SEG_ACK ?p" "SND_UNA ?e \<le> SEG_ACK ?p"
    by (simp_all add: segment_fields segment_header_ok)
  from future_ack_refused [OF demo_quiet inv _ _ this, of "[]"]
  show ?thesis by auto
qed



text \<open>
  C22: When data is waiting and the window is exactly used up, sending it never returns: the loop
  makes segments of length 0 and does not advance, so the socket's thread handles no further event.
\<close>
theorem full_window_never_returns:
  assumes "tcp_inv e" "tcp_state e = ESTABLISHED" "cb_bytes (send_buf e) \<noteq> []"
    and "SND_WND e \<noteq> 0" "SND_WND e = SND_NXT e - SND_UNA e"
  shows "dispatch_tcp E APPLICATION_SEND e = Inl No_return"
proof -
  have wf: "cb_wf (send_buf e)" and act: "actpas_type e = SOCKET_ACTIVE"
    using assms(1) by (auto simp: tcp_inv_def)
  have w: "0 < SND_WND e" using assms(4) by (simp add: word_neq_0_conv)
  let ?n = "min (unat (SND_WND e)) (length (cb_bytes (send_buf e)))"
  have n: "0 < ?n" using w assms(3) by (simp add: word_less_nat_alt cb_bytes_Nil_iff unat_gt_0)
  from cb_read_some [OF wf w assms(3), of False False] obtain b' where
    b': "circular_buffer_read (send_buf e) (SND_WND e) False
        = Returns (int ?n) (b', take ?n (cb_bytes (send_buf e)))"
    unfolding circular_buffer_read_def by (auto simp: min_def)
  have "segment_loop E (take ?n (cb_bytes (send_buf e))) (int ?n) 0 0 (e\<lparr>send_buf := b'\<rparr>) = None"
    by (rule segment_loop_stuck) (use act n in auto)
  then have "process_send_buffer E e = Inl No_return"
    using b' assms(5) by (simp add: process_send_buffer_def cb_res_def)
  then show ?thesis using assms(2) by (simp add: dispatch_tcp_def handle_ESTABLISHED_def)
qed

theorem full_window_never_returns_witness:
  "dispatch_tcp demo_env APPLICATION_SEND (demo_sender ESTABLISHED\<lparr>SND_WND := 1\<rparr>) = Inl No_return"
proof (rule full_window_never_returns)
  show "tcp_inv (demo_sender ESTABLISHED\<lparr>SND_WND := 1\<rparr>)"
    using demo_sender_inv [of ESTABLISHED] by (simp add: tcp_inv_def)
qed (simp_all add: demo_sender_def demo_sender_buf)

text \<open>
  C19: Processing an acknowledgement marks the packets to drop in an array of no bytes
  (\<open>calloc(..., 0)\<close>). If the block the allocator returned has fewer ints than the queue has packets,
  so on any non-empty queue if it has only what C promises, the call accesses memory outside it. If
  the block has room and holds no 1, the call drops exactly the packets whose last byte is below
  \<open>SND_UNA\<close>, keeps the others in order, leaves every sequence variable alone and releases the mutex,
  as long as the numbers are below \<open>2 ^ 31\<close>.
\<close>
theorem ack_trims_queue:
  assumes "\<not> retrans_q_locked e" "unat (SND_UNA e) < 2 ^ 31"
    and "\<forall>m \<in> set (retrans_q e).
      unat (SEG_SEQ (rq_packet m)) + unat (SEG_LEN (rq_packet m)) < 2 ^ 31"
  shows "(length (e_alloc E (n_alloc e)) < length (retrans_q e)
      \<longrightarrow> process_q_after_ack E e = Inl Overrun)
    \<and> (block_room (e_alloc E (n_alloc e)) (length (retrans_q e)) \<longrightarrow>
       (\<exists>e'. process_q_after_ack E e = Inr e'
        \<and> retrans_q e' = filter (\<lambda>m. unat (SND_UNA e)
            < unat (SEG_SEQ (rq_packet m)) + unat (SEG_LEN (rq_packet m))) (retrans_q e)
        \<and> \<not> retrans_q_locked e'
        \<and> (SND_UNA e', SND_NXT e', RCV_NXT e') = (SND_UNA e, SND_NXT e, RCV_NXT e)
        \<and> wire e' = wire e \<and> tcp_state e' = tcp_state e))"
proof (intro conjI impI)
  show "process_q_after_ack E e = Inl Overrun" if "length (e_alloc E (n_alloc e)) < length (retrans_q e)"
    by (rule process_q_after_ack_short [OF assms(1) that])
next
  assume room: "block_room (e_alloc E (n_alloc e)) (length (retrans_q e))"
  obtain a r where q: "process_q_after_ack E e = Inr (e\<lparr>srtt := a, rto := r,
      n_alloc := Suc (n_alloc e),
      retrans_q := filter (\<lambda>m. \<not> fully_acked (SND_UNA e) (rq_packet m)) (retrans_q e)\<rparr>)"
    using process_q_after_ack_ok [OF assms(1) room] by blast
  have "filter (\<lambda>m. \<not> fully_acked (SND_UNA e) (rq_packet m)) (retrans_q e)
      = filter (\<lambda>m. unat (SND_UNA e)
          < unat (SEG_SEQ (rq_packet m)) + unat (SEG_LEN (rq_packet m))) (retrans_q e)"
  proof (rule filter_cong [OF refl])
    fix m assume "m \<in> set (retrans_q e)"
    then have "unat (SEG_SEQ (rq_packet m)) + unat (SEG_LEN (rq_packet m)) < 2147483648"
      using assms(3) by auto
    then show "(\<not> fully_acked (SND_UNA e) (rq_packet m)) = (unat (SND_UNA e)
          < unat (SEG_SEQ (rq_packet m)) + unat (SEG_LEN (rq_packet m)))"
      using assms(2) by (subst fully_acked_iff [where n = "unat (SEG_LEN (rq_packet m))"]) auto
  qed
  with q assms(1) show "\<exists>e'. process_q_after_ack E e = Inr e'
        \<and> retrans_q e' = filter (\<lambda>m. unat (SND_UNA e)
            < unat (SEG_SEQ (rq_packet m)) + unat (SEG_LEN (rq_packet m))) (retrans_q e)
        \<and> \<not> retrans_q_locked e'
        \<and> (SND_UNA e', SND_NXT e', RCV_NXT e') = (SND_UNA e, SND_NXT e, RCV_NXT e)
        \<and> wire e' = wire e \<and> tcp_state e' = tcp_state e"
    by auto
qed

text \<open>
  Above that mark the comparison is with a sign-extended number, which is greater than any sum, so
  every packet counts as acknowledged.
\<close>

lemma all_acked_above_2_31:
  assumes "2 ^ 31 \<le> unat u" "SEG_LEN p = of_nat n" "n < 2 ^ 32"
  shows "fully_acked u p"
proof -
  have s: "sint u < 0"
  proof (rule ccontr)
    assume "\<not> sint u < 0"
    moreover have "sint u < 2147483648" using sint_lt [of u] by simp
    ultimately have "uint u = sint u" by (simp add: uint_sint take_bit_int_eq_self)
    then have "int (unat u) < int 2147483648" using \<open>sint u < 2147483648\<close> by simp
    then show False using assms(1) by (simp only: of_nat_less_iff) simp
  qed
  moreover have ge: "- 2147483648 \<le> sint u" using sint_ge [of u] by simp
  moreover have "uint (scast u :: u64) = sint u mod 2 ^ 64"
    by (simp only: scast_eq uint_word_of_int) simp
  moreover have "sint u mod 2 ^ 64 = sint u + 2 ^ 64"
  proof -
    have "sint u mod 2 ^ 64 = (sint u + 2 ^ 64) mod 2 ^ 64" by (simp only: mod_add_self2)
    also have "\<dots> = sint u + 2 ^ 64" using s ge by (intro mod_pos_pos_trivial) simp_all
    finally show ?thesis .
  qed
  ultimately have big: "2 ^ 63 \<le> uint (scast u :: u64)" by simp
  have "unat (ucast (SEG_SEQ p) + (of_nat n :: u64)) = unat (SEG_SEQ p) + n"
    using assms(3) unat_u32_less [of "SEG_SEQ p"] by (simp add: unat_word_ariths unat_of_nat)
  then have "int (unat (ucast (SEG_SEQ p) + (of_nat n :: u64))) = int (unat (SEG_SEQ p) + n)"
    by (rule arg_cong)
  then have "uint (ucast (SEG_SEQ p) + (of_nat n :: u64)) = int (unat (SEG_SEQ p) + n)"
    by (simp only: uint_nat)
  also have "\<dots> < int (2 ^ 63)"
    using assms(3) unat_u32_less [of "SEG_SEQ p"] by (simp only: of_nat_less_iff) simp
  finally show ?thesis
    unfolding fully_acked_def assms(2) word_le_def using big by simp
qed

definition demo_queue :: "socket \<Rightarrow> socket" where
  "demo_queue e = e\<lparr>retrans_q :=
     [\<lparr>rq_packet = segment [1, 2] False False 1001 False e, rq_sent = Timespec 0 0, rq_timeout = Timespec 5 0\<rparr>,
      \<lparr>rq_packet = segment [3] False False 1003 False e, rq_sent = Timespec 0 0, rq_timeout = Timespec 6 0\<rparr>]\<rparr>"

lemma demo_queue_sel [simp]:
  "map (SEG_SEQ \<circ> rq_packet) (retrans_q (demo_queue e)) = [1001, 1003]"
  "SND_UNA (demo_queue e) = SND_UNA e" "retrans_q_locked (demo_queue e) = retrans_q_locked e"
  by (simp_all add: demo_queue_def segment_fields)

theorem ack_trims_queue_witness:
  "(\<exists>e'. process_q_after_ack demo_env (demo_queue (demo_socket ESTABLISHED\<lparr>SND_UNA := 1003\<rparr>)) = Inr e'
     \<and> map (SEG_SEQ \<circ> rq_packet) (retrans_q e') = [1003])
   \<and> process_q_after_ack (demo_env\<lparr>e_alloc := (\<lambda>k. [])\<rparr>)
       (demo_queue (demo_socket ESTABLISHED\<lparr>SND_UNA := 1003\<rparr>)) = Inl Overrun"
proof -
  let ?e = "demo_queue (demo_socket ESTABLISHED\<lparr>SND_UNA := 1003\<rparr>)"
  have q: "\<forall>m \<in> set (retrans_q ?e).
      unat (SEG_SEQ (rq_packet m)) + unat (SEG_LEN (rq_packet m)) < 2 ^ 31"
    by (simp add: demo_queue_def segment_fields SEG_LEN_segment)
  have "block_room (e_alloc demo_env (n_alloc ?e)) (length (retrans_q ?e))"
    by (simp add: block_room_def demo_env_def demo_queue_def)
  with ack_trims_queue [OF _ _ q, of demo_env]
    ack_trims_queue [OF _ _ q, of "demo_env\<lparr>e_alloc := (\<lambda>k. [])\<rparr>"] show ?thesis
    by (auto simp: demo_queue_def segment_fields SEG_LEN_segment)
qed

text \<open>
  C21: A timeout that finds nothing to retransmit disables the socket: if the head of the queue has
  not timed out (or the queue is empty), \<open>process_timeout\<close> returns with \<open>lock_retrans_q\<close> held, and
  the next call of the application that sends data, and the next TIMEOUT, block the socket's
  thread on its own mutex for ever.
\<close>
theorem early_timeout_disables_socket:
  assumes "tcp_inv e" "tcp_state e = ESTABLISHED" "\<not> retrans_q_locked e" "head_on_time E e"
    and "cb_bytes (send_buf e) \<noteq> []" "SND_WND e \<noteq> 0"
    and "0 < sint (SND_WND e - (SND_NXT e - SND_UNA e))"
  shows "\<exists>e'. process_timeout E e = Inr e' \<and> retrans_q_locked e'
    \<and> dispatch_tcp E APPLICATION_SEND e' = Inl Self_deadlock
    \<and> dispatch_tcp E TIMEOUT e' = Inl Self_deadlock"
proof -
  obtain k where k: "process_timeout E e = Inr (e\<lparr>retrans_q_locked := True,
      n_alloc := Suc (n_alloc e), n_clock := k\<rparr>)"
    by (rule timeout_keeps_lock [OF assms(3,4)])
  let ?e = "e\<lparr>retrans_q_locked := True,
      n_alloc := Suc (n_alloc e), n_clock := k\<rparr>"
  have "tcp_inv ?e" using assms(1) by (simp add: tcp_inv_def)
  then have "process_send_buffer E ?e = Inl Self_deadlock"
    using assms(5-7) by (intro send_buffer_deadlocks) simp_all
  then have "dispatch_tcp E APPLICATION_SEND ?e = Inl Self_deadlock"
    using assms(2) by (simp add: dispatch_tcp_def handle_ESTABLISHED_def)
  moreover have "dispatch_tcp E TIMEOUT ?e = Inl Self_deadlock"
    using assms(2) by (simp add: dispatch_tcp_def handle_ESTABLISHED_def handle_timeout_def
        process_q_after_ack_locked)
  ultimately show ?thesis using k by auto
qed

theorem early_timeout_disables_socket_witness:
  "\<exists>e'. process_timeout demo_env (demo_sender ESTABLISHED) = Inr e'
    \<and> dispatch_tcp demo_env APPLICATION_SEND e' = Inl Self_deadlock"
proof -
  let ?e = "demo_sender ESTABLISHED"
  have "tcp_state ?e = ESTABLISHED" "\<not> retrans_q_locked ?e" "head_on_time demo_env ?e"
    "cb_bytes (send_buf ?e) \<noteq> []" "SND_WND ?e \<noteq> 0"
    "0 < sint (SND_WND ?e - (SND_NXT ?e - SND_UNA ?e))"
    by (simp_all add: demo_sender_def demo_sender_buf head_on_time_def)
  from early_timeout_disables_socket [OF demo_sender_inv this] show ?thesis by blast
qed

text \<open>A segment beyond the expected one waits in the out-of-order list.\<close>

lemma later_segment_waits:
  assumes "quiet E" "tcp_state e = ESTABLISHED" "oop_packet_list e = []"
    and "pending_packets e = p # ps" "header_ok p"
    and "SEG_SEQ p = RCV_NXT e + of_nat k" "0 < k" "k < 65536" "k < unat (RCV_WND e)"
    and "unat (RCV_NXT e) + unat (RCV_WND e) < 2 ^ 32" "unat (RCV_NXT e) < 2 ^ 31"
  shows "dispatch_tcp E PACKET_ARRIVAL e = Inr ((taken E p ps e)\<lparr>oop_packet_list := [p]\<rparr>)"
proof -
  let ?t = "taken E p ps e"
  have sort: "sort_ok E" using assms(1) by (simp add: quiet_def)
  have u1: "unat (of_nat k :: u32) = k" using assms(8) by (simp add: unat_of_nat)
  have s2: "unat (RCV_NXT e + of_nat k) = unat (RCV_NXT e) + k"
    using assms(8,11) u1 by (subst unat_add_lt) simp_all
  have edge: "unat (RCV_NXT e + RCV_WND e) = unat (RCV_NXT e) + unat (RCV_WND e)"
    using assms(10) by (subst unat_add_lt) simp_all
  have ne: "SEG_SEQ p \<noteq> RCV_NXT e" using assms(6,7) s2 by (auto simp: word_unat_eq_iff)
  have w0: "RCV_WND e \<noteq> 0" using assms(9) by auto
  have win: "in_window p ?t"
    using assms(6,9) s2 edge by (simp add: in_window_def Let_def word_le_nat_alt word_less_nat_alt)
  have so: "e_sort E [p] = [p]"
    using sort unfolding sort_ok_def by (metis mset_single_iff_right mset.simps)
  have "handle_otherwise E ESTABLISHED p ?t = Inr (?t\<lparr>oop_packet_list := [p]\<rparr>)"
    using w0 ne win so assms(3) by (simp add: handle_otherwise_def add_p_to_oop_def)
  then show ?thesis
    using assms(2)
    by (simp add: dispatch_tcp_def handle_ESTABLISHED_def handle_packet_taken [OF assms(4,5)])
qed

text \<open>
  C8: Two segments that arrive in the wrong order are both delivered, in the right order: the later
  one waits in the out-of-order list, the expected one fills the gap and puts it back in front of
  the pending packets, and the third PACKET_ARRIVAL delivers it. As for one segment, the allocator
  must give blocks of as many ints as the retransmission queue has packets.
\<close>
theorem swapped_segments_delivered:
  assumes "quiet E" "tcp_inv e" "tcp_state e = ESTABLISHED" "\<not> retrans_q_locked e"
    and "oop_packet_list e = []" "pending_packets e = [p2, p1]"
    and "data_segment p1 (RCV_NXT e) d1" "data_segment p2 (RCV_NXT e + of_nat (length d1)) d2"
    and "length d1 + length d2 + length (cb_bytes (recv_buf e)) \<le> unat (cb_maxsize (recv_buf e))"
    and "RCV_WND e = available32 (recv_buf e)" "unat (RCV_NXT e) < 2 ^ 31"
    and "\<not> SND_NXT e < SEG_ACK p1" "\<not> SND_NXT e < SEG_ACK p2"
    and "alloc_room E (length (retrans_q e))"
  shows "\<exists>e1 e2 e3. dispatch_tcp E PACKET_ARRIVAL e = Inr e1 \<and> recv_buf e1 = recv_buf e
    \<and> dispatch_tcp E PACKET_ARRIVAL e1 = Inr e2
    \<and> cb_bytes (recv_buf e2) = cb_bytes (recv_buf e) @ d1
    \<and> dispatch_tcp E PACKET_ARRIVAL e2 = Inr e3
    \<and> cb_bytes (recv_buf e3) = cb_bytes (recv_buf e) @ d1 @ d2
    \<and> RCV_NXT e3 = RCV_NXT e + of_nat (length d1 + length d2)
    \<and> oop_packet_list e3 = [] \<and> pending_packets e3 = []"
proof -
  have wf: "cb_wf (recv_buf e)" using assms(2) by (simp add: tcp_inv_def)
  note bnd = cb_wf_bounds [OF wf] and av = unat_available32 [OF wf]
  have p2: "header_ok p2" "SEG_SEQ p2 = RCV_NXT e + of_nat (length d1)" "0 < length d2"
    and d1: "0 < length d1" "length d1 < 65536" "length d2 < 65536"
    using assms(7,8) by (auto simp: data_segment_def)
  have lt: "length d1 < unat (RCV_WND e)"
    using assms(9) av p2(3) unfolding assms(10) length_cb_bytes by linarith
  then have w0: "RCV_WND e \<noteq> 0" by auto
  define e1 where "e1 = (taken E p2 [p1] e)\<lparr>oop_packet_list := [p2]\<rparr>"
  have dd1: "dispatch_tcp E PACKET_ARRIVAL e = Inr e1" unfolding e1_def
    by (rule later_segment_waits [OF assms(1,3,5,6) p2(1,2) d1(1,2) lt])
      (use assms(10,11) av bnd in simp_all)
  have inv1: "tcp_inv e1" using assms(2) p2(1) by (simp add: tcp_inv_def e1_def)
  have n1: "min (length d1) (unat (cb_maxsize (recv_buf e1)) - length (cb_bytes (recv_buf e1))) = length d1"
    using assms(9) by (simp add: e1_def)
  have p1: "data_segment p1 (RCV_NXT e1) d1" using assms(7) by (simp add: e1_def)
  obtain e2 x2 where e2: "dispatch_tcp E PACKET_ARRIVAL e1 = Inr e2" "tcp_state e2 = ESTABLISHED"
    "cb_bytes (recv_buf e2) = cb_bytes (recv_buf e1) @ take (length d1) d1"
    "RCV_NXT e2 = RCV_NXT e1 + of_nat (length d1)"
    "unat (RCV_WND e2) = unat (available32 (recv_buf e1)) - length d1"
    "\<not> retrans_q_locked e2" "tcp_inv e2"
    "(oop_packet_list e2, pending_packets e2) =
      (if \<exists>x \<in> set (oop_packet_list e1). SEG_SEQ x = RCV_NXT e2
       then (tl (oop_packet_list e1), hd (oop_packet_list e1) # [])
       else (oop_packet_list e1, []))"
    "cb_maxsize (recv_buf e2) = cb_maxsize (recv_buf e1)" "SND_NXT e2 = SND_NXT e1"
    "length (retrans_q e2) \<le> length (retrans_q e1)"
    by (rule deliver_text [OF assms(1) inv1 _ _ _ p1, of "[]", unfolded n1])
      (use assms w0 in \<open>simp_all add: e1_def\<close>)
  have q2: "oop_packet_list e2 = []" "pending_packets e2 = [p2]"
    using e2(4,8) p2(2) by (simp_all add: e1_def)
  have p2': "data_segment p2 (RCV_NXT e2) d2" using assms(8) e2(4) by (simp add: e1_def)
  have b2: "cb_bytes (recv_buf e2) = cb_bytes (recv_buf e) @ d1" using e2(3) by (simp add: e1_def)
  then have n2: "min (length d2) (unat (cb_maxsize (recv_buf e2)) - length (cb_bytes (recv_buf e2))) = length d2"
    using e2(9) assms(9) by (simp add: e1_def)
  have "unat (RCV_WND e2) = unat (RCV_WND e) - length d1"
    using e2(5) assms(10) by (simp add: e1_def)
  then have w2: "RCV_WND e2 \<noteq> 0" using lt by auto
  obtain e3 x3 where e3: "dispatch_tcp E PACKET_ARRIVAL e2 = Inr e3"
    "cb_bytes (recv_buf e3) = cb_bytes (recv_buf e2) @ take (length d2) d2"
    "RCV_NXT e3 = RCV_NXT e2 + of_nat (length d2)"
    "(oop_packet_list e3, pending_packets e3) =
      (if \<exists>x \<in> set (oop_packet_list e2). SEG_SEQ x = RCV_NXT e3
       then (tl (oop_packet_list e2), hd (oop_packet_list e2) # [])
       else (oop_packet_list e2, []))"
    by (rule deliver_text [OF assms(1) e2(7,2,6) q2(2) p2', unfolded n2])
      (use assms(13) w2 e2(10) alloc_room_mono [OF assms(14), of "length (retrans_q e2)"] e2(11)
        in \<open>simp_all add: e1_def\<close>)
  have "recv_buf e1 = recv_buf e" by (simp add: e1_def)
  with dd1 e2 e3 q2 b2 show ?thesis
    by (intro exI [of _ e1] exI [of _ e2] exI [of _ e3]) (simp add: e1_def)
qed

theorem swapped_segments_delivered_witness:
  "\<exists>e1 e2 e3. dispatch_tcp demo_env PACKET_ARRIVAL
       (demo_socket ESTABLISHED\<lparr>pending_packets :=
          [segment [67] False False 9 False (demo_socket ESTABLISHED),
           segment [65, 66] False False 7 False (demo_socket ESTABLISHED)]\<rparr>) = Inr e1
    \<and> dispatch_tcp demo_env PACKET_ARRIVAL e1 = Inr e2
    \<and> dispatch_tcp demo_env PACKET_ARRIVAL e2 = Inr e3
    \<and> cb_bytes (recv_buf e3) = [65, 66, 67]"
proof -
  let ?p1 = "segment [65, 66] False False 7 False (demo_socket ESTABLISHED)"
  let ?p2 = "segment [67] False False 9 False (demo_socket ESTABLISHED)"
  let ?e = "demo_socket ESTABLISHED\<lparr>pending_packets := [?p2, ?p1]\<rparr>"
  have inv: "tcp_inv ?e" using demo_inv [of ESTABLISHED] by (simp add: tcp_inv_def)
  have p1: "data_segment ?p1 (RCV_NXT ?e) [65, 66]"
    and p2: "data_segment ?p2 (RCV_NXT ?e + of_nat (length [65, 66 :: byte])) [67]"
    by (simp_all add: data_segment_segment)
  have oop: "oop_packet_list ?e = []" by (simp add: demo_socket_def)
  have "available32 demo_buf = 8"
    by (simp add: available32_def circular_buffer_available_def demo_buf_def circular_buffer_init_def)
  then have "RCV_WND ?e = available32 (recv_buf ?e)" by simp
  from swapped_segments_delivered [OF demo_quiet inv _ _ oop _ p1 p2 _ this]
  show ?thesis by (force simp: demo_buf_wf segment_fields)
qed
section \<open>Witnesses of the diagram and of the runs\<close>


theorem socket_runs_safely_witness:
  "\<exists>e'. run_events (socket_step demo_env) [Ev_packet [1], Ev_timer, Ev_close]
       (demo_socket ESTABLISHED) = Inr e' \<and> tcp_inv e' \<and> pending_packets e' = [[1]]"
proof -
  let ?evs = "[Ev_packet [1], Ev_timer, Ev_close]"
  have "\<exists>e'. run_events (socket_step demo_env) ?evs (demo_socket ESTABLISHED) = Inr e'
      \<and> pending_packets e' = [[1]]"
    by (simp add: socket_step_def enqueue_packet_def debug_breakpoint_def chitcpd_timeout_def
        app_close_call_def app_result_def Let_def demo_env_def) (simp add: demo_socket_def)
  then obtain e' where e': "run_events (socket_step demo_env) ?evs (demo_socket ESTABLISHED) = Inr e'"
    "pending_packets e' = [[1]]" by blast
  from socket_runs_safely [OF demo_inv _ demo_sort e'(1)] e' show ?thesis by simp
qed

end
