(* ===== verification/Daemon.thy ===== *)
theory Daemon
  imports Tcp
begin

text \<open>
  The chiTCP daemon around its sockets: the addresses of libchitcp (\<open>addr.c\<close>), the socket table
  and the port table (\<open>serverinfo.c\<close>), the connections to other daemons and the reception of
  packets (\<open>connection.c\<close>, the network thread of \<open>server.c\<close>), and the handlers of the
  application's requests (\<open>handlers.c\<close>).

  A handler runs in the thread of its client. Between two waits on a condition variable it is one
  step; a handler that waits is a \<open>Waits\<close> outcome that says for what. Pointers to entries of a
  table are indices.
\<close>

section \<open>Addresses\<close>

text \<open>
  \<open>sockaddr_storage\<close> holds one of two structs; \<open>sin_addr\<close> and \<open>sin6_addr\<close> are their address
  fields. The IPv6 address is the number whose bytes, the highest first, are the array. Ports are
  in network order.
\<close>

record sockaddr =
  sa_family :: nat
  sa_port :: u16
  sin_addr :: u32
  sin6_addr :: "128 word"

definition AF_INET :: nat where "AF_INET = 2"
definition AF_INET6 :: nat where "AF_INET6 = 10"

text \<open>The assertion most functions of \<open>addr.c\<close> start with.\<close>

definition inet_family :: "sockaddr \<Rightarrow> bool" where
  "inet_family a \<longleftrightarrow> sa_family a = AF_INET \<or> sa_family a = AF_INET6"

definition chitcp_get_addr_port :: "sockaddr \<Rightarrow> u16" where
  "chitcp_get_addr_port a = (if \<not> inet_family a then -1 else sa_port a)"

definition chitcp_set_addr_port :: "sockaddr \<Rightarrow> u16 \<Rightarrow> sockaddr" where
  "chitcp_set_addr_port a port = (if inet_family a then a\<lparr>sa_port := port\<rparr> else a)"

definition chitcp_addr_cmp :: "sockaddr \<Rightarrow> sockaddr \<Rightarrow> int" where
  "chitcp_addr_cmp a b =
     (if sa_family a \<noteq> sa_family b then int (sa_family a) - int (sa_family b)
      else if sa_family a = AF_INET then sint (sin_addr a - sin_addr b)
      else if sa_family a = AF_INET6
      then of_bool (sin6_addr a > sin6_addr b) - of_bool (sin6_addr a < sin6_addr b)
      else -1)"

definition chitcp_addr_port_cmp :: "sockaddr \<Rightarrow> sockaddr \<Rightarrow> int" where
  "chitcp_addr_port_cmp a b =
     (if sa_family a \<noteq> sa_family b then int (sa_family a) - int (sa_family b)
      else if inet_family a then uint (sa_port a) - uint (sa_port b)
      else -1)"

definition chitcp_addr_is_loopback :: "sockaddr \<Rightarrow> bool" where
  "chitcp_addr_is_loopback a \<longleftrightarrow>
     (if sa_family a = AF_INET then sin_addr a = htonl 0x7F000001 else sin6_addr a = 1)"

definition chitcp_addr_is_any :: "sockaddr \<Rightarrow> bool" where
  "chitcp_addr_is_any a \<longleftrightarrow>
     (if sa_family a = AF_INET then sin_addr a = htonl 0 else sin6_addr a = 0)"

definition chitcp_addr_set_any :: "sockaddr \<Rightarrow> sockaddr" where
  "chitcp_addr_set_any a =
     (if sa_family a = AF_INET then a\<lparr>sin_addr := htonl 0\<rparr>
      else if sa_family a = AF_INET6 then a\<lparr>sin6_addr := 0\<rparr> else a)"

section \<open>The tables\<close>

record pending_connection =
  initial_packet :: packet
  pc_local :: sockaddr
  pc_remote :: sockaddr

text \<open>
  An entry of the socket table. \<open>core\<close> holds the fields that the TCP thread works on;
  \<open>parent_socket\<close>, \<open>realtcpconn\<close> belong to the state of an active socket, \<open>backlog\<close> and
  \<open>pending_connections\<close> to that of a passive one.
\<close>

record sock_entry =
  available :: bool
  domain :: int
  stype :: int
  protocol :: int
  local_addr :: sockaddr
  remote_addr :: sockaddr
  creator_thread :: nat
  core :: socket
  parent_socket :: "nat option"
  realtcpconn :: "nat option"
  backlog :: int
  pending_connections :: "pending_connection list"

text \<open>An entry of the connection table; \<open>conn_thread\<close>: a connection thread serves it.\<close>

record tcpconn =
  conn_available :: bool
  realsocket_send :: int
  realsocket_recv :: int
  peer_addr :: sockaddr
  conn_thread :: bool

text \<open>
  The port table is total on the 65536 ports: an index into it is a \<open>uint16_t\<close> or an ephemeral
  port, both below \<open>port_table_size\<close>.
\<close>

record serverinfo =
  chisocket_table :: "sock_entry list"
  port_table :: "nat \<Rightarrow> nat option"
  port_table_size :: nat
  ephemeral_port_start :: nat
  connection_table :: "tcpconn list"

text \<open>Memory set to zero: the state of an entry after \<open>calloc\<close> and \<open>memset\<close>.\<close>

definition zero_addr :: sockaddr where
  "zero_addr = \<lparr>sa_family = 0, sa_port = 0, sin_addr = 0, sin6_addr = 0\<rparr>"

definition raw_flags :: event_flags where
  "raw_flags = \<lparr>app_close = False, app_connect = False, app_recv = False, app_send = False,
     net_recv = False, cleanup = False, timeout = False\<rparr>"

definition zero_socket :: socket where
  "zero_socket =
     (let z = Timespec 0 0; b = circular_buffer_init [] 0 in
      \<lparr>retrans_q = [], retrans_q_locked = False, rto = z, srtt = z, upper = z, lower = z,
       mostrecentackin = z, oop_packet_list = [], pending_packets = [], withheld_packets = [],
       ISS = 0, SND_UNA = 0, SND_NXT = 0, SND_WND = 0, IRS = 0, RCV_NXT = 0, RCV_WND = 0,
       send_buf = b, recv_buf = b, closing = False, finsent = False, tcp_state = CLOSED,
       actpas_type = SOCKET_UNINITIALIZED, local_port = 0, remote_port = 0, flags = raw_flags,
       wire = [], n_clock = 0, n_debug = 0, n_send = 0, n_rand = 0, n_alloc = 0\<rparr>)"

definition zero_entry :: sock_entry where
  "zero_entry = \<lparr>available = True, domain = 0, stype = 0, protocol = 0, local_addr = zero_addr,
     remote_addr = zero_addr, creator_thread = 0, core = zero_socket, parent_socket = None,
     realtcpconn = None, backlog = 0, pending_connections = []\<rparr>"

definition zero_conn :: tcpconn where
  "zero_conn = \<lparr>conn_available = True, realsocket_send = 0, realsocket_recv = 0,
     peer_addr = zero_addr, conn_thread = False\<rparr>"

definition chitcpd_server_init :: serverinfo where
  "chitcpd_server_init = \<lparr>chisocket_table = replicate 1024 zero_entry, port_table = (\<lambda>_. None),
     port_table_size = 65536, ephemeral_port_start = 49152,
     connection_table = replicate 1024 zero_conn\<rparr>"

text \<open>
  Updates of an entry. The ports of a socket are those of its two addresses: the code reads them
  from there (\<open>chitcpd_set_header_ports\<close>), the model keeps them in \<open>core\<close>.
\<close>

definition upd_entry :: "nat \<Rightarrow> (sock_entry \<Rightarrow> sock_entry) \<Rightarrow> serverinfo \<Rightarrow> serverinfo" where
  "upd_entry i f s = s\<lparr>chisocket_table := (chisocket_table s)[i := f (chisocket_table s ! i)]\<rparr>"

definition upd_core :: "(socket \<Rightarrow> socket) \<Rightarrow> sock_entry \<Rightarrow> sock_entry" where
  "upd_core f x = x\<lparr>core := f (core x)\<rparr>"

definition set_addrs :: "sockaddr \<Rightarrow> sockaddr \<Rightarrow> sock_entry \<Rightarrow> sock_entry" where
  "set_addrs la ra x = x\<lparr>local_addr := la, remote_addr := ra,
     core := (core x)\<lparr>local_port := chitcp_get_addr_port la,
                      remote_port := chitcp_get_addr_port ra\<rparr>\<rparr>"

definition set_port :: "nat \<Rightarrow> nat option \<Rightarrow> serverinfo \<Rightarrow> serverinfo" where
  "set_port p i s = s\<lparr>port_table := (port_table s)(p := i)\<rparr>"

section \<open>serverinfo.c\<close>

text \<open>The first index of a list whose element satisfies a predicate: the loops with a \<open>break\<close>.\<close>

definition first_index :: "('a \<Rightarrow> bool) \<Rightarrow> 'a list \<Rightarrow> nat option" where
  "first_index P xs = find (\<lambda>i. P (xs ! i)) [0..<length xs]"

definition chitcpd_allocate_socket :: "nat \<Rightarrow> serverinfo \<Rightarrow> (nat \<times> serverinfo) option" where
  "chitcpd_allocate_socket thr s =
     (case first_index available (chisocket_table s) of
        None \<Rightarrow> None
      | Some i \<Rightarrow>
          Some (i, upd_entry i (\<lambda>x. upd_core
            (\<lambda>e. e\<lparr>actpas_type := SOCKET_UNINITIALIZED, tcp_state := CLOSED\<rparr>)
            (x\<lparr>available := False, creator_thread := thr\<rparr>)) s))"

definition chitcpd_free_socket_entry :: "nat \<Rightarrow> serverinfo \<Rightarrow> serverinfo" where
  "chitcpd_free_socket_entry i s =
     (let port = ntohs (chitcp_get_addr_port (local_addr (chisocket_table s ! i)))
      in upd_entry i (\<lambda>_. zero_entry) (set_port (unat port) None s))"

text \<open>The port is a \<open>uint16_t\<close> before it is returned as an \<open>int\<close>.\<close>

definition chitcpd_find_ephemeral_port :: "serverinfo \<Rightarrow> int" where
  "chitcpd_find_ephemeral_port s =
     uint (case find (\<lambda>i. port_table s i = None) [ephemeral_port_start s..<port_table_size s] of
             None \<Rightarrow> -1
           | Some i \<Rightarrow> (of_nat i :: u16))"

text \<open>
  The body of the loop of \<open>chitcpd_lookup_socket\<close>: \<open>None\<close> is a \<open>continue\<close>, otherwise the number
  of wildcards.
\<close>

definition nwildcards :: "sockaddr \<Rightarrow> sockaddr \<Rightarrow> bool \<Rightarrow> sock_entry \<Rightarrow> nat option" where
  "nwildcards la ra exact_match_only this =
     (if available this then None
      else if sa_family la \<noteq> sa_family (local_addr this) then None
      else if sa_family ra \<noteq> sa_family (remote_addr this) then None
      else if chitcp_addr_port_cmp la (local_addr this) \<noteq> 0 then None
      else case
        (if chitcp_addr_is_any (local_addr this)
         then Some (if \<not> chitcp_addr_is_any la then 1 else 0)
         else if chitcp_addr_is_any la then Some 1
         else if chitcp_addr_cmp la (local_addr this) \<noteq> 0 then None else Some 0) of
          None \<Rightarrow> None
        | Some n \<Rightarrow>
            (case
              (if chitcp_addr_is_any (remote_addr this)
               then Some (if \<not> chitcp_addr_is_any ra then Suc n else n)
               else if chitcp_addr_is_any ra then Some (Suc n)
               else if chitcp_addr_cmp ra (remote_addr this) \<noteq> 0
                    \<or> chitcp_addr_port_cmp ra (remote_addr this) \<noteq> 0 then None else Some n) of
                None \<Rightarrow> None
              | Some n \<Rightarrow> if 0 < n \<and> exact_match_only then None else Some n))"

fun lookup_loop ::
  "(sock_entry \<Rightarrow> nat option) \<Rightarrow> nat \<Rightarrow> nat option \<Rightarrow> nat \<Rightarrow> sock_entry list \<Rightarrow> nat option" where
  "lookup_loop nw max_nwildcards match i [] = match"
| "lookup_loop nw max_nwildcards match i (x # xs) =
     (case nw x of
        None \<Rightarrow> lookup_loop nw max_nwildcards match (Suc i) xs
      | Some n \<Rightarrow>
          if n < max_nwildcards
          then (if n = 0 then Some i else lookup_loop nw n (Some i) (Suc i) xs)
          else lookup_loop nw max_nwildcards match (Suc i) xs)"

definition chitcpd_lookup_socket :: "serverinfo \<Rightarrow> sockaddr \<Rightarrow> sockaddr \<Rightarrow> bool \<Rightarrow> nat option" where
  "chitcpd_lookup_socket s la ra exact_match_only =
     lookup_loop (nwildcards la ra exact_match_only) 3 None 0 (chisocket_table s)"

section \<open>connection.c\<close>

definition chitcpd_get_connection :: "serverinfo \<Rightarrow> sockaddr \<Rightarrow> nat option" where
  "chitcpd_get_connection s a =
     first_index (\<lambda>c. \<not> conn_available c \<and> chitcp_addr_cmp a (peer_addr c) = 0) (connection_table s)"

definition chitcpd_get_available_connection_entry :: "serverinfo \<Rightarrow> nat option" where
  "chitcpd_get_available_connection_entry s = first_index conn_available (connection_table s)"

definition upd_conn :: "nat \<Rightarrow> (tcpconn \<Rightarrow> tcpconn) \<Rightarrow> serverinfo \<Rightarrow> serverinfo" where
  "upd_conn i f s = s\<lparr>connection_table := (connection_table s)[i := f (connection_table s ! i)]\<rparr>"

text \<open>
  \<open>sock\<close> is the descriptor \<open>socket()\<close> returns and \<open>port\<close> the port of the peer's daemon
  (\<open>GET_CHITCPD_PORT\<close>). The result of \<open>connect()\<close> is ignored.
\<close>

definition chitcpd_create_connection ::
  "int \<Rightarrow> u16 \<Rightarrow> sockaddr \<Rightarrow> serverinfo \<Rightarrow> nat option \<times> serverinfo" where
  "chitcpd_create_connection sock port a s =
     (case chitcpd_get_available_connection_entry s of
        None \<Rightarrow> (None, s)
      | Some i \<Rightarrow>
          (Some i, upd_conn i (\<lambda>c.
             let c = c\<lparr>conn_available := False, peer_addr := chitcp_set_addr_port a (htons port),
                       realsocket_send := sock, realsocket_recv := -1\<rparr>
             in if \<not> chitcp_addr_is_loopback (peer_addr c)
                then c\<lparr>realsocket_recv := realsocket_send c, conn_thread := True\<rparr> else c) s))"

definition chitcpd_add_connection ::
  "int \<Rightarrow> int \<Rightarrow> u16 \<Rightarrow> sockaddr \<Rightarrow> serverinfo \<Rightarrow> nat option \<times> serverinfo" where
  "chitcpd_add_connection rsend rrecv port a s =
     (case chitcpd_get_available_connection_entry s of
        None \<Rightarrow> (None, s)
      | Some i \<Rightarrow>
          (Some i, upd_conn i (\<lambda>c. c\<lparr>conn_available := False,
             peer_addr := chitcp_set_addr_port a (htons port),
             realsocket_send := rsend, realsocket_recv := rrecv\<rparr>) s))"

text \<open>
  The network thread (\<open>server.c\<close>) on a connection accepted from \<open>a\<close>. The boolean is False when
  the thread ends.
\<close>

definition network_accept :: "int \<Rightarrow> u16 \<Rightarrow> sockaddr \<Rightarrow> serverinfo \<Rightarrow> bool \<times> serverinfo" where
  "network_accept realsocket port a s =
     (case chitcpd_get_connection s a of
        Some i \<Rightarrow>
          if chitcp_addr_is_loopback a
          then (True, upd_conn i (\<lambda>c. c\<lparr>realsocket_recv := realsocket, conn_thread := True\<rparr>) s)
          else (False, s)
      | None \<Rightarrow>
          (case chitcpd_add_connection realsocket realsocket port a s of
             (None, s) \<Rightarrow> (False, s)
           | (Some i, s) \<Rightarrow> (True, upd_conn i (\<lambda>c. c\<lparr>conn_thread := True\<rparr>) s)))"

text \<open>
  \<open>chitcpd_recv_tcp_packet\<close>. The ports are read from the header before anything is checked. The
  assertions of the lookup fail for addresses of another family.
\<close>

definition chitcpd_recv_tcp_packet ::
  "env \<Rightarrow> packet \<Rightarrow> sockaddr \<Rightarrow> sockaddr \<Rightarrow> serverinfo \<Rightarrow> (int \<times> serverinfo) res" where
  "chitcpd_recv_tcp_packet E p local_real peer_real s =
     (if length p < 4 then Inl Overrun
      else if \<not> inet_family local_real \<or> \<not> inet_family peer_real
              \<or> sa_family local_real \<noteq> sa_family peer_real then Inl Assert_fail
      else
        let la = chitcp_set_addr_port local_real (load16 p 2);
            ra = chitcp_set_addr_port peer_real (load16 p 0)
        in case chitcpd_lookup_socket s la ra False of
             None \<Rightarrow> Inr (CHITCP_ESOCKET, s)
           | Some i \<Rightarrow>
               (case actpas_type (core (chisocket_table s ! i)) of
                  SOCKET_UNINITIALIZED \<Rightarrow> Inr (CHITCP_ESOCKET, s)
                | SOCKET_ACTIVE \<Rightarrow> Inr (CHITCP_OK, upd_entry i (upd_core (enqueue_packet E p)) s)
                | SOCKET_PASSIVE \<Rightarrow>
                    Inr (CHITCP_OK, upd_entry i (\<lambda>x. x\<lparr>pending_connections :=
                      pending_connections x
                      @ [\<lparr>initial_packet = p, pc_local = la, pc_remote = ra\<rparr>]\<rparr>) s)))"

section \<open>handlers.c\<close>

text \<open>
  What a handler comes to: an answer (return value, \<open>error_code\<close>, data), or a wait: for a pending
  connection, for a socket to be in one of some states (after which it answers with the value
  given), or for room or data in a buffer.
\<close>

datatype outcome = Answer int "errno option" "byte list"
  | Waits_connection
  | Waits_state nat "tcp_state list" int
  | Waits_buffer nat

abbreviation fails :: "errno \<Rightarrow> serverinfo \<Rightarrow> (outcome \<times> serverinfo) res" where
  "fails err s \<equiv> Inr (Answer (-1) (Some err) [], s)"

abbreviation answers :: "int \<Rightarrow> serverinfo \<Rightarrow> (outcome \<times> serverinfo) res" where
  "answers r s \<equiv> Inr (Answer r None [], s)"

text \<open>The test of the descriptor that every handler makes.\<close>

definition bad_fd :: "int \<Rightarrow> serverinfo \<Rightarrow> bool" where
  "bad_fd sockfd s \<longleftrightarrow> sockfd < 0 \<or> int (length (chisocket_table s)) \<le> sockfd
     \<or> available (chisocket_table s ! nat sockfd)"

definition handle_SOCKET ::
  "nat \<Rightarrow> int \<Rightarrow> int \<Rightarrow> int \<Rightarrow> serverinfo \<Rightarrow> (outcome \<times> serverinfo) res" where
  "handle_SOCKET thr dmn ty proto s =
     (case chitcpd_allocate_socket thr s of
        None \<Rightarrow> fails ENOMEM s
      | Some (i, s) \<Rightarrow>
          answers (int i) (upd_entry i (\<lambda>x. x\<lparr>domain := dmn, stype := ty, protocol := proto\<rparr>) s))"

text \<open>
  \<open>port < 0\<close> is never true of a \<open>uint16_t\<close>. For an address of another family the port is 65535,
  and the assertion of \<open>chitcp_addr_set_any\<close> fails after the address has been copied.
\<close>

definition handle_BIND :: "int \<Rightarrow> sockaddr \<Rightarrow> serverinfo \<Rightarrow> (outcome \<times> serverinfo) res" where
  "handle_BIND sockfd a s =
     (if bad_fd sockfd s then fails EBADF s
      else let i = nat sockfd in
      if tcp_state (core (chisocket_table s ! i)) \<noteq> CLOSED then fails EBADF s
      else let port = unat (ntohs (chitcp_get_addr_port a)) in
      if port > port_table_size s then fails EINVAL s
      else if port_table s port \<noteq> None then fails EINVAL s
      else if \<not> inet_family a then Inl Assert_fail
      else
        let ra = (remote_addr (chisocket_table s ! i))\<lparr>sa_family := sa_family a\<rparr>;
            ra = chitcp_set_addr_port (chitcp_addr_set_any ra) 0
        in answers 0 (set_port port (Some i) (upd_entry i (set_addrs a ra) s)))"

text \<open>
  \<open>listen\<close> and \<open>connect\<close> do not look at the type of the socket, only at its state. On a CLOSED
  socket that has a thread already (between \<open>connect\<close> and the SYN, or between the end of a
  connection and the cleanup) they initialise the mutexes that thread is using.
\<close>

definition handle_LISTEN_call :: "int \<Rightarrow> int \<Rightarrow> serverinfo \<Rightarrow> (outcome \<times> serverinfo) res" where
  "handle_LISTEN_call sockfd blog s =
     (if bad_fd sockfd s then fails EBADF s
      else let i = nat sockfd; e = core (chisocket_table s ! i) in
      if tcp_state e \<noteq> CLOSED then fails EBADF s
      else if actpas_type e = SOCKET_ACTIVE then Inl Bad_mutex
      else answers 0 (upd_entry i (\<lambda>x. upd_core
             (\<lambda>e. e\<lparr>actpas_type := SOCKET_PASSIVE, tcp_state := LISTEN\<rparr>)
             (x\<lparr>backlog := blog, pending_connections := []\<rparr>)) s))"

text \<open>
  Starting the thread of a socket: \<open>chitcpd_tcp_thread_func\<close> initialises both buffers (lines 236
  and 237). \<open>malloc_bytes junk off n\<close> is the memory \<open>malloc\<close> gives it.
\<close>

definition malloc_bytes :: "(nat \<Rightarrow> byte) \<Rightarrow> nat \<Rightarrow> nat \<Rightarrow> byte list" where
  "malloc_bytes junk off n = map (\<lambda>i. junk (off + i)) [0..<n]"

definition chitcpd_tcp_start_thread :: "(nat \<Rightarrow> byte) \<Rightarrow> socket \<Rightarrow> socket" where
  "chitcpd_tcp_start_thread junk e =
     e\<lparr>send_buf := circular_buffer_init (malloc_bytes junk 0 4096) TCP_BUFFER_SIZE,
       recv_buf := circular_buffer_init (malloc_bytes junk 4096 4096) TCP_BUFFER_SIZE\<rparr>"

text \<open>
  The socket that \<open>accept\<close> makes for a pending connection (lines 518 to 590), with the answer
  \<open>r\<close> of the debug monitor to its first packet.
\<close>

definition accepted_core ::
  "env \<Rightarrow> (nat \<Rightarrow> byte) \<Rightarrow> packet \<Rightarrow> socket \<Rightarrow> socket" where
  "accepted_core E junk p e =
     (let e = (tcp_data_init E (e\<lparr>actpas_type := SOCKET_ACTIVE\<rparr>))\<lparr>flags := raw_flags\<rparr>;
          e = e\<lparr>tcp_state := LISTEN\<rparr>;
          (r, e) = debug_breakpoint E e;
          queued = r \<in> {DBG_RESP_NONE, DBG_RESP_DUPLICATE, DBG_RESP_DRAW_WITHHELD};
          e = (if queued then e\<lparr>pending_packets := pending_packets e @ [p]\<rparr> else e);
          e = (if r \<in> {DBG_RESP_WITHHOLD, DBG_RESP_DUPLICATE}
               then e\<lparr>withheld_packets := withheld_packets e @ [p]\<rparr> else e);
          e = chitcpd_tcp_start_thread junk e
      in if queued then e\<lparr>flags := (flags e)\<lparr>net_recv := True\<rparr>\<rparr> else e)"

definition handle_ACCEPT ::
  "nat \<Rightarrow> env \<Rightarrow> (nat \<Rightarrow> byte) \<Rightarrow> int \<Rightarrow> serverinfo \<Rightarrow> (outcome \<times> serverinfo) res" where
  "handle_ACCEPT thr E junk sockfd s =
     (if bad_fd sockfd s then fails EBADF s
      else let i = nat sockfd; x = chisocket_table s ! i in
      if actpas_type (core x) \<noteq> SOCKET_PASSIVE then fails EINVAL s
      else if tcp_state (core x) \<noteq> LISTEN then fails EINVAL s
      else case pending_connections x of
             [] \<Rightarrow> Inr (Waits_connection, s)
           | pc # pcs \<Rightarrow>
               let s = upd_entry i (\<lambda>x. x\<lparr>pending_connections := pcs\<rparr>) s in
               (case chitcpd_allocate_socket thr s of
                  None \<Rightarrow> fails ENOMEM s
                | Some (j, s) \<Rightarrow>
                    if \<not> inet_family (pc_remote pc) then Inl Assert_fail
                    else
                      let conn = chitcpd_get_connection s (pc_remote pc);
                          s = upd_entry i (upd_core (snd \<circ> debug_breakpoint E)) s;
                          s = upd_entry j (\<lambda>y. set_addrs (pc_local pc) (pc_remote pc)
                                (upd_core (accepted_core E junk (initial_packet pc))
                                  (y\<lparr>domain := domain x, stype := stype x, protocol := protocol x,
                                     parent_socket := Some i, realtcpconn := conn\<rparr>))) s
                      in Inr (Waits_state j [ESTABLISHED] (int j), s)))"

text \<open>
  \<open>bzero\<close> of the local address leaves the ANY address with the family of the peer's.
\<close>

definition handle_CONNECT ::
  "env \<Rightarrow> (nat \<Rightarrow> byte) \<Rightarrow> int \<Rightarrow> u16 \<Rightarrow> int \<Rightarrow> sockaddr \<Rightarrow> serverinfo
     \<Rightarrow> (outcome \<times> serverinfo) res" where
  "handle_CONNECT E junk sock dport sockfd a s =
     (if bad_fd sockfd s then fails EBADF s
      else let i = nat sockfd; e = core (chisocket_table s ! i) in
      if tcp_state e \<noteq> CLOSED then fails EALREADY s
      else if \<not> inet_family a then Inl Assert_fail
      else
        let (conn, s) = (case chitcpd_get_connection s a of
                           Some c \<Rightarrow> (Some c, s)
                         | None \<Rightarrow> chitcpd_create_connection sock dport a s);
            port = chitcpd_find_ephemeral_port s
        in if port = -1 then fails EAGAIN s
           else if actpas_type e = SOCKET_ACTIVE then Inl Bad_mutex
           else
             let la = chitcp_set_addr_port (zero_addr\<lparr>sa_family := sa_family a\<rparr>)
                        (htons (of_int port));
                 s = upd_entry i (\<lambda>x. set_addrs la a (upd_core
                       (\<lambda>e. let e = tcp_data_init E (e\<lparr>actpas_type := SOCKET_ACTIVE\<rparr>);
                                e = chitcpd_tcp_start_thread junk (e\<lparr>flags := raw_flags\<rparr>)
                            in e\<lparr>flags := (flags e)\<lparr>app_connect := True\<rparr>\<rparr>)
                       (x\<lparr>realtcpconn := conn\<rparr>))) s
             in Inr (Waits_state i [ESTABLISHED] 0, set_port (nat port) (Some i) s))"

text \<open>The calls of an active socket, on its entry: \<open>w\<close> is what a wait is for.\<close>

definition entry_call :: "nat \<Rightarrow> outcome \<Rightarrow> app_outcome \<Rightarrow> serverinfo \<Rightarrow> (outcome \<times> serverinfo) res" where
  "entry_call i w out s =
     (case out of
        App_done r err d e \<Rightarrow> Inr (Answer r err d, upd_entry i (upd_core (\<lambda>_. e)) s)
      | App_waits e \<Rightarrow> Inr (w, upd_entry i (upd_core (\<lambda>_. e)) s)
      | App_fault f \<Rightarrow> Inl f)"

definition handle_SEND :: "int \<Rightarrow> byte list \<Rightarrow> serverinfo \<Rightarrow> (outcome \<times> serverinfo) res" where
  "handle_SEND sockfd data s =
     (if data = [] then fails EINVAL s
      else if bad_fd sockfd s then fails EBADF s
      else let i = nat sockfd in
        entry_call i (Waits_buffer i) (app_send_call data (core (chisocket_table s ! i))) s)"

definition handle_RECV :: "int \<Rightarrow> nat \<Rightarrow> serverinfo \<Rightarrow> (outcome \<times> serverinfo) res" where
  "handle_RECV sockfd len s =
     (if len = 0 then fails EINVAL s
      else if bad_fd sockfd s then fails EBADF s
      else let i = nat sockfd in
        entry_call i (Waits_buffer i) (app_recv_call len (core (chisocket_table s ! i))) s)"

text \<open>The states \<open>close\<close> waits for.\<close>

definition close_states :: "tcp_state \<Rightarrow> tcp_state list" where
  "close_states st = (if st = ESTABLISHED then [FIN_WAIT_2, CLOSING, TIME_WAIT, CLOSED] else [LAST_ACK])"

definition handle_CLOSE :: "int \<Rightarrow> serverinfo \<Rightarrow> (outcome \<times> serverinfo) res" where
  "handle_CLOSE sockfd s =
     (if bad_fd sockfd s then fails EBADF s
      else let i = nat sockfd; e = core (chisocket_table s ! i) in
      if tcp_state e = LISTEN \<and> actpas_type e = SOCKET_PASSIVE
      then answers 0 (chitcpd_free_socket_entry i s)
      else entry_call i (Waits_state i (close_states (tcp_state e)) 0) (app_close_call e) s)"

definition not_active_fd :: "int \<Rightarrow> serverinfo \<Rightarrow> bool" where
  "not_active_fd sockfd s \<longleftrightarrow>
     bad_fd sockfd s \<or> actpas_type (core (chisocket_table s ! nat sockfd)) \<noteq> SOCKET_ACTIVE"

text \<open>
  The two requests of the debug interface that only read, with \<open>malloc\<close> successful: the protocol
  variables (ISS, IRS, SND_UNA, RCV_NXT, SND_NXT, RCV_WND, SND_WND), and the bytes in the buffers.
\<close>

definition handle_GET_SOCKET_STATE :: "int \<Rightarrow> serverinfo \<Rightarrow> errno + (tcp_state \<times> u32 list)" where
  "handle_GET_SOCKET_STATE sockfd s =
     (if not_active_fd sockfd s then Inl EBADF
      else let e = core (chisocket_table s ! nat sockfd) in
        Inr (tcp_state e, [ISS e, IRS e, SND_UNA e, RCV_NXT e, SND_NXT e, RCV_WND e, SND_WND e]))"

definition peek_all :: "circular_buffer \<Rightarrow> byte list" where
  "peek_all b =
     (if circular_buffer_count b = 0 then []
      else case circular_buffer_peek b (of_int (circular_buffer_count b)) False of
             Returns r (_, d) \<Rightarrow> d | _ \<Rightarrow> [])"

definition handle_GET_SOCKET_BUFFER_CONTENTS ::
  "int \<Rightarrow> serverinfo \<Rightarrow> errno + (byte list \<times> byte list)" where
  "handle_GET_SOCKET_BUFFER_CONTENTS sockfd s =
     (if not_active_fd sockfd s then Inl EBADF
      else let e = core (chisocket_table s ! nat sockfd) in
        Inr (peek_all (send_buf e), peek_all (recv_buf e)))"

text \<open>\<open>None\<close> is a number that is not that of a state.\<close>

definition handle_WAIT_FOR_STATE ::
  "int \<Rightarrow> tcp_state option \<Rightarrow> serverinfo \<Rightarrow> (outcome \<times> serverinfo) res" where
  "handle_WAIT_FOR_STATE sockfd st s =
     (if not_active_fd sockfd s then fails EBADF s
      else case st of
             None \<Rightarrow> fails EINVAL s
           | Some t \<Rightarrow>
               if tcp_state (core (chisocket_table s ! nat sockfd)) = t then answers 0 s
               else Inr (Waits_state (nat sockfd) [t] 0, s))"

text \<open>
  A client that disconnects: the loop of the handler thread over its own sockets (lines 217 to
  236), from index \<open>i\<close> on. An uninitialised socket stays as it is.
\<close>

fun disconnect_loop :: "env \<Rightarrow> nat \<Rightarrow> nat list \<Rightarrow> serverinfo \<Rightarrow> serverinfo" where
  "disconnect_loop E thr [] s = s"
| "disconnect_loop E thr (i # js) s =
     (let x = chisocket_table s ! i in
      disconnect_loop E thr js
        (if \<not> available x \<and> creator_thread x = thr
         then (case actpas_type (core x) of
                 SOCKET_ACTIVE \<Rightarrow> upd_entry i (upd_core (update_tcp_state E CLOSED)) s
               | SOCKET_PASSIVE \<Rightarrow> chitcpd_free_socket_entry i s
               | SOCKET_UNINITIALIZED \<Rightarrow> s)
         else s))"

definition client_disconnects :: "env \<Rightarrow> nat \<Rightarrow> serverinfo \<Rightarrow> serverinfo" where
  "client_disconnects E thr s = disconnect_loop E thr [0..<length (chisocket_table s)] s"

section \<open>The threads of the daemon\<close>

text \<open>
  One iteration of the thread of socket \<open>i\<close>. Sending goes through the socket's connection: without
  one, the first \<open>send\<close> follows a null pointer. After a cleanup the entry is freed.
\<close>

definition socket_thread :: "env \<Rightarrow> nat \<Rightarrow> serverinfo \<Rightarrow> serverinfo res" where
  "socket_thread E i s =
     (let x = chisocket_table s ! i in
      case thread_step E (core x) of
        None \<Rightarrow> Inr s
      | Some r \<Rightarrow> rbind r (\<lambda>(finished, e).
          if realtcpconn x = None \<and> n_send e \<noteq> n_send (core x) then Inl Null_deref
          else let s = upd_entry i (upd_core (\<lambda>_. e)) s
               in Inr (if finished then chitcpd_free_socket_entry i s else s)))"

datatype request = Rq_socket int int int | Rq_bind int sockaddr | Rq_listen int int
  | Rq_accept int | Rq_connect int sockaddr | Rq_send int "byte list" | Rq_recv int nat
  | Rq_close int | Rq_wait_for_state int "tcp_state option"

text \<open>
  Everything the daemon reacts to: a request from the client served by thread \<open>thr\<close>, a packet off
  a connection between two addresses, an iteration of the thread or an expiry of the timer of a
  socket, a client that disconnects, and a daemon that connects. What the environment answers
  during the event is part of it.
\<close>

record host =
  h_env :: env
  h_junk :: "nat \<Rightarrow> byte"
  h_socket :: int
  h_port :: u16

datatype daemon_event = D_request nat host request | D_packet env packet sockaddr sockaddr
  | D_thread env nat | D_timer nat | D_disconnect env nat | D_connection int u16 sockaddr

definition handle_request :: "nat \<Rightarrow> host \<Rightarrow> request \<Rightarrow> serverinfo \<Rightarrow> (outcome \<times> serverinfo) res" where
  "handle_request thr h rq s =
     (case rq of
        Rq_socket d t p \<Rightarrow> handle_SOCKET thr d t p s
      | Rq_bind fd a \<Rightarrow> handle_BIND fd a s
      | Rq_listen fd b \<Rightarrow> handle_LISTEN_call fd b s
      | Rq_accept fd \<Rightarrow> handle_ACCEPT thr (h_env h) (h_junk h) fd s
      | Rq_connect fd a \<Rightarrow> handle_CONNECT (h_env h) (h_junk h) (h_socket h) (h_port h) fd a s
      | Rq_send fd d \<Rightarrow> handle_SEND fd d s
      | Rq_recv fd n \<Rightarrow> handle_RECV fd n s
      | Rq_close fd \<Rightarrow> handle_CLOSE fd s
      | Rq_wait_for_state fd st \<Rightarrow> handle_WAIT_FOR_STATE fd st s)"

text \<open>
  A thread exists for the active sockets in use only. The timer threads of a socket's packets
  outlive it: one that fires after the entry has been freed locks a mutex that was destroyed.
\<close>

definition has_thread :: "nat \<Rightarrow> serverinfo \<Rightarrow> bool" where
  "has_thread i s \<longleftrightarrow> i < length (chisocket_table s) \<and> \<not> available (chisocket_table s ! i)
     \<and> actpas_type (core (chisocket_table s ! i)) = SOCKET_ACTIVE"

definition daemon_step :: "daemon_event \<Rightarrow> serverinfo \<Rightarrow> serverinfo res" where
  "daemon_step ev s =
     (case ev of
        D_request thr h rq \<Rightarrow> rbind (handle_request thr h rq s) (\<lambda>(out, s). Inr s)
      | D_packet E p la ra \<Rightarrow> rbind (chitcpd_recv_tcp_packet E p la ra s) (\<lambda>(r, s). Inr s)
      | D_thread E i \<Rightarrow> if has_thread i s then socket_thread E i s else Inr s
      | D_timer i \<Rightarrow>
          if has_thread i s then Inr (upd_entry i (upd_core chitcpd_timeout) s) else Inl Bad_mutex
      | D_disconnect E thr \<Rightarrow> Inr (client_disconnects E thr s)
      | D_connection sk port a \<Rightarrow>
          if inet_family a then Inr (snd (network_accept sk port a s)) else Inl Assert_fail)"

end
