(* ===== verification/Daemon_Inv.thy ===== *)
theory Daemon_Inv
  imports Daemon Tcp_Inv
begin

text \<open>
  The invariant of the daemon: every request, packet, thread iteration, timer and disconnection
  keeps the tables consistent and every active socket in the invariant of \<open>Tcp_Inv\<close>.
\<close>

section \<open>Searching a table\<close>

lemma first_index_Some:
  assumes "first_index P xs = Some i"
  shows "i < length xs" and "P (xs ! i)"
  using find_SomeD [of "\<lambda>i. P (xs ! i)" "[0..<length xs]" i] assms by (auto simp: first_index_def)

lemma first_index_None: "first_index P xs = None \<longleftrightarrow> (\<forall>x \<in> set xs. \<not> P x)"
  by (auto simp: first_index_def find_None_iff all_set_conv_all_nth)

lemma table_upd_entry [simp]:
  "length (chisocket_table (upd_entry i f s)) = length (chisocket_table s)"
  "port_table (upd_entry i f s) = port_table s"
  "connection_table (upd_entry i f s) = connection_table s"
  "port_table_size (upd_entry i f s) = port_table_size s"
  "ephemeral_port_start (upd_entry i f s) = ephemeral_port_start s"
  by (simp_all add: upd_entry_def)

lemma table_set_port [simp]:
  "chisocket_table (set_port p i s) = chisocket_table s"
  "connection_table (set_port p i s) = connection_table s"
  "port_table (set_port p i s) = (port_table s)(p := i)"
  by (simp_all add: set_port_def)

lemma table_upd_conn [simp]:
  "chisocket_table (upd_conn i f s) = chisocket_table s"
  "port_table (upd_conn i f s) = port_table s"
  "length (connection_table (upd_conn i f s)) = length (connection_table s)"
  by (simp_all add: upd_conn_def)

lemma nth_upd_entry:
  "i < length (chisocket_table s) \<Longrightarrow>
   chisocket_table (upd_entry i f s) ! j
     = (if j = i then f (chisocket_table s ! i) else chisocket_table s ! j)"
  by (simp add: upd_entry_def nth_list_update)

section \<open>The invariant\<close>

definition conn_live :: "tcpconn list \<Rightarrow> nat \<Rightarrow> bool" where
  "conn_live cs k \<longleftrightarrow> k < length cs \<and> \<not> conn_available (cs ! k)"

definition core_ok :: "socket \<Rightarrow> bool" where
  "core_ok e \<longleftrightarrow>
     (case actpas_type e of
        SOCKET_ACTIVE \<Rightarrow> socket_inv e
      | SOCKET_PASSIVE \<Rightarrow> tcp_state e = LISTEN
      | SOCKET_UNINITIALIZED \<Rightarrow> tcp_state e = CLOSED)"

lemma core_ok_ports [simp]:
  "core_ok (e\<lparr>local_port := lp, remote_port := rp\<rparr>) = core_ok e"
  "core_ok (e\<lparr>n_debug := n\<rparr>) = core_ok e"
  by (simp_all add: core_ok_def socket_inv_def tcp_inv_def split: socket_type.split)

lemma core_ok_active: "socket_inv e \<Longrightarrow> core_ok e"
  by (simp add: core_ok_def socket_inv_def tcp_inv_def)

definition entry_ok :: "tcpconn list \<Rightarrow> sock_entry \<Rightarrow> bool" where
  "entry_ok cs x \<longleftrightarrow>
     (\<not> available x \<longrightarrow> core_ok (core x))
     \<and> (\<forall>pc \<in> set (pending_connections x).
          inet_family (pc_remote pc) \<and> 4 \<le> length (initial_packet pc))
     \<and> (\<forall>k. realtcpconn x = Some k \<longrightarrow> conn_live cs k)"

definition daemon_inv :: "serverinfo \<Rightarrow> bool" where
  "daemon_inv s \<longleftrightarrow>
     list_all (entry_ok (connection_table s)) (chisocket_table s)
     \<and> (\<forall>p i. port_table s p = Some i \<longrightarrow> i < length (chisocket_table s))"

lemma daemon_invD:
  "daemon_inv s \<Longrightarrow> i < length (chisocket_table s) \<Longrightarrow>
   entry_ok (connection_table s) (chisocket_table s ! i)"
  by (simp add: daemon_inv_def list_all_length)

lemma daemon_inv_entry [intro]:
  assumes "daemon_inv s"
    and "i < length (chisocket_table s) \<Longrightarrow> entry_ok (connection_table s) (f (chisocket_table s ! i))"
  shows "daemon_inv (upd_entry i f s)"
proof (cases "i < length (chisocket_table s)")
  case True
  then show ?thesis
    using assms by (auto simp: daemon_inv_def list_all_length nth_upd_entry)
qed (use assms in \<open>simp add: daemon_inv_def upd_entry_def not_less list_update_beyond\<close>)

lemma daemon_inv_port:
  "daemon_inv s \<Longrightarrow> (\<And>k. i = Some k \<Longrightarrow> k < length (chisocket_table s)) \<Longrightarrow>
   daemon_inv (set_port p i s)"
  by (auto simp: daemon_inv_def)

lemma conn_live_mono:
  "conn_live cs k \<Longrightarrow> (\<And>c. \<not> conn_available c \<Longrightarrow> \<not> conn_available (f c)) \<Longrightarrow>
   conn_live (cs[i := f (cs ! i)]) k"
  by (cases "k = i") (auto simp: conn_live_def)

lemma daemon_inv_conn:
  assumes "daemon_inv s" and "\<And>c. \<not> conn_available c \<Longrightarrow> \<not> conn_available (f c)"
  shows "daemon_inv (upd_conn i f s)"
proof -
  have "entry_ok (connection_table (upd_conn i f s)) x" if "entry_ok (connection_table s) x" for x
    using that conn_live_mono [of "connection_table s" _ f i] assms(2)
    by (auto simp: entry_ok_def upd_conn_def)
  then show ?thesis using assms(1) by (auto simp: daemon_inv_def list_all_length)
qed

lemma bad_fdD: "\<not> bad_fd fd s \<Longrightarrow> nat fd < length (chisocket_table s) \<and> \<not> available (chisocket_table s ! nat fd)"
  by (auto simp: bad_fd_def)

section \<open>Every operation keeps it\<close>

lemma entry_ok_zero [simp]: "entry_ok cs zero_entry"
  by (simp add: entry_ok_def zero_entry_def)

lemma free_inv: "daemon_inv s \<Longrightarrow> daemon_inv (chitcpd_free_socket_entry i s)"
  by (auto simp: chitcpd_free_socket_entry_def Let_def intro!: daemon_inv_entry daemon_inv_port)

lemma allocate_inv:
  assumes "daemon_inv s" "chitcpd_allocate_socket thr s = Some (i, s')"
  shows "daemon_inv s'" and "i < length (chisocket_table s')"
    and "length (chisocket_table s') = length (chisocket_table s)"
    and "connection_table s' = connection_table s"
proof -
  have i: "i < length (chisocket_table s)"
    and s': "s' = upd_entry i (\<lambda>x. upd_core
            (\<lambda>e. e\<lparr>actpas_type := SOCKET_UNINITIALIZED, tcp_state := CLOSED\<rparr>)
            (x\<lparr>available := False, creator_thread := thr\<rparr>)) s"
    using assms(2) first_index_Some [of available "chisocket_table s" i]
    by (auto simp: chitcpd_allocate_socket_def split: option.splits)
  show "daemon_inv s'"
    using daemon_invD [OF assms(1) i] assms(1) unfolding s'
    by (intro daemon_inv_entry) (auto simp: entry_ok_def upd_core_def core_ok_def)
  show "i < length (chisocket_table s')" "length (chisocket_table s') = length (chisocket_table s)"
    "connection_table s' = connection_table s"
    using i by (simp_all add: s')
qed

lemma cb_wf_junk:
  "cb_wf (circular_buffer_init (malloc_bytes junk off 4096) TCP_BUFFER_SIZE)"
  by (intro cb_wf_init) (simp_all add: TCP_BUFFER_SIZE_def malloc_bytes_def)

lemma start_thread_inv:
  "actpas_type e = SOCKET_ACTIVE \<Longrightarrow> retrans_q e = [] \<Longrightarrow> oop_packet_list e = [] \<Longrightarrow>
   tcp_state e \<noteq> TIME_WAIT \<Longrightarrow> socket_inv (chitcpd_tcp_start_thread junk e)"
  by (simp add: socket_inv_def tcp_inv_def chitcpd_tcp_start_thread_def cb_wf_junk)

lemma accepted_core_inv:
  "socket_inv (accepted_core E junk p e)" "actpas_type (accepted_core E junk p e) = SOCKET_ACTIVE"
  by (simp_all add: accepted_core_def Let_def debug_breakpoint_def tcp_data_init_def set_tcp_vars_def
      socket_inv_def tcp_inv_def chitcpd_tcp_start_thread_def cb_wf_junk)

lemma get_connection_live:
  "chitcpd_get_connection s a = Some k \<Longrightarrow> conn_live (connection_table s) k"
  using first_index_Some [of "\<lambda>c. \<not> conn_available c \<and> chitcp_addr_cmp a (peer_addr c) = 0"
      "connection_table s" k]
  by (simp add: chitcpd_get_connection_def conn_live_def)

lemma create_connection_inv:
  assumes "daemon_inv s" "chitcpd_create_connection sock port a s = (c, s')"
  shows "daemon_inv s'" and "\<And>k. c = Some k \<Longrightarrow> conn_live (connection_table s') k"
    and "chisocket_table s' = chisocket_table s"
proof -
  show "chisocket_table s' = chisocket_table s"
    using assms(2) by (auto simp: chitcpd_create_connection_def split: option.splits)
  show "daemon_inv s'"
    using assms by (auto simp: chitcpd_create_connection_def Let_def split: option.splits if_splits
        intro!: daemon_inv_conn)
  fix k assume k: "c = Some k"
  then have "k < length (connection_table s)"
    using assms(2) first_index_Some(1) [of conn_available "connection_table s" k]
    by (auto simp: chitcpd_create_connection_def chitcpd_get_available_connection_entry_def
        split: option.splits)
  then show "conn_live (connection_table s') k"
    using assms(2) k
    by (auto simp: chitcpd_create_connection_def conn_live_def upd_conn_def Let_def
        split: option.splits if_splits)
qed

lemma network_accept_inv: "daemon_inv s \<Longrightarrow> daemon_inv (snd (network_accept sock port a s))"
  by (auto simp: network_accept_def chitcpd_add_connection_def Let_def
      split: option.splits intro!: daemon_inv_conn)

lemma recv_packet_inv:
  assumes "daemon_inv s"
  shows "keeps (\<lambda>(r, s). daemon_inv s) (chitcpd_recv_tcp_packet E p la ra s)"
proof -
  have act: "daemon_inv (upd_entry i (upd_core (enqueue_packet E p)) s)"
    if "actpas_type (core (chisocket_table s ! i)) = SOCKET_ACTIVE" for i
  proof (intro daemon_inv_entry)
    assume i: "i < length (chisocket_table s)"
    have "actpas_type (enqueue_packet E p e) = actpas_type e" for e
      by (auto simp: enqueue_packet_def debug_breakpoint_def Let_def split: list.splits)
    then show "entry_ok (connection_table s) (upd_core (enqueue_packet E p) (chisocket_table s ! i))"
      using daemon_invD [OF assms i] that by (auto simp: entry_ok_def upd_core_def core_ok_def enqueue_inv)
  qed (fact assms)
  have pas: "daemon_inv (upd_entry i (\<lambda>x. x\<lparr>pending_connections := pending_connections x @ [pc]\<rparr>) s)"
    if "inet_family (pc_remote pc)" "4 \<le> length (initial_packet pc)" for i pc
    using assms daemon_invD [OF assms, of i] that
    by (intro daemon_inv_entry) (auto simp: entry_ok_def)
  have fam: "inet_family (chitcp_set_addr_port a port) = inet_family a" for a port
    by (simp add: chitcp_set_addr_port_def inet_family_def)
  show ?thesis
    using assms act pas
    by (auto simp: chitcpd_recv_tcp_packet_def Let_def fam split: option.splits socket_type.splits)
qed

lemma app_done_type:
  "app_send_call d e = App_done r err x e' \<Longrightarrow> actpas_type e' = actpas_type e"
  "app_send_call d e = App_waits e' \<Longrightarrow> actpas_type e' = actpas_type e"
  "app_recv_call n e = App_done r err x e' \<Longrightarrow> actpas_type e' = actpas_type e"
  "app_recv_call n e = App_waits e' \<Longrightarrow> actpas_type e' = actpas_type e"
  by (auto simp: app_send_call_def app_recv_call_def app_error_def Let_def
      split: if_splits cb_outcome.splits prod.splits)

text \<open>A call of an active socket changes nothing in an entry of another type.\<close>

lemma app_calls_other:
  assumes "tcp_state e = CLOSED \<or> tcp_state e = LISTEN \<and> actpas_type e = SOCKET_PASSIVE"
  shows "app_result (app_send_call d e) = Inr e" "app_result (app_recv_call n e) = Inr e"
    "app_result (app_close_call e) = Inr e"
  using assms
  by (auto simp: app_send_call_def app_recv_call_def app_close_call_def app_error_def app_result_def)

lemma entry_call_inv:
  assumes "daemon_inv s" "\<not> bad_fd fd s"
    and "keeps (\<lambda>e. entry_ok (connection_table s) (upd_core (\<lambda>_. e) (chisocket_table s ! nat fd)))
           (app_result out)"
  shows "keeps (\<lambda>(r, s). daemon_inv s) (entry_call (nat fd) w out s)"
  using assms by (cases out) (auto simp: entry_call_def app_result_def)

lemma entry_calls_inv:
  assumes "daemon_inv s" "\<not> bad_fd fd s"
  defines "e \<equiv> core (chisocket_table s ! nat fd)"
  shows "keeps (\<lambda>(r, s). daemon_inv s) (entry_call (nat fd) w (app_send_call d e) s)"
    and "keeps (\<lambda>(r, s). daemon_inv s) (entry_call (nat fd) w (app_recv_call n e) s)"
    and "keeps (\<lambda>(r, s). daemon_inv s) (entry_call (nat fd) w (app_close_call e) s)"
proof -
  have x: "\<not> available (chisocket_table s ! nat fd)"
    "entry_ok (connection_table s) (chisocket_table s ! nat fd)"
    using daemon_invD [OF assms(1)] bad_fdD [OF assms(2)] by auto
  have inv: "entry_ok (connection_table s) (upd_core (\<lambda>_. e') (chisocket_table s ! nat fd))"
    if "socket_inv e'" for e'
    using x that by (auto simp: entry_ok_def upd_core_def core_ok_active)
  have same: "entry_ok (connection_table s) (upd_core (\<lambda>_. e) (chisocket_table s ! nat fd))"
    using x by (simp add: upd_core_def e_def)
  have "keeps (\<lambda>e. entry_ok (connection_table s) (upd_core (\<lambda>_. e) (chisocket_table s ! nat fd)))
      (app_result out)"
    if "out \<in> {app_send_call d e, app_recv_call n e, app_close_call e}" for out
  proof (cases "actpas_type e = SOCKET_ACTIVE")
    case True
    then have "socket_inv e" using x by (simp add: entry_ok_def core_ok_def e_def)
    with that app_calls_inv [of e] have "keeps socket_inv (app_result out)" by auto
    then show ?thesis by (rule keeps_mono) (rule inv)
  next
    case False
    then have "tcp_state e = CLOSED \<or> tcp_state e = LISTEN \<and> actpas_type e = SOCKET_PASSIVE"
      using x by (auto simp: entry_ok_def core_ok_def e_def split: socket_type.splits)
    from app_calls_other [OF this] that same show ?thesis by auto
  qed
  then show "keeps (\<lambda>(r, s). daemon_inv s) (entry_call (nat fd) w (app_send_call d e) s)"
    "keeps (\<lambda>(r, s). daemon_inv s) (entry_call (nat fd) w (app_recv_call n e) s)"
    "keeps (\<lambda>(r, s). daemon_inv s) (entry_call (nat fd) w (app_close_call e) s)"
    using entry_call_inv [OF assms(1,2)] by auto
qed

abbreviation keeps_inv :: "('a \<times> serverinfo) res \<Rightarrow> bool" where
  "keeps_inv \<equiv> keeps (\<lambda>(r, s). daemon_inv s)"

lemma handle_SOCKET_inv: "daemon_inv s \<Longrightarrow> keeps_inv (handle_SOCKET thr d t p s)"
proof -
  assume s: "daemon_inv s"
  have "daemon_inv (upd_entry i (\<lambda>x. x\<lparr>domain := d, stype := t, protocol := p\<rparr>) s')"
    if "daemon_inv s'" for i s'
    using daemon_invD [OF that, of i] that by (intro daemon_inv_entry) (auto simp: entry_ok_def)
  then show ?thesis using s allocate_inv(1) [OF s]
    by (auto simp: handle_SOCKET_def split: option.splits)
qed

lemma handle_BIND_inv: "daemon_inv s \<Longrightarrow> keeps_inv (handle_BIND fd a s)"
proof -
  assume s: "daemon_inv s"
  have "daemon_inv (upd_entry i (set_addrs la ra) s)" for i la ra
  proof (intro daemon_inv_entry s)
    assume "i < length (chisocket_table s)"
    from daemon_invD [OF s this]
    show "entry_ok (connection_table s) (set_addrs la ra (chisocket_table s ! i))"
      by (auto simp: entry_ok_def set_addrs_def)
  qed
  then show ?thesis using s bad_fdD [of fd s]
    by (auto simp: handle_BIND_def Let_def intro!: daemon_inv_port)
qed

lemma handle_LISTEN_inv: "daemon_inv s \<Longrightarrow> keeps_inv (handle_LISTEN_call fd b s)"
  using daemon_invD [of s "nat fd"]
  by (auto simp: handle_LISTEN_call_def Let_def entry_ok_def upd_core_def core_ok_def
      intro!: daemon_inv_entry)

lemma handle_ACCEPT_inv:
  assumes s: "daemon_inv s"
  shows "keeps_inv (handle_ACCEPT thr E junk fd s)"
proof -
  define i where "i = nat fd"
  have pop: "daemon_inv (upd_entry i (\<lambda>x. x\<lparr>pending_connections := pcs\<rparr>) s)"
    if "pending_connections (chisocket_table s ! i) = pc # pcs" for pc pcs
    using daemon_invD [OF s, of i] that s
    by (intro daemon_inv_entry) (auto simp: entry_ok_def)
  have brk: "daemon_inv (upd_entry i (upd_core (snd \<circ> debug_breakpoint E)) s')"
    if "daemon_inv s'" for s'
    using daemon_invD [OF that, of i] that
    by (intro daemon_inv_entry)
      (auto simp: entry_ok_def upd_core_def debug_breakpoint_def)
  have new: "daemon_inv (upd_entry j (\<lambda>y. set_addrs la ra (upd_core (accepted_core E junk p)
      (y\<lparr>domain := d, stype := t, protocol := pr, parent_socket := Some i, realtcpconn := c\<rparr>))) s')"
    if "daemon_inv s'" "\<And>k. c = Some k \<Longrightarrow> conn_live (connection_table s') k"
    for j la ra p d t pr c s'
    using daemon_invD [OF that(1), of j] that accepted_core_inv [of E junk p]
    by (intro daemon_inv_entry)
      (auto simp: entry_ok_def upd_core_def set_addrs_def core_ok_active)
  show ?thesis
  proof (cases "pending_connections (chisocket_table s ! i)")
    case Nil
    then show ?thesis using s by (auto simp: handle_ACCEPT_def Let_def i_def)
  next
    case (Cons pc pcs)
    let ?s1 = "upd_entry i (\<lambda>x. x\<lparr>pending_connections := pcs\<rparr>) s"
    note s1 = pop [OF Cons]
    show ?thesis
    proof (cases "chitcpd_allocate_socket thr ?s1")
      case None
      then show ?thesis using s s1 Cons by (auto simp: handle_ACCEPT_def Let_def i_def)
    next
      case (Some js)
      obtain j s2 where js: "js = (j, s2)" by fastforce
      have s2: "daemon_inv s2" using allocate_inv(1) [OF s1] Some js by simp
      have "daemon_inv (upd_entry j (\<lambda>y. set_addrs la ra (upd_core (accepted_core E junk p)
          (y\<lparr>domain := d, stype := t, protocol := pr, parent_socket := Some i,
             realtcpconn := chitcpd_get_connection s2 a\<rparr>)))
          (upd_entry i (upd_core (snd \<circ> debug_breakpoint E)) s2))" for la ra p d t pr a
        using get_connection_live [of s2 a] by (intro new brk s2) simp
      then show ?thesis
        using s Cons Some js unfolding handle_ACCEPT_def Let_def i_def [symmetric] by simp
    qed
  qed
qed

lemma handle_CONNECT_inv:
  assumes s: "daemon_inv s"
  shows "keeps_inv (handle_CONNECT E junk sock dport fd a s)"
proof (cases "bad_fd fd s \<or> tcp_state (core (chisocket_table s ! nat fd)) \<noteq> CLOSED \<or> \<not> inet_family a")
  case True
  with s show ?thesis by (auto simp: handle_CONNECT_def Let_def)
next
  case False
  define i where "i = nat fd"
  obtain c s' where cs: "(case chitcpd_get_connection s a of Some c \<Rightarrow> (Some c, s)
      | None \<Rightarrow> chitcpd_create_connection sock dport a s) = (c, s')" by fastforce
  have s': "daemon_inv s'" "chisocket_table s' = chisocket_table s"
    and c: "conn_live (connection_table s') k" if "c = Some k" for k
    using cs create_connection_inv [OF s] get_connection_live s that
    by (auto split: option.splits)
  have inv: "daemon_inv s'" and tab: "chisocket_table s' = chisocket_table s"
    using cs create_connection_inv [OF s] s by (auto split: option.splits)
  have i: "i < length (chisocket_table s')" using False bad_fdD [of fd s] tab by (simp add: i_def)
  let ?f = "\<lambda>e. let e = tcp_data_init E (e\<lparr>actpas_type := SOCKET_ACTIVE\<rparr>);
        e = chitcpd_tcp_start_thread junk (e\<lparr>flags := raw_flags\<rparr>)
      in e\<lparr>flags := (flags e)\<lparr>app_connect := True\<rparr>\<rparr>"
  have f: "socket_inv (?f e)" if "tcp_state e = CLOSED" for e
    using that by (simp add: Let_def socket_inv_def tcp_inv_def tcp_data_init_def set_tcp_vars_def
        chitcpd_tcp_start_thread_def cb_wf_junk)
  have "daemon_inv (upd_entry i (\<lambda>x. set_addrs la a (upd_core ?f (x\<lparr>realtcpconn := c\<rparr>))) s')" for la
  proof (rule daemon_inv_entry [OF inv])
    have "socket_inv (?f (core (chisocket_table s' ! i)))"
      using False by (intro f) (simp add: tab i_def)
    then show "entry_ok (connection_table s')
        (set_addrs la a (upd_core ?f ((chisocket_table s' ! i)\<lparr>realtcpconn := c\<rparr>)))"
      using daemon_invD [OF inv i] c
      by (auto simp: entry_ok_def upd_core_def set_addrs_def core_ok_active)
  qed
  then have "daemon_inv (set_port p (Some i) (upd_entry i
      (\<lambda>x. set_addrs la a (upd_core ?f (x\<lparr>realtcpconn := c\<rparr>))) s'))" for p la
    using i by (intro daemon_inv_port) auto
  then show ?thesis
    using False s inv unfolding handle_CONNECT_def Let_def i_def [symmetric] cs
    by (auto simp: Let_def)
qed

lemma handle_CLOSE_inv: "daemon_inv s \<Longrightarrow> keeps_inv (handle_CLOSE fd s)"
  using entry_calls_inv(3) free_inv by (auto simp: handle_CLOSE_def Let_def)

lemma handle_request_inv: "daemon_inv s \<Longrightarrow> keeps_inv (handle_request thr h rq s)"
proof (cases rq)
  case (Rq_send fd d)
  then show "daemon_inv s \<Longrightarrow> ?thesis"
    using entry_calls_inv(1) by (auto simp: handle_request_def handle_SEND_def Let_def)
next
  case (Rq_recv fd n)
  then show "daemon_inv s \<Longrightarrow> ?thesis"
    using entry_calls_inv(2) by (auto simp: handle_request_def handle_RECV_def Let_def)
next
  case (Rq_wait_for_state fd st)
  then show "daemon_inv s \<Longrightarrow> ?thesis"
    by (auto simp: handle_request_def handle_WAIT_FOR_STATE_def split: option.splits)
qed (simp_all add: handle_request_def handle_SOCKET_inv handle_BIND_inv handle_LISTEN_inv
    handle_ACCEPT_inv handle_CONNECT_inv handle_CLOSE_inv)

lemma update_closed_inv:
  "socket_inv e \<Longrightarrow> socket_inv (update_tcp_state E CLOSED e)"
  by (simp add: update_tcp_state_def debug_breakpoint_def Let_def socket_inv_def tcp_inv_def)

lemma disconnect_inv: "daemon_inv s \<Longrightarrow> daemon_inv (disconnect_loop E thr js s)"
proof (induction js arbitrary: s)
  case Nil
  then show ?case by simp
next
  case (Cons i js)
  have "daemon_inv (upd_entry i (upd_core (update_tcp_state E CLOSED)) s)"
    if "\<not> available (chisocket_table s ! i)" "actpas_type (core (chisocket_table s ! i)) = SOCKET_ACTIVE"
    using daemon_invD [OF Cons.prems, of i] that update_closed_inv
    by (intro daemon_inv_entry Cons.prems)
      (auto simp: entry_ok_def upd_core_def core_ok_def [of "core _"] intro: core_ok_active)
  then show ?case
    using Cons free_inv by (auto simp: Let_def split: socket_type.splits)
qed

lemma socket_thread_inv:
  assumes "daemon_inv s" "sort_ok E" "has_thread i s"
  shows "keeps daemon_inv (socket_thread E i s)"
proof (cases "thread_step E (core (chisocket_table s ! i))")
  case None
  then show ?thesis using assms(1) by (simp add: socket_thread_def Let_def)
next
  case (Some r)
  have i: "i < length (chisocket_table s)" and ok: "entry_ok (connection_table s) (chisocket_table s ! i)"
    using daemon_invD [OF assms(1)] assms(3) by (auto simp: has_thread_def)
  have "socket_inv (core (chisocket_table s ! i))"
    using ok assms(3) by (simp add: entry_ok_def core_ok_def has_thread_def)
  from thread_step_inv [OF this assms(2) Some]
  have r: "keeps (\<lambda>(d, e). socket_inv e) r" .
  have upd: "daemon_inv (upd_entry i (upd_core (\<lambda>_. e)) s)" if "socket_inv e" for e
    using ok that by (intro daemon_inv_entry assms(1)) (auto simp: entry_ok_def upd_core_def core_ok_active)
  have "keeps daemon_inv (rbind r f)" if "\<And>d e. socket_inv e \<Longrightarrow> keeps daemon_inv (f (d, e))" for f
    using that by (intro keeps_rbind [OF r]) auto
  then show ?thesis
    using Some upd free_inv by (auto simp: socket_thread_def Let_def)
qed

lemma timer_inv:
  assumes "daemon_inv s" "has_thread i s"
  shows "daemon_inv (upd_entry i (upd_core chitcpd_timeout) s)"
  using daemon_invD [OF assms(1), of i] assms
  by (intro daemon_inv_entry)
    (auto simp: entry_ok_def upd_core_def chitcpd_timeout_def core_ok_def has_thread_def)

section \<open>The daemon as an event machine\<close>

definition daemon_event_ok :: "daemon_event \<Rightarrow> bool" where
  "daemon_event_ok ev = (case ev of D_thread E i \<Rightarrow> sort_ok E | _ \<Rightarrow> True)"

lemma daemon_step_inv:
  assumes "daemon_inv s" "daemon_event_ok ev"
  shows "keeps daemon_inv (daemon_step ev s)"
proof (cases ev)
  case (D_request thr h rq)
  show ?thesis
    unfolding D_request daemon_step_def daemon_event.case
    by (rule keeps_rbind [OF handle_request_inv [OF assms(1)]]) auto
next
  case (D_packet E p la ra)
  show ?thesis
    unfolding D_packet daemon_step_def daemon_event.case
    by (rule keeps_rbind [OF recv_packet_inv [OF assms(1)]]) auto
next
  case (D_thread E i)
  then show ?thesis using assms socket_thread_inv
    by (simp add: daemon_step_def daemon_event_ok_def)
next
  case (D_timer i)
  then show ?thesis using assms timer_inv by (simp add: daemon_step_def)
next
  case (D_disconnect E thr)
  then show ?thesis using assms disconnect_inv
    by (simp add: daemon_step_def client_disconnects_def)
next
  case (D_connection sk port a)
  then show ?thesis using assms network_accept_inv by (simp add: daemon_step_def)
qed

interpretation daemon: event_machine daemon_inv daemon_step daemon_event_ok
  by unfold_locales (use daemon_step_inv in \<open>auto dest: keepsD\<close>)

lemma daemon_inv_init: "daemon_inv chitcpd_server_init"
  by (simp add: daemon_inv_def chitcpd_server_init_def list_all_iff)

end
