(* ===== verification/Daemon_Props.thy ===== *)
theory Daemon_Props
  imports Daemon_Inv Tcp_Props
begin

text \<open>
  What the daemon does: which socket a packet belongs to, how the tables follow the requests, and
  the opening of a connection from the SYN off the network to the answer of the new socket.
\<close>

section \<open>Looking up the socket of a packet\<close>

text \<open>
  The specification: an entry matches a pair of addresses when their ports agree and their
  addresses agree or one of them is the wildcard; it is better the fewer wildcards were needed.
\<close>

definition same_ip :: "sockaddr \<Rightarrow> sockaddr \<Rightarrow> bool" where
  "same_ip a b \<longleftrightarrow> (if sa_family a = AF_INET then sin_addr a = sin_addr b
     else if sa_family a = AF_INET6 then sin6_addr a = sin6_addr b else False)"

definition wild_cost :: "sockaddr \<Rightarrow> sockaddr \<Rightarrow> sock_entry \<Rightarrow> nat" where
  "wild_cost la ra x = of_bool (chitcp_addr_is_any la \<noteq> chitcp_addr_is_any (local_addr x))
     + of_bool (chitcp_addr_is_any ra \<noteq> chitcp_addr_is_any (remote_addr x))"

definition sock_matches :: "sockaddr \<Rightarrow> sockaddr \<Rightarrow> sock_entry \<Rightarrow> bool" where
  "sock_matches la ra x \<longleftrightarrow> \<not> available x
     \<and> sa_family la = sa_family (local_addr x) \<and> sa_family ra = sa_family (remote_addr x)
     \<and> inet_family la \<and> sa_port la = sa_port (local_addr x)
     \<and> (chitcp_addr_is_any la \<or> chitcp_addr_is_any (local_addr x) \<or> same_ip la (local_addr x))
     \<and> (chitcp_addr_is_any ra \<or> chitcp_addr_is_any (remote_addr x)
        \<or> same_ip ra (remote_addr x) \<and> sa_port ra = sa_port (remote_addr x))"

definition best_socket :: "serverinfo \<Rightarrow> sockaddr \<Rightarrow> sockaddr \<Rightarrow> bool \<Rightarrow> nat option" where
  "best_socket s la ra exact =
     (let t = chisocket_table s;
          c = filter (\<lambda>i. sock_matches la ra (t ! i) \<and> (exact \<longrightarrow> wild_cost la ra (t ! i) = 0))
                [0..<length t]
      in if c = [] then None else Some (arg_min_list (\<lambda>i. wild_cost la ra (t ! i)) c))"

lemma sint_diff_eq_0: "sint (a - b :: u32) = 0 \<longleftrightarrow> a = b"
  by (metis diff_self eq_iff_diff_eq_0 sint_0 signed_word_eqI)

lemma addr_cmp_same_ip: "sa_family a = sa_family b \<Longrightarrow> chitcp_addr_cmp a b = 0 \<longleftrightarrow> same_ip a b"
  by (auto simp: chitcp_addr_cmp_def same_ip_def AF_INET_def AF_INET6_def
      sint_diff_eq_0)

lemma port_cmp_eq:
  "sa_family a = sa_family b \<Longrightarrow>
   chitcp_addr_port_cmp a b = 0 \<longleftrightarrow> inet_family a \<and> sa_port a = sa_port b"
  by (auto simp: chitcp_addr_port_cmp_def word_uint_eq_iff)

lemma same_ip_inet: "same_ip a b \<Longrightarrow> inet_family a"
  by (auto simp: same_ip_def inet_family_def split: if_splits)

lemma nwildcards_spec:
  "nwildcards la ra exact x =
     (if sock_matches la ra x \<and> (exact \<longrightarrow> wild_cost la ra x = 0)
      then Some (wild_cost la ra x) else None)"
  by (auto simp: nwildcards_def sock_matches_def wild_cost_def addr_cmp_same_ip port_cmp_eq
      dest: same_ip_inet)

text \<open>What the search returns: the first of the candidates below the bound of least cost.\<close>

lemma lookup_loop_cases:
  "lookup_loop nw mx m i xs = m \<and> (\<forall>k<length xs. \<forall>n. nw (xs ! k) = Some n \<longrightarrow> mx \<le> n)
   \<or> (\<exists>k<length xs. lookup_loop nw mx m i xs = Some (i + k) \<and> (\<exists>n. nw (xs ! k) = Some n \<and> n < mx
        \<and> (\<forall>j<length xs. \<forall>n'. nw (xs ! j) = Some n' \<longrightarrow> n \<le> n' \<and> (j < k \<longrightarrow> n < n'))))"
  (is "?P mx m i xs")
proof (induction xs arbitrary: mx m i)
  case Nil
  then show ?case by simp
next
  case (Cons x xs)
  show ?case
  proof (cases "\<exists>n. nw x = Some n \<and> n < mx")
    case False
    then have eq: "lookup_loop nw mx m i (x # xs) = lookup_loop nw mx m (Suc i) xs"
      by (auto split: option.splits)
    from Cons.IH [of mx m "Suc i"] show ?thesis
    proof (elim disjE exE conjE)
      assume "lookup_loop nw mx m (Suc i) xs = m"
        "\<forall>k<length xs. \<forall>n. nw (xs ! k) = Some n \<longrightarrow> mx \<le> n"
      then show ?thesis using False eq by (auto simp: nth_Cons split: nat.split)
    next
      fix k n
      assume "k < length xs" "lookup_loop nw mx m (Suc i) xs = Some (Suc i + k)"
        "nw (xs ! k) = Some n" "n < mx"
        "\<forall>j<length xs. \<forall>n'. nw (xs ! j) = Some n' \<longrightarrow> n \<le> n' \<and> (j < k \<longrightarrow> n < n')"
      then show ?thesis using False eq
        by (intro disjI2 exI [of _ "Suc k"]) (fastforce simp: nth_Cons split: nat.split)
    qed
  next
    case True
    then obtain n where n: "nw x = Some n" "n < mx" by blast
    show ?thesis
    proof (cases "n = 0")
      case True
      then show ?thesis using n by (intro disjI2 exI [of _ 0]) simp
    next
      case False
      then have eq: "lookup_loop nw mx m i (x # xs) = lookup_loop nw n (Some i) (Suc i) xs"
        using n by simp
      from Cons.IH [of n "Some i" "Suc i"] show ?thesis
      proof (elim disjE exE conjE)
        assume "lookup_loop nw n (Some i) (Suc i) xs = Some i"
          "\<forall>k<length xs. \<forall>n'. nw (xs ! k) = Some n' \<longrightarrow> n \<le> n'"
        then show ?thesis using n eq
          by (intro disjI2 exI [of _ 0]) (auto simp: nth_Cons split: nat.split)
      next
        fix k n'
        assume "k < length xs" "lookup_loop nw n (Some i) (Suc i) xs = Some (Suc i + k)"
          "nw (xs ! k) = Some n'" "n' < n"
          "\<forall>j<length xs. \<forall>n''. nw (xs ! j) = Some n'' \<longrightarrow> n' \<le> n'' \<and> (j < k \<longrightarrow> n' < n'')"
        then show ?thesis using n eq
          by (intro disjI2 exI [of _ "Suc k"]) (fastforce simp: nth_Cons split: nat.split)
      qed
    qed
  qed
qed

text \<open>\<open>arg_min_list\<close> returns the first minimum.\<close>

lemma arg_min_list_first:
  fixes f :: "nat \<Rightarrow> nat"
  shows "sorted xs \<Longrightarrow> k \<in> set xs \<Longrightarrow> (\<And>j. j \<in> set xs \<Longrightarrow> f k \<le> f j \<and> (j < k \<longrightarrow> f k < f j)) \<Longrightarrow>
   arg_min_list f xs = k"
proof (induction xs)
  case Nil
  then show ?case by simp
next
  case (Cons x xs)
  show ?case
  proof (cases xs)
    case Nil
    then show ?thesis using Cons.prems by simp
  next
    case (Cons y zs)
    let ?m = "arg_min_list f xs"
    have m: "?m \<in> set xs" using Cons by (intro arg_min_list_in) simp
    have eq: "arg_min_list f (x # xs) = (if f x \<le> f ?m then x else ?m)"
      using Cons by (simp add: Let_def)
    show ?thesis
    proof (cases "k = x")
      case True
      then have "f x \<le> f ?m" using Cons.prems(3) m by auto
      then show ?thesis using True eq by simp
    next
      case False
      then have k: "k \<in> set xs" using Cons.prems(2) by simp
      then have "?m = k" using Cons.IH Cons.prems by auto
      moreover have "x < k" using Cons.prems(1) k False by (auto simp: le_less)
      then have "f k < f x" using Cons.prems(3) [of x] by simp
      ultimately show ?thesis using eq by simp
    qed
  qed
qed

lemma nwildcards_lt: "nwildcards la ra ex x = Some n \<Longrightarrow> n < 3"
  by (auto simp: nwildcards_spec wild_cost_def split: if_splits)

text \<open>
  C17: Which socket a packet belongs to. For every table, pair of addresses and mode,
  \<open>chitcpd_lookup_socket\<close>, a loop with an early exit and a running minimum, returns the first of
  the matching entries that needs the fewest wildcards (none at all in exact mode), and nothing
  when no entry matches.
\<close>

theorem lookup_best: "chitcpd_lookup_socket s la ra exact = best_socket s la ra exact"
proof -
  let ?t = "chisocket_table s" and ?nw = "nwildcards la ra exact"
  let ?ok = "\<lambda>i. sock_matches la ra (?t ! i) \<and> (exact \<longrightarrow> wild_cost la ra (?t ! i) = 0)"
  let ?c = "filter ?ok [0..<length ?t]"
  have nw: "?nw (?t ! i) = (if ?ok i then Some (wild_cost la ra (?t ! i)) else None)" for i
    by (simp add: nwildcards_spec)
  consider "lookup_loop ?nw 3 None 0 ?t = None" "\<forall>k<length ?t. \<forall>n. ?nw (?t ! k) = Some n \<longrightarrow> 3 \<le> n"
    | k n where "k < length ?t" "lookup_loop ?nw 3 None 0 ?t = Some k" "?nw (?t ! k) = Some n"
      "\<forall>j<length ?t. \<forall>n'. ?nw (?t ! j) = Some n' \<longrightarrow> n \<le> n' \<and> (j < k \<longrightarrow> n < n')"
    using lookup_loop_cases [of ?nw 3 None 0 ?t] by auto
  then show ?thesis
  proof cases
    case 1
    have "\<not> ?ok k" if "k < length ?t" for k
    proof
      assume "?ok k"
      then have "?nw (?t ! k) = Some (wild_cost la ra (?t ! k))" by (simp add: nw)
      with nwildcards_lt 1(2) that show False by (meson not_less)
    qed
    then have "?c = []" by (auto simp: filter_empty_conv)
    then show ?thesis using 1(1) by (simp add: chitcpd_lookup_socket_def best_socket_def Let_def)
  next
    case (2 k n)
    have k: "k \<in> set ?c" and n: "n = wild_cost la ra (?t ! k)"
      using 2(1,3) nw [of k] by (auto split: if_splits)
    have "arg_min_list (\<lambda>i. wild_cost la ra (?t ! i)) ?c = k"
    proof (rule arg_min_list_first [OF _ k])
      fix j assume "j \<in> set ?c"
      then have "j < length ?t" "?nw (?t ! j) = Some (wild_cost la ra (?t ! j))"
        using nw [of j] by simp_all
      then show "wild_cost la ra (?t ! k) \<le> wild_cost la ra (?t ! j)
          \<and> (j < k \<longrightarrow> wild_cost la ra (?t ! k) < wild_cost la ra (?t ! j))"
        using 2(4) n by blast
    qed (simp add: sorted_wrt_filter)
    moreover have "?c \<noteq> []" using k by (metis empty_iff list.set(1))
    ultimately show ?thesis using 2(2)
      unfolding chitcpd_lookup_socket_def best_socket_def Let_def by (simp only: if_False)
  qed
qed

section \<open>Requests on the tables\<close>

text \<open>The port of an entry, as the port table is indexed.\<close>

definition entry_port :: "sock_entry \<Rightarrow> nat" where
  "entry_port x = unat (ntohs (chitcp_get_addr_port (local_addr x)))"

text \<open>An event freed an entry with the local port \<open>p\<close>.\<close>

definition port_freed :: "nat \<Rightarrow> serverinfo \<Rightarrow> serverinfo \<Rightarrow> bool" where
  "port_freed p s s' \<longleftrightarrow> (\<exists>i < length (chisocket_table s). entry_port (chisocket_table s ! i) = p
     \<and> \<not> available (chisocket_table s ! i) \<and> available (chisocket_table s' ! i))"

definition port_kept :: "serverinfo \<Rightarrow> serverinfo \<Rightarrow> bool" where
  "port_kept s s' \<longleftrightarrow> (\<forall>p. port_table s p \<noteq> None \<longrightarrow> port_table s' p \<noteq> None \<or> port_freed p s s')"

lemma port_kept_same: "port_table s' = port_table s \<Longrightarrow> port_kept s s'"
  by (simp add: port_kept_def)

text \<open>Freeing an entry after a change that leaves its address alone.\<close>

lemma free_kept:
  assumes "i < length (chisocket_table s)" "\<not> available (chisocket_table s ! i)"
    and "local_addr (f (chisocket_table s ! i)) = local_addr (chisocket_table s ! i)"
  shows "port_kept s (chitcpd_free_socket_entry i (upd_entry i f s))"
proof -
  let ?s = "chitcpd_free_socket_entry i (upd_entry i f s)"
  have t: "port_table ?s = (port_table s)(entry_port (chisocket_table s ! i) := None)"
    "available (chisocket_table ?s ! i)"
    using assms
    by (auto simp: chitcpd_free_socket_entry_def Let_def nth_upd_entry entry_port_def
        zero_entry_def)
  then show ?thesis using assms(1,2) by (auto simp: port_kept_def port_freed_def)
qed

text \<open>Who serves a client that goes away: the entry after the loop of the handler thread.\<close>

definition after_disconnect :: "env \<Rightarrow> nat \<Rightarrow> sock_entry \<Rightarrow> sock_entry" where
  "after_disconnect E thr x =
     (if \<not> available x \<and> creator_thread x = thr
      then (case actpas_type (core x) of
              SOCKET_ACTIVE \<Rightarrow> upd_core (update_tcp_state E CLOSED) x
            | SOCKET_PASSIVE \<Rightarrow> zero_entry
            | SOCKET_UNINITIALIZED \<Rightarrow> x)
      else x)"

lemma disconnect_loop_entry:
  "distinct js \<Longrightarrow> \<forall>j \<in> set js. j < length (chisocket_table s) \<Longrightarrow>
   chisocket_table (disconnect_loop E thr js s) ! i
     = (if i \<in> set js then after_disconnect E thr (chisocket_table s ! i) else chisocket_table s ! i)
   \<and> length (chisocket_table (disconnect_loop E thr js s)) = length (chisocket_table s)"
proof (induction js arbitrary: s)
  case Nil
  then show ?case by simp
next
  case (Cons j js)
  have j: "j < length (chisocket_table s)" using Cons.prems(2) by simp
  define s1 where "s1 = (if \<not> available (chisocket_table s ! j) \<and> creator_thread (chisocket_table s ! j) = thr
         then (case actpas_type (core (chisocket_table s ! j)) of
                 SOCKET_ACTIVE \<Rightarrow> upd_entry j (upd_core (update_tcp_state E CLOSED)) s
               | SOCKET_PASSIVE \<Rightarrow> chitcpd_free_socket_entry j s
               | SOCKET_UNINITIALIZED \<Rightarrow> s) else s)"
  have len: "length (chisocket_table s1) = length (chisocket_table s)"
    by (simp add: s1_def chitcpd_free_socket_entry_def Let_def split: socket_type.split)
  have e: "chisocket_table s1 ! i
      = (if i = j then after_disconnect E thr (chisocket_table s ! j) else chisocket_table s ! i)" for i
    using j by (auto simp: s1_def after_disconnect_def chitcpd_free_socket_entry_def Let_def nth_upd_entry
        split: socket_type.split)
  have "disconnect_loop E thr (j # js) s = disconnect_loop E thr js s1"
    by (simp add: s1_def Let_def)
  then show ?case using Cons.IH [of s1] Cons.prems len e by (auto simp del: disconnect_loop.simps)
qed

text \<open>
  A client that disconnects loses its sockets and no others: each passive socket of its
  thread becomes a free entry, each active one is closed and marked for cleanup by its thread, and
  every socket of another thread is as before. But a socket of the client that it had neither
  listened nor connected with stays allocated, for ever: the loop has no case for it.
\<close>

theorem disconnect_frees:
  fixes E :: env and thr :: nat
  assumes "i < length (chisocket_table s)"
  defines "x \<equiv> chisocket_table s ! i"
    and "x' \<equiv> chisocket_table (client_disconnects E thr s) ! i"
  shows "(available x \<or> creator_thread x \<noteq> thr \<longrightarrow> x' = x)
    \<and> (\<not> available x \<and> creator_thread x = thr \<longrightarrow>
         (actpas_type (core x) = SOCKET_PASSIVE \<longrightarrow> x' = zero_entry \<and> available x')
       \<and> (actpas_type (core x) = SOCKET_ACTIVE \<longrightarrow>
            tcp_state (core x') = CLOSED \<and> cleanup (flags (core x')))
       \<and> (actpas_type (core x) = SOCKET_UNINITIALIZED \<longrightarrow> x' = x \<and> \<not> available x'))"
proof -
  have "x' = after_disconnect E thr x"
    using disconnect_loop_entry [of "[0..<length (chisocket_table s)]" s E thr i] assms(1)
    by (simp add: x_def x'_def client_disconnects_def)
  then show ?thesis
    by (auto simp: after_disconnect_def zero_entry_def upd_core_def update_tcp_state_def
        debug_breakpoint_def Let_def)
qed

section \<open>Opening a connection\<close>

lemma lookup_cost:
  assumes "chitcpd_lookup_socket s la ra ex = Some i"
  obtains n where "i < length (chisocket_table s)"
    and "nwildcards la ra ex (chisocket_table s ! i) = Some n"
    and "\<And>j n'. j < length (chisocket_table s) \<Longrightarrow>
      nwildcards la ra ex (chisocket_table s ! j) = Some n' \<Longrightarrow> n \<le> n'"
  using lookup_loop_cases [of "nwildcards la ra ex" 3 None 0 "chisocket_table s"] assms
  by (auto simp: chitcpd_lookup_socket_def)

lemma lookup_exact:
  assumes "j < length (chisocket_table s)" "nwildcards la ra ex (chisocket_table s ! j) = Some 0"
    and "\<And>k. k < length (chisocket_table s) \<Longrightarrow> k \<noteq> j \<Longrightarrow>
      nwildcards la ra ex (chisocket_table s ! k) \<noteq> Some 0"
  shows "chitcpd_lookup_socket s la ra ex = Some j"
proof -
  have "\<exists>k<length (chisocket_table s). chitcpd_lookup_socket s la ra ex = Some k
      \<and> nwildcards la ra ex (chisocket_table s ! k) = Some 0"
    using lookup_loop_cases [of "nwildcards la ra ex" 3 None 0 "chisocket_table s"] assms(1,2)
    by (fastforce simp: chitcpd_lookup_socket_def)
  then show ?thesis using assms(3) by metis
qed

lemma nwildcards_cong:
  "available x = available y \<Longrightarrow> local_addr x = local_addr y \<Longrightarrow> remote_addr x = remote_addr y \<Longrightarrow>
   nwildcards la ra ex x = nwildcards la ra ex y"
  by (simp add: nwildcards_def)

text \<open>The addresses of a packet that came over a connection between two hosts.\<close>

definition pkt_local :: "packet \<Rightarrow> sockaddr \<Rightarrow> sockaddr" where
  "pkt_local p a = chitcp_set_addr_port a (load16 p 2)"

definition pkt_remote :: "packet \<Rightarrow> sockaddr \<Rightarrow> sockaddr" where
  "pkt_remote p a = chitcp_set_addr_port a (load16 p 0)"

definition same_link :: "packet \<Rightarrow> sockaddr \<Rightarrow> sockaddr \<Rightarrow> bool" where
  "same_link p lr pr \<longleftrightarrow> 4 \<le> length p \<and> inet_family lr \<and> sa_family lr = sa_family pr"

lemma packet_step:
  assumes "same_link p lr pr"
    and "chitcpd_lookup_socket s (pkt_local p lr) (pkt_remote p pr) False = Some i"
  shows "actpas_type (core (chisocket_table s ! i)) = SOCKET_ACTIVE \<Longrightarrow>
      daemon_step (D_packet E p lr pr) s = Inr (upd_entry i (upd_core (enqueue_packet E p)) s)"
    and "actpas_type (core (chisocket_table s ! i)) = SOCKET_PASSIVE \<Longrightarrow>
      daemon_step (D_packet E p lr pr) s = Inr (upd_entry i (\<lambda>x. x\<lparr>pending_connections :=
        pending_connections x
        @ [\<lparr>initial_packet = p, pc_local = pkt_local p lr, pc_remote = pkt_remote p pr\<rparr>]\<rparr>) s)"
  using assms
  by (auto simp: daemon_step_def chitcpd_recv_tcp_packet_def same_link_def pkt_local_def
      pkt_remote_def Let_def inet_family_def)

lemma thread_packet:
  assumes "has_thread j s" "flags (core (chisocket_table s ! j)) = raw_flags\<lparr>net_recv := True\<rparr>"
    and "realtcpconn (chisocket_table s ! j) \<noteq> None"
    and "dispatch_tcp E PACKET_ARRIVAL ((core (chisocket_table s ! j))\<lparr>flags := raw_flags\<rparr>) = Inr e"
    and "pending_packets e = []"
  shows "daemon_step (D_thread E j) s = Inr (upd_entry j (upd_core (\<lambda>_. e)) s)"
proof -
  have "raw_flags\<lparr>net_recv := True, net_recv := False\<rparr> = raw_flags" by (simp add: raw_flags_def)
  then have "thread_step E (core (chisocket_table s ! j)) = Some (Inr (False, e))"
    using assms(2,4,5) by (simp add: thread_step_def Let_def raw_flags_def)
  then show ?thesis
    using assms(1,3) by (simp add: daemon_step_def socket_thread_def Let_def)
qed

lemma accepted_fresh:
  assumes "quiet E"
  obtains iss where "fresh iss (accepted_core E junk p e)"
    and "tcp_state (accepted_core E junk p e) = LISTEN"
    and "pending_packets (accepted_core E junk p e) = [p]"
    and "flags (accepted_core E junk p e) = raw_flags\<lparr>net_recv := True\<rparr>"
    and "wire (accepted_core E junk p e) = wire e"
proof -
  obtain iss where i: "tcp_data_init E (e\<lparr>actpas_type := SOCKET_ACTIVE\<rparr>)
      = set_tcp_vars iss ((e\<lparr>actpas_type := SOCKET_ACTIVE\<rparr>)\<lparr>n_rand := Suc (n_rand e),
          pending_packets := [], withheld_packets := []\<rparr>)" and b: "unat iss < 255000"
    using init_vars [OF assms, of "e\<lparr>actpas_type := SOCKET_ACTIVE\<rparr>"] by auto
  have m: "e_debug E k = DBG_RESP_NONE" for k using assms by (simp add: quiet_def no_monitor_def)
  show ?thesis
    by (rule that [of iss])
      (use b in \<open>simp_all add: accepted_core_def i debug_breakpoint_def m Let_def fresh_def
        chitcpd_tcp_start_thread_def set_tcp_vars_def\<close>)
qed

lemma first_index_upd:
  assumes "first_index available (chisocket_table s) = Some j" "available (f (chisocket_table s ! i)) =
    available (chisocket_table s ! i)"
  shows "first_index available (chisocket_table (upd_entry i f s)) = Some j"
proof -
  have "available (chisocket_table (upd_entry i f s) ! k) = available (chisocket_table s ! k)" for k
    using assms(2) by (cases "k = i \<and> i < length (chisocket_table s)")
      (auto simp: nth_upd_entry upd_entry_def nth_list_update not_less list_update_beyond)
  then show ?thesis using assms(1) by (simp add: first_index_def)
qed

text \<open>The entry that \<open>accept\<close> fills for the pending connection \<open>pc\<close> of the listener \<open>x\<close>.\<close>

definition accepted_entry ::
  "env \<Rightarrow> (nat \<Rightarrow> byte) \<Rightarrow> nat \<Rightarrow> nat \<Rightarrow> nat option \<Rightarrow> pending_connection \<Rightarrow> sock_entry \<Rightarrow> sock_entry
     \<Rightarrow> sock_entry" where
  "accepted_entry E junk thr i conn pc x y =
     set_addrs (pc_local pc) (pc_remote pc) (upd_core (accepted_core E junk (initial_packet pc))
       ((upd_core (\<lambda>e. e\<lparr>actpas_type := SOCKET_UNINITIALIZED, tcp_state := CLOSED\<rparr>)
           (y\<lparr>available := False, creator_thread := thr\<rparr>))
         \<lparr>domain := domain x, stype := stype x, protocol := protocol x,
          parent_socket := Some i, realtcpconn := conn\<rparr>))"

definition listener :: "serverinfo \<Rightarrow> nat \<Rightarrow> bool" where
  "listener s i \<longleftrightarrow> i < length (chisocket_table s) \<and> \<not> available (chisocket_table s ! i)
     \<and> actpas_type (core (chisocket_table s ! i)) = SOCKET_PASSIVE
     \<and> tcp_state (core (chisocket_table s ! i)) = LISTEN
     \<and> chitcp_addr_is_any (remote_addr (chisocket_table s ! i))"

lemma accept_step:
  assumes i: "listener s i" and pc: "pending_connections (chisocket_table s ! i) = pc # pcs"
    and fam: "inet_family (pc_remote pc)"
    and j: "first_index available (chisocket_table s) = Some j"
  obtains s' where "daemon_step (D_request thr h (Rq_accept (int i))) s = Inr s'"
    and "length (chisocket_table s') = length (chisocket_table s)"
    and "listener s' i" "pending_connections (chisocket_table s' ! i) = pcs"
    and "local_addr (chisocket_table s' ! i) = local_addr (chisocket_table s ! i)"
    and "remote_addr (chisocket_table s' ! i) = remote_addr (chisocket_table s ! i)"
    and "chisocket_table s' ! j = accepted_entry (h_env h) (h_junk h) thr i
      (chitcpd_get_connection s (pc_remote pc)) pc (chisocket_table s ! i) (chisocket_table s ! j)"
    and "\<And>k. k \<noteq> i \<Longrightarrow> k \<noteq> j \<Longrightarrow> chisocket_table s' ! k = chisocket_table s ! k"
    and "connection_table s' = connection_table s"
proof -
  let ?t = "chisocket_table s" and ?E = "h_env h" and ?x = "chisocket_table s ! i"
  have il: "i < length ?t" and x: "\<not> available ?x" "actpas_type (core ?x) = SOCKET_PASSIVE"
    "tcp_state (core ?x) = LISTEN" "chitcp_addr_is_any (remote_addr ?x)"
    using i by (auto simp: listener_def)
  have jl: "j < length ?t" "available (?t ! j)" using first_index_Some [OF j] by auto
  have ij: "i \<noteq> j" using x(1) jl(2) by auto
  define s1 where "s1 = upd_entry i (\<lambda>x. x\<lparr>pending_connections := pcs\<rparr>) s"
  define s2 where "s2 = upd_entry j (\<lambda>x. upd_core
      (\<lambda>e. e\<lparr>actpas_type := SOCKET_UNINITIALIZED, tcp_state := CLOSED\<rparr>)
      (x\<lparr>available := False, creator_thread := thr\<rparr>)) s1"
  define s3 where "s3 = upd_entry i (upd_core (snd \<circ> debug_breakpoint ?E)) s2"
  define s4 where "s4 = upd_entry j (\<lambda>y. set_addrs (pc_local pc) (pc_remote pc)
      (upd_core (accepted_core ?E (h_junk h) (initial_packet pc))
        (y\<lparr>domain := domain ?x, stype := stype ?x, protocol := protocol ?x,
           parent_socket := Some i, realtcpconn := chitcpd_get_connection s2 (pc_remote pc)\<rparr>))) s3"
  have "chitcpd_allocate_socket thr s1 = Some (j, s2)"
    using first_index_upd [OF j, of "\<lambda>x. x\<lparr>pending_connections := pcs\<rparr>" i]
    by (simp add: chitcpd_allocate_socket_def s1_def s2_def)
  then have step: "daemon_step (D_request thr h (Rq_accept (int i))) s = Inr s4"
    using il x pc fam
    by (simp add: daemon_step_def handle_request_def handle_ACCEPT_def bad_fd_def Let_def
        s1_def [symmetric] s3_def [symmetric] s4_def [symmetric])
  have conn: "chitcpd_get_connection s2 a = chitcpd_get_connection s a" for a
    by (simp add: chitcpd_get_connection_def s2_def s1_def)
  have len: "length (chisocket_table s4) = length ?t" "connection_table s4 = connection_table s"
    by (simp_all add: s4_def s3_def s2_def s1_def)
  have e: "chisocket_table s4 ! k =
      (if k = j then accepted_entry ?E (h_junk h) thr i (chitcpd_get_connection s (pc_remote pc)) pc ?x (?t ! j)
       else if k = i then upd_core (snd \<circ> debug_breakpoint ?E) (?x\<lparr>pending_connections := pcs\<rparr>)
       else ?t ! k)" for k
    using il jl ij unfolding s4_def s3_def s2_def s1_def
    by (simp add: nth_upd_entry accepted_entry_def conn [unfolded s2_def s1_def])
  show ?thesis
    by (rule that [OF step len(1)])
      (use ij il x len in \<open>simp_all add: e listener_def upd_core_def debug_breakpoint_def\<close>)
qed

lemma thread_packet_state:
  assumes "has_thread j s" "flags (core (chisocket_table s ! j)) = raw_flags\<lparr>net_recv := True\<rparr>"
    and "realtcpconn (chisocket_table s ! j) \<noteq> None"
    and "dispatch_tcp E PACKET_ARRIVAL ((core (chisocket_table s ! j))\<lparr>flags := raw_flags\<rparr>) = Inr e"
  shows "\<exists>e'. daemon_step (D_thread E j) s = Inr (upd_entry j (upd_core (\<lambda>_. e')) s)
    \<and> tcp_state e' = tcp_state e \<and> RCV_NXT e' = RCV_NXT e \<and> SND_UNA e' = SND_UNA e"
proof -
  have "raw_flags\<lparr>net_recv := True, net_recv := False\<rparr> = raw_flags" by (simp add: raw_flags_def)
  then have "\<exists>e'. thread_step E (core (chisocket_table s ! j)) = Some (Inr (False, e'))
      \<and> tcp_state e' = tcp_state e \<and> RCV_NXT e' = RCV_NXT e \<and> SND_UNA e' = SND_UNA e"
    using assms(2,4) by (simp add: thread_step_def Let_def raw_flags_def)
  then show ?thesis
    using assms(1,3) by (auto simp: daemon_step_def socket_thread_def Let_def)
qed

text \<open>The entry of an accepted connection is the only exact match of its addresses.\<close>

lemma nwildcards_exact:
  "\<not> available x \<Longrightarrow> inet_family la \<Longrightarrow> sa_family ra = sa_family la \<Longrightarrow> local_addr x = la \<Longrightarrow>
   remote_addr x = ra \<Longrightarrow> nwildcards la ra ex x = Some 0"
  by (auto simp: nwildcards_spec sock_matches_def wild_cost_def same_ip_def inet_family_def)

lemma packet_addr_family:
  "same_link p lr pr \<Longrightarrow> inet_family (pkt_local p lr) \<and> inet_family (pkt_remote p pr)
     \<and> sa_family (pkt_remote p pr) = sa_family (pkt_local p lr)"
  by (auto simp: same_link_def pkt_local_def pkt_remote_def chitcp_set_addr_port_def inet_family_def)

lemma ctl_length: "ctl p sq ak syn ack \<Longrightarrow> 4 \<le> length p"
  by (simp add: ctl_def header_ok_def TCP_HEADER_NOOPTIONS_SIZE_def)

lemma enqueue_quiet:
  "quiet E \<Longrightarrow> enqueue_packet E p e = e\<lparr>n_debug := Suc (n_debug e),
     pending_packets := pending_packets e @ [p], flags := (flags e)\<lparr>net_recv := True\<rparr>\<rparr>"
  by (simp add: enqueue_packet_def debug_breakpoint_def quiet_def no_monitor_def Let_def)

lemma accepted_entry_sel:
  "available (accepted_entry E junk thr i c pc x y) = False"
  "local_addr (accepted_entry E junk thr i c pc x y) = pc_local pc"
  "remote_addr (accepted_entry E junk thr i c pc x y) = pc_remote pc"
  "realtcpconn (accepted_entry E junk thr i c pc x y) = c"
  "parent_socket (accepted_entry E junk thr i c pc x y) = Some i"
  "core (accepted_entry E junk thr i c pc x y) =
     (accepted_core E junk (initial_packet pc)
       ((core y)\<lparr>actpas_type := SOCKET_UNINITIALIZED, tcp_state := CLOSED\<rparr>))
     \<lparr>local_port := chitcp_get_addr_port (pc_local pc), remote_port := chitcp_get_addr_port (pc_remote pc)\<rparr>"
  by (simp_all add: accepted_entry_def set_addrs_def upd_core_def)

text \<open>First half: the SYN waits at the listener, is accepted, and the new socket answers it.\<close>

lemma syn_accepted:
  assumes E: "quiet E" and link: "same_link p1 lr pr"
    and look: "chitcpd_lookup_socket s (pkt_local p1 lr) (pkt_remote p1 pr) False = Some i"
    and i: "listener s i" and none: "pending_connections (chisocket_table s ! i) = []"
    and j: "first_index available (chisocket_table s) = Some j"
    and conn: "chitcpd_get_connection s (pkt_remote p1 pr) = Some c"
    and p1: "ctl p1 ciss ak True False"
    and h: "h_env h = E"
  obtains s3 p2 iss where
    "run_events daemon_step
      [D_packet E p1 lr pr, D_request thr h (Rq_accept (int i)), D_thread E j] s = Inr s3"
    and "half_open SYN_RCVD iss p2 (core (chisocket_table s3 ! j))"
    and "RCV_NXT (core (chisocket_table s3 ! j)) = ciss + 1"
    and "pending_packets (core (chisocket_table s3 ! j)) = []"
    and "flags (core (chisocket_table s3 ! j)) = raw_flags"
    and "wire (core (chisocket_table s3 ! j)) = wire (core (chisocket_table s ! j)) @ chitcp_frame p2"
    and "ctl p2 iss (ciss + 1) True True"
    and "has_thread j s3" "realtcpconn (chisocket_table s3 ! j) = Some c"
    and "parent_socket (chisocket_table s3 ! j) = Some i"
    and "local_addr (chisocket_table s3 ! j) = pkt_local p1 lr"
    and "remote_addr (chisocket_table s3 ! j) = pkt_remote p1 pr"
    and "listener s3 i" "pending_connections (chisocket_table s3 ! i) = []"
    and "local_addr (chisocket_table s3 ! i) = local_addr (chisocket_table s ! i)"
    and "remote_addr (chisocket_table s3 ! i) = remote_addr (chisocket_table s ! i)"
    and "\<And>k. k \<noteq> i \<Longrightarrow> k \<noteq> j \<Longrightarrow> chisocket_table s3 ! k = chisocket_table s ! k"
    and "length (chisocket_table s3) = length (chisocket_table s)"
proof -
  define pc where "pc = \<lparr>initial_packet = p1, pc_local = pkt_local p1 lr, pc_remote = pkt_remote p1 pr\<rparr>"
  define s1 where "s1 = upd_entry i (\<lambda>x. x\<lparr>pending_connections := pending_connections x @ [pc]\<rparr>) s"
  have il: "i < length (chisocket_table s)" "actpas_type (core (chisocket_table s ! i)) = SOCKET_PASSIVE"
    "\<not> available (chisocket_table s ! i)"
    using i by (auto simp: listener_def)
  have jl: "j < length (chisocket_table s)" "available (chisocket_table s ! j)"
    using first_index_Some [OF j] by auto
  have ij: "i \<noteq> j" using il jl by auto
  have s1: "daemon_step (D_packet E p1 lr pr) s = Inr s1"
    using packet_step(2) [OF link look il(2)] by (simp add: s1_def pc_def)
  have s1t: "chisocket_table s1 ! k = (if k = i then (chisocket_table s ! i)\<lparr>pending_connections := [pc]\<rparr>
      else chisocket_table s ! k)" for k
    using il none by (simp add: s1_def nth_upd_entry)
  have "listener s1 i" using i s1t [of i] by (simp add: listener_def s1_def)
  moreover have "first_index available (chisocket_table s1) = Some j"
    using j unfolding s1_def by (intro first_index_upd) simp_all
  moreover have "inet_family (pc_remote pc)" using packet_addr_family [OF link] by (simp add: pc_def)
  ultimately obtain s2 where s2: "daemon_step (D_request thr h (Rq_accept (int i))) s1 = Inr s2"
    "length (chisocket_table s2) = length (chisocket_table s1)"
    "listener s2 i" "pending_connections (chisocket_table s2 ! i) = []"
    "local_addr (chisocket_table s2 ! i) = local_addr (chisocket_table s1 ! i)"
    "remote_addr (chisocket_table s2 ! i) = remote_addr (chisocket_table s1 ! i)"
    "chisocket_table s2 ! j = accepted_entry (h_env h) (h_junk h) thr i
      (chitcpd_get_connection s1 (pc_remote pc)) pc (chisocket_table s1 ! i) (chisocket_table s1 ! j)"
    "\<And>k. k \<noteq> i \<Longrightarrow> k \<noteq> j \<Longrightarrow> chisocket_table s2 ! k = chisocket_table s1 ! k"
    using accept_step [of s1 i pc "[]" j thr h] s1t [of i] by auto
  let ?c = "core (chisocket_table s2 ! j)"
  have c1: "chitcpd_get_connection s1 (pc_remote pc) = Some c"
    using conn by (simp add: chitcpd_get_connection_def s1_def pc_def)
  have core: "?c = (accepted_core E (h_junk h) p1 ((core (chisocket_table s ! j))
      \<lparr>actpas_type := SOCKET_UNINITIALIZED, tcp_state := CLOSED\<rparr>))
      \<lparr>local_port := chitcp_get_addr_port (pkt_local p1 lr),
        remote_port := chitcp_get_addr_port (pkt_remote p1 pr)\<rparr>"
    using ij by (simp add: s2(7) accepted_entry_sel h pc_def s1t)
  obtain iss where f: "fresh iss ?c" "tcp_state ?c = LISTEN" "pending_packets ?c = [p1]"
    "flags ?c = raw_flags\<lparr>net_recv := True\<rparr>" "wire ?c = wire (core (chisocket_table s ! j))"
    using accepted_fresh [OF E, of "h_junk h" p1 "(core (chisocket_table s ! j))
      \<lparr>actpas_type := SOCKET_UNINITIALIZED, tcp_state := CLOSED\<rparr>"]
    unfolding core fresh_def by auto
  let ?f = "?c\<lparr>flags := raw_flags\<rparr>"
  have ff: "fresh iss ?f" "tcp_state ?f = LISTEN" "pending_packets ?f = [p1]"
    using f by (simp_all add: fresh_def)
  obtain e p2 where e0: "dispatch_tcp E PACKET_ARRIVAL ?f = Inr e"
    "wire e = wire ?f @ chitcp_frame p2" "half_open SYN_RCVD iss p2 e" "RCV_NXT e = ciss + 1"
    "ctl p2 iss (ciss + 1) True True" "pending_packets e = []" "flags e = flags ?f"
    by (rule server_answers [OF E ff p1])
  have e: "dispatch_tcp E PACKET_ARRIVAL ?f = Inr e"
    "wire e = wire ?c @ chitcp_frame p2" "half_open SYN_RCVD iss p2 e" "RCV_NXT e = ciss + 1"
    "ctl p2 iss (ciss + 1) True True" "pending_packets e = []" "flags e = raw_flags"
    using e0 by simp_all
  have has: "has_thread j s2" and rc: "realtcpconn (chisocket_table s2 ! j) = Some c"
    using s2(2,7) jl(1) f(1) c1 by (simp_all add: has_thread_def s1_def accepted_entry_sel fresh_def)
  define s3 where "s3 = upd_entry j (upd_core (\<lambda>_. e)) s2"
  have s3: "daemon_step (D_thread E j) s2 = Inr s3"
    using thread_packet [OF has f(4) _ e(1,6)] rc by (simp add: s3_def)
  have s3t: "chisocket_table s3 ! k = (if k = j then upd_core (\<lambda>_. e) (chisocket_table s2 ! j)
      else chisocket_table s2 ! k)" for k
    using jl(1) s2(2) by (simp add: s3_def nth_upd_entry s1_def)
  show ?thesis
  proof (rule that [of s3 iss p2])
    show "run_events daemon_step
        [D_packet E p1 lr pr, D_request thr h (Rq_accept (int i)), D_thread E j] s = Inr s3"
      by (simp add: s1 s2(1) s3)
    show "listener s3 i" using s2(3) ij by (simp add: listener_def s3t) (simp add: s3_def)
    show "has_thread j s3" using has e(3) by (simp add: has_thread_def s3t upd_core_def half_open_def)
        (simp add: s3_def)
    show "length (chisocket_table s3) = length (chisocket_table s)"
      by (simp add: s3_def s2(2) s1_def)
    show "chisocket_table s3 ! k = chisocket_table s ! k" if "k \<noteq> i" "k \<noteq> j" for k
      using that s2(8) by (simp add: s3t s1t)
  qed (use ij f e rc s2 s1t in \<open>simp_all add: s3t upd_core_def accepted_entry_sel pc_def\<close>)
qed

text \<open>
  C5: A connection is opened through the daemon. A SYN whose addresses lead to a listening socket
  becomes a pending connection; \<open>accept\<close> by thread \<open>thr\<close> turns it into an active socket in the
  first free entry, and one iteration of that socket's thread puts a SYN with the acknowledgement
  of the peer's SYN on its connection. A later packet with the same addresses goes to the new
  socket and not to the listener, although both match; if it acknowledges the SYN, the socket is
  ESTABLISHED after one more iteration. The listener is ready for the next connection, and every
  other entry of the table is untouched. The last iteration marks the acknowledged SYN in an array
  of no bytes, so it needs an allocator whose empty blocks hold an \<open>int\<close> (\<open>alloc_room\<close>).
\<close>

theorem connection_opened:
  assumes "quiet E" "h_env h = E" "same_link p1 lr pr"
    and "chitcpd_lookup_socket s (pkt_local p1 lr) (pkt_remote p1 pr) False = Some i"
    and "listener s i" "pending_connections (chisocket_table s ! i) = []"
    and "first_index available (chisocket_table s) = Some j"
    and "chitcpd_get_connection s (pkt_remote p1 pr) = Some c"
    and "ctl p1 ciss ak True False"
    and "\<not> chitcp_addr_is_any (pkt_remote p1 pr)"
  shows "\<exists>s3 p2 iss. run_events daemon_step
      [D_packet E p1 lr pr, D_request thr h (Rq_accept (int i)), D_thread E j] s = Inr s3
    \<and> tcp_state (core (chisocket_table s3 ! j)) = SYN_RCVD
    \<and> parent_socket (chisocket_table s3 ! j) = Some i
    \<and> wire (core (chisocket_table s3 ! j)) = wire (core (chisocket_table s ! j)) @ chitcp_frame p2
    \<and> ctl p2 iss (ciss + 1) True True
    \<and> (\<forall>p3. alloc_room E 1 \<and> ctl p3 (ciss + 1) (iss + 1) False True \<and> load16 p3 0 = load16 p1 0
          \<and> load16 p3 2 = load16 p1 2 \<longrightarrow>
        (\<exists>s5. run_events daemon_step [D_packet E p3 lr pr, D_thread E j] s3 = Inr s5
          \<and> tcp_state (core (chisocket_table s5 ! j)) = ESTABLISHED
          \<and> RCV_NXT (core (chisocket_table s5 ! j)) = ciss + 1
          \<and> SND_UNA (core (chisocket_table s5 ! j)) = iss + 1
          \<and> listener s5 i \<and> pending_connections (chisocket_table s5 ! i) = []
          \<and> (\<forall>k. k \<noteq> i \<and> k \<noteq> j \<longrightarrow> chisocket_table s5 ! k = chisocket_table s ! k)))"
proof -
  let ?la = "pkt_local p1 lr" and ?ra = "pkt_remote p1 pr"
  obtain s3 p2 iss where s3: "run_events daemon_step
      [D_packet E p1 lr pr, D_request thr h (Rq_accept (int i)), D_thread E j] s = Inr s3"
    "half_open SYN_RCVD iss p2 (core (chisocket_table s3 ! j))"
    "RCV_NXT (core (chisocket_table s3 ! j)) = ciss + 1"
    "pending_packets (core (chisocket_table s3 ! j)) = []"
    "flags (core (chisocket_table s3 ! j)) = raw_flags"
    "wire (core (chisocket_table s3 ! j)) = wire (core (chisocket_table s ! j)) @ chitcp_frame p2"
    "ctl p2 iss (ciss + 1) True True" "has_thread j s3" "realtcpconn (chisocket_table s3 ! j) = Some c"
    "parent_socket (chisocket_table s3 ! j) = Some i"
    "local_addr (chisocket_table s3 ! j) = ?la" "remote_addr (chisocket_table s3 ! j) = ?ra"
    "listener s3 i" "pending_connections (chisocket_table s3 ! i) = []"
    "local_addr (chisocket_table s3 ! i) = local_addr (chisocket_table s ! i)"
    "remote_addr (chisocket_table s3 ! i) = remote_addr (chisocket_table s ! i)"
    and other: "\<And>k. k \<noteq> i \<Longrightarrow> k \<noteq> j \<Longrightarrow> chisocket_table s3 ! k = chisocket_table s ! k"
    and len: "length (chisocket_table s3) = length (chisocket_table s)"
    using syn_accepted [OF assms(1,3-9,2)] by metis
  have jl: "j < length (chisocket_table s3)" "\<not> available (chisocket_table s3 ! j)"
    "actpas_type (core (chisocket_table s3 ! j)) = SOCKET_ACTIVE"
    using s3(8) by (auto simp: has_thread_def)
  have ij: "i \<noteq> j" using s3(13) jl by (auto simp: listener_def)
  obtain n where n: "nwildcards ?la ?ra False (chisocket_table s ! i) = Some n"
    "\<And>k m. k < length (chisocket_table s) \<Longrightarrow> nwildcards ?la ?ra False (chisocket_table s ! k) = Some m \<Longrightarrow> n \<le> m"
    using lookup_cost [OF assms(4)] by metis
  have "0 < n" using n(1) assms(5,10)
    by (auto simp: nwildcards_spec wild_cost_def listener_def split: if_splits)
  then have no: "nwildcards ?la ?ra False (chisocket_table s ! k) \<noteq> Some 0"
    if "k < length (chisocket_table s)" for k using n(2) [OF that] by fastforce
  have "nwildcards ?la ?ra False (chisocket_table s3 ! k) \<noteq> Some 0"
    if "k < length (chisocket_table s3)" "k \<noteq> j" for k
  proof (cases "k = i")
    case True
    have "nwildcards ?la ?ra False (chisocket_table s3 ! i) = nwildcards ?la ?ra False (chisocket_table s ! i)"
      using s3(13,15,16) assms(5) by (intro nwildcards_cong) (auto simp: listener_def)
    then show ?thesis using no [of i] True that len by simp
  qed (use no [of k] other [of k] that len in simp)
  then have look: "chitcpd_lookup_socket s3 ?la ?ra False = Some j"
    using packet_addr_family [OF assms(3)] jl s3(11,12)
    by (intro lookup_exact) (auto intro: nwildcards_exact)
  have est: "\<exists>s5. run_events daemon_step [D_packet E p3 lr pr, D_thread E j] s3 = Inr s5
          \<and> tcp_state (core (chisocket_table s5 ! j)) = ESTABLISHED
          \<and> RCV_NXT (core (chisocket_table s5 ! j)) = ciss + 1
          \<and> SND_UNA (core (chisocket_table s5 ! j)) = iss + 1
          \<and> listener s5 i \<and> pending_connections (chisocket_table s5 ! i) = []
          \<and> (\<forall>k. k \<noteq> i \<and> k \<noteq> j \<longrightarrow> chisocket_table s5 ! k = chisocket_table s ! k)"
    if room: "alloc_room E 1" and p3: "ctl p3 (ciss + 1) (iss + 1) False True" "load16 p3 0 = load16 p1 0" "load16 p3 2 = load16 p1 2"
    for p3
  proof -
    let ?c = "core (chisocket_table s3 ! j)"
    let ?d = "?c\<lparr>n_debug := Suc (n_debug ?c), pending_packets := [p3],
        flags := raw_flags\<lparr>net_recv := True\<rparr>\<rparr>"
    define s4 where "s4 = upd_entry j (upd_core (enqueue_packet E p3)) s3"
    have "pkt_local p3 lr = ?la" "pkt_remote p3 pr = ?ra"
      using p3 by (simp_all add: pkt_local_def pkt_remote_def)
    moreover have "same_link p3 lr pr" using assms(3) ctl_length [OF p3(1)] by (simp add: same_link_def)
    ultimately have s4: "daemon_step (D_packet E p3 lr pr) s3 = Inr s4"
      using packet_step(1) [of p3 lr pr s3 j E] look jl by (simp add: s4_def)
    have s4t: "chisocket_table s4 ! k = (if k = j then upd_core (\<lambda>_. ?d) (chisocket_table s3 ! j)
        else chisocket_table s3 ! k)" for k
      using jl(1) s3(4,5) by (simp add: s4_def nth_upd_entry enqueue_quiet [OF assms(1)] upd_core_def)
    have has: "has_thread j s4" using s3(8) by (simp add: has_thread_def s4t upd_core_def)
        (simp add: s4_def)
    have d: "half_open SYN_RCVD iss p2 (?d\<lparr>flags := raw_flags\<rparr>)"
      "pending_packets (?d\<lparr>flags := raw_flags\<rparr>) = [p3]"
      "RCV_NXT (?d\<lparr>flags := raw_flags\<rparr>) = ciss + 1"
      using s3(2,3) by (simp_all add: half_open_def)
    obtain e where e: "dispatch_tcp E PACKET_ARRIVAL (?d\<lparr>flags := raw_flags\<rparr>) = Inr e"
      "tcp_state e = ESTABLISHED" "SND_UNA e = iss + 1" "RCV_NXT e = ciss + 1"
      by (rule server_established [OF assms(1) room d(1,2) s3(7) d(3) p3(1)])
    obtain e' where e': "daemon_step (D_thread E j) s4 = Inr (upd_entry j (upd_core (\<lambda>_. e')) s4)"
      "tcp_state e' = tcp_state e" "RCV_NXT e' = RCV_NXT e" "SND_UNA e' = SND_UNA e"
      using thread_packet_state [OF has, of E e] e(1) s3(9) by (auto simp: s4t upd_core_def)
    let ?s5 = "upd_entry j (upd_core (\<lambda>_. e')) s4"
    have s5t: "chisocket_table ?s5 ! k = (if k = j then upd_core (\<lambda>_. e') (chisocket_table s4 ! j)
        else chisocket_table s3 ! k)" for k
      using jl(1) s4t by (subst nth_upd_entry) (simp_all add: s4_def)
    have "listener ?s5 i" using s3(13) ij by (simp add: listener_def s5t) (simp add: s4_def)
    then show ?thesis
      using s4 e' e s3(14) other ij
      by (intro exI [of _ ?s5]) (simp add: s5t upd_core_def)
  qed
  show ?thesis
    by (intro exI [of _ s3] exI [of _ p2] exI [of _ iss] conjI)
      (use s3 est in \<open>auto simp: half_open_def\<close>)
qed

section \<open>Ports stay taken\<close>

lemma disconnect_loop_ports:
  "distinct js \<Longrightarrow> \<forall>j \<in> set js. j < length (chisocket_table s) \<Longrightarrow> port_table s p \<noteq> None \<Longrightarrow>
   port_table (disconnect_loop E thr js s) p \<noteq> None
   \<or> (\<exists>i \<in> set js. \<not> available (chisocket_table s ! i) \<and> creator_thread (chisocket_table s ! i) = thr
        \<and> actpas_type (core (chisocket_table s ! i)) = SOCKET_PASSIVE
        \<and> entry_port (chisocket_table s ! i) = p)"
proof (induction js arbitrary: s)
  case Nil
  then show ?case by simp
next
  case (Cons j js)
  let ?x = "chisocket_table s ! j"
  have j: "j < length (chisocket_table s)" using Cons.prems(2) by simp
  define s1 where "s1 = disconnect_loop E thr [j] s"
  have run: "disconnect_loop E thr (j # js) s = disconnect_loop E thr js s1"
    by (simp add: s1_def Let_def)
  have t1: "chisocket_table s1 ! i = chisocket_table s ! i" if "i \<in> set js" for i
    using disconnect_loop_entry [of "[j]" s E thr i] j that Cons.prems(1) by (auto simp: s1_def)
  have len: "length (chisocket_table s1) = length (chisocket_table s)"
    using disconnect_loop_entry [of "[j]" s E thr j] j by (simp add: s1_def)
  show ?case
  proof (cases "port_table s1 p = None")
    case True
    then have "\<not> available ?x" "creator_thread ?x = thr" "actpas_type (core ?x) = SOCKET_PASSIVE"
      "entry_port ?x = p"
      using Cons.prems(3)
      by (auto simp: s1_def Let_def chitcpd_free_socket_entry_def entry_port_def
          split: if_splits socket_type.splits)
    then show ?thesis by auto
  next
    case False
    have "\<forall>i \<in> set js. i < length (chisocket_table s1)" using Cons.prems(2) len by simp
    from Cons.IH [OF _ this False] Cons.prems(1) t1 show ?thesis unfolding run by auto
  qed
qed

lemma disconnect_ports: "port_kept s (client_disconnects E thr s)"
  unfolding port_kept_def
proof (intro allI impI)
  fix p assume p: "port_table s p \<noteq> None"
  let ?js = "[0..<length (chisocket_table s)]"
  have js: "distinct ?js" "\<forall>j \<in> set ?js. j < length (chisocket_table s)" by simp_all
  from disconnect_loop_ports [OF js p, of E thr]
  show "port_table (client_disconnects E thr s) p \<noteq> None \<or> port_freed p s (client_disconnects E thr s)"
  proof (elim disjE bexE conjE)
    fix i assume "i \<in> set ?js" "\<not> available (chisocket_table s ! i)"
      "creator_thread (chisocket_table s ! i) = thr" "entry_port (chisocket_table s ! i) = p"
      "actpas_type (core (chisocket_table s ! i)) = SOCKET_PASSIVE"
    moreover from this have "available (chisocket_table (client_disconnects E thr s) ! i)"
      using disconnect_loop_entry [OF js, of E thr i]
      by (simp add: client_disconnects_def after_disconnect_def zero_entry_def)
    ultimately show ?thesis by (auto simp: port_freed_def)
  qed (simp add: client_disconnects_def)
qed

lemma bind_ports:
  "handle_BIND fd a s = Inr (out, s') \<Longrightarrow> port_kept s s'"
  by (auto simp: handle_BIND_def port_kept_def Let_def split: if_splits)

lemma connect_ports:
  "handle_CONNECT E junk k dport fd a s = Inr (out, s') \<Longrightarrow> port_kept s s'"
  by (auto simp: handle_CONNECT_def chitcpd_create_connection_def port_kept_def Let_def
      split: if_splits option.splits prod.splits)

lemma accept_ports:
  "handle_ACCEPT thr E junk fd s = Inr (out, s') \<Longrightarrow> port_kept s s'"
  by (auto simp: handle_ACCEPT_def chitcpd_allocate_socket_def Let_def
      intro!: port_kept_same split: if_splits option.splits list.splits)

lemma entry_call_ports:
  "entry_call i w out s = Inr (o', s') \<Longrightarrow> port_kept s s'"
  by (auto simp: entry_call_def intro!: port_kept_same split: app_outcome.splits)

lemma close_ports:
  assumes "handle_CLOSE fd s = Inr (out, s')"
  shows "port_kept s s'"
proof (cases "bad_fd fd s")
  case True
  then show ?thesis using assms by (auto simp: handle_CLOSE_def intro: port_kept_same)
next
  case False
  have "upd_entry (nat fd) id s = s" by (simp add: upd_entry_def)
  then have "port_kept s (chitcpd_free_socket_entry (nat fd) s)"
    using free_kept [of "nat fd" s id] bad_fdD [OF False] by simp
  then show ?thesis
    using assms False by (auto simp: handle_CLOSE_def Let_def intro: entry_call_ports split: if_splits)
qed

lemma request_ports:
  "handle_request thr h rq s = Inr (out, s') \<Longrightarrow> port_kept s s'"
  by (cases rq)
    (auto simp: handle_request_def handle_SOCKET_def chitcpd_allocate_socket_def handle_LISTEN_call_def
      handle_SEND_def handle_RECV_def handle_WAIT_FOR_STATE_def Let_def
      intro: bind_ports connect_ports accept_ports close_ports entry_call_ports port_kept_same
      split: if_splits option.splits)

lemma thread_ports:
  assumes "socket_thread E i s = Inr s'" "has_thread i s"
  shows "port_kept s s'"
proof -
  have i: "i < length (chisocket_table s)" "\<not> available (chisocket_table s ! i)"
    using assms(2) by (simp_all add: has_thread_def)
  have "port_kept s (chitcpd_free_socket_entry i (upd_entry i (upd_core (\<lambda>_. e)) s))" for e
    by (rule free_kept [OF i]) (simp add: upd_core_def)
  moreover have "port_kept s (upd_entry i f s)" for f by (rule port_kept_same) simp
  ultimately show ?thesis
    using assms(1) port_kept_same [of s s]
    by (auto simp: socket_thread_def Let_def rbind_def
        split: option.splits sum.splits if_splits)
qed

lemma step_ports: "daemon_step ev s = Inr s' \<Longrightarrow> port_kept s s'"
proof (cases ev)
  case (D_packet E p la ra)
  then show "daemon_step ev s = Inr s' \<Longrightarrow> port_kept s s'"
    by (auto simp: daemon_step_def chitcpd_recv_tcp_packet_def rbind_def Let_def intro!: port_kept_same
        split: if_splits option.splits sum.splits socket_type.splits)
next
  case (D_connection sk port a)
  then show "daemon_step ev s = Inr s' \<Longrightarrow> port_kept s s'"
    by (auto simp: daemon_step_def network_accept_def chitcpd_add_connection_def intro!: port_kept_same
        split: if_splits option.splits prod.splits)
qed (auto simp: daemon_step_def rbind_def disconnect_ports intro: request_ports thread_ports port_kept_same
      split: if_splits sum.splits)

text \<open>Some event of a run freed an entry with the local port \<open>p\<close>.\<close>

fun run_frees :: "nat \<Rightarrow> daemon_event list \<Rightarrow> serverinfo \<Rightarrow> bool" where
  "run_frees p [] s = False"
| "run_frees p (ev # evs) s =
     (case daemon_step ev s of
        Inl f \<Rightarrow> False
      | Inr s' \<Rightarrow> port_freed p s s' \<or> run_frees p evs s')"

lemma run_ports:
  "run_events daemon_step evs s = Inr s' \<Longrightarrow> \<not> run_frees p evs s \<Longrightarrow> port_table s p \<noteq> None \<Longrightarrow>
   port_table s' p \<noteq> None"
proof (induction evs arbitrary: s)
  case (Cons ev evs)
  then obtain s1 where s1: "daemon_step ev s = Inr s1" "run_events daemon_step evs s1 = Inr s'" by auto
  then have "port_table s1 p \<noteq> None" "\<not> run_frees p evs s1"
    using step_ports [OF s1(1)] Cons.prems(2,3) by (auto simp: port_kept_def)
  then show ?case using Cons.IH [OF s1(2)] by simp
qed simp

text \<open>
  C35: A bound port stays taken. When \<open>bind\<close> succeeds, the socket has the address and the port table
  points to it. From then on, whatever requests, packets, threads, timers and disconnections follow,
  every \<open>bind\<close> of any descriptor to that port is refused and changes nothing, whatever its address,
  until an entry with that local port is freed (the bound socket itself, or, which is the fault of
  C36, a connection accepted through it).
\<close>
theorem bound_port_exclusive:
  assumes "handle_BIND fd a s = Inr (Answer 0 err d, s1)"
    and "run_events daemon_step evs s1 = Inr s2" "\<not> run_frees (unat (ntohs (sa_port a))) evs s1"
  shows "local_addr (chisocket_table s1 ! nat fd) = a
    \<and> port_table s1 (unat (ntohs (sa_port a))) = Some (nat fd)
    \<and> (\<forall>a' fd'. sa_port a' = sa_port a \<and> inet_family a' \<longrightarrow>
         (\<exists>e. handle_BIND fd' a' s2 = Inr (Answer (-1) (Some e) [], s2)))"
proof -
  let ?p = "unat (ntohs (sa_port a))"
  from assms(1) have fam: "inet_family a" and fd: "\<not> bad_fd fd s"
    and s1: "\<exists>ra. s1 = set_port ?p (Some (nat fd)) (upd_entry (nat fd) (set_addrs a ra) s)"
    by (auto simp: handle_BIND_def Let_def chitcp_get_addr_port_def split: if_splits)
  have i: "nat fd < length (chisocket_table s)" using bad_fdD [OF fd] by simp
  have la: "local_addr (chisocket_table s1 ! nat fd) = a" and pt: "port_table s1 ?p = Some (nat fd)"
    using s1 i by (auto simp: nth_upd_entry set_addrs_def)
  then have "port_table s2 ?p \<noteq> None" by (intro run_ports [OF assms(2,3)]) simp
  then have "\<exists>e. handle_BIND fd' a' s2 = Inr (Answer (-1) (Some e) [], s2)"
    if "sa_port a' = sa_port a" "inet_family a'" for a' fd'
    using that by (simp add: handle_BIND_def Let_def chitcp_get_addr_port_def)
  then show ?thesis using la pt by blast
qed

section \<open>A daemon in a concrete state\<close>

text \<open>
  Host 10 (in network order) is connected. Thread 7 listens on port 2 of every address with
  descriptor 0 and has made a socket with descriptor 1; entry 2 is free.
\<close>

definition demo_addr :: "u16 \<Rightarrow> u32 \<Rightarrow> sockaddr" where
  "demo_addr port a = \<lparr>sa_family = AF_INET, sa_port = port, sin_addr = a, sin6_addr = 0\<rparr>"

definition demo_listener :: sock_entry where
  "demo_listener = zero_entry\<lparr>available := False, creator_thread := 7,
     local_addr := demo_addr 2 0, remote_addr := demo_addr 0 0,
     core := zero_socket\<lparr>actpas_type := SOCKET_PASSIVE, tcp_state := LISTEN\<rparr>\<rparr>"

definition demo_daemon :: serverinfo where
  "demo_daemon = \<lparr>chisocket_table = [demo_listener, zero_entry\<lparr>available := False, creator_thread := 7\<rparr>,
       zero_entry],
     port_table = (\<lambda>p. if p = 512 then Some 0 else None), port_table_size = 65536,
     ephemeral_port_start = 49152,
     connection_table = [zero_conn\<lparr>conn_available := False, peer_addr := demo_addr 0 10\<rparr>]\<rparr>"

definition demo_syn :: packet where
  "demo_syn = segment [] False True 5 True (demo_socket CLOSED)"

definition demo_host :: host where
  "demo_host = \<lparr>h_env = demo_env, h_junk = (\<lambda>_. 0), h_socket = 9, h_port = 23300\<rparr>"

lemma demo_syn_fields:
  "load16 demo_syn 0 = 1" "load16 demo_syn 2 = 2" "length demo_syn = 20"
  "ctl demo_syn 5 7 True False"
  using segment_fields [of "[]" False True 5 True "demo_socket CLOSED"]
    ctl_segment [of True 5 True "demo_socket CLOSED"]
  by (simp_all add: demo_syn_def hdr_source_def hdr_dest_def demo_socket_def)

lemmas demo_daemon_simps = demo_daemon_def demo_listener_def zero_entry_def zero_socket_def zero_conn_def
  demo_addr_def AF_INET_def AF_INET6_def inet_family_def

lemma demo_lookup:
  "chitcpd_lookup_socket demo_daemon (demo_addr 2 20) (demo_addr 1 10) False = Some 0"
  by (simp add: chitcpd_lookup_socket_def nwildcards_spec demo_daemon_simps sock_matches_def wild_cost_def
      chitcp_addr_is_any_def same_ip_def Let_def ntohl_def)

lemma demo_addrs:
  "pkt_local demo_syn (demo_addr 0 20) = demo_addr 2 20"
  "pkt_remote demo_syn (demo_addr 0 10) = demo_addr 1 10"
  by (simp_all add: pkt_local_def pkt_remote_def demo_syn_fields chitcp_set_addr_port_def
      demo_addr_def inet_family_def)

theorem connection_opened_witness:
  "\<exists>s3 p3 s5. run_events daemon_step
      [D_packet demo_env demo_syn (demo_addr 0 20) (demo_addr 0 10),
       D_request 7 demo_host (Rq_accept 0), D_thread demo_env 2] demo_daemon = Inr s3
    \<and> tcp_state (core (chisocket_table s3 ! 2)) = SYN_RCVD
    \<and> run_events daemon_step [D_packet demo_env p3 (demo_addr 0 20) (demo_addr 0 10),
        D_thread demo_env 2] s3 = Inr s5
    \<and> tcp_state (core (chisocket_table s5 ! 2)) = ESTABLISHED"
proof -
  define p3 where "p3 iss = segment [] False False 6 False (demo_socket CLOSED\<lparr>RCV_NXT := iss + 1\<rparr>)"
    for iss
  have p3: "ctl (p3 iss) 6 (iss + 1) False True" "load16 (p3 iss) 0 = load16 demo_syn 0"
    "load16 (p3 iss) 2 = load16 demo_syn 2" for iss
    using ctl_segment [of False 6 False "demo_socket CLOSED\<lparr>RCV_NXT := iss + 1\<rparr>"]
      segment_fields [of "[]" False False 6 False "demo_socket CLOSED\<lparr>RCV_NXT := iss + 1\<rparr>"]
    by (simp_all add: p3_def demo_syn_fields demo_socket_def hdr_source_def hdr_dest_def)
  have "h_env demo_host = demo_env" by (simp add: demo_host_def)
  moreover have "same_link demo_syn (demo_addr 0 20) (demo_addr 0 10)"
    by (simp add: same_link_def demo_syn_fields demo_addr_def inet_family_def)
  moreover have "listener demo_daemon 0"
    by (simp add: listener_def demo_daemon_simps chitcp_addr_is_any_def ntohl_def)
  moreover have "first_index available (chisocket_table demo_daemon) = Some 2"
    by (simp add: first_index_def demo_daemon_simps upt_rec)
  moreover have "chitcpd_get_connection demo_daemon (demo_addr 1 10) = Some 0"
    by (simp add: chitcpd_get_connection_def first_index_def chitcp_addr_cmp_def demo_daemon_simps)
  moreover have "pending_connections (chisocket_table demo_daemon ! 0) = []"
    by (simp add: demo_daemon_simps)
  moreover have "\<not> chitcp_addr_is_any (demo_addr 1 10)"
    by (simp add: chitcp_addr_is_any_def demo_addr_def ntohl_def)
  ultimately obtain s3 p2 iss where s3: "run_events daemon_step
      [D_packet demo_env demo_syn (demo_addr 0 20) (demo_addr 0 10),
       D_request 7 demo_host (Rq_accept 0), D_thread demo_env 2] demo_daemon = Inr s3"
    "tcp_state (core (chisocket_table s3 ! 2)) = SYN_RCVD"
    and established: "\<And>p. ctl p 6 (iss + 1) False True \<Longrightarrow> load16 p 0 = load16 demo_syn 0
      \<Longrightarrow> load16 p 2 = load16 demo_syn 2
      \<Longrightarrow> \<exists>s5. run_events daemon_step [D_packet demo_env p (demo_addr 0 20) (demo_addr 0 10),
            D_thread demo_env 2] s3 = Inr s5 \<and> tcp_state (core (chisocket_table s5 ! 2)) = ESTABLISHED"
    using connection_opened [OF demo_quiet, of demo_host demo_syn "demo_addr 0 20" "demo_addr 0 10"
        demo_daemon 0 2 0 5 7 7] demo_lookup demo_syn_fields(4) demo_room [of 1]
    by (simp add: demo_addrs del: run_events.simps) metis
  with established [OF p3] show ?thesis by blast
qed

lemma socket_frees_nothing:
  assumes "daemon_step (D_request thr h (Rq_socket d t k)) s = Inr s'"
  shows "\<not> port_freed p s s'"
proof (cases "chitcpd_allocate_socket thr s")
  case None
  then show ?thesis
    using assms by (auto simp: daemon_step_def handle_request_def handle_SOCKET_def port_freed_def)
next
  case (Some x)
  obtain i where i: "first_index available (chisocket_table s) = Some i"
    using Some by (auto simp: chitcpd_allocate_socket_def split: option.splits)
  then have "i < length (chisocket_table s)" using first_index_Some [OF i] by simp
  then show ?thesis
    using assms i
    by (auto simp: daemon_step_def handle_request_def handle_SOCKET_def chitcpd_allocate_socket_def
        port_freed_def nth_upd_entry upd_core_def split: if_splits)
qed

theorem bound_port_exclusive_witness:
  "\<exists>s1 s2. handle_BIND 1 (demo_addr 3 0) demo_daemon = Inr (Answer 0 None [], s1)
    \<and> daemon_step (D_request 8 demo_host (Rq_socket 0 0 0)) s1 = Inr s2
    \<and> (\<exists>e. handle_BIND 2 (demo_addr 3 8) s2 = Inr (Answer (-1) (Some e) [], s2))"
proof -
  let ?ev = "D_request 8 demo_host (Rq_socket 0 0 0)"
  obtain s1 where s1: "handle_BIND 1 (demo_addr 3 0) demo_daemon = Inr (Answer 0 None [], s1)"
    by (simp add: handle_BIND_def bad_fd_def Let_def chitcp_get_addr_port_def demo_daemon_simps
        ntohs_def)
  obtain s2 where s2: "daemon_step ?ev s1 = Inr s2"
    by (cases "chitcpd_allocate_socket 8 s1")
      (auto simp: daemon_step_def handle_request_def handle_SOCKET_def)
  then have run: "run_events daemon_step [?ev] s1 = Inr s2"
    and "\<not> run_frees (unat (ntohs (sa_port (demo_addr 3 0)))) [?ev] s1"
    using socket_frees_nothing [OF s2] by simp_all
  from bound_port_exclusive [OF s1 this] s1 s2 show ?thesis
    by (auto simp: demo_addr_def inet_family_def simp del: run_events.simps)
qed

lemma demo_daemon_sel:
  "length (chisocket_table demo_daemon) = 3"
  "\<not> available (chisocket_table demo_daemon ! 0)" "creator_thread (chisocket_table demo_daemon ! 0) = 7"
  "actpas_type (core (chisocket_table demo_daemon ! 0)) = SOCKET_PASSIVE"
  "\<not> available (chisocket_table demo_daemon ! Suc 0)"
  "creator_thread (chisocket_table demo_daemon ! Suc 0) = 7"
  "actpas_type (core (chisocket_table demo_daemon ! Suc 0)) = SOCKET_UNINITIALIZED"
  by (simp_all add: demo_daemon_simps Let_def)

theorem disconnect_frees_witness:
  "available (chisocket_table (client_disconnects demo_env 7 demo_daemon) ! 0)
   \<and> \<not> available (chisocket_table (client_disconnects demo_env 7 demo_daemon) ! 1)"
  using disconnect_frees [of 0 demo_daemon 7 demo_env] disconnect_frees [of 1 demo_daemon 7 demo_env]
  by (simp add: demo_daemon_sel zero_entry_def)

section \<open>Ports\<close>

text \<open>
  C36: Closing one accepted connection frees the listener's port. An accepted socket has the local
  port of its listener, and freeing its entry clears the port table there although the listener
  is still in use. So after one connection has ended, another socket can bind to the very address
  the listener listens on, and both then have it.
\<close>

theorem accepted_close_frees_port:
  assumes "listener s i" and "has_thread j s" "tcp_state (core (chisocket_table s ! j)) = CLOSED"
    and "flags (core (chisocket_table s ! j)) = raw_flags\<lparr>cleanup := True\<rparr>"
    and "sa_port (local_addr (chisocket_table s ! j)) = sa_port (local_addr (chisocket_table s ! i))"
    and "inet_family (local_addr (chisocket_table s ! i))"
    and "inet_family (local_addr (chisocket_table s ! j))"
    and "\<not> bad_fd (int k) s" "tcp_state (core (chisocket_table s ! k)) = CLOSED" "k \<noteq> j"
    and "port_table_size s = 65536"
  shows "\<exists>s1 s2. daemon_step (D_thread E j) s = Inr s1
    \<and> handle_BIND (int k) (local_addr (chisocket_table s ! i)) s1 = Inr (Answer 0 None [], s2)
    \<and> listener s2 i
    \<and> local_addr (chisocket_table s2 ! k) = local_addr (chisocket_table s2 ! i)
    \<and> port_table s2 (unat (ntohs (sa_port (local_addr (chisocket_table s2 ! i))))) = Some k"
proof -
  let ?t = "chisocket_table s"
  let ?p = "unat (ntohs (sa_port (local_addr (?t ! i))))"
  have i: "i < length ?t" "i \<noteq> j" "i \<noteq> k" using assms(1,3,9) by (auto simp: listener_def)
  have j: "j < length ?t" using assms(2) by (simp add: has_thread_def)
  have k: "k < length ?t" "\<not> available (?t ! k)" using bad_fdD [OF assms(8)] by auto
  define s1 where "s1 = chitcpd_free_socket_entry j (upd_entry j (upd_core (\<lambda>_. core (?t ! j))) s)"
  have "thread_step E (core (?t ! j)) = Some (Inr (True, core (?t ! j)))"
    using assms(3,4)
    by (simp add: thread_step_def Let_def dispatch_tcp_def handle_CLOSED_def raw_flags_def)
  then have d: "daemon_step (D_thread E j) s = Inr s1"
    using assms(2) by (simp add: daemon_step_def socket_thread_def s1_def)
  have port: "port_table s1 ?p = None"
    using j assms(5,7) by (simp add: s1_def chitcpd_free_socket_entry_def Let_def nth_upd_entry
        upd_core_def chitcp_get_addr_port_def)
  have tab: "chisocket_table s1 ! n = ?t ! n" if "n \<noteq> j" for n
    using j that by (simp add: s1_def chitcpd_free_socket_entry_def Let_def nth_upd_entry)
  have len: "length (chisocket_table s1) = length ?t" "port_table_size s1 = 65536"
    using assms(11) by (simp_all add: s1_def chitcpd_free_socket_entry_def Let_def set_port_def)
  have small: "?p \<le> 65536" using unsigned_less [of "ntohs (sa_port (local_addr (?t ! i)))", where ?'a = nat]
    by simp
  obtain ra where b: "handle_BIND (int k) (local_addr (?t ! i)) s1
      = Inr (Answer 0 None [], set_port ?p (Some k) (upd_entry k (set_addrs (local_addr (?t ! i)) ra) s1))"
    using k len port assms(6,9,10) small tab [OF assms(10)]
    by (auto simp: handle_BIND_def bad_fd_def Let_def chitcp_get_addr_port_def)
  let ?s2 = "set_port ?p (Some k) (upd_entry k (set_addrs (local_addr (?t ! i)) ra) s1)"
  have "listener ?s2 i" "local_addr (chisocket_table ?s2 ! i) = local_addr (?t ! i)"
    "local_addr (chisocket_table ?s2 ! k) = local_addr (?t ! i)"
    using assms(1) i k len tab [of i] by (simp_all add: listener_def nth_upd_entry set_addrs_def)
  then show ?thesis
    by (intro exI [of _ s1] exI [of _ ?s2]) (simp add: d b)
qed

text \<open>
  The ephemeral port is the lowest free one of its range; when none is free the function
  returns 65535, because -1 does not fit the \<open>uint16_t\<close> it is held in. It never returns the -1
  its callers test for and its comment promises, so a connection then takes over port 65535.
\<close>

theorem ephemeral_port_never_fails:
  assumes "port_table_size s \<le> 65536"
  shows "chitcpd_find_ephemeral_port s \<noteq> -1 \<and> chitcpd_find_ephemeral_port s =
      (if \<exists>p. ephemeral_port_start s \<le> p \<and> p < port_table_size s \<and> port_table s p = None
       then int (LEAST p. ephemeral_port_start s \<le> p \<and> p < port_table_size s \<and> port_table s p = None)
       else 65535)"
proof -
  have "0 \<le> chitcpd_find_ephemeral_port s" by (simp add: chitcpd_find_ephemeral_port_def)
  then have ne: "chitcpd_find_ephemeral_port s \<noteq> -1" by simp
  let ?P = "\<lambda>p. ephemeral_port_start s \<le> p \<and> p < port_table_size s \<and> port_table s p = None"
  let ?f = "find (\<lambda>i. port_table s i = None) [ephemeral_port_start s..<port_table_size s]"
  have "chitcpd_find_ephemeral_port s = (if \<exists>p. ?P p then int (LEAST p. ?P p) else 65535)"
  proof (cases ?f)
    case None
    then have no: "\<not> (\<exists>p. ?P p)" by (auto simp: find_None_iff)
    have "chitcpd_find_ephemeral_port s = uint (-1 :: u16)"
      using None by (simp add: chitcpd_find_ephemeral_port_def)
    then show ?thesis unfolding if_not_P [OF no] by (simp add: unsigned_minus_1_eq_mask mask_eq_exp_minus_1)
  next
    case (Some p)
    then obtain n where n: "n < port_table_size s - ephemeral_port_start s"
      "p = ephemeral_port_start s + n" "port_table s p = None"
      "\<forall>m<n. port_table s (ephemeral_port_start s + m) \<noteq> None"
      by (auto simp: find_Some_iff)
    have "(LEAST p. ?P p) = p"
    proof (rule Least_equality)
      show "?P p" using n by auto
      fix q assume q: "?P q"
      show "p \<le> q"
      proof (rule ccontr)
        assume "\<not> p \<le> q"
        then have "q - ephemeral_port_start s < n" "q = ephemeral_port_start s + (q - ephemeral_port_start s)"
          using n(2) q by auto
        with n(4) q show False by metis
      qed
    qed
    moreover have "?P p" using n by auto
    moreover from this have "p < 65536" using assms by simp
    then have "chitcpd_find_ephemeral_port s = int p"
      using Some by (simp add: chitcpd_find_ephemeral_port_def uint_nat unat_of_nat)
    ultimately show ?thesis by auto
  qed
  with ne show ?thesis ..
qed

theorem ephemeral_port_never_fails_witness:
  "chitcpd_find_ephemeral_port (demo_daemon\<lparr>port_table := \<lambda>_. Some 0\<rparr>) = 65535"
  using ephemeral_port_never_fails [of "demo_daemon\<lparr>port_table := \<lambda>_. Some 0\<rparr>"]
  by (simp add: demo_daemon_def)

text \<open>The demo daemon with a connection that has ended in entry 2.\<close>

definition demo_ended :: sock_entry where
  "demo_ended = zero_entry\<lparr>available := False, creator_thread := 7, local_addr := demo_addr 2 20,
     remote_addr := demo_addr 1 10, core := zero_socket\<lparr>actpas_type := SOCKET_ACTIVE,
     flags := raw_flags\<lparr>cleanup := True\<rparr>\<rparr>\<rparr>"

definition demo_daemon2 :: serverinfo where
  "demo_daemon2 = demo_daemon\<lparr>chisocket_table := (chisocket_table demo_daemon)[2 := demo_ended]\<rparr>"

lemma demo_daemon2_sel:
  "chisocket_table demo_daemon2 ! 0 = demo_listener"
  "chisocket_table demo_daemon2 ! 2 = demo_ended"
  "chisocket_table demo_daemon2 ! Suc 0 = zero_entry\<lparr>available := False, creator_thread := 7\<rparr>"
  "length (chisocket_table demo_daemon2) = 3" "port_table_size demo_daemon2 = 65536"
  by (simp_all add: demo_daemon2_def demo_daemon_def)

theorem accepted_close_frees_port_witness:
  "\<exists>s1 s2. daemon_step (D_thread demo_env 2) demo_daemon2 = Inr s1
    \<and> handle_BIND 1 (demo_addr 2 0) s1 = Inr (Answer 0 None [], s2) \<and> listener s2 0
    \<and> port_table s2 512 = Some 1"
proof -
  have "listener demo_daemon2 0"
    by (simp add: listener_def demo_daemon2_sel)
      (simp add: demo_listener_def demo_addr_def chitcp_addr_is_any_def ntohl_def)
  moreover have "has_thread 2 demo_daemon2"
    by (simp add: has_thread_def demo_daemon2_sel) (simp add: demo_ended_def)
  moreover have "\<not> bad_fd (int 1) demo_daemon2" by (simp add: bad_fd_def demo_daemon2_sel)
  moreover have "tcp_state (core demo_ended) = CLOSED" "local_addr demo_ended = demo_addr 2 20"
    "flags (core demo_ended) = raw_flags\<lparr>cleanup := True\<rparr>"
    "local_addr demo_listener = demo_addr 2 0" "tcp_state (core zero_entry) = CLOSED"
    by (simp_all add: demo_ended_def demo_listener_def zero_entry_def zero_socket_def Let_def)
  moreover have "sa_port (demo_addr 2 a) = 2" "inet_family (demo_addr 2 a)" for a
    by (simp_all add: demo_addr_def inet_family_def)
  ultimately obtain s1 s2 where s: "daemon_step (D_thread demo_env 2) demo_daemon2 = Inr s1"
    "handle_BIND (int 1) (demo_addr 2 0) s1 = Inr (Answer 0 None [], s2)" "listener s2 0"
    "local_addr (chisocket_table s2 ! 1) = local_addr (chisocket_table s2 ! 0)"
    "port_table s2 (unat (ntohs (sa_port (local_addr (chisocket_table s2 ! 0))))) = Some 1"
    using accepted_close_frees_port [of demo_daemon2 0 2 1 demo_env]
    by (auto simp: demo_daemon2_sel)
  have "local_addr (chisocket_table s2 ! 1) = demo_addr 2 0"
    using s(2) by (auto simp: handle_BIND_def bad_fd_def Let_def set_addrs_def nth_upd_entry
        split: if_splits)
  then have "sa_port (local_addr (chisocket_table s2 ! 0)) = 2"
    using s(4) by (metis demo_addr_def sockaddr.select_convs(2))
  then have "port_table s2 512 = Some 1"
    using s(5) by (simp add: ntohs_def)
  then show ?thesis using s by auto
qed

section \<open>Every run of the daemon\<close>

text \<open>
  C12: After any sequence of requests, packets, thread iterations, timers, disconnections and new
  daemons, from the start of the daemon on and up to a fault: a socket in use is either active,
  with the invariant of \<open>Tcp_Inv\<close> and never in TIME_WAIT, or it is passive and in LISTEN, or it is
  neither and CLOSED; the connection of a socket is an entry in use of the connection table; and
  the port table points into the socket table.
\<close>

theorem daemon_runs_consistent:
  assumes "list_all daemon_event_ok evs" "run_events daemon_step evs chitcpd_server_init = Inr s"
  shows "(\<forall>x \<in> set (chisocket_table s). \<not> available x \<longrightarrow>
      (case actpas_type (core x) of
         SOCKET_ACTIVE \<Rightarrow> socket_inv (core x) \<and> tcp_state (core x) \<noteq> TIME_WAIT
       | SOCKET_PASSIVE \<Rightarrow> tcp_state (core x) = LISTEN
       | SOCKET_UNINITIALIZED \<Rightarrow> tcp_state (core x) = CLOSED)
      \<and> (\<forall>k. realtcpconn x = Some k \<longrightarrow>
           k < length (connection_table s) \<and> \<not> conn_available (connection_table s ! k)))
    \<and> (\<forall>p i. port_table s p = Some i \<longrightarrow> i < length (chisocket_table s))"
proof -
  have "daemon_inv s" by (rule daemon.run_inv [OF daemon_inv_init assms])
  then have e: "entry_ok (connection_table s) x" if "x \<in> set (chisocket_table s)" for x
    using that by (simp add: daemon_inv_def list_all_iff)
  have "(case actpas_type (core x) of
         SOCKET_ACTIVE \<Rightarrow> socket_inv (core x) \<and> tcp_state (core x) \<noteq> TIME_WAIT
       | SOCKET_PASSIVE \<Rightarrow> tcp_state (core x) = LISTEN
       | SOCKET_UNINITIALIZED \<Rightarrow> tcp_state (core x) = CLOSED)
      \<and> (\<forall>k. realtcpconn x = Some k \<longrightarrow>
           k < length (connection_table s) \<and> \<not> conn_available (connection_table s ! k))"
    if "x \<in> set (chisocket_table s)" "\<not> available x" for x
    using e [OF that(1)] that(2)
    by (cases "actpas_type (core x)")
      (simp_all add: entry_ok_def core_ok_def conn_live_def socket_inv_def)
  then show ?thesis using \<open>daemon_inv s\<close> by (auto simp: daemon_inv_def)
qed

lemma first_index_0: "0 < length xs \<Longrightarrow> P (xs ! 0) \<Longrightarrow> first_index P xs = Some 0"
  by (simp add: first_index_def upt_conv_Cons)

text \<open>A run: a client makes a socket, binds it and listens.\<close>

theorem daemon_runs_consistent_witness:
  "\<exists>s. run_events daemon_step
       [D_request 7 demo_host (Rq_socket 2 1 6), D_request 7 demo_host (Rq_listen 0 5)]
       chitcpd_server_init = Inr s
     \<and> actpas_type (core (chisocket_table s ! 0)) = SOCKET_PASSIVE
     \<and> tcp_state (core (chisocket_table s ! 0)) = LISTEN"
proof -
  let ?evs = "[D_request 7 demo_host (Rq_socket 2 1 6), D_request 7 demo_host (Rq_listen 0 5)]"
  let ?t = "chisocket_table chitcpd_server_init"
  have t: "length ?t = 1024" "?t ! 0 = zero_entry" by (simp_all add: chitcpd_server_init_def)
  have "first_index available ?t = Some 0"
    by (rule first_index_0) (simp_all add: t zero_entry_def)
  then obtain s where s: "run_events daemon_step ?evs chitcpd_server_init = Inr s"
    and x: "actpas_type (core (chisocket_table s ! 0)) = SOCKET_PASSIVE"
      "\<not> available (chisocket_table s ! 0)" "length (chisocket_table s) = 1024"
    by (simp add: daemon_step_def handle_request_def handle_SOCKET_def handle_LISTEN_call_def
        chitcpd_allocate_socket_def bad_fd_def nth_upd_entry upd_core_def t Let_def)
  have "list_all daemon_event_ok ?evs" by (simp add: daemon_event_ok_def)
  from daemon_runs_consistent [OF this s] x have "tcp_state (core (chisocket_table s ! 0)) = LISTEN"
    by (auto simp: all_set_conv_all_nth dest!: spec [of _ 0])
  then show ?thesis using s x by blast
qed

end
