(* ===== verification/Router.thy ===== *)
theory Router
  imports Prelude
begin

text \<open>
  The simple router (simple-router/router): the checksum (sr_utils.c), the interface list
  (sr_if.c), the routing table (sr_rt.c), the ARP cache and its queue of requests (sr_arpcache.c),
  the packet handlers (sr_router.c) and the sending of frames (sr_vns_comm.c). Addresses are kept
  in network order as the code keeps them. A packet is the list of its bytes, so \<open>len\<close> is the
  length of the list. Memory is not reclaimed. Printing and logging are left out.
\<close>

section \<open>The state of a router\<close>

type_synonym mac = "byte list"
type_synonym ip = u32
type_synonym frame = "byte list"

record sr_if =
  if_name :: string
  if_addr :: mac
  if_ip :: ip

record sr_rt =
  rt_dest :: ip
  rt_gw :: ip
  rt_mask :: ip
  rt_interface :: string

record sr_packet =
  pk_buf :: frame
  pk_iface :: string

record sr_arpentry =
  ae_mac :: mac
  ae_ip :: ip
  ae_added :: int
  ae_valid :: bool

text \<open>
  A request is a heap object that is passed around by its address: \<open>rq_id\<close> is the address, and
  \<open>next_req\<close> of the state below is the next one \<open>calloc\<close> returns.
\<close>

record sr_arpreq =
  rq_id :: nat
  rq_ip :: ip
  rq_sent :: int
  rq_times_sent :: u32
  rq_packets :: "sr_packet list"

text \<open>
  \<open>struct sr_instance\<close> with its cache. \<open>out\<close> holds the frames written to the server, each with
  its interface; \<open>n_time\<close> counts the calls of \<open>time\<close>, whose answers \<open>tm\<close> are a parameter of the
  operations.
\<close>

record sr_instance =
  if_list :: "sr_if list"
  routing_table :: "sr_rt list"
  entries :: "sr_arpentry list"
  requests :: "sr_arpreq list"
  next_req :: nat
  out :: "(frame \<times> string) list"
  n_time :: nat

type_synonym clock = "nat \<Rightarrow> int"

definition time_now :: "clock \<Rightarrow> sr_instance \<Rightarrow> int \<times> sr_instance" where
  "time_now tm s = (tm (n_time s), s\<lparr>n_time := Suc (n_time s)\<rparr>)"

definition sr_IFACE_NAMELEN :: nat where
  "sr_IFACE_NAMELEN = 32"

definition SR_ARPCACHE_SZ :: nat where
  "SR_ARPCACHE_SZ = 100"

definition SR_ARPCACHE_TO :: int where
  "SR_ARPCACHE_TO = 15"

definition ICMP_DATA_SIZE :: nat where
  "ICMP_DATA_SIZE = 28"

definition ethertype_arp :: u16 where
  "ethertype_arp = 0x0806"

definition ethertype_ip :: u16 where
  "ethertype_ip = 0x0800"

definition ip_protocol_icmp :: byte where
  "ip_protocol_icmp = 1"

definition arp_op_request :: u16 where
  "arp_op_request = 1"

definition arp_op_reply :: u16 where
  "arp_op_reply = 2"

text \<open>Sizes of the headers, and where they start in a frame.\<close>

definition ETH_SIZE :: nat where
  "ETH_SIZE = 14"

definition IP_SIZE :: nat where
  "IP_SIZE = 20"

definition ARP_SIZE :: nat where
  "ARP_SIZE = 28"

definition ICMP_SIZE :: nat where
  "ICMP_SIZE = 4"

definition ICMP_T3_SIZE :: nat where
  "ICMP_T3_SIZE = 36"

text \<open>Reading past the end of a packet.\<close>

definition need :: "nat \<Rightarrow> frame \<Rightarrow> 'a res \<Rightarrow> 'a res" where
  "need n p r = (if length p < n then Inl Overrun else r)"

text \<open>\<open>strncmp(a, b, n) == 0\<close> and \<open>strncpy\<close> into an array of \<open>n\<close> bytes, for strings without NUL.\<close>

definition strncmp_eq :: "nat \<Rightarrow> string \<Rightarrow> string \<Rightarrow> bool" where
  "strncmp_eq n a b \<longleftrightarrow> take n a = take n b"

definition strncpy :: "nat \<Rightarrow> string \<Rightarrow> string" where
  "strncpy n a = take n a"

section \<open>sr_utils.c\<close>


fun cksum_sum :: "byte list \<Rightarrow> u32" where
  "cksum_sum [] = 0"
| "cksum_sum [a] = push_bit 8 (ucast a)"
| "cksum_sum (a # b # ds) = (push_bit 8 (ucast a) OR ucast b) + cksum_sum ds"

function cksum_fold :: "u32 \<Rightarrow> u32" where
  "cksum_fold w =
     (if 0xffff < w then cksum_fold (drop_bit 16 w + (w AND 0xffff)) else w)"
  by pat_completeness auto

lemma unat_drop_and_u32:
  "unat (drop_bit 16 (w :: u32)) = unat w div 65536"
  "unat (w AND 0xffff) = unat w mod 65536"
proof -
  show "unat (drop_bit 16 w) = unat w div 65536"
    by (simp only: unat_drop_bit_eq) (simp only: drop_bit_eq_div, simp)
  have "(0xffff :: u32) = mask 16" by (simp add: mask_eq_exp_minus_1)
  then have "w AND 0xffff = take_bit 16 w" by (simp add: take_bit_eq_mask)
  then show "unat (w AND 0xffff) = unat w mod 65536"
    by (simp only: unsigned_take_bit_eq) (simp only: take_bit_eq_mod, simp)
qed

lemma unat_cksum_step:
  "unat (drop_bit 16 (w :: u32) + (w AND 0xffff)) = unat w div 65536 + unat w mod 65536"
proof -
  have "unat w div 65536 < 65536" using unat_u32_less [of w] by simp
  moreover have "unat w mod 65536 < 65536" by simp
  ultimately have "unat (drop_bit 16 w) + unat (w AND 0xffff) < 2 ^ LENGTH(32)"
    unfolding unat_drop_and_u32 by simp
  then show ?thesis unfolding unat_drop_and_u32 [symmetric] by (rule unat_add_lem [THEN iffD1])
qed

lemma fold_less: "65535 < (n :: nat) \<Longrightarrow> n div 65536 + n mod 65536 < n"
proof -
  assume "65535 < n"
  then have "0 < n div 65536" by (simp add: div_greater_zero_iff)
  moreover have "n = n div 65536 * 65536 + n mod 65536" by simp
  ultimately show ?thesis by linarith
qed

termination cksum_fold
  by (relation "measure unat") (simp_all add: unat_cksum_step fold_less word_less_nat_alt)

declare cksum_fold.simps [simp del]

definition cksum :: "byte list \<Rightarrow> u16" where
  "cksum ds =
     (let s = htons (ucast (NOT (cksum_fold (cksum_sum ds)))) in if s \<noteq> 0 then s else 0xffff)"

definition ethertype :: "frame \<Rightarrow> u16" where
  "ethertype buf = ntohs (load16 buf 12)"

section \<open>sr_if.c\<close>

definition sr_get_interface :: "sr_instance \<Rightarrow> string \<Rightarrow> sr_if option" where
  "sr_get_interface s name = find (\<lambda>i. strncmp_eq sr_IFACE_NAMELEN (if_name i) name) (if_list s)"

text \<open>\<open>m\<close> is the object \<open>malloc\<close> returns, whose contents are not specified.\<close>

definition sr_add_interface :: "sr_if \<Rightarrow> string \<Rightarrow> sr_instance \<Rightarrow> sr_instance" where
  "sr_add_interface m name s =
     s\<lparr>if_list := if_list s @ [m\<lparr>if_name := strncpy sr_IFACE_NAMELEN name\<rparr>]\<rparr>"

definition last_if :: "(sr_if \<Rightarrow> sr_if) \<Rightarrow> sr_instance \<Rightarrow> sr_instance res" where
  "last_if f s =
     (if if_list s = [] then Inl Assert_fail
      else Inr (s\<lparr>if_list := butlast (if_list s) @ [f (last (if_list s))]\<rparr>))"

definition sr_set_ether_addr :: "mac \<Rightarrow> sr_instance \<Rightarrow> sr_instance res" where
  "sr_set_ether_addr addr s = need 6 addr (last_if (\<lambda>i. i\<lparr>if_addr := take 6 addr\<rparr>) s)"

definition sr_set_ether_ip :: "ip \<Rightarrow> sr_instance \<Rightarrow> sr_instance res" where
  "sr_set_ether_ip a s = last_if (\<lambda>i. i\<lparr>if_ip := a\<rparr>) s"

section \<open>sr_rt.c\<close>

definition sr_add_rt_entry :: "ip \<Rightarrow> ip \<Rightarrow> ip \<Rightarrow> string \<Rightarrow> sr_instance \<Rightarrow> sr_instance" where
  "sr_add_rt_entry dest gw m ifn s =
     s\<lparr>routing_table := routing_table s @
        [\<lparr>rt_dest = dest, rt_gw = gw, rt_mask = m, rt_interface = strncpy sr_IFACE_NAMELEN ifn\<rparr>]\<rparr>"

definition c_isspace :: "char \<Rightarrow> bool" where
  "c_isspace c \<longleftrightarrow> of_char c \<in> {9, 10, 11, 12, 13, 32 :: nat}"

function c_words :: "string \<Rightarrow> string list" where
  "c_words l =
     (case dropWhile c_isspace l of
        [] \<Rightarrow> []
      | c # cs \<Rightarrow> takeWhile (Not \<circ> c_isspace) (c # cs)
                   # c_words (dropWhile (Not \<circ> c_isspace) (c # cs)))"
  by pat_completeness auto

lemma dropWhile_word_less:
  assumes "dropWhile P l = c # cs"
  shows "length (dropWhile (Not \<circ> P) (c # cs)) < length l"
proof -
  have "\<not> P c" using assms by (metis hd_dropWhile list.distinct(1) list.sel(1))
  then have "length (dropWhile (Not \<circ> P) (c # cs)) \<le> length cs" by (simp add: length_dropWhile_le)
  moreover have "length (c # cs) \<le> length l" using assms length_dropWhile_le [of P l] by simp
  ultimately show ?thesis by simp
qed

termination c_words
  by (relation "measure length") (simp_all del: dropWhile.simps add: dropWhile_word_less)

declare c_words.simps [simp del]

text \<open>
  \<open>sscanf\<close> of a line into four arrays of 32 bytes: words that are not there leave the arrays as
  they are; a word of 32 bytes or more is written past its array.
\<close>

definition scan4 :: "string list \<Rightarrow> string list \<Rightarrow> string list res" where
  "scan4 vars ws =
     (let ws' = take 4 ws
      in if \<exists>w \<in> set ws'. 32 \<le> length w then Inl Overrun else Inr (ws' @ drop (length ws') vars))"

text \<open>
  The loop of \<open>sr_load_rt\<close> over what \<open>fgets\<close> returns; \<open>aton\<close> is \<open>inet_aton\<close>, and \<open>vars\<close> holds
  \<open>dest\<close>, \<open>gw\<close>, \<open>mask\<close> and \<open>iface\<close>.
\<close>

fun load_rt_loop ::
  "(string \<Rightarrow> ip option) \<Rightarrow> string list \<Rightarrow> bool \<Rightarrow> string list \<Rightarrow> sr_instance
     \<Rightarrow> (int \<times> sr_instance) res" where
  "load_rt_loop aton vars cleared [] s = Inr (0, s)"
| "load_rt_loop aton vars cleared (l # ls) s =
     rbind (scan4 vars (c_words l)) (\<lambda>vs.
       case (aton (vs ! 0), aton (vs ! 1), aton (vs ! 2)) of
         (Some dest, Some gw, Some m) \<Rightarrow>
           let s1 = (if cleared then s else s\<lparr>routing_table := []\<rparr>)
           in load_rt_loop aton vs True ls (sr_add_rt_entry dest gw m (vs ! 3) s1)
       | _ \<Rightarrow> Inr (- 1, s))"

text \<open>\<open>file\<close> is None if the file cannot be read; \<open>junk\<close> are the four uninitialised arrays.\<close>

definition sr_load_rt ::
  "(string \<Rightarrow> ip option) \<Rightarrow> string list \<Rightarrow> string list option \<Rightarrow> sr_instance
     \<Rightarrow> (int \<times> sr_instance) res" where
  "sr_load_rt aton junk file s =
     (case file of None \<Rightarrow> Inr (- 1, s) | Some ls \<Rightarrow> load_rt_loop aton junk False ls s)"

section \<open>sr_main.c and the lookups of sr_router.c\<close>

definition sr_verify_routing_table :: "sr_instance \<Rightarrow> int" where
  "sr_verify_routing_table s =
     (if if_list s = [] \<or> routing_table s = [] then 999
      else int (length (filter
             (\<lambda>r. \<forall>i \<in> set (if_list s). \<not> strncmp_eq sr_IFACE_NAMELEN (if_name i) (rt_interface r))
             (routing_table s))))"

definition find_if_match :: "sr_instance \<Rightarrow> ip \<Rightarrow> sr_if option" where
  "find_if_match s dst = find (\<lambda>i. if_ip i = dst) (if_list s)"

definition rt_matches :: "ip \<Rightarrow> sr_rt \<Rightarrow> bool" where
  "rt_matches dst r \<longleftrightarrow> rt_dest r AND rt_mask r = dst AND rt_mask r"

definition find_rt_match :: "sr_instance \<Rightarrow> ip \<Rightarrow> sr_rt option" where
  "find_rt_match s dst = find (rt_matches dst) (routing_table s)"

section \<open>Sending a frame (sr_vns_comm.c)\<close>

definition ether_dhost :: "frame \<Rightarrow> mac" where
  "ether_dhost p = take 6 p"

definition ether_shost :: "frame \<Rightarrow> mac" where
  "ether_shost p = take 6 (drop 6 p)"

definition sr_ether_addrs_match_interface :: "sr_instance \<Rightarrow> frame \<Rightarrow> string \<Rightarrow> bool" where
  "sr_ether_addrs_match_interface s p name =
     (case sr_get_interface s name of
        None \<Rightarrow> False
      | Some i \<Rightarrow> ether_shost p = if_addr i)"

text \<open>The server takes what is written to it; no caller looks at the result of \<open>sr_send_packet\<close>.\<close>

definition sr_send_packet :: "frame \<Rightarrow> string \<Rightarrow> sr_instance \<Rightarrow> sr_instance" where
  "sr_send_packet p iface s =
     (if length p < ETH_SIZE then s
      else if \<not> sr_ether_addrs_match_interface s p iface then s
      else s\<lparr>out := out s @ [(p, strncpy 16 iface)]\<rparr>)"

section \<open>Building packets (sr_router.c)\<close>

definition zeros :: "nat \<Rightarrow> byte list" where
  "zeros n = replicate n 0"

text \<open>
  \<open>make_icmp_packet\<close> gives the packet and what it leaves of \<open>data\<close>: for types 3 and 11 it
  rewrites the checksum of the header it takes \<open>data\<close> to start with. \<open>next_mtu\<close> is not used.
\<close>

definition put_sum :: "nat \<Rightarrow> byte list \<Rightarrow> byte list" where
  "put_sum i h = memput h i (bytes16 (cksum h))"

definition make_icmp_packet ::
  "byte \<Rightarrow> byte \<Rightarrow> byte list \<Rightarrow> nat \<Rightarrow> (byte list \<times> byte list) res" where
  "make_icmp_packet ty code data n =
     (if ty \<noteq> 3 \<and> ty \<noteq> 11 then
        need n data (Inr (put_sum 2 [ty, code, 0, 0] @ take n data, data))
      else if ICMP_DATA_SIZE < n then Inl Overrun
      else need (max n IP_SIZE) data
        (let d0 = memput data 10 [0, 0];
             d1 = memput d0 10 (bytes16 (cksum (take IP_SIZE d0)))
         in Inr (put_sum 2 ([ty, code, 0, 0, 0, 0, 0, 0] @ take n d1 @ zeros (ICMP_DATA_SIZE - n)), d1)))"

definition make_arp_packet :: "u16 \<Rightarrow> mac \<Rightarrow> ip \<Rightarrow> mac \<Rightarrow> ip \<Rightarrow> byte list" where
  "make_arp_packet op sha sip tha tip =
     bytes16 (htons 1) @ bytes16 (htons ethertype_ip) @ [6, 4] @ bytes16 (htons op)
       @ take 6 sha @ bytes32 sip @ take 6 tha @ bytes32 tip"

definition make_ip_packet ::
  "byte \<Rightarrow> byte \<Rightarrow> byte \<Rightarrow> u16 \<Rightarrow> ip \<Rightarrow> ip \<Rightarrow> byte list \<Rightarrow> byte list" where
  "make_ip_packet tos ttl p ident src dst data =
     put_sum 10 ([0x45, tos] @ bytes16 (htons (of_nat (IP_SIZE + length data))) @ bytes16 ident
        @ [0, 0] @ [ttl, p] @ [0, 0] @ bytes32 src @ bytes32 dst) @ data"

definition make_eth_packet :: "mac \<Rightarrow> mac \<Rightarrow> u16 \<Rightarrow> byte list \<Rightarrow> frame" where
  "make_eth_packet dest src ty data = take 6 dest @ take 6 src @ bytes16 (htons ty) @ data"

text \<open>The fields of a frame that holds an IP packet.\<close>

definition ip_ttl :: "frame \<Rightarrow> byte" where
  "ip_ttl p = p ! 22"

definition ip_p :: "frame \<Rightarrow> byte" where
  "ip_p p = p ! 23"

definition ip_id :: "frame \<Rightarrow> u16" where
  "ip_id p = load16 p 18"

definition ip_sum :: "frame \<Rightarrow> u16" where
  "ip_sum p = load16 p 24"

definition ip_src :: "frame \<Rightarrow> ip" where
  "ip_src p = load32 p 26"

definition ip_dst :: "frame \<Rightarrow> ip" where
  "ip_dst p = load32 p 30"

definition icmp_type :: "frame \<Rightarrow> byte" where
  "icmp_type p = p ! 34"

definition ip_hdr :: "frame \<Rightarrow> byte list" where
  "ip_hdr p = take IP_SIZE (drop ETH_SIZE p)"

text \<open>\<open>ip_sum = 0; ip_sum = cksum(ip_hdr, 20)\<close>.\<close>

definition set_ip_sum :: "frame \<Rightarrow> frame" where
  "set_ip_sum p = (let q = memput p 24 [0, 0] in memput q 24 (bytes16 (cksum (ip_hdr q))))"

section \<open>The ARP cache (sr_arpcache.c)\<close>

definition empty_entry :: sr_arpentry where
  "empty_entry = \<lparr>ae_mac = zeros 6, ae_ip = 0, ae_added = 0, ae_valid = False\<rparr>"

definition sr_arpcache_init :: "sr_instance \<Rightarrow> sr_instance" where
  "sr_arpcache_init s = s\<lparr>entries := replicate SR_ARPCACHE_SZ empty_entry, requests := []\<rparr>"

fun last_entry :: "ip \<Rightarrow> sr_arpentry option \<Rightarrow> sr_arpentry list \<Rightarrow> sr_arpentry option" where
  "last_entry a found [] = found"
| "last_entry a found (e # es) =
     last_entry a (if ae_valid e \<and> ae_ip e = a then Some e else found) es"

definition sr_arpcache_lookup :: "sr_instance \<Rightarrow> ip \<Rightarrow> sr_arpentry option" where
  "sr_arpcache_lookup s a = last_entry a None (entries s)"

definition upd_req :: "nat \<Rightarrow> (sr_arpreq \<Rightarrow> sr_arpreq) \<Rightarrow> sr_instance \<Rightarrow> sr_instance" where
  "upd_req rid f s = s\<lparr>requests := map (\<lambda>r. if rq_id r = rid then f r else r) (requests s)\<rparr>"

definition find_or_add_req :: "ip \<Rightarrow> sr_instance \<Rightarrow> nat \<times> sr_instance" where
  "find_or_add_req a s =
     (case find (\<lambda>r. rq_ip r = a) (requests s) of
        Some r \<Rightarrow> (rq_id r, s)
      | None \<Rightarrow>
          (next_req s,
           s\<lparr>requests := \<lparr>rq_id = next_req s, rq_ip = a, rq_sent = 0, rq_times_sent = 0,
                          rq_packets = []\<rparr> # requests s,
             next_req := Suc (next_req s)\<rparr>))"

definition sr_arpcache_queuereq :: "ip \<Rightarrow> frame \<Rightarrow> string \<Rightarrow> sr_instance \<Rightarrow> nat \<times> sr_instance" where
  "sr_arpcache_queuereq a p iface s =
     (let (rid, s1) = find_or_add_req a s
      in (rid,
          if p \<noteq> [] then
            upd_req rid (\<lambda>r. r\<lparr>rq_packets := \<lparr>pk_buf = p, pk_iface = strncpy sr_IFACE_NAMELEN iface\<rparr>
                                                # rq_packets r\<rparr>) s1
          else s1))"

fun take_req :: "(sr_arpreq \<Rightarrow> bool) \<Rightarrow> sr_arpreq list \<Rightarrow> sr_arpreq option \<times> sr_arpreq list" where
  "take_req P [] = (None, [])"
| "take_req P (r # rs) =
     (if P r then (Some r, rs) else (let (found, rest) = take_req P rs in (found, r # rest)))"

fun fill_slot :: "sr_arpentry \<Rightarrow> sr_arpentry list \<Rightarrow> sr_arpentry list option" where
  "fill_slot x [] = None"
| "fill_slot x (e # es) =
     (if \<not> ae_valid e then Some (x # es) else map_option ((#) e) (fill_slot x es))"

definition sr_arpcache_insert ::
  "clock \<Rightarrow> mac \<Rightarrow> ip \<Rightarrow> sr_instance \<Rightarrow> sr_arpreq option \<times> sr_instance" where
  "sr_arpcache_insert tm m a s =
     (let (req, rest) = take_req (\<lambda>r. rq_ip r = a) (requests s);
          s1 = s\<lparr>requests := rest\<rparr>;
          (now, s2) = time_now tm s1;
          new = \<lparr>ae_mac = take 6 m, ae_ip = a, ae_added = now, ae_valid = True\<rparr>
      in (req, case fill_slot new (entries s) of
                 None \<Rightarrow> s1
               | Some es \<Rightarrow> s2\<lparr>entries := es\<rparr>))"

definition sr_arpreq_destroy :: "nat \<Rightarrow> sr_instance \<Rightarrow> sr_instance" where
  "sr_arpreq_destroy rid s = s\<lparr>requests := snd (take_req (\<lambda>r. rq_id r = rid) (requests s))\<rparr>"

text \<open>
  The two ends of a request that is not answered: \<open>host_unreachable\<close> is one round of the loop over
  the waiting packets, \<open>send_arp_request\<close> the branch that asks again.
\<close>

definition host_unreachable :: "sr_packet \<Rightarrow> sr_instance \<Rightarrow> sr_instance res" where
  "host_unreachable pk s =
     need 34 (pk_buf pk)
       (case find_rt_match s (ip_src (pk_buf pk)) of
          None \<Rightarrow> Inl Null_deref
        | Some rt \<Rightarrow>
            (case sr_get_interface s (rt_interface rt) of
               None \<Rightarrow> Inl Null_deref
             | Some ifc \<Rightarrow>
                 rbind (make_icmp_packet 3 1 (pk_buf pk) ICMP_DATA_SIZE) (\<lambda>(icmp, buf).
                   let ipp = make_ip_packet 0 10 ip_protocol_icmp (ip_id buf) (if_ip ifc) (ip_src buf) icmp;
                       eth = make_eth_packet (ether_shost buf) (if_addr ifc) ethertype_arp ipp
                   in Inr (sr_send_packet eth (if_name ifc) s))))"

fun host_unreachables :: "sr_packet list \<Rightarrow> sr_instance \<Rightarrow> sr_instance res" where
  "host_unreachables [] s = Inr s"
| "host_unreachables (pk # pks) s = rbind (host_unreachable pk s) (host_unreachables pks)"

definition arp_request_frame :: "sr_if \<Rightarrow> ip \<Rightarrow> frame" where
  "arp_request_frame ifc tip =
     make_eth_packet (replicate 6 0xff) (if_addr ifc) ethertype_arp
       (make_arp_packet arp_op_request (if_addr ifc) (if_ip ifc) (zeros 6) tip)"

definition send_arp_request :: "int \<Rightarrow> sr_arpreq \<Rightarrow> sr_instance \<Rightarrow> sr_instance res" where
  "send_arp_request now req s =
     (case rq_packets req of
        [] \<Rightarrow> Inr (upd_req (rq_id req) (\<lambda>r. r\<lparr>rq_sent := now, rq_times_sent := 5\<rparr>) s)
      | pk # _ \<Rightarrow>
          need 34 (pk_buf pk)
            (case sr_get_interface s (pk_iface pk) of
               None \<Rightarrow> Inl Null_deref
             | Some ifc \<Rightarrow>
                 Inr (upd_req (rq_id req)
                        (\<lambda>r. r\<lparr>rq_sent := now, rq_times_sent := rq_times_sent r + 1\<rparr>)
                        (sr_send_packet (arp_request_frame ifc (ip_dst (pk_buf pk))) (if_name ifc) s))))"

text \<open>\<open>rid\<close> is the address of the request; following one that is not in the queue is a fault.\<close>

definition handle_cached_request :: "clock \<Rightarrow> nat \<Rightarrow> sr_instance \<Rightarrow> sr_instance res" where
  "handle_cached_request tm rid s =
     (let (now, s1) = time_now tm s
      in case find (\<lambda>r. rq_id r = rid) (requests s1) of
           None \<Rightarrow> Inl Null_deref
         | Some req \<Rightarrow>
             if now - rq_sent req > 1 then
               if 5 \<le> rq_times_sent req then
                 rbind (host_unreachables (rq_packets req) s1)
                   (\<lambda>s2. Inr (sr_arpreq_destroy rid s2))
               else send_arp_request now req s1
             else Inr s1)"

text \<open>The next pointer is saved before a request is handled, so the loop runs over the queue it starts with.\<close>

fun sweep :: "clock \<Rightarrow> nat list \<Rightarrow> sr_instance \<Rightarrow> sr_instance res" where
  "sweep tm [] s = Inr s"
| "sweep tm (rid # rids) s = rbind (handle_cached_request tm rid s) (sweep tm rids)"

definition sr_arpcache_sweepreqs :: "clock \<Rightarrow> sr_instance \<Rightarrow> sr_instance res" where
  "sr_arpcache_sweepreqs tm s = sweep tm (map rq_id (requests s)) s"

text \<open>One round of the thread \<open>sr_arpcache_timeout\<close>.\<close>

definition expire :: "int \<Rightarrow> sr_arpentry \<Rightarrow> sr_arpentry" where
  "expire now e = (if ae_valid e \<and> now - ae_added e > SR_ARPCACHE_TO then e\<lparr>ae_valid := False\<rparr> else e)"

definition sr_arpcache_timeout :: "clock \<Rightarrow> sr_instance \<Rightarrow> sr_instance res" where
  "sr_arpcache_timeout tm s =
     (let (now, s1) = time_now tm s
      in sr_arpcache_sweepreqs tm (s1\<lparr>entries := map (expire now) (entries s1)\<rparr>))"

section \<open>The handlers (sr_router.c)\<close>

text \<open>
  The frame of an ICMP error about the packet \<open>p\<close>, sent back to where it came from; \<open>use_id\<close> is
  the identification of the new packet as a function of the old one.
\<close>

definition icmp_error_frame ::
  "byte \<Rightarrow> byte \<Rightarrow> byte \<Rightarrow> (frame \<Rightarrow> u16) \<Rightarrow> sr_if \<Rightarrow> frame \<Rightarrow> frame res" where
  "icmp_error_frame ty code ttl use_id ifc p =
     rbind (make_icmp_packet ty code (drop ETH_SIZE p) ICMP_DATA_SIZE) (\<lambda>(icmp, d).
       let q = take ETH_SIZE p @ d;
           ipp = make_ip_packet 0 ttl ip_protocol_icmp (use_id q) (if_ip ifc) (ip_src q) icmp
       in Inr (make_eth_packet (ether_shost q) (if_addr ifc) ethertype_ip ipp))"

definition with_if :: "sr_instance \<Rightarrow> string \<Rightarrow> (sr_if \<Rightarrow> 'a res) \<Rightarrow> 'a res" where
  "with_if s name f = (case sr_get_interface s name of None \<Rightarrow> Inl Null_deref | Some i \<Rightarrow> f i)"

definition port_unreachable :: "frame \<Rightarrow> string \<Rightarrow> sr_instance \<Rightarrow> sr_instance res" where
  "port_unreachable p iface s =
     with_if s iface (\<lambda>i.
       rbind (icmp_error_frame 3 3 64 (\<lambda>q. 0) i p) (\<lambda>f. Inr (sr_send_packet f iface s)))"

definition time_exceeded :: "frame \<Rightarrow> string \<Rightarrow> sr_instance \<Rightarrow> sr_instance res" where
  "time_exceeded p iface s =
     with_if s iface (\<lambda>i.
       rbind (icmp_error_frame 11 0 10 ip_id i p) (\<lambda>f. Inr (sr_send_packet f iface s)))"

definition net_unreachable :: "frame \<Rightarrow> string \<Rightarrow> sr_instance \<Rightarrow> sr_instance res" where
  "net_unreachable p iface s =
     with_if s iface (\<lambda>i.
       rbind (icmp_error_frame 3 0 10 ip_id i p) (\<lambda>f. Inr (sr_send_packet f (if_name i) s)))"

text \<open>Answering an echo request: lines 211 to 221. The ICMP checksum is taken over four bytes.\<close>

definition echo_reply_ip :: "frame \<Rightarrow> frame" where
  "echo_reply_ip p =
     (let p1 = memput (p[34 := 0]) 36 [0, 0];
          p2 = memput p1 36 (bytes16 (cksum (take ICMP_SIZE (drop 34 p1))));
          p3 = memput (memput p2 26 (bytes32 (ip_dst p2))) 30 (bytes32 (ip_src p2))
      in set_ip_sum p3)"

definition echo_reply :: "frame \<Rightarrow> string \<Rightarrow> sr_instance \<Rightarrow> sr_instance res" where
  "echo_reply p iface s =
     need 38 p
       (let q = echo_reply_ip p;
            q1 = memput q 0 (ether_shost q)
        in with_if s iface (\<lambda>i. Inr (sr_send_packet (memput q1 6 (if_addr i)) iface s)))"

definition handle_local :: "frame \<Rightarrow> string \<Rightarrow> sr_instance \<Rightarrow> sr_instance res" where
  "handle_local p iface s =
     (if ip_p p = ip_protocol_icmp then
        need 35 p (if icmp_type p = 8 then echo_reply p iface s else Inr s)
      else port_unreachable p iface s)"

definition route_packet ::
  "clock \<Rightarrow> frame \<Rightarrow> sr_rt \<Rightarrow> sr_instance \<Rightarrow> sr_instance res" where
  "route_packet tm p rt s =
     (case sr_arpcache_lookup s (ip_dst p) of
        Some e \<Rightarrow>
          with_if s (rt_interface rt) (\<lambda>i.
            Inr (sr_send_packet (memput (memput p 6 (if_addr i)) 0 (ae_mac e)) (rt_interface rt) s))
      | None \<Rightarrow>
          with_if s (rt_interface rt) (\<lambda>i.
            let (rid, s1) = sr_arpcache_queuereq (ip_dst p) p (if_name i) s
            in handle_cached_request tm rid s1))"

definition forward_packet :: "clock \<Rightarrow> frame \<Rightarrow> string \<Rightarrow> sr_instance \<Rightarrow> sr_instance res" where
  "forward_packet tm p iface s =
     (let p1 = p[22 := ip_ttl p - 1]
      in if ip_ttl p1 \<le> 0 then time_exceeded p1 iface s
         else let p2 = set_ip_sum p1
              in case find_rt_match s (ip_dst p2) of
                   Some rt \<Rightarrow> route_packet tm p2 rt s
                 | None \<Rightarrow> net_unreachable p2 iface s)"

text \<open>The header is read before the length is looked at.\<close>

definition sr_handle_ip_packet :: "clock \<Rightarrow> frame \<Rightarrow> string \<Rightarrow> sr_instance \<Rightarrow> sr_instance res" where
  "sr_handle_ip_packet tm p iface s =
     need (ETH_SIZE + IP_SIZE) p
       (let calc = cksum (ip_hdr (memput p 24 [0, 0]))
        in if length p < 20 \<or> 65535 < length p then Inr s
           else if calc \<noteq> ip_sum p then Inr s
           else if find_if_match s (ip_dst p) \<noteq> None then handle_local p iface s
           else forward_packet tm p iface s)"

text \<open>The fields of a frame that holds an ARP packet.\<close>

definition ar_op :: "frame \<Rightarrow> u16" where
  "ar_op p = load16 p 20"

definition ar_sha :: "frame \<Rightarrow> mac" where
  "ar_sha p = take 6 (drop 22 p)"

definition ar_sip :: "frame \<Rightarrow> ip" where
  "ar_sip p = load32 p 28"

definition ar_tip :: "frame \<Rightarrow> ip" where
  "ar_tip p = load32 p 38"

definition flush_frame :: "sr_if \<Rightarrow> mac \<Rightarrow> frame \<Rightarrow> frame" where
  "flush_frame i dest buf = memput (memput buf 6 (if_addr i)) 0 dest"

fun flush_packets :: "sr_if \<Rightarrow> mac \<Rightarrow> string \<Rightarrow> sr_packet list \<Rightarrow> sr_instance \<Rightarrow> sr_instance res" where
  "flush_packets i dest iface [] s = Inr s"
| "flush_packets i dest iface (pk # pks) s =
     need 12 (pk_buf pk)
       (flush_packets i dest iface pks (sr_send_packet (flush_frame i dest (pk_buf pk)) iface s))"

text \<open>The address that goes into the cache is the one of the router's own interface.\<close>

definition sr_handle_arp_reply :: "clock \<Rightarrow> frame \<Rightarrow> string \<Rightarrow> sr_instance \<Rightarrow> sr_instance res" where
  "sr_handle_arp_reply tm p iface s =
     need (ETH_SIZE + ARP_SIZE) p
       (case find_if_match s (ar_tip p) of
          None \<Rightarrow> Inr s
        | Some i \<Rightarrow>
            (case sr_arpcache_insert tm (if_addr i) (ar_sip p) s of
               (None, s1) \<Rightarrow> Inr s1
             | (Some req, s1) \<Rightarrow>
                 rbind (flush_packets i (ar_sha p) iface (rq_packets req) s1)
                   (\<lambda>s2. Inr (sr_arpreq_destroy (rq_id req) s2))))"

definition sr_handle_arp_request :: "frame \<Rightarrow> string \<Rightarrow> sr_instance \<Rightarrow> sr_instance res" where
  "sr_handle_arp_request p iface s =
     need (ETH_SIZE + ARP_SIZE) p
       (case find_if_match s (ar_tip p) of
          None \<Rightarrow> Inr s
        | Some i \<Rightarrow>
            let arp = make_arp_packet arp_op_reply (if_addr i) (if_ip i) (ether_shost p) (ar_sip p);
                eth = make_eth_packet (ether_shost p) (if_addr i) ethertype_arp arp
            in Inr (sr_send_packet eth iface s))"

definition sr_handle_arp_packet :: "clock \<Rightarrow> frame \<Rightarrow> string \<Rightarrow> sr_instance \<Rightarrow> sr_instance res" where
  "sr_handle_arp_packet tm p iface s =
     need 22 p
       (if ntohs (ar_op p) = arp_op_reply then sr_handle_arp_reply tm p iface s
        else if ntohs (ar_op p) = arp_op_request then sr_handle_arp_request p iface s
        else Inr s)"

definition sr_handlepacket :: "clock \<Rightarrow> frame \<Rightarrow> string \<Rightarrow> sr_instance \<Rightarrow> sr_instance res" where
  "sr_handlepacket tm p iface s =
     need ETH_SIZE p
       (if ethertype p = ethertype_ip then sr_handle_ip_packet tm p iface s
        else if ethertype p = ethertype_arp then sr_handle_arp_packet tm p iface s
        else Inr s)"

section \<open>What the server sends (sr_vns_comm.c)\<close>

definition sr_arp_req_not_for_us :: "frame \<Rightarrow> string \<Rightarrow> sr_instance \<Rightarrow> bool res" where
  "sr_arp_req_not_for_us p iface s =
     (if length p < ETH_SIZE + ARP_SIZE then Inr False
      else case sr_get_interface s iface of
             None \<Rightarrow> Inl Assert_fail
           | Some i \<Rightarrow> Inr (load16 p 12 = htons ethertype_arp \<and> ar_op p = htons arp_op_request
                             \<and> ar_tip p \<noteq> if_ip i))"

definition vns_packet :: "clock \<Rightarrow> frame \<Rightarrow> string \<Rightarrow> sr_instance \<Rightarrow> sr_instance res" where
  "vns_packet tm p iface s =
     rbind (sr_arp_req_not_for_us p iface s)
       (\<lambda>skip. if skip then Inr s else sr_handlepacket tm p iface s)"

text \<open>
  An entry of the hardware description is a key and 32 bytes. \<open>cstring\<close> reads the bytes up to the
  first NUL as a string.
\<close>

definition cstring :: "byte list \<Rightarrow> string" where
  "cstring bs = map (\<lambda>b. char_of (unat b)) (takeWhile (\<lambda>b. b \<noteq> 0) bs)"

definition hw_entry :: "sr_if \<Rightarrow> u32 \<Rightarrow> byte list \<Rightarrow> sr_instance \<Rightarrow> sr_instance res" where
  "hw_entry m key val s =
     (if key = 1 then Inr (sr_add_interface m (cstring val) s)
      else if key = 64 then need 4 val (sr_set_ether_ip (load32 val 0) s)
      else if key = 32 then sr_set_ether_addr val s
      else Inr s)"

fun sr_handle_hwinfo :: "sr_if \<Rightarrow> (u32 \<times> byte list) list \<Rightarrow> sr_instance \<Rightarrow> sr_instance res" where
  "sr_handle_hwinfo m [] s = Inr s"
| "sr_handle_hwinfo m ((key, val) # es) s = rbind (hw_entry m key val s) (sr_handle_hwinfo m es)"

text \<open>VNSHWINFO: the interfaces, then the check that refuses to go on.\<close>

definition vns_hwinfo :: "sr_if \<Rightarrow> (u32 \<times> byte list) list \<Rightarrow> sr_instance \<Rightarrow> (int \<times> sr_instance) res" where
  "vns_hwinfo m es s =
     rbind (sr_handle_hwinfo m es s)
       (\<lambda>s1. Inr (if sr_verify_routing_table s1 \<noteq> 0 then - 1 else 1, s1))"

text \<open>The events of a running router: a frame from the server, and a round of the timeout thread.\<close>

datatype router_event = Ev_frame frame string | Ev_second

fun router_step :: "clock \<Rightarrow> router_event \<Rightarrow> sr_instance \<Rightarrow> sr_instance res" where
  "router_step tm (Ev_frame p iface) s = vns_packet tm p iface s"
| "router_step tm Ev_second s = sr_arpcache_timeout tm s"

end
