(* ===== verification/Router_Inv.thy ===== *)
theory Router_Inv
  imports Router
begin

text \<open>
  The invariant of a running router and that a well-configured router never faults: the ARP cache
  keeps its size, the queue holds one request per address with whole packets in it and never more
  than five requests sent, and no frame long enough for its headers nor any round of the timeout
  thread makes a handler read past a packet or follow a null pointer.
\<close>

section \<open>The configuration and the invariant\<close>

definition has_if :: "sr_if list \<Rightarrow> string \<Rightarrow> bool" where
  "has_if ifs name \<longleftrightarrow> (\<exists>i \<in> set ifs. strncmp_eq sr_IFACE_NAMELEN (if_name i) name)"

text \<open>
  Hardware addresses of six bytes, a routing table that \<open>sr_verify_routing_table\<close> accepts, and
  some entry for every address, as a default route is.
\<close>

definition net_ok :: "sr_if list \<Rightarrow> sr_rt list \<Rightarrow> bool" where
  "net_ok ifs rts \<longleftrightarrow> (\<forall>i \<in> set ifs. length (if_addr i) = 6)
     \<and> (\<forall>r \<in> set rts. has_if ifs (rt_interface r)) \<and> (\<forall>a. \<exists>r \<in> set rts. rt_matches a r)"

definition packet_ok :: "sr_if list \<Rightarrow> sr_packet \<Rightarrow> bool" where
  "packet_ok ifs pk \<longleftrightarrow> ETH_SIZE + IP_SIZE \<le> length (pk_buf pk) \<and> has_if ifs (pk_iface pk)"

definition req_ok :: "sr_if list \<Rightarrow> nat \<Rightarrow> sr_arpreq \<Rightarrow> bool" where
  "req_ok ifs n r \<longleftrightarrow> rq_id r < n \<and> rq_times_sent r \<le> 5 \<and> (\<forall>pk \<in> set (rq_packets r). packet_ok ifs pk)"

definition queue_ok :: "sr_if list \<Rightarrow> nat \<Rightarrow> sr_arpreq list \<Rightarrow> bool" where
  "queue_ok ifs n rs \<longleftrightarrow> distinct (map rq_id rs) \<and> distinct (map rq_ip rs) \<and> list_all (req_ok ifs n) rs"

definition cache_ok :: "sr_arpentry list \<Rightarrow> bool" where
  "cache_ok es \<longleftrightarrow> length es = SR_ARPCACHE_SZ \<and> list_all (\<lambda>e. length (ae_mac e) = 6) es"

definition router_inv :: "sr_if list \<Rightarrow> sr_rt list \<Rightarrow> sr_instance \<Rightarrow> bool" where
  "router_inv ifs rts s \<longleftrightarrow> net_ok ifs rts \<and> if_list s = ifs \<and> routing_table s = rts
     \<and> cache_ok (entries s) \<and> queue_ok ifs (next_req s) (requests s)"

fun event_ok :: "sr_if list \<Rightarrow> router_event \<Rightarrow> bool" where
  "event_ok ifs (Ev_frame p name) \<longleftrightarrow> ETH_SIZE + ARP_SIZE \<le> length p \<and> has_if ifs name"
| "event_ok ifs Ev_second \<longleftrightarrow> True"

section \<open>What the operations leave alone\<close>

lemma need_ok [simp]: "n \<le> length p \<Longrightarrow> need n p r = r"
  by (simp add: need_def)

lemma send_frame [simp]:
  "if_list (sr_send_packet p i s) = if_list s"
  "routing_table (sr_send_packet p i s) = routing_table s"
  "entries (sr_send_packet p i s) = entries s"
  "requests (sr_send_packet p i s) = requests s"
  "next_req (sr_send_packet p i s) = next_req s"
  "n_time (sr_send_packet p i s) = n_time s"
  by (simp_all add: sr_send_packet_def)

lemma send_inv [simp]: "router_inv ifs rts (sr_send_packet p i s) = router_inv ifs rts s"
  by (simp add: router_inv_def)

lemma time_inv [simp]: "router_inv ifs rts (s\<lparr>n_time := n\<rparr>) = router_inv ifs rts s"
  by (simp add: router_inv_def)

lemma get_interface_ok:
  assumes "router_inv ifs rts s" and "has_if ifs name"
  obtains i where "sr_get_interface s name = Some i" "i \<in> set ifs" "length (if_addr i) = 6"
    "strncmp_eq sr_IFACE_NAMELEN (if_name i) name"
proof -
  have "if_list s = ifs" using assms(1) by (simp add: router_inv_def)
  with assms(2) obtain i where i: "sr_get_interface s name = Some i"
    unfolding sr_get_interface_def has_if_def
    by (metis (no_types, lifting) find_None_iff option.exhaust)
  with \<open>if_list s = ifs\<close> have "i \<in> set ifs" "strncmp_eq sr_IFACE_NAMELEN (if_name i) name"
    unfolding sr_get_interface_def by (auto simp: find_Some_iff)
  moreover have "length (if_addr i) = 6"
    using assms(1) \<open>i \<in> set ifs\<close> by (simp add: router_inv_def net_ok_def)
  ultimately show thesis using i that by blast
qed

lemma with_if_ok:
  assumes "router_inv ifs rts s" and "has_if ifs name"
    and "\<And>i. i \<in> set ifs \<Longrightarrow> strncmp_eq sr_IFACE_NAMELEN (if_name i) name \<Longrightarrow> ends_in P (f i)"
  shows "ends_in P (with_if s name f)"
  using get_interface_ok [OF assms(1,2)] assms(3) by (metis option.simps(5) with_if_def)

lemma find_rt_ok:
  assumes "router_inv ifs rts s"
  obtains r where "find_rt_match s a = Some r" "has_if ifs (rt_interface r)" "rt_matches a r"
proof -
  have rts: "routing_table s = rts" "\<exists>r \<in> set rts. rt_matches a r"
    using assms by (simp_all add: router_inv_def net_ok_def)
  then obtain r where r: "find_rt_match s a = Some r"
    unfolding find_rt_match_def by (metis find_None_iff option.exhaust)
  then have "r \<in> set rts" "rt_matches a r"
    using rts(1) by (auto simp: find_rt_match_def find_Some_iff)
  then show thesis using r assms by (intro that) (auto simp: router_inv_def net_ok_def)
qed

lemma has_if_own: "i \<in> set ifs \<Longrightarrow> has_if ifs (if_name i)"
  by (auto simp: has_if_def strncmp_eq_def)

lemma has_if_strncpy [simp]: "has_if ifs (strncpy sr_IFACE_NAMELEN name) = has_if ifs name"
  by (simp add: has_if_def strncmp_eq_def strncpy_def)

section \<open>The queue of requests\<close>

lemma take_req_set:
  "take_req P rs = (found, rest) \<Longrightarrow> set rest \<subseteq> set rs
     \<and> (\<forall>r. found = Some r \<longrightarrow> r \<in> set rs \<and> P r)"
  by (induction rs arbitrary: found rest) (auto split: if_splits prod.splits)

lemma take_req_distinct:
  "take_req P rs = (found, rest) \<Longrightarrow> distinct (map f rs) \<Longrightarrow> distinct (map f rest)"
proof (induction rs arbitrary: found rest)
  case Nil
  then show ?case by simp
next
  case (Cons r rs)
  obtain found' rest' where t: "take_req P rs = (found', rest')" by fastforce
  then have "f ` set rest' \<subseteq> f ` set rs" using take_req_set by blast
  then show ?case using Cons t by (auto split: if_splits)
qed

lemma queue_ok_take:
  "queue_ok ifs n rs \<Longrightarrow> take_req P rs = (found, rest) \<Longrightarrow> queue_ok ifs n rest"
  using take_req_distinct [of P rs found rest rq_id] take_req_distinct [of P rs found rest rq_ip]
    take_req_set [of P rs found rest]
  by (auto simp: queue_ok_def list_all_iff)

lemma queue_ok_found:
  "queue_ok ifs n rs \<Longrightarrow> take_req P rs = (Some r, rest) \<Longrightarrow> req_ok ifs n r"
  using take_req_set [of P rs "Some r" rest] by (simp add: queue_ok_def list_all_iff)

lemma queue_ok_upd:
  assumes "queue_ok ifs n rs"
    and "\<And>r. r \<in> set rs \<Longrightarrow> rq_id r = rid \<Longrightarrow>
      rq_id (f r) = rq_id r \<and> rq_ip (f r) = rq_ip r \<and> req_ok ifs n (f r)"
  shows "queue_ok ifs n (map (\<lambda>r. if rq_id r = rid then f r else r) rs)" (is "queue_ok _ _ (map ?g rs)")
proof -
  have "map rq_id (map ?g rs) = map rq_id rs" "map rq_ip (map ?g rs) = map rq_ip rs"
    using assms(2) by auto
  then show ?thesis using assms unfolding queue_ok_def
    by (auto simp: list_all_iff simp del: map_map)
qed

lemma destroy_inv: "router_inv ifs rts s \<Longrightarrow> router_inv ifs rts (sr_arpreq_destroy rid s)"
  unfolding router_inv_def sr_arpreq_destroy_def
  using queue_ok_take by (auto simp: prod_eq_iff)

lemma upd_req_inv:
  assumes "router_inv ifs rts s"
    and "\<And>r. r \<in> set (requests s) \<Longrightarrow> rq_id r = rid \<Longrightarrow>
      rq_id (f r) = rq_id r \<and> rq_ip (f r) = rq_ip r \<and> req_ok ifs (next_req s) (f r)"
  shows "router_inv ifs rts (upd_req rid f s)"
  using assms queue_ok_upd [of ifs "next_req s" "requests s" rid f]
  by (simp add: router_inv_def upd_req_def)

section \<open>The operations keep the invariant and return\<close>

lemma make_icmp_ok:
  "IP_SIZE \<le> length d \<Longrightarrow> ICMP_DATA_SIZE \<le> length d \<Longrightarrow>
   \<exists>icmp d'. make_icmp_packet ty code d ICMP_DATA_SIZE = Inr (icmp, d')"
  by (simp add: make_icmp_packet_def Let_def)

lemma host_unreachable_ok:
  assumes "router_inv ifs rts s" and "packet_ok ifs pk"
  shows "\<exists>f n. host_unreachable pk s = Inr (sr_send_packet f n s)"
proof -
  have len: "34 \<le> length (pk_buf pk)" using assms(2) by (simp add: packet_ok_def ETH_SIZE_def IP_SIZE_def)
  obtain rt where rt: "find_rt_match s (ip_src (pk_buf pk)) = Some rt" "has_if ifs (rt_interface rt)"
    using find_rt_ok [OF assms(1)] by metis
  obtain i where i: "sr_get_interface s (rt_interface rt) = Some i"
    using get_interface_ok [OF assms(1) rt(2)] by metis
  obtain icmp buf where m: "make_icmp_packet 3 1 (pk_buf pk) ICMP_DATA_SIZE = Inr (icmp, buf)"
    using make_icmp_ok [of "pk_buf pk" 3 1] len by (auto simp: IP_SIZE_def ICMP_DATA_SIZE_def)
  show ?thesis using len rt(1) i m by (auto simp: host_unreachable_def Let_def)
qed

lemma host_unreachables_ok:
  "router_inv ifs rts s \<Longrightarrow> \<forall>pk \<in> set pks. packet_ok ifs pk \<Longrightarrow>
   ends_in (\<lambda>s'. router_inv ifs rts s' \<and> requests s' = requests s) (host_unreachables pks s)"
proof (induction pks arbitrary: s)
  case Nil
  then show ?case by simp
next
  case (Cons pk pks)
  then obtain f n where "host_unreachable pk s = Inr (sr_send_packet f n s)"
    using host_unreachable_ok [of ifs rts s pk] by auto
  moreover have "ends_in (\<lambda>s'. router_inv ifs rts s' \<and> requests s' = requests (sr_send_packet f n s))
      (host_unreachables pks (sr_send_packet f n s))"
    by (rule Cons.IH) (use Cons.prems in auto)
  ultimately show ?case by simp
qed

definition ids :: "sr_instance \<Rightarrow> nat set" where
  "ids s = rq_id ` set (requests s)"

lemma ids_send [simp]: "ids (sr_send_packet p i s) = ids s"
  by (simp add: ids_def)

lemma ids_upd:
  assumes "\<And>r. r \<in> set (requests s) \<Longrightarrow> rq_id r = rid \<Longrightarrow> rq_id (f r) = rid"
  shows "ids (upd_req rid f s) = ids s"
proof -
  have "map rq_id (requests (upd_req rid f s)) = map rq_id (requests s)"
    using assms by (auto simp: upd_req_def)
  then show ?thesis unfolding ids_def by (metis set_map)
qed

text \<open>Changing the one request a handler works on.\<close>

lemma upd_own:
  assumes "router_inv ifs rts s" and "req \<in> set (requests s)"
    and "rq_id (f req) = rq_id req" "rq_ip (f req) = rq_ip req" "req_ok ifs (next_req s) (f req)"
  shows "router_inv ifs rts (upd_req (rq_id req) f s) \<and> ids (upd_req (rq_id req) f s) = ids s"
proof -
  have "distinct (map rq_id (requests s))" using assms(1) by (simp add: router_inv_def queue_ok_def)
  then have uniq: "r = req" if "r \<in> set (requests s)" "rq_id r = rq_id req" for r
    using that assms(2) by (metis distinct_map inj_onD)
  have "router_inv ifs rts (upd_req (rq_id req) f s)"
  proof (rule upd_req_inv [OF assms(1)])
    fix r assume "r \<in> set (requests s)" "rq_id r = rq_id req"
    then have "r = req" by (rule uniq)
    then show "rq_id (f r) = rq_id r \<and> rq_ip (f r) = rq_ip r \<and> req_ok ifs (next_req s) (f r)"
      using assms(3-5) by simp
  qed
  moreover have "ids (upd_req (rq_id req) f s) = ids s"
  proof (rule ids_upd)
    fix r assume "r \<in> set (requests s)" "rq_id r = rq_id req"
    then have "r = req" by (rule uniq)
    then show "rq_id (f r) = rq_id req" using assms(3) by simp
  qed
  ultimately show ?thesis ..
qed

lemma take_req_ids:
  "take_req (\<lambda>r. rq_id r = rid) rs = (found, rest) \<Longrightarrow> rq_id ` set rs - {rid} \<subseteq> rq_id ` set rest"
  by (induction rs arbitrary: found rest) (auto split: if_splits prod.splits)

lemma ids_destroy: "ids s - {rid} \<subseteq> ids (sr_arpreq_destroy rid s)"
  unfolding ids_def sr_arpreq_destroy_def
  using take_req_ids [of rid "requests s"] by (simp add: prod_eq_iff)

lemma word_succ_le5: "\<not> (5 :: u32) \<le> x \<Longrightarrow> x + 1 \<le> 5"
  by (simp add: word_le_nat_alt unat_word_ariths)

lemma send_arp_request_ok:
  assumes "router_inv ifs rts s" and "req \<in> set (requests s)" and "\<not> 5 \<le> rq_times_sent req"
  shows "ends_in (\<lambda>s'. router_inv ifs rts s' \<and> ids s' = ids s) (send_arp_request now req s)"
proof -
  have q: "queue_ok ifs (next_req s) (requests s)" using assms(1) by (simp add: router_inv_def)
  then have rok: "req_ok ifs (next_req s) req" using assms(2) by (auto simp: queue_ok_def list_all_iff)
  show ?thesis
  proof (cases "rq_packets req")
    case Nil
    then show ?thesis using rok upd_own [OF assms(1,2)]
      by (simp add: send_arp_request_def req_ok_def)
  next
    case (Cons pk pks)
    then have pk: "packet_ok ifs pk" using rok by (simp add: req_ok_def)
    then obtain i where i: "sr_get_interface s (pk_iface pk) = Some i"
      using get_interface_ok [OF assms(1)] by (metis packet_ok_def)
    let ?s = "sr_send_packet (arp_request_frame i (ip_dst (pk_buf pk))) (if_name i) s"
    have "router_inv ifs rts ?s" "req \<in> set (requests ?s)" using assms(1,2) by simp_all
    note own = upd_own [OF this]
    have "34 \<le> length (pk_buf pk)" using pk by (simp add: packet_ok_def ETH_SIZE_def IP_SIZE_def)
    then show ?thesis using Cons i rok own word_succ_le5 [OF assms(3)]
      by (simp add: send_arp_request_def req_ok_def)
  qed
qed

lemma handle_cached_request_ok:
  assumes "router_inv ifs rts s" and "rid \<in> ids s"
  shows "ends_in (\<lambda>s'. router_inv ifs rts s' \<and> ids s - {rid} \<subseteq> ids s')
    (handle_cached_request tm rid s)"
proof -
  let ?s = "s\<lparr>n_time := Suc (n_time s)\<rparr>" and ?now = "tm (n_time s)"
  have inv: "router_inv ifs rts ?s" using assms(1) by simp
  have ids: "ids ?s = ids s" by (simp add: ids_def)
  obtain req where req: "find (\<lambda>r. rq_id r = rid) (requests s) = Some req"
    using assms(2) by (cases "find (\<lambda>r. rq_id r = rid) (requests s)") (auto simp: ids_def find_None_iff)
  then have r: "req \<in> set (requests ?s)" "rq_id req = rid" by (auto simp: find_Some_iff)
  have eq: "handle_cached_request tm rid s =
      (if ?now - rq_sent req > 1 then
         if 5 \<le> rq_times_sent req then
           rbind (host_unreachables (rq_packets req) ?s) (\<lambda>s2. Inr (sr_arpreq_destroy rid s2))
         else send_arp_request ?now req ?s
       else Inr ?s)"
    using req by (simp add: handle_cached_request_def time_now_def)
  have "\<forall>pk \<in> set (rq_packets req). packet_ok ifs pk"
    using inv r by (auto simp: router_inv_def queue_ok_def list_all_iff req_ok_def)
  then have "ends_in (\<lambda>s'. router_inv ifs rts s' \<and> requests s' = requests ?s)
      (host_unreachables (rq_packets req) ?s)"
    by (rule host_unreachables_ok [OF inv])
  then have "ends_in (\<lambda>s'. router_inv ifs rts s' \<and> ids s - {rid} \<subseteq> ids s')
      (rbind (host_unreachables (rq_packets req) ?s) (\<lambda>s2. Inr (sr_arpreq_destroy rid s2)))"
  proof (rule ends_in_rbind)
    fix x assume x: "router_inv ifs rts x \<and> requests x = requests ?s"
    then have "ids s = ids x" by (simp add: ids_def)
    then show "ends_in (\<lambda>s'. router_inv ifs rts s' \<and> ids s - {rid} \<subseteq> ids s')
        (Inr (sr_arpreq_destroy rid x))"
      using x ids_destroy [of x rid] by (simp add: destroy_inv)
  qed
  moreover have "\<not> 5 \<le> rq_times_sent req \<Longrightarrow>
      ends_in (\<lambda>s'. router_inv ifs rts s' \<and> ids s - {rid} \<subseteq> ids s') (send_arp_request ?now req ?s)"
    by (rule ends_in_mono [OF send_arp_request_ok [OF inv r(1)]]) (auto simp: ids)
  ultimately show ?thesis using inv ids by (auto simp: eq)
qed

lemma sweep_ok:
  "router_inv ifs rts s \<Longrightarrow> distinct rids \<Longrightarrow> set rids \<subseteq> ids s \<Longrightarrow>
   ends_in (router_inv ifs rts) (sweep tm rids s)"
proof (induction rids arbitrary: s)
  case Nil
  then show ?case by simp
next
  case (Cons rid rids)
  have "rid \<in> ids s" using Cons.prems(3) by simp
  from handle_cached_request_ok [OF Cons.prems(1) this] show ?case
    unfolding sweep.simps by (rule ends_in_rbind) (use Cons in auto)
qed

lemma timeout_ok:
  assumes "router_inv ifs rts s"
  shows "ends_in (router_inv ifs rts) (sr_arpcache_timeout tm s)"
proof -
  let ?s = "s\<lparr>n_time := Suc (n_time s), entries := map (expire (tm (n_time s))) (entries s)\<rparr>"
  have inv: "router_inv ifs rts ?s" using assms
    by (auto simp: router_inv_def cache_ok_def list_all_iff expire_def)
  have "distinct (map rq_id (requests ?s))" using inv by (simp add: router_inv_def queue_ok_def)
  with inv have "ends_in (router_inv ifs rts) (sweep tm (map rq_id (requests ?s)) ?s)"
    by (rule sweep_ok) (simp add: ids_def)
  then show ?thesis by (simp add: sr_arpcache_timeout_def sr_arpcache_sweepreqs_def time_now_def)
qed

section \<open>The handlers keep the invariant and return\<close>

lemma find_or_add_ok:
  assumes "router_inv ifs rts s" and "find_or_add_req a s = (rid, s1)"
  shows "router_inv ifs rts s1 \<and> rid \<in> ids s1
    \<and> (\<exists>r \<in> set (requests s1). rq_id r = rid \<and> rq_ip r = a)"
proof (cases "find (\<lambda>r. rq_ip r = a) (requests s)")
  case None
  then have new: "a \<notin> rq_ip ` set (requests s)" by (auto simp: find_None_iff)
  have q: "queue_ok ifs (next_req s) (requests s)" using assms(1) by (simp add: router_inv_def)
  then have "next_req s \<notin> rq_id ` set (requests s)"
    by (auto simp: queue_ok_def list_all_iff req_ok_def)
  moreover have "\<forall>r \<in> set (requests s). req_ok ifs (Suc (next_req s)) r"
    using q by (auto simp: queue_ok_def list_all_iff req_ok_def)
  ultimately show ?thesis
    using assms None new q
    by (auto simp: find_or_add_req_def router_inv_def queue_ok_def list_all_iff req_ok_def ids_def)
next
  case (Some r)
  then have "s1 = s" "rid = rq_id r" "r \<in> set (requests s)" "rq_ip r = a"
    using assms(2) find_SomeD [OF Some] by (simp_all add: find_or_add_req_def)
  then show ?thesis using assms(1) by (auto simp: ids_def)
qed

lemma queuereq_ok:
  assumes "router_inv ifs rts s" and "ETH_SIZE + IP_SIZE \<le> length p" and "has_if ifs name"
    and "sr_arpcache_queuereq a p name s = (rid, s1)"
  shows "router_inv ifs rts s1 \<and> rid \<in> ids s1"
proof -
  let ?f = "\<lambda>r. r\<lparr>rq_packets := \<lparr>pk_buf = p, pk_iface = strncpy sr_IFACE_NAMELEN name\<rparr> # rq_packets r\<rparr>"
  obtain s2 where s2: "find_or_add_req a s = (rid, s2)"
    using assms(4) by (auto simp: sr_arpcache_queuereq_def split: prod.splits)
  note inv2 = find_or_add_ok [OF assms(1) s2]
  then obtain r where r: "r \<in> set (requests s2)" "rq_id r = rid" by auto
  have "p \<noteq> []" using assms(2) by (auto simp: ETH_SIZE_def)
  then have s1: "s1 = upd_req (rq_id r) ?f s2"
    using assms(4) s2 r by (simp add: sr_arpcache_queuereq_def)
  have "req_ok ifs (next_req s2) r"
    using inv2 r by (auto simp: router_inv_def queue_ok_def list_all_iff)
  then have "req_ok ifs (next_req s2) (?f r)"
    using assms(2,3) by (simp add: req_ok_def packet_ok_def)
  then show ?thesis using upd_own [of ifs rts s2 r ?f] inv2 r unfolding s1 by simp
qed

lemma error_frame_ok:
  assumes "42 \<le> length p"
  shows "\<exists>f. icmp_error_frame ty code ttl use_id i p = Inr f"
proof -
  have "IP_SIZE \<le> length (drop ETH_SIZE p)" "ICMP_DATA_SIZE \<le> length (drop ETH_SIZE p)"
    using assms by (simp_all add: ETH_SIZE_def IP_SIZE_def ICMP_DATA_SIZE_def)
  from make_icmp_ok [OF this] obtain icmp d where
    "make_icmp_packet ty code (drop ETH_SIZE p) ICMP_DATA_SIZE = Inr (icmp, d)" by blast
  then show ?thesis by (simp add: icmp_error_frame_def Let_def)
qed

lemma errors_ok:
  assumes "router_inv ifs rts s" and "has_if ifs name" and "42 \<le> length p"
  shows "ends_in (router_inv ifs rts) (port_unreachable p name s)"
    and "ends_in (router_inv ifs rts) (time_exceeded p name s)"
    and "ends_in (router_inv ifs rts) (net_unreachable p name s)"
proof -
  have "ends_in (router_inv ifs rts)
      (rbind (icmp_error_frame ty code ttl use_id i p) (\<lambda>f. Inr (sr_send_packet f (g i) s)))"
    for ty code ttl use_id i g
    using error_frame_ok [OF assms(3), of ty code ttl use_id i] assms(1) by auto
  then show "ends_in (router_inv ifs rts) (port_unreachable p name s)"
    "ends_in (router_inv ifs rts) (time_exceeded p name s)"
    "ends_in (router_inv ifs rts) (net_unreachable p name s)"
    unfolding port_unreachable_def time_exceeded_def net_unreachable_def
    by (auto intro!: with_if_ok [OF assms(1,2)])
qed

lemma handle_local_ok:
  assumes "router_inv ifs rts s" and "has_if ifs name" and "42 \<le> length p"
  shows "ends_in (router_inv ifs rts) (handle_local p name s)"
  unfolding handle_local_def echo_reply_def Let_def
  using assms errors_ok [OF assms] by (auto intro!: with_if_ok [OF assms(1,2)])

lemma route_packet_ok:
  assumes "router_inv ifs rts s" and "has_if ifs (rt_interface rt)" and "34 \<le> length p"
  shows "ends_in (router_inv ifs rts) (route_packet tm p rt s)"
proof (cases "sr_arpcache_lookup s (ip_dst p)")
  case None
  have "ends_in (router_inv ifs rts) (with_if s (rt_interface rt) (\<lambda>i.
      let (rid, s1) = sr_arpcache_queuereq (ip_dst p) p (if_name i) s
      in handle_cached_request tm rid s1))"
  proof (rule with_if_ok [OF assms(1,2)])
    fix i assume i: "i \<in> set ifs"
    obtain rid s1 where q: "sr_arpcache_queuereq (ip_dst p) p (if_name i) s = (rid, s1)" by fastforce
    have "ETH_SIZE + IP_SIZE \<le> length p" using assms(3) by (simp add: ETH_SIZE_def IP_SIZE_def)
    then have "router_inv ifs rts s1" "rid \<in> ids s1"
      using queuereq_ok [OF assms(1) _ has_if_own [OF i] q] by auto
    from ends_in_mono [OF handle_cached_request_ok [OF this, of tm], of "router_inv ifs rts"]
    show "ends_in (router_inv ifs rts)
        (let (rid, s1) = sr_arpcache_queuereq (ip_dst p) p (if_name i) s
         in handle_cached_request tm rid s1)" by (simp add: q)
  qed
  then show ?thesis using None by (simp add: route_packet_def)
next
  case (Some e)
  then show ?thesis using assms(1)
    by (auto simp: route_packet_def intro!: with_if_ok [OF assms(1,2)])
qed

lemma length_set_ip_sum [simp]: "34 \<le> length p \<Longrightarrow> length (set_ip_sum p) = length p"
  by (simp add: set_ip_sum_def Let_def)

lemma forward_packet_ok:
  assumes "router_inv ifs rts s" and "has_if ifs name" and "42 \<le> length p"
  shows "ends_in (router_inv ifs rts) (forward_packet tm p name s)"
proof -
  obtain r where r: "find_rt_match s (ip_dst (set_ip_sum (p[22 := ip_ttl p - 1]))) = Some r"
    "has_if ifs (rt_interface r)"
    using find_rt_ok [OF assms(1)] by metis
  show ?thesis
    using assms errors_ok(2) [OF assms(1,2), of "p[22 := ip_ttl p - 1]"] r
    by (auto simp: forward_packet_def Let_def intro!: route_packet_ok)
qed

lemma flush_packets_ok:
  "router_inv ifs rts s \<Longrightarrow> \<forall>pk \<in> set pks. packet_ok ifs pk \<Longrightarrow>
   ends_in (router_inv ifs rts) (flush_packets i d name pks s)"
  by (induction pks arbitrary: s) (auto simp: packet_ok_def ETH_SIZE_def IP_SIZE_def)

lemma fill_slot_ok:
  "fill_slot x es = Some es' \<Longrightarrow> length (ae_mac x) = 6 \<Longrightarrow> cache_ok es \<Longrightarrow> cache_ok es'"
proof -
  assume f: "fill_slot x es = Some es'" and x: "length (ae_mac x) = 6" and es: "cache_ok es"
  have "length es' = length es \<and> set es' \<subseteq> insert x (set es)"
    using f by (induction es arbitrary: es') (auto split: if_splits)
  then show ?thesis using x es by (auto simp: cache_ok_def list_all_iff)
qed

lemma insert_ok:
  assumes "router_inv ifs rts s" and "length m = 6" and "sr_arpcache_insert tm m a s = (req, s1)"
  shows "router_inv ifs rts s1 \<and> (\<forall>r. req = Some r \<longrightarrow> req_ok ifs (next_req s) r)"
proof -
  obtain rest where t: "take_req (\<lambda>r. rq_ip r = a) (requests s) = (req, rest)"
    using assms(3) by (auto simp: sr_arpcache_insert_def Let_def time_now_def split: prod.splits)
  have q: "queue_ok ifs (next_req s) (requests s)" using assms(1) by (simp add: router_inv_def)
  show ?thesis
    using assms queue_ok_take [OF q t] queue_ok_found [OF q, of _ _ rest] t
    by (auto simp: sr_arpcache_insert_def Let_def time_now_def router_inv_def fill_slot_ok
        split: option.splits)
qed

lemma arp_packet_ok:
  assumes "router_inv ifs rts s" and "42 \<le> length p"
  shows "ends_in (router_inv ifs rts) (sr_handle_arp_packet tm p name s)"
proof -
  have "ends_in (router_inv ifs rts) (sr_handle_arp_reply tm p name s)"
  proof (cases "find_if_match s (ar_tip p)")
    case None
    then show ?thesis using assms by (simp add: sr_handle_arp_reply_def ETH_SIZE_def ARP_SIZE_def)
  next
    case (Some i)
    obtain req s1 where s1: "sr_arpcache_insert tm (if_addr i) (ar_sip p) s = (req, s1)" by fastforce
    have "i \<in> set ifs" using find_SomeD Some assms(1) by (fastforce simp: find_if_match_def router_inv_def)
    then have "length (if_addr i) = 6" using assms(1) by (simp add: router_inv_def net_ok_def)
    note ins = insert_ok [OF assms(1) this s1]
    have "ends_in (router_inv ifs rts)
        (rbind (flush_packets i (ar_sha p) name (rq_packets r) s1)
          (\<lambda>s2. Inr (sr_arpreq_destroy (rq_id r) s2)))" if "req = Some r" for r
      by (rule ends_in_rbind [OF flush_packets_ok]) (use ins that in \<open>auto simp: req_ok_def destroy_inv\<close>)
    then show ?thesis using assms ins s1 Some
      by (auto simp: sr_handle_arp_reply_def ETH_SIZE_def ARP_SIZE_def split: option.splits)
  qed
  moreover have "ends_in (router_inv ifs rts) (sr_handle_arp_request p name s)"
    using assms by (auto simp: sr_handle_arp_request_def ETH_SIZE_def ARP_SIZE_def Let_def split: option.splits)
  ultimately show ?thesis using assms by (simp add: sr_handle_arp_packet_def)
qed

lemma router_step_ok:
  assumes "router_inv ifs rts s" and "event_ok ifs ev"
  shows "ends_in (router_inv ifs rts) (router_step tm ev s)"
proof (cases ev)
  case Ev_second
  then show ?thesis using timeout_ok [OF assms(1)] by simp
next
  case (Ev_frame p name)
  then have len: "42 \<le> length p" and n: "has_if ifs name"
    using assms(2) by (simp_all add: ETH_SIZE_def ARP_SIZE_def)
  have "ends_in (router_inv ifs rts) (sr_handle_ip_packet tm p name s)"
    using len handle_local_ok [OF assms(1) n len] forward_packet_ok [OF assms(1) n len] assms(1)
    by (simp add: sr_handle_ip_packet_def ETH_SIZE_def IP_SIZE_def Let_def)
  then have "ends_in (router_inv ifs rts) (sr_handlepacket tm p name s)"
    using arp_packet_ok [OF assms(1) len] assms(1) len
    by (simp add: sr_handlepacket_def ETH_SIZE_def)
  moreover obtain i where "sr_get_interface s name = Some i" using get_interface_ok [OF assms(1) n] .
  ultimately show ?thesis using Ev_frame assms(1) len
    by (simp add: vns_packet_def sr_arp_req_not_for_us_def ETH_SIZE_def ARP_SIZE_def)
qed

interpretation router: total_event_machine "router_inv ifs rts" "router_step tm" "event_ok ifs"
  for ifs rts tm
proof unfold_locales
  show "router_inv ifs rts s'"
    if "router_inv ifs rts s" "event_ok ifs ev" "router_step tm ev s = Inr s'" for s ev s'
    using router_step_ok [OF that(1,2), of tm] that(3) by simp
  show "\<exists>s'. router_step tm ev s = Inr s'" if "router_inv ifs rts s" "event_ok ifs ev" for s ev
    using router_step_ok [OF that, of tm] by (auto simp: ends_in_def)
qed

end
