(* ===== verification/Router_Props.thy ===== *)
theory Router_Props
  imports Router_Inv
begin

text \<open>
  What the router does with the frames it gets: the checksum is the Internet checksum, and each
  kind of frame, forwarded, queued, answered or refused, leads to exactly the stated frames and
  the stated changes of the ARP cache and its queue.
\<close>

section \<open>The checksum\<close>

text \<open>The sum of the 16-bit words of a byte sequence in network order.\<close>

fun word_sum :: "byte list \<Rightarrow> nat" where
  "word_sum [] = 0"
| "word_sum [a] = 256 * unat a"
| "word_sum (a # b # ds) = 256 * unat a + unat b + word_sum ds"

lemma unat_byte_le: "unat (b :: byte) \<le> 255"
  using unsigned_less [of b, where ?'a = nat] by simp

lemma unat_be_word:
  "unat (push_bit 8 (ucast (a :: byte)) OR ucast (b :: byte) :: u32) = 256 * unat a + unat b"
proof -
  have "push_bit 8 (ucast a) AND (ucast b :: u32) = 0"
    by (rule bit_word_eqI) (auto simp: bit_simps dest: bit_imp_le_length)
  then have "push_bit 8 (ucast a) OR (ucast b :: u32) = push_bit 8 (ucast a) + ucast b"
    by (simp add: disjunctive_add_eq_or)
  moreover have "unat (ucast a :: u32) = unat a" "unat (ucast b :: u32) = unat b"
    by (simp_all add: unsigned_ucast_eq take_bit_nat_eq_self less_le_trans [OF unsigned_less])
  ultimately show ?thesis
    using unat_byte_le [of a] unat_byte_le [of b]
    by (simp add: push_bit_eq_mult unat_word_ariths)
qed

lemma word_sum_bound: "word_sum ds \<le> 65535 * ((length ds + 1) div 2)"
proof (induction ds rule: word_sum.induct)
  case 1
  show ?case by simp
next
  case (2 a)
  show ?case using unat_byte_le [of a] by simp
next
  case (3 a b ds)
  then show ?case using unat_byte_le [of a] unat_byte_le [of b] by simp
qed

lemma unat_cksum_sum: "length ds \<le> 65536 \<Longrightarrow> unat (cksum_sum ds) = word_sum ds"
proof (induction ds rule: cksum_sum.induct)
  case 1
  show ?case by simp
next
  case (2 a)
  show ?case using unat_be_word [of a 0] by simp
next
  case (3 a b ds)
  have "word_sum (a # b # ds) \<le> 65535 * ((length (a # b # ds) + 1) div 2)" by (rule word_sum_bound)
  also have "\<dots> \<le> 65535 * 32769" using 3(2) by (intro mult_le_mono2) simp
  finally have "word_sum (a # b # ds) < 2 ^ 32" by simp
  then show ?case
    using 3 unat_be_word [of a b] by (simp add: unat_word_ariths)
qed

lemma cksum_fold_value:
  "unat (cksum_fold w) \<le> 65535 \<and> unat (cksum_fold w) mod 65535 = unat w mod 65535"
proof (induction w rule: cksum_fold.induct)
  case (1 w)
  show ?case
  proof (cases "0xffff < w")
    case True
    have "unat w = unat w div 65536 * 65536 + unat w mod 65536" by simp
    then have "unat w mod 65535 = (unat w div 65536 * 65536 + unat w mod 65536) mod 65535" by simp
    also have "\<dots> = (unat w div 65536 * 65535 + (unat w div 65536 + unat w mod 65536)) mod 65535"
      by (simp add: algebra_simps)
    also have "\<dots> = (unat w div 65536 + unat w mod 65536) mod 65535" by (simp only: mod_mult_self3)
    finally show ?thesis using 1 [OF True] True
      by (subst (1 2) cksum_fold.simps) (simp add: unat_cksum_step)
  next
    case False
    then show ?thesis by (subst (1 2) cksum_fold.simps) (simp add: word_less_nat_alt)
  qed
qed

lemma unat_cksum:
  "unat (ntohs (cksum ds)) =
     (let f = unat (cksum_fold (cksum_sum ds)) in if f = 65535 then 65535 else 65535 - f)"
proof -
  let ?w = "cksum_fold (cksum_sum ds)"
  let ?n = "ucast (NOT ?w) :: u16"
  have le: "unat ?w \<le> 65535" by (simp add: cksum_fold_value)
  have "NOT ?w = - 1 - ?w" by (simp add: not_eq_complement)
  then have "unat (NOT ?w) = unat (- 1 :: u32) - unat ?w" by (simp only: unat_sub word_n1_ge)
  moreover have "unat (- 1 :: u32) = 4294967295"
    using unat_minus_one [of "0 :: u32"] by (simp add: unsigned_minus_1_eq_mask mask_eq_exp_minus_1)
  ultimately have "unat (NOT ?w) = 4294967295 - unat ?w" by simp
  then have "unat ?n = (4294967295 - unat ?w) mod 65536"
    by (simp add: unsigned_ucast_eq take_bit_eq_mod)
  also have "4294967295 - unat ?w = 65535 - unat ?w + 65535 * 65536" using le by linarith
  finally have n: "unat ?n = 65535 - unat ?w" unfolding mod_mult_self1 by simp
  have z: "ntohs ?n = 0 \<longleftrightarrow> ?n = 0"
    by (metis ntohs_ntohs ntohs_def bit.disj_zero_right drop_bit_of_0 push_bit_of_0)
  show ?thesis
  proof (cases "?n = 0")
    case True
    then have "unat ?w = 65535" using n le by simp
    moreover have "ntohs (0xffff :: u16) = 0xffff" by (simp add: ntohs_def)
    ultimately show ?thesis using True z by (simp add: cksum_def)
  next
    case False
    then have "unat ?w \<noteq> 65535" using n by (metis diff_self_eq_0 unat_eq_zero)
    then show ?thesis using False z n by (simp add: cksum_def Let_def)
  qed
qed

lemma unat_ntohs: "unat (ntohs w) = 256 * (unat w mod 256) + unat w div 256"
proof -
  have "push_bit 8 w AND drop_bit 8 w = 0"
    by (rule bit_word_eqI) (auto simp: bit_simps dest: bit_imp_le_length)
  then have "ntohs w = push_bit 8 w + drop_bit 8 w"
    by (simp add: ntohs_def disjunctive_add_eq_or)
  moreover have "unat w < 65536" using unsigned_less [of w, where ?'a = nat] by simp
  moreover have "unat (drop_bit 8 w) = unat w div 256"
    by (simp only: unat_drop_bit_eq) (simp only: drop_bit_eq_div, simp)
  moreover have "unat (push_bit 8 w) = 256 * (unat w mod 256)"
    using mult_mod_right [of 256 "unat w" 256]
    by (simp add: push_bit_eq_mult unat_word_ariths mult.commute)
  ultimately show ?thesis by (simp add: unat_word_ariths)
qed

lemma unat_bytes16:
  "unat (ucast w :: byte) = unat w mod 256" "unat (ucast (drop_bit 8 (w :: u16)) :: byte) = unat w div 256"
proof -
  show "unat (ucast w :: byte) = unat w mod 256" by (simp add: unsigned_ucast_eq take_bit_eq_mod)
  have "unat w < 65536" using unsigned_less [of w, where ?'a = nat] by simp
  then have "unat w div 256 < 256" by simp
  moreover have "unat (drop_bit 8 w) = unat w div 256"
    by (simp only: unat_drop_bit_eq) (simp only: drop_bit_eq_div, simp)
  ultimately show "unat (ucast (drop_bit 8 w) :: byte) = unat w div 256"
    by (simp add: unsigned_ucast_eq take_bit_nat_eq_self)
qed

lemma word_sum_append: "even (length a) \<Longrightarrow> word_sum (a @ b) = word_sum a + word_sum b"
  by (induction a rule: word_sum.induct) auto

lemma word_sum_memput:
  assumes "even i" "i + 2 \<le> length h" "h ! i = 0" "h ! Suc i = 0"
  shows "word_sum (memput h i (bytes16 w)) = word_sum h + unat (ntohs w)"
proof -
  have h: "h = take i h @ [0, 0] @ drop (i + 2) h"
    using assms(2-4) by (metis (no_types, lifting) Cons_nth_drop_Suc add_2_eq_Suc' append_Cons append_Nil
        append_take_drop_id le_imp_less_Suc Suc_le_lessD less_or_eq_imp_le Suc_leD)
  have "word_sum h = word_sum (take i h) + word_sum (drop (i + 2) h)"
    by (subst h) (use assms(1,2) in \<open>simp add: word_sum_append\<close>)
  moreover have "word_sum (memput h i (bytes16 w)) =
      word_sum (take i h) + unat (ntohs w) + word_sum (drop (i + 2) h)"
    using assms(1,2) unat_bytes16 [of w]
    by (simp add: memput_def bytes16_def word_sum_append unat_ntohs)
  ultimately show ?thesis by simp
qed

lemma cksum_residue:
  assumes "length ds \<le> 65536"
  shows "(word_sum ds + unat (ntohs (cksum ds))) mod 65535 = 0"
proof -
  let ?f = "unat (cksum_fold (cksum_sum ds))"
  have f: "?f \<le> 65535" "?f mod 65535 = word_sum ds mod 65535"
    using cksum_fold_value [of "cksum_sum ds"] unat_cksum_sum [OF assms] by simp_all
  have "(word_sum ds + unat (ntohs (cksum ds))) mod 65535 = (?f + unat (ntohs (cksum ds))) mod 65535"
    using f(2) by (metis mod_add_left_eq)
  also have "\<dots> = 0" using f(1) by (simp add: unat_cksum Let_def)
  finally show ?thesis .
qed

lemma put_sum_verifies:
  assumes "even i" "i + 2 \<le> length h" "length h \<le> 65536" "h ! i = 0" "h ! Suc i = 0"
  shows "word_sum (put_sum i h) mod 65535 = 0"
  using cksum_residue [OF assms(3)] word_sum_memput [OF assms(1,2,4,5)] by (simp add: put_sum_def)

section \<open>The fields of a frame\<close>

lemma length_ip_hdr [simp]: "34 \<le> length p \<Longrightarrow> length (ip_hdr p) = 20"
  by (simp add: ip_hdr_def IP_SIZE_def ETH_SIZE_def)

lemma nth_ip_hdr: "34 \<le> length p \<Longrightarrow> i < 20 \<Longrightarrow> ip_hdr p ! i = p ! (14 + i)"
  by (simp add: ip_hdr_def IP_SIZE_def ETH_SIZE_def)

lemma ip_hdr_memput:
  "34 \<le> length p \<Longrightarrow> 14 \<le> i \<Longrightarrow> i + length d \<le> 34 \<Longrightarrow>
   ip_hdr (memput p i d) = memput (ip_hdr p) (i - 14) d"
  by (rule nth_equalityI) (auto simp: nth_ip_hdr nth_memput add.commute)

lemma set_ip_sum_hdr:
  assumes "34 \<le> length p"
  shows "ip_hdr (set_ip_sum p) = put_sum 10 (memput (ip_hdr p) 10 [0, 0])"
  using assms by (simp add: set_ip_sum_def Let_def ip_hdr_memput put_sum_def)

lemma set_ip_sum_verifies:
  assumes "34 \<le> length p"
  shows "word_sum (ip_hdr (set_ip_sum p)) mod 65535 = 0"
  unfolding set_ip_sum_hdr [OF assms]
  by (rule put_sum_verifies) (use assms in \<open>simp_all add: nth_memput\<close>)

lemma nth_set_ip_sum:
  "34 \<le> length p \<Longrightarrow> i < length p \<Longrightarrow> i \<noteq> 24 \<Longrightarrow> i \<noteq> 25 \<Longrightarrow> set_ip_sum p ! i = p ! i"
  by (auto simp: set_ip_sum_def Let_def nth_memput)

lemma set_ip_sum_fields [simp]:
  assumes "34 \<le> length p"
  shows "ip_ttl (set_ip_sum p) = ip_ttl p" "ip_p (set_ip_sum p) = ip_p p"
    "ip_src (set_ip_sum p) = ip_src p" "ip_dst (set_ip_sum p) = ip_dst p"
    "ether_shost (set_ip_sum p) = ether_shost p" "drop 34 (set_ip_sum p) = drop 34 p"
  using assms
  by (auto simp: ip_ttl_def ip_p_def ip_src_def ip_dst_def load32_def ether_shost_def nth_set_ip_sum
      intro: nth_equalityI)

section \<open>What each kind of frame leads to\<close>

text \<open>\<open>sent s [f1, ..., fn]\<close>: the state after the frames \<open>fi\<close> went out.\<close>

definition sent :: "sr_instance \<Rightarrow> (frame \<times> string) list \<Rightarrow> sr_instance" where
  "sent s fs = s\<lparr>out := out s @ fs\<rparr>"

lemma send_ok:
  assumes "sr_get_interface s name = Some i" "ether_shost p = if_addr i" "14 \<le> length p"
  shows "sr_send_packet p name s = sent s [(p, strncpy 16 name)]"
  using assms by (simp add: sr_send_packet_def sr_ether_addrs_match_interface_def ETH_SIZE_def sent_def)

lemma strncmp_eq_sym: "strncmp_eq n a b = strncmp_eq n b a"
  by (auto simp: strncmp_eq_def)

text \<open>An interface found under some name is found under its own name.\<close>

lemma get_interface_own:
  assumes "sr_get_interface s name = Some i"
  shows "sr_get_interface s (if_name i) = Some i"
proof -
  have "strncmp_eq sr_IFACE_NAMELEN (if_name i) name"
    using find_SomeD assms by (fastforce simp: sr_get_interface_def)
  then have "strncmp_eq sr_IFACE_NAMELEN (if_name j) (if_name i) = strncmp_eq sr_IFACE_NAMELEN (if_name j) name" for j
    by (simp add: strncmp_eq_def)
  then have eq: "(\<lambda>j. strncmp_eq sr_IFACE_NAMELEN (if_name j) (if_name i)) =
      (\<lambda>j. strncmp_eq sr_IFACE_NAMELEN (if_name j) name)" by blast
  show ?thesis using assms unfolding sr_get_interface_def eq .
qed

text \<open>A frame with an IP packet whose header verifies and that is not for the router.\<close>

definition ip_frame :: "frame \<Rightarrow> bool" where
  "ip_frame p \<longleftrightarrow> ethertype p = ethertype_ip \<and> 34 \<le> length p \<and> length p \<le> 65535
     \<and> cksum (ip_hdr (memput p 24 [0, 0])) = ip_sum p"

lemma ip_frame_handled:
  assumes "ip_frame p"
  shows "sr_handlepacket tm p iface s =
    (if find_if_match s (ip_dst p) \<noteq> None then handle_local p iface s
     else forward_packet tm p iface s)"
  using assms
  by (simp add: ip_frame_def sr_handlepacket_def sr_handle_ip_packet_def ETH_SIZE_def IP_SIZE_def Let_def)

text \<open>The packet that leaves: one hop less to live and a new checksum.\<close>

definition hop :: "frame \<Rightarrow> frame" where
  "hop p = set_ip_sum (p[22 := ip_ttl p - 1])"

lemma hop_fields [simp]:
  assumes "34 \<le> length p"
  shows "length (hop p) = length p" "ip_ttl (hop p) = ip_ttl p - 1" "ip_p (hop p) = ip_p p"
    "ip_src (hop p) = ip_src p" "ip_dst (hop p) = ip_dst p" "ether_shost (hop p) = ether_shost p"
    "drop 34 (hop p) = drop 34 p" "word_sum (ip_hdr (hop p)) mod 65535 = 0"
  using assms
  by (simp_all add: hop_def set_ip_sum_verifies)
    (simp_all add: ip_ttl_def ip_p_def ip_src_def ip_dst_def load32_def ether_shost_def
      take_update_cancel drop_update_swap)

lemma nth_hop:
  "34 \<le> length p \<Longrightarrow> i < length p \<Longrightarrow> i \<notin> {22, 24, 25} \<Longrightarrow> hop p ! i = p ! i"
  by (simp add: hop_def nth_set_ip_sum)

lemma forward_hop:
  assumes "34 \<le> length p" "ip_ttl p \<noteq> 1"
  shows "forward_packet tm p iface s =
    (case find_rt_match s (ip_dst p) of
       Some rt \<Rightarrow> route_packet tm (hop p) rt s
     | None \<Rightarrow> net_unreachable (hop p) iface s)"
proof -
  have "ip_ttl (p[22 := ip_ttl p - 1]) = ip_ttl p - 1" using assms(1) by (simp add: ip_ttl_def)
  moreover have "ip_ttl p - 1 \<noteq> 0" using assms(2) by (metis right_minus_eq)
  ultimately show ?thesis
    using assms(1) by (simp add: forward_packet_def Let_def hop_def [symmetric])
qed

text \<open>Replacing the two hardware addresses of a frame.\<close>

definition readdress :: "mac \<Rightarrow> mac \<Rightarrow> frame \<Rightarrow> frame" where
  "readdress dst src p = memput (memput p 6 src) 0 dst"

lemma readdress_fields [simp]:
  assumes "length dst = 6" "length src = 6" "12 \<le> length p"
  shows "ether_dhost (readdress dst src p) = dst" "ether_shost (readdress dst src p) = src"
    "drop 12 (readdress dst src p) = drop 12 p" "length (readdress dst src p) = length p"
  using assms by (simp_all add: readdress_def ether_dhost_def ether_shost_def memput_def)

lemma readdress_swap:
  "length dst = 6 \<Longrightarrow> length src = 6 \<Longrightarrow> 12 \<le> length p \<Longrightarrow>
   memput (memput p 0 dst) 6 src = readdress dst src p"
  by (simp add: readdress_def memput_def)

lemma readdress_nth:
  "length dst = 6 \<Longrightarrow> length src = 6 \<Longrightarrow> 12 \<le> i \<Longrightarrow> i < length p \<Longrightarrow> readdress dst src p ! i = p ! i"
  by (simp add: readdress_def nth_memput)

lemma readdress_ip [simp]:
  assumes "length dst = 6" "length src = 6" "34 \<le> length p"
  shows "ip_ttl (readdress dst src p) = ip_ttl p" "ip_src (readdress dst src p) = ip_src p"
    "ip_dst (readdress dst src p) = ip_dst p" "ip_hdr (readdress dst src p) = ip_hdr p"
proof -
  show "ip_hdr (readdress dst src p) = ip_hdr p"
    using assms by (intro nth_equalityI) (simp_all add: nth_ip_hdr readdress_nth)
qed (use assms in \<open>simp_all add: ip_ttl_def ip_src_def ip_dst_def load32_def readdress_nth\<close>)

lemma route_known:
  assumes "sr_arpcache_lookup s (ip_dst p) = Some e" "sr_get_interface s (rt_interface rt) = Some i"
    and "length (if_addr i) = 6" "length (ae_mac e) = 6" "14 \<le> length p"
  shows "route_packet tm p rt s =
    Inr (sent s [(readdress (ae_mac e) (if_addr i) p, strncpy 16 (rt_interface rt))])"
  using assms send_ok [OF assms(2), of "readdress (ae_mac e) (if_addr i) p"]
  by (simp add: route_packet_def with_if_def readdress_def [symmetric])

section \<open>The packets the router builds\<close>

lemma put_sum_split:
  "i + 2 \<le> length h \<Longrightarrow> put_sum i h = take i h @ bytes16 (cksum h) @ drop (i + 2) h"
  by (simp add: put_sum_def memput_def)

definition ip_header ::
  "byte \<Rightarrow> byte \<Rightarrow> byte \<Rightarrow> u16 \<Rightarrow> ip \<Rightarrow> ip \<Rightarrow> nat \<Rightarrow> byte list" where
  "ip_header tos ttl pr ident src dst n =
     put_sum 10 ([0x45, tos] @ bytes16 (htons (of_nat (20 + n))) @ bytes16 ident
        @ [0, 0] @ [ttl, pr] @ [0, 0] @ bytes32 src @ bytes32 dst)"

lemma make_ip_packet_header:
  "make_ip_packet tos ttl pr ident src dst data = ip_header tos ttl pr ident src dst (length data) @ data"
  by (simp add: make_ip_packet_def ip_header_def IP_SIZE_def)

lemma ip_header_verifies: "word_sum (ip_header tos ttl pr ident src dst n) mod 65535 = 0"
  unfolding ip_header_def
  by (rule put_sum_verifies) (simp_all add: bytes16_def bytes32_def)

lemma ip_header_nth:
  assumes "h = ip_header tos ttl pr ident src dst n"
  shows "length h = 20" "h ! 0 = 0x45" "h ! 1 = tos" "load16 h 2 = htons (of_nat (20 + n))"
    "load16 h 4 = ident" "h ! 8 = ttl" "h ! 9 = pr" "load32 h 12 = src" "load32 h 16 = dst"
  using load16_bytes16 [of ident] load16_bytes16 [of "htons (of_nat (20 + n))"]
    load32_bytes32 [of src] load32_bytes32 [of dst]
  by (simp_all add: assms ip_header_def put_sum_split load16_def load32_def)
    (simp_all add: bytes16_def bytes32_def)

lemma eth_ip_fields:
  assumes "length dst = 6" "length src = 6"
    and "f = make_eth_packet dst src ty (make_ip_packet tos ttl pr ident sip dip data)"
  shows "ether_dhost f = dst" "ether_shost f = src" "ethertype f = ty" "length f = 34 + length data"
    "ip_hdr f = ip_header tos ttl pr ident sip dip (length data)" "drop 34 f = data"
proof -
  let ?h = "ip_header tos ttl pr ident sip dip (length data)"
  have f: "f = dst @ src @ bytes16 (htons ty) @ ?h @ data" and h: "length ?h = 20"
    using assms by (simp_all add: make_eth_packet_def make_ip_packet_header ip_header_nth)
  then show "ether_dhost f = dst" "ether_shost f = src" "length f = 34 + length data"
    "ip_hdr f = ?h" "drop 34 f = data"
    using assms by (simp_all add: ether_dhost_def ether_shost_def ip_hdr_def ETH_SIZE_def IP_SIZE_def)
  show "ethertype f = ty"
    using assms(1,2) load16_bytes16 [of "htons ty"] unfolding f
    by (simp add: ethertype_def load16_def nth_append)
qed

lemma ip_fields_hdr:
  assumes "34 \<le> length f"
  shows "ip_ttl f = ip_hdr f ! 8" "ip_p f = ip_hdr f ! 9" "ip_src f = load32 (ip_hdr f) 12"
    "ip_dst f = load32 (ip_hdr f) 16" "ip_id f = load16 (ip_hdr f) 4"
  using assms
  by (simp_all add: ip_ttl_def ip_p_def ip_src_def ip_dst_def ip_id_def load16_def load32_def nth_ip_hdr)

text \<open>An ARP packet in a frame.\<close>

lemma eth_arp_fields:
  assumes "length dst = 6" "length src = 6" "length sha = 6" "length tha = 6"
    and "f = make_eth_packet dst src ethertype_arp (make_arp_packet op sha sip tha tip)"
  shows "length f = 42" "ether_dhost f = dst" "ether_shost f = src" "ethertype f = ethertype_arp"
    "ntohs (ar_op f) = op" "ar_sha f = sha" "ar_sip f = sip" "ar_tip f = tip"
proof -
  have f: "f = dst @ src @ bytes16 (htons ethertype_arp) @ bytes16 (htons 1)
      @ bytes16 (htons ethertype_ip) @ [6, 4] @ bytes16 (htons op) @ sha @ bytes32 sip @ tha @ bytes32 tip"
    using assms by (simp add: make_eth_packet_def make_arp_packet_def)
  show "length f = 42" "ether_dhost f = dst" "ether_shost f = src" "ar_sha f = sha"
    using assms(1-4) unfolding f by (simp_all add: ether_dhost_def ether_shost_def ar_sha_def)
  show "ethertype f = ethertype_arp" "ntohs (ar_op f) = op" "ar_sip f = sip" "ar_tip f = tip"
    using assms(1-4) load16_bytes16 [of "htons ethertype_arp"] load16_bytes16 [of "htons op"]
      load32_bytes32 [of sip] load32_bytes32 [of tip] unfolding f
    by (simp_all add: ethertype_def ar_op_def ar_sip_def ar_tip_def load16_def load32_def nth_append
        numeral_2_eq_2)
qed

text \<open>An ICMP error: 36 bytes whose checksum verifies, quoting the 28 bytes it is about.\<close>

lemma icmp_error_fields:
  assumes "ty = 3 \<or> ty = 11" "28 \<le> length d"
  shows "\<exists>icmp d'. make_icmp_packet ty code d ICMP_DATA_SIZE = Inr (icmp, d')
    \<and> d' = memput (memput d 10 [0, 0]) 10 (bytes16 (cksum (take 20 (memput d 10 [0, 0]))))
    \<and> length icmp = 36 \<and> icmp ! 0 = ty \<and> icmp ! 1 = code \<and> drop 8 icmp = take 28 d'
    \<and> word_sum icmp mod 65535 = 0"
proof -
  let ?d = "memput (memput d 10 [0, 0]) 10 (bytes16 (cksum (take 20 (memput d 10 [0, 0]))))"
  let ?h = "[ty, code, 0, 0, 0, 0, 0, 0] @ take 28 ?d"
  have ld: "length ?d = length d" using assms(2) by simp
  have "make_icmp_packet ty code d ICMP_DATA_SIZE = Inr (put_sum 2 ?h, ?d)"
    using assms by (auto simp: make_icmp_packet_def ICMP_DATA_SIZE_def IP_SIZE_def Let_def zeros_def)
  moreover have "word_sum (put_sum 2 ?h) mod 65535 = 0"
    by (rule put_sum_verifies) (use assms(2) ld in simp_all)
  ultimately show ?thesis using assms(2) ld
    by (intro exI [of _ "put_sum 2 ?h"] exI [of _ ?d]) (simp add: put_sum_split nth_append)
qed

section \<open>The cache and the queue\<close>

lemma last_entry_in:
  "last_entry a found es = Some e \<Longrightarrow> found = Some e \<or> (e \<in> set es \<and> ae_valid e \<and> ae_ip e = a)"
  by (induction es arbitrary: found) (auto split: if_splits)

lemma lookup_in:
  "sr_arpcache_lookup s a = Some e \<Longrightarrow> e \<in> set (entries s) \<and> ae_valid e \<and> ae_ip e = a"
  using last_entry_in [of a None] by (auto simp: sr_arpcache_lookup_def)

lemma lookup_mac:
  "router_inv ifs rts s \<Longrightarrow> sr_arpcache_lookup s a = Some e \<Longrightarrow> length (ae_mac e) = 6"
  using lookup_in by (fastforce simp: router_inv_def cache_ok_def list_all_iff)

lemma interface_mac:
  "router_inv ifs rts s \<Longrightarrow> sr_get_interface s name = Some i \<Longrightarrow> length (if_addr i) = 6"
  using find_SomeD by (fastforce simp: router_inv_def net_ok_def sr_get_interface_def)

lemma last_entry_append:
  "last_entry a found (es @ es') = last_entry a (last_entry a found es) es'"
  by (induction es arbitrary: found) auto

lemma last_entry_none:
  "(\<forall>e \<in> set es. ae_valid e \<longrightarrow> ae_ip e \<noteq> a) \<Longrightarrow> last_entry a found es = found"
  by (induction es arbitrary: found) auto

lemma fill_slot_split:
  "fill_slot x es = Some es' \<Longrightarrow>
   \<exists>l e r. es = l @ e # r \<and> es' = l @ x # r \<and> \<not> ae_valid e \<and> (\<forall>y \<in> set l. ae_valid y)"
proof (induction es arbitrary: es')
  case Nil
  then show ?case by simp
next
  case (Cons y ys)
  show ?case
  proof (cases "ae_valid y")
    case False
    then show ?thesis using Cons.prems by (intro exI [of _ "[]"]) auto
  next
    case True
    then obtain ys' where "fill_slot x ys = Some ys'" "es' = y # ys'"
      using Cons.prems by auto
    with Cons.IH [of ys'] obtain l e r where
      "ys = l @ e # r" "ys' = l @ x # r" "\<not> ae_valid e" "\<forall>z \<in> set l. ae_valid z" by auto
    then show ?thesis using True \<open>es' = y # ys'\<close>
      by (intro exI [of _ "y # l"] exI [of _ e] exI [of _ r]) simp
  qed
qed

lemma fill_slot_free: "\<exists>e \<in> set es. \<not> ae_valid e \<Longrightarrow> \<exists>es'. fill_slot x es = Some es'"
  by (induction es) auto

lemma take_req_split:
  "\<forall>r \<in> set l. \<not> P r \<Longrightarrow> P r \<Longrightarrow> take_req P (l @ r # rs) = (Some r, l @ rs)"
  by (induction l) auto

lemma take_req_none: "\<forall>r \<in> set rs. \<not> P r \<Longrightarrow> take_req P rs = (None, rs)"
  by (induction rs) auto

text \<open>Sending a list of frames out of an interface they carry the address of.\<close>

lemma flush_sends:
  assumes "sr_get_interface s name = Some j" "if_addr j = if_addr i" "length (if_addr i) = 6"
    "length d = 6" "\<forall>pk \<in> set pks. 34 \<le> length (pk_buf pk)"
  shows "flush_packets i d name pks s =
    Inr (sent s (map (\<lambda>pk. (readdress d (if_addr i) (pk_buf pk), strncpy 16 name)) pks))"
  using assms(1,5)
proof (induction pks arbitrary: s)
  case Nil
  then show ?case by (simp add: sent_def)
next
  case (Cons pk pks)
  have "sr_send_packet (flush_frame i d (pk_buf pk)) name s =
      sent s [(readdress d (if_addr i) (pk_buf pk), strncpy 16 name)]"
    unfolding flush_frame_def readdress_def [symmetric]
    by (rule send_ok [OF Cons.prems(1)]) (use Cons.prems assms in auto)
  moreover have "sr_get_interface (sent s fs) name = Some j" for fs
    using Cons.prems(1) by (simp add: sr_get_interface_def sent_def)
  ultimately show ?case using Cons by (simp add: sent_def)
qed

section \<open>A small network\<close>

definition demo_ifs :: "sr_if list" where
  "demo_ifs = [\<lparr>if_name = ''eth0'', if_addr = [2, 0, 0, 0, 0, 1], if_ip = 0x0100000A\<rparr>,
               \<lparr>if_name = ''eth1'', if_addr = [2, 0, 0, 0, 0, 2], if_ip = 0x0101000A\<rparr>]"

definition demo_rts :: "sr_rt list" where
  "demo_rts = [\<lparr>rt_dest = 0, rt_gw = 0x0500000A, rt_mask = 0, rt_interface = ''eth1''\<rparr>]"

definition demo_router :: "sr_arpentry list \<Rightarrow> sr_arpreq list \<Rightarrow> sr_instance" where
  "demo_router es rs = \<lparr>if_list = demo_ifs, routing_table = demo_rts,
     entries = es @ replicate (SR_ARPCACHE_SZ - length es) empty_entry, requests = rs,
     next_req = length rs, out = [], n_time = 0\<rparr>"

lemma demo_net: "net_ok demo_ifs demo_rts"
  by (auto simp: net_ok_def demo_ifs_def demo_rts_def has_if_def strncmp_eq_def rt_matches_def)

lemma demo_router_inv:
  "length es \<le> SR_ARPCACHE_SZ \<Longrightarrow> list_all (\<lambda>e. length (ae_mac e) = 6) es \<Longrightarrow>
   queue_ok demo_ifs (length rs) rs \<Longrightarrow> router_inv demo_ifs demo_rts (demo_router es rs)"
  by (auto simp: router_inv_def demo_router_def cache_ok_def demo_net empty_entry_def zeros_def
      list_all_iff)

lemma demo_empty_inv: "router_inv demo_ifs demo_rts (demo_router [] [])"
  by (rule demo_router_inv) (simp_all add: queue_ok_def)

lemma demo_interfaces:
  "sr_get_interface (demo_router es rs) ''eth0'' = Some (demo_ifs ! 0)"
  "sr_get_interface (demo_router es rs) ''eth1'' = Some (demo_ifs ! Suc 0)"
  "if_addr (demo_ifs ! 0) = [2, 0, 0, 0, 0, 1]" "if_addr (demo_ifs ! Suc 0) = [2, 0, 0, 0, 0, 2]"
  "if_name (demo_ifs ! 0) = ''eth0''" "if_name (demo_ifs ! Suc 0) = ''eth1''"
  "if_ip (demo_ifs ! 0) = 0x0100000A" "if_ip (demo_ifs ! Suc 0) = 0x0101000A"
  by (simp_all add: sr_get_interface_def demo_router_def demo_ifs_def strncmp_eq_def
      sr_IFACE_NAMELEN_def)

lemma demo_lookups:
  "find_if_match (demo_router es rs) 0x0500000A = None"
  "find_if_match (demo_router es rs) 0x0100000A = Some (demo_ifs ! 0)"
  "find_rt_match (demo_router es rs) a = Some (demo_rts ! 0)"
  "rt_interface (demo_rts ! 0) = ''eth1''" "rt_gw (demo_rts ! 0) = 0x0500000A"
  by (simp_all add: find_if_match_def find_rt_match_def rt_matches_def demo_router_def demo_ifs_def
      demo_rts_def)

text \<open>A frame from 2:0:0:0:0:9 and 10.0.0.9 with \<open>n\<close> bytes after the IP header.\<close>

definition demo_frame :: "byte \<Rightarrow> byte \<Rightarrow> ip \<Rightarrow> byte list \<Rightarrow> frame" where
  "demo_frame ttl pr dst data =
     make_eth_packet [2, 0, 0, 0, 0, 1] [2, 0, 0, 0, 0, 9] ethertype_ip
       (make_ip_packet 0 ttl pr 7 0x0900000A dst data)"

lemma put_sum_accepted:
  assumes "34 \<le> length p" "ip_hdr p = put_sum 10 h" "length h = 20" "h ! 10 = 0" "h ! 11 = 0"
  shows "cksum (ip_hdr (memput p 24 [0, 0])) = ip_sum p"
proof -
  have "memput (put_sum 10 h) 10 [0, 0] = h"
  proof (rule nth_equalityI)
    fix i assume "i < length (memput (put_sum 10 h) 10 [0, 0])"
    then have "i < 20" using assms(3) by (simp add: put_sum_def)
    then show "memput (put_sum 10 h) 10 [0, 0] ! i = h ! i"
      using assms(3-5) by (cases "i = 10 \<or> i = 11") (auto simp: put_sum_def nth_memput)
  qed (use assms(3) in \<open>simp add: put_sum_def\<close>)
  then have "ip_hdr (memput p 24 [0, 0]) = h" using assms(1,2) by (simp add: ip_hdr_memput)
  moreover have "load16 (ip_hdr p) 10 = cksum h" using assms(2,3) by (simp add: put_sum_def)
  moreover have "ip_sum p = load16 (ip_hdr p) 10"
    using assms(1) by (simp add: ip_sum_def load16_def nth_ip_hdr)
  ultimately show ?thesis by simp
qed

lemma demo_frame_fields:
  "length (demo_frame ttl pr dst data) = 34 + length data"
  "ether_shost (demo_frame ttl pr dst data) = [2, 0, 0, 0, 0, 9]"
  "ip_ttl (demo_frame ttl pr dst data) = ttl" "ip_p (demo_frame ttl pr dst data) = pr"
  "ip_src (demo_frame ttl pr dst data) = 0x0900000A" "ip_dst (demo_frame ttl pr dst data) = dst"
  "drop 34 (demo_frame ttl pr dst data) = data"
  using eth_ip_fields [OF _ _ demo_frame_def] ip_header_nth [OF refl]
  by (simp_all add: ip_fields_hdr)

lemma demo_frame_ok: "length data \<le> 1500 \<Longrightarrow> ip_frame (demo_frame ttl pr dst data)"
  unfolding ip_frame_def
  using eth_ip_fields [OF _ _ demo_frame_def]
  by (auto intro!: put_sum_accepted simp: ip_header_def bytes16_def bytes32_def)

section \<open>Properties\<close>

text \<open>
  C27: The checksum is the Internet checksum: for up to 65536 bytes, the big-endian 16-bit words of
  the data and of the checksum sum to a multiple of 65535, and the checksum is never 0; so a
  header that has its checksum put into its zeroed field verifies.
\<close>
theorem cksum_is_internet_checksum:
  assumes "length ds \<le> 65536"
  shows "(word_sum ds + unat (ntohs (cksum ds))) mod 65535 = 0 \<and> cksum ds \<noteq> 0
    \<and> (\<forall>i. even i \<and> i + 2 \<le> length ds \<and> ds ! i = 0 \<and> ds ! Suc i = 0
           \<longrightarrow> word_sum (put_sum i ds) mod 65535 = 0)"
  using cksum_residue [OF assms] put_sum_verifies [OF _ _ assms]
  by (auto simp: cksum_def Let_def)

theorem cksum_is_internet_checksum_witness:
  "(word_sum [0x45, 0, 3] + unat (ntohs (cksum [0x45, 0, 3]))) mod 65535 = 0"
  using cksum_is_internet_checksum [of "[0x45, 0, 3]"] by simp

text \<open>
  What the code does with a packet whose destination address is in the cache, whatever the gateway
  of the route and for any hops to live but 1: a packet that comes with 0 leaves with 255.
\<close>

lemma cached_destination_forwarded:
  assumes "router_inv ifs rts s" "ip_frame p" "ip_ttl p \<noteq> 1" "find_if_match s (ip_dst p) = None"
    and "find_rt_match s (ip_dst p) = Some rt" "sr_get_interface s (rt_interface rt) = Some i"
    and "sr_arpcache_lookup s (ip_dst p) = Some e"
  shows "\<exists>q. sr_handlepacket tm p iface s = Inr (sent s [(q, strncpy 16 (rt_interface rt))])
    \<and> ether_dhost q = ae_mac e \<and> ether_shost q = if_addr i
    \<and> ip_ttl q = ip_ttl p - 1 \<and> word_sum (ip_hdr q) mod 65535 = 0 \<and> length q = length p
    \<and> (\<forall>j. 12 \<le> j \<and> j < length p \<and> j \<notin> {22, 24, 25} \<longrightarrow> q ! j = p ! j)"
proof -
  have len: "34 \<le> length p" using assms(2) by (simp add: ip_frame_def)
  note macs = interface_mac [OF assms(1,6)] lookup_mac [OF assms(1,7)]
  let ?q = "readdress (ae_mac e) (if_addr i) (hop p)"
  have "sr_handlepacket tm p iface s = Inr (sent s [(?q, strncpy 16 (rt_interface rt))])"
    using assms(2-5) len route_known [of s "hop p" e rt i tm] assms(6,7) macs
    by (simp add: ip_frame_handled forward_hop)
  then show ?thesis using len macs
    by (intro exI [of _ ?q]) (auto simp: readdress_nth nth_hop)
qed

text \<open>
  The route a router has to choose: it matches, and no matching route has a bit in its mask that is
  not in its own. Its gateway is the next hop.
\<close>

definition longest_match :: "sr_instance \<Rightarrow> ip \<Rightarrow> sr_rt \<Rightarrow> bool" where
  "longest_match s dst rt \<longleftrightarrow> rt \<in> set (routing_table s) \<and> rt_matches dst rt
     \<and> (\<forall>r \<in> set (routing_table s). rt_matches dst r \<longrightarrow> rt_mask r AND rt_mask rt = rt_mask r)"

text \<open>
  C7: A packet that is not for the router and has at least two hops to live, whose route is a longest
  match and the first of the table, names the destination itself as gateway (so the destination is
  the next hop), and whose next hop is in the cache, leaves in exactly one frame, out of the interface
  the route names, addressed to the hardware address in the cache, with one hop less to live and a
  header that verifies; no other byte changes, and the state of the router does not either. (For
  other routes the code looks the destination up all the same and ignores the gateway.)
\<close>
theorem known_hop_forwarded:
  assumes "router_inv ifs rts s" "ip_frame p" "1 < ip_ttl p" "find_if_match s (ip_dst p) = None"
    and "find_rt_match s (ip_dst p) = Some rt" "longest_match s (ip_dst p) rt" "rt_gw rt = ip_dst p"
    and "sr_get_interface s (rt_interface rt) = Some i" "sr_arpcache_lookup s (rt_gw rt) = Some e"
  shows "\<exists>q. sr_handlepacket tm p iface s = Inr (sent s [(q, strncpy 16 (rt_interface rt))])
    \<and> ether_dhost q = ae_mac e \<and> ether_shost q = if_addr i
    \<and> unat (ip_ttl q) = unat (ip_ttl p) - 1 \<and> word_sum (ip_hdr q) mod 65535 = 0
    \<and> length q = length p
    \<and> (\<forall>j. 12 \<le> j \<and> j < length p \<and> j \<notin> {22, 24, 25} \<longrightarrow> q ! j = p ! j)"
proof -
  have ttl: "ip_ttl p \<noteq> 1" "unat (ip_ttl p - 1) = unat (ip_ttl p) - 1"
    using assms(3) by (auto simp: unat_sub word_le_nat_alt word_less_nat_alt)
  have "sr_arpcache_lookup s (ip_dst p) = Some e" using assms(7,9) by simp
  from cached_destination_forwarded [OF assms(1,2) ttl(1) assms(4,5,8) this, of tm iface]
  show ?thesis using ttl(2) by auto
qed

lemma demo_longest: "longest_match (demo_router es rs) a (demo_rts ! 0)"
  by (simp add: longest_match_def demo_router_def demo_rts_def rt_matches_def)

definition demo_entry :: sr_arpentry where
  "demo_entry = \<lparr>ae_mac = [2, 0, 0, 0, 0, 7], ae_ip = 0x0500000A, ae_added = 0, ae_valid = True\<rparr>"

lemma demo_lookup_entry:
  "sr_arpcache_lookup (demo_router [demo_entry] rs) 0x0500000A = Some demo_entry"
  "sr_arpcache_lookup (demo_router [] rs) a = None"
  by (simp_all add: sr_arpcache_lookup_def demo_router_def last_entry_none last_entry_append
      empty_entry_def) (simp add: demo_entry_def last_entry_none)

theorem known_hop_forwarded_witness:
  "\<exists>q. sr_handlepacket (\<lambda>_. 100) (demo_frame 64 17 0x0500000A [1, 2, 3]) ''eth0'' (demo_router [demo_entry] [])
       = Inr (sent (demo_router [demo_entry] []) [(q, ''eth1'')])
     \<and> ether_dhost q = [2, 0, 0, 0, 0, 7] \<and> ip_ttl q = 63"
proof -
  let ?s = "demo_router [demo_entry] []" and ?p = "demo_frame 64 17 0x0500000A [1, 2, 3]"
  have inv: "router_inv demo_ifs demo_rts ?s"
    by (rule demo_router_inv) (simp_all add: demo_entry_def queue_ok_def SR_ARPCACHE_SZ_def)
  have f: "ip_frame ?p" by (rule demo_frame_ok) simp
  from known_hop_forwarded [OF inv f, of "demo_rts ! 0" "demo_ifs ! 1" demo_entry "\<lambda>_. 100" "''eth0''"]
  have "\<exists>q. sr_handlepacket (\<lambda>_. 100) ?p ''eth0'' ?s = Inr (sent ?s [(q, strncpy 16 ''eth1'')])
      \<and> ether_dhost q = ae_mac demo_entry \<and> unat (ip_ttl q) = 63"
    by (auto simp: demo_frame_fields demo_lookups demo_interfaces demo_lookup_entry demo_longest)
  then show ?thesis by (auto simp: strncpy_def demo_entry_def word_unat_eq_iff)
qed

text \<open>
  What the code does with a packet whose destination address is neither in the cache nor being asked
  for, whatever the gateway of the route.
\<close>

lemma unknown_destination_asked:
  assumes "router_inv ifs rts s" "ip_frame p" "ip_ttl p \<noteq> 1" "find_if_match s (ip_dst p) = None"
    and "find_rt_match s (ip_dst p) = Some rt" "sr_get_interface s (rt_interface rt) = Some i"
    and "sr_arpcache_lookup s (ip_dst p) = None" "\<forall>r \<in> set (requests s). rq_ip r \<noteq> ip_dst p"
    and "1 < tm (n_time s)"
  shows "\<exists>f q. sr_handlepacket tm p iface s = Inr (sent (s\<lparr>n_time := Suc (n_time s),
        next_req := Suc (next_req s),
        requests := \<lparr>rq_id = next_req s, rq_ip = ip_dst p, rq_sent = tm (n_time s), rq_times_sent = 1,
                     rq_packets = [\<lparr>pk_buf = q, pk_iface = strncpy 32 (if_name i)\<rparr>]\<rparr> # requests s\<rparr>)
        [(f, strncpy 16 (if_name i))])
    \<and> ether_dhost f = replicate 6 0xff \<and> ether_shost f = if_addr i \<and> ethertype f = ethertype_arp
    \<and> ntohs (ar_op f) = arp_op_request \<and> ar_sip f = if_ip i \<and> ar_tip f = ip_dst p
    \<and> ip_ttl q = ip_ttl p - 1 \<and> drop 34 q = drop 34 p"
proof -
  have len: "34 \<le> length p" using assms(2) by (simp add: ip_frame_def)
  let ?q = "hop p" and ?f = "arp_request_frame i (ip_dst p)"
  let ?pk = "\<lparr>pk_buf = ?q, pk_iface = strncpy 32 (if_name i)\<rparr>"
  let ?r = "\<lparr>rq_id = next_req s, rq_ip = ip_dst p, rq_sent = 0, rq_times_sent = 0, rq_packets = [?pk]\<rparr>"
  let ?s = "s\<lparr>next_req := Suc (next_req s), requests := ?r # requests s, n_time := Suc (n_time s)\<rparr>"
  have old: "rq_id r \<noteq> next_req s" if "r \<in> set (requests s)" for r
    using assms(1) that by (auto simp: router_inv_def queue_ok_def list_all_iff req_ok_def)
  then have map_old: "map (\<lambda>r. if rq_id r = next_req s then g r else r) (requests s) = requests s" for g
    by (simp add: map_idI)
  have new: "find (\<lambda>r. rq_ip r = ip_dst p) (requests s) = None" using assms(8) by (simp add: find_None_iff)
  have "?q \<noteq> []" using len by (metis hop_fields(1) length_0_conv not_numeral_le_zero)
  then have q: "sr_arpcache_queuereq (ip_dst p) ?q (if_name i) s = (next_req s, s\<lparr>next_req := Suc (next_req s), requests := ?r # requests s\<rparr>)"
    using new map_old by (simp add: sr_arpcache_queuereq_def find_or_add_req_def upd_req_def sr_IFACE_NAMELEN_def)
  note mac = interface_mac [OF assms(1,6)]
  have fields: "length ?f = 42" "ether_dhost ?f = replicate 6 0xff" "ether_shost ?f = if_addr i"
    "ethertype ?f = ethertype_arp" "ntohs (ar_op ?f) = arp_op_request" "ar_sip ?f = if_ip i"
    "ar_tip ?f = ip_dst p"
    using eth_arp_fields [OF _ mac mac _ arp_request_frame_def] by (simp_all add: zeros_def)
  have "sr_get_interface ?s (if_name i) = Some i"
    using get_interface_own [OF assms(6)] by (simp add: sr_get_interface_def)
  from send_ok [OF this, of ?f] have snd: "sr_send_packet ?f (if_name i) ?s = sent ?s [(?f, strncpy 16 (if_name i))]"
    using fields by simp
  have gi: "sr_get_interface ?s (strncpy 32 (if_name i)) = Some i"
    using get_interface_own [OF assms(6)]
    by (simp add: sr_get_interface_def strncmp_eq_def strncpy_def sr_IFACE_NAMELEN_def)
  have "handle_cached_request tm (next_req s) (s\<lparr>next_req := Suc (next_req s), requests := ?r # requests s\<rparr>) =
      Inr (upd_req (next_req s) (\<lambda>r. r\<lparr>rq_sent := tm (n_time s), rq_times_sent := rq_times_sent r + 1\<rparr>)
        (sent ?s [(?f, strncpy 16 (if_name i))]))"
    using assms(9) len gi snd
    by (simp add: handle_cached_request_def time_now_def send_arp_request_def)
  then have "sr_handlepacket tm p iface s =
      Inr (upd_req (next_req s) (\<lambda>r. r\<lparr>rq_sent := tm (n_time s), rq_times_sent := rq_times_sent r + 1\<rparr>)
        (sent ?s [(?f, strncpy 16 (if_name i))]))"
    using assms(2-7) len q by (simp add: ip_frame_handled forward_hop route_packet_def with_if_def)
  then show ?thesis using fields len map_old
    by (intro exI [of _ ?f] exI [of _ ?q]) (simp add: upd_req_def sent_def)
qed

text \<open>
  C23: A packet that is not for the router and has at least two hops to live, whose route is a longest
  match and the first of the table, names the destination itself as gateway, and whose next hop is
  neither in the cache nor being asked for, is queued, with one hop less to live, under a new request,
  and one ARP request for the next hop is broadcast at once from the interface the route names. (For
  other routes the code asks for the destination all the same and ignores the gateway.)
\<close>
theorem unknown_hop_asked:
  assumes "router_inv ifs rts s" "ip_frame p" "1 < ip_ttl p" "find_if_match s (ip_dst p) = None"
    and "find_rt_match s (ip_dst p) = Some rt" "longest_match s (ip_dst p) rt" "rt_gw rt = ip_dst p"
    and "sr_get_interface s (rt_interface rt) = Some i"
    and "sr_arpcache_lookup s (rt_gw rt) = None" "\<forall>r \<in> set (requests s). rq_ip r \<noteq> rt_gw rt"
    and "1 < tm (n_time s)"
  shows "\<exists>f q. sr_handlepacket tm p iface s = Inr (sent (s\<lparr>n_time := Suc (n_time s),
        next_req := Suc (next_req s),
        requests := \<lparr>rq_id = next_req s, rq_ip = rt_gw rt, rq_sent = tm (n_time s), rq_times_sent = 1,
                     rq_packets = [\<lparr>pk_buf = q, pk_iface = strncpy 32 (if_name i)\<rparr>]\<rparr> # requests s\<rparr>)
        [(f, strncpy 16 (if_name i))])
    \<and> ether_dhost f = replicate 6 0xff \<and> ether_shost f = if_addr i \<and> ethertype f = ethertype_arp
    \<and> ntohs (ar_op f) = arp_op_request \<and> ar_sip f = if_ip i \<and> ar_tip f = rt_gw rt
    \<and> unat (ip_ttl q) = unat (ip_ttl p) - 1 \<and> drop 34 q = drop 34 p"
proof -
  have ttl: "ip_ttl p \<noteq> 1" "unat (ip_ttl p - 1) = unat (ip_ttl p) - 1"
    using assms(3) by (auto simp: unat_sub word_le_nat_alt word_less_nat_alt)
  have "sr_arpcache_lookup s (ip_dst p) = None" "\<forall>r \<in> set (requests s). rq_ip r \<noteq> ip_dst p"
    using assms(7,9,10) by simp_all
  note asked = unknown_destination_asked [where tm = tm and iface = iface,
      OF assms(1,2) ttl(1) assms(4,5,8) this assms(11)]
  show ?thesis
    unfolding assms(7) by (rule exE [OF asked], erule exE, intro exI) (use ttl(2) in auto)
qed

theorem unknown_hop_asked_witness:
  "\<exists>f s'. sr_handlepacket (\<lambda>_. 100) (demo_frame 64 17 0x0500000A []) ''eth0'' (demo_router [] []) = Inr s'
     \<and> out s' = [(f, ''eth1'')] \<and> ar_tip f = 0x0500000A \<and> length (requests s') = 1"
proof -
  let ?p = "demo_frame 64 17 0x0500000A []"
  have f: "ip_frame ?p" by (rule demo_frame_ok) simp
  from unknown_hop_asked [OF demo_empty_inv f, of "demo_rts ! 0" "demo_ifs ! 1" "\<lambda>_. 100" "''eth0''"]
  show ?thesis
    by (auto simp: demo_frame_fields demo_lookups demo_interfaces demo_lookup_entry demo_longest)
      (auto simp: demo_router_def sent_def strncpy_def demo_interfaces)
qed

text \<open>
  C24: An ARP reply to one of the router's addresses releases the request its sender answers: every
  packet that waits for it goes out on the interface the reply came from, last queued first,
  addressed to the sender's hardware address, and the request leaves the queue, the others stay.
\<close>
theorem arp_reply_releases_packets:
  assumes "router_inv ifs rts s" "42 \<le> length p" "ethertype p = ethertype_arp"
    and "ntohs (ar_op p) = arp_op_reply" "find_if_match s (ar_tip p) = Some i"
    and "sr_get_interface s iface = Some i"
    and "requests s = l @ r # l'" "rq_ip r = ar_sip p"
  shows "\<exists>s'. sr_handlepacket tm p iface s = Inr s' \<and> requests s' = l @ l'
    \<and> out s' = out s @ map (\<lambda>pk. (readdress (ar_sha p) (if_addr i) (pk_buf pk), strncpy 16 iface)) (rq_packets r)"
proof -
  have q: "queue_ok ifs (next_req s) (requests s)" using assms(1) by (simp add: router_inv_def)
  then have ip: "\<forall>x \<in> set l. rq_ip x \<noteq> ar_sip p" and ident: "\<forall>x \<in> set (l @ l'). rq_id x \<noteq> rq_id r"
    and pks: "\<forall>pk \<in> set (rq_packets r). 34 \<le> length (pk_buf pk)"
    using assms(7,8) by (auto simp: queue_ok_def req_ok_def packet_ok_def ETH_SIZE_def IP_SIZE_def rev_image_eqI)
  note mac = interface_mac [OF assms(1,6)]
  obtain s1 where ins: "sr_arpcache_insert tm (if_addr i) (ar_sip p) s = (Some r, s1)"
    "requests s1 = l @ l'" "out s1 = out s" "if_list s1 = if_list s"
    using take_req_split [OF ip assms(8), of l'] assms(7)
    by (auto simp: sr_arpcache_insert_def time_now_def Let_def split: option.splits)
  have "sr_get_interface s1 iface = Some i" using ins(4) assms(6) by (simp add: sr_get_interface_def)
  from flush_sends [OF this refl mac _ pks, of "ar_sha p"] have
    "flush_packets i (ar_sha p) iface (rq_packets r) s1 = Inr (sent s1
      (map (\<lambda>pk. (readdress (ar_sha p) (if_addr i) (pk_buf pk), strncpy 16 iface)) (rq_packets r)))"
    using assms(2) by (simp add: ar_sha_def)
  then have "sr_handle_arp_reply tm p iface s = Inr (sr_arpreq_destroy (rq_id r) (sent s1
      (map (\<lambda>pk. (readdress (ar_sha p) (if_addr i) (pk_buf pk), strncpy 16 iface)) (rq_packets r))))"
    using assms(2,5) ins(1) by (simp add: sr_handle_arp_reply_def ETH_SIZE_def ARP_SIZE_def)
  moreover have "ethertype_arp \<noteq> ethertype_ip" by (simp add: ethertype_arp_def ethertype_ip_def)
  ultimately show ?thesis
    using assms(2-4) ins ident take_req_none [of "l @ l'" "\<lambda>x. rq_id x = rq_id r"]
    by (simp add: sr_handlepacket_def sr_handle_arp_packet_def ETH_SIZE_def sr_arpreq_destroy_def sent_def)
qed

definition demo_request :: sr_arpreq where
  "demo_request = \<lparr>rq_id = 0, rq_ip = 0x0500000A, rq_sent = 100, rq_times_sent = 1,
     rq_packets = [\<lparr>pk_buf = demo_frame 63 17 0x0500000A [1], pk_iface = ''eth1''\<rparr>]\<rparr>"

definition demo_reply :: frame where
  "demo_reply = make_eth_packet [2, 0, 0, 0, 0, 2] [2, 0, 0, 0, 0, 7] ethertype_arp
     (make_arp_packet arp_op_reply [2, 0, 0, 0, 0, 7] 0x0500000A [2, 0, 0, 0, 0, 2] 0x0101000A)"

lemma demo_reply_fields:
  "length demo_reply = 42" "ethertype demo_reply = ethertype_arp" "ntohs (ar_op demo_reply) = arp_op_reply"
  "ar_sha demo_reply = [2, 0, 0, 0, 0, 7]" "ar_sip demo_reply = 0x0500000A" "ar_tip demo_reply = 0x0101000A"
  using eth_arp_fields [OF _ _ _ _ demo_reply_def] by simp_all

lemma demo_waiting_inv: "router_inv demo_ifs demo_rts (demo_router [] [demo_request])"
  by (rule demo_router_inv)
    (simp_all add: queue_ok_def req_ok_def packet_ok_def demo_request_def demo_frame_fields ETH_SIZE_def
      IP_SIZE_def has_if_def demo_ifs_def strncmp_eq_def)

lemma demo_reply_match: "find_if_match (demo_router es rs) 0x0101000A = Some (demo_ifs ! Suc 0)"
  by (simp add: find_if_match_def demo_router_def demo_ifs_def)

theorem arp_reply_releases_packets_witness:
  "\<exists>s' f. sr_handlepacket (\<lambda>_. 100) demo_reply ''eth1'' (demo_router [] [demo_request]) = Inr s'
     \<and> requests s' = [] \<and> out s' = [(f, ''eth1'')] \<and> ether_dhost f = [2, 0, 0, 0, 0, 7]"
  using arp_reply_releases_packets [OF demo_waiting_inv, of demo_reply "demo_ifs ! Suc 0" "''eth1''" "[]"
      demo_request "[]" "\<lambda>_. 100"]
  by (auto simp: demo_reply_fields demo_reply_match demo_interfaces)
    (auto simp: demo_router_def demo_request_def demo_interfaces demo_frame_fields strncpy_def)

text \<open>
  What an ARP reply puts into the cache for its sender is the hardware address of the router's
  own interface, not the sender's: when a slot is free and the sender has no entry yet, the next
  lookup of the sender gives the router's own address, and so the next packet to the sender is
  addressed to the router itself.
\<close>
theorem arp_reply_caches_own_address:
  assumes "router_inv ifs rts s" "42 \<le> length p" "ethertype p = ethertype_arp"
    and "ntohs (ar_op p) = arp_op_reply" "find_if_match s (ar_tip p) = Some i"
    and "\<exists>e \<in> set (entries s). \<not> ae_valid e" "sr_arpcache_lookup s (ar_sip p) = None"
    and "\<forall>r \<in> set (requests s). rq_ip r \<noteq> ar_sip p"
  shows "\<exists>s' e. sr_handlepacket tm p iface s = Inr s' \<and> out s' = out s
    \<and> sr_arpcache_lookup s' (ar_sip p) = Some e \<and> ae_mac e = if_addr i
    \<and> (\<forall>q. ip_dst q = ar_sip p \<and> 34 \<le> length q \<longrightarrow>
         route_packet tm q rt s' = with_if s' (rt_interface rt) (\<lambda>j.
           Inr (sr_send_packet (readdress (if_addr i) (if_addr j) q) (rt_interface rt) s')))"
proof -
  let ?e = "\<lparr>ae_mac = take 6 (if_addr i), ae_ip = ar_sip p, ae_added = tm (n_time s), ae_valid = True\<rparr>"
  obtain es where es: "fill_slot ?e (entries s) = Some es" using fill_slot_free [OF assms(6)] by blast
  let ?s = "s\<lparr>requests := requests s, n_time := Suc (n_time s), entries := es\<rparr>"
  have "i \<in> set ifs" using find_SomeD assms(1,5) by (fastforce simp: find_if_match_def router_inv_def)
  then have mac: "length (if_addr i) = 6" using assms(1) by (simp add: router_inv_def net_ok_def)
  obtain a x b where ab: "entries s = a @ x # b" "es = a @ ?e # b"
    using fill_slot_split [OF es] by blast
  have none: "\<not> (ae_valid y \<and> ae_ip y = ar_sip p)" if "y \<in> set (entries s)" for y
  proof -
    have "last_entry (ar_sip p) f l = None \<longrightarrow> f = None \<and> (\<forall>y \<in> set l. \<not> (ae_valid y \<and> ae_ip y = ar_sip p))"
      for f l by (induction l arbitrary: f) auto
    then show ?thesis using assms(7) that by (simp add: sr_arpcache_lookup_def)
  qed
  then have lk: "sr_arpcache_lookup ?s (ar_sip p) = Some ?e"
    using ab by (simp add: sr_arpcache_lookup_def last_entry_append last_entry_none)
  have "sr_arpcache_insert tm (if_addr i) (ar_sip p) s = (None, ?s)"
    using es take_req_none [of "requests s" "\<lambda>r. rq_ip r = ar_sip p"] assms(8)
    by (simp add: sr_arpcache_insert_def time_now_def Let_def)
  then have "sr_handlepacket tm p iface s = Inr ?s"
    using assms(2-5)
    by (simp add: sr_handlepacket_def sr_handle_arp_packet_def sr_handle_arp_reply_def ETH_SIZE_def
        ARP_SIZE_def ethertype_arp_def ethertype_ip_def)
  then show ?thesis using lk mac
    by (intro exI [of _ ?s] exI [of _ ?e]) (simp add: route_packet_def readdress_def)
qed

theorem arp_reply_caches_own_address_witness:
  "\<exists>s' e. sr_handlepacket (\<lambda>_. 100) demo_reply ''eth1'' (demo_router [] []) = Inr s'
     \<and> sr_arpcache_lookup s' 0x0500000A = Some e \<and> ae_mac e = [2, 0, 0, 0, 0, 2]"
proof -
  have free: "\<exists>e \<in> set (entries (demo_router [] [])). \<not> ae_valid e"
    by (simp add: demo_router_def SR_ARPCACHE_SZ_def empty_entry_def)
  show ?thesis
    using arp_reply_caches_own_address [OF demo_empty_inv, of demo_reply "demo_ifs ! Suc 0" "\<lambda>_. 100" "''eth1''"
        "demo_rts ! 0"] free
    by (auto simp: demo_reply_fields demo_reply_match demo_interfaces demo_lookup_entry)
      (auto simp: demo_router_def)
qed

text \<open>
  An ICMP echo request to one of the router's addresses is answered by exactly one frame, out
  of the interface it came in on and back to the address it came from, with the IP addresses
  exchanged, a header that verifies, type 0 and the same data. (The ICMP checksum is only taken
  over the first four bytes of the message.)
\<close>
theorem echo_request_answered:
  assumes "router_inv ifs rts s" "ip_frame p" "38 \<le> length p" "find_if_match s (ip_dst p) \<noteq> None"
    and "ip_p p = ip_protocol_icmp" "icmp_type p = 8" "sr_get_interface s iface = Some i"
  shows "\<exists>q. sr_handlepacket tm p iface s = Inr (sent s [(q, strncpy 16 iface)])
    \<and> ether_dhost q = ether_shost p \<and> ether_shost q = if_addr i \<and> ip_src q = ip_dst p
    \<and> ip_dst q = ip_src p \<and> icmp_type q = 0 \<and> word_sum (ip_hdr q) mod 65535 = 0
    \<and> word_sum (take 4 (drop 34 q)) mod 65535 = 0 \<and> drop 38 q = drop 38 p"
proof -
  define p1 where "p1 = memput (p[34 := 0]) 36 [0, 0]"
  define p2 where "p2 = memput p1 36 (bytes16 (cksum (take ICMP_SIZE (drop 34 p1))))"
  define p3 where "p3 = memput (memput p2 26 (bytes32 (ip_dst p2))) 30 (bytes32 (ip_src p2))"
  have len: "length p1 = length p" "length p2 = length p" "length p3 = length p" "34 \<le> length p"
    using assms(3) by (simp_all add: p1_def p2_def p3_def)
  have e: "echo_reply_ip p = set_ip_sum p3"
    by (simp add: echo_reply_ip_def p1_def p2_def p3_def Let_def)
  let ?q = "readdress (ether_shost p) (if_addr i) (set_ip_sum p3)"
  have mac: "length (if_addr i) = 6" "length (ether_shost p) = 6"
    using interface_mac [OF assms(1,7)] assms(3) by (simp_all add: ether_shost_def)
  have nth2: "p2 ! j = p ! j" if "j < length p" "j \<notin> {34, 36, 37}" for j
    using that assms(3) by (auto simp: p2_def p1_def nth_memput)
  have addr2: "ip_dst p2 = ip_dst p" "ip_src p2 = ip_src p"
    using assms(3) by (simp_all add: ip_dst_def ip_src_def load32_def nth2)
  have src3: "ip_src p3 = ip_dst p" and dst3: "ip_dst p3 = ip_src p"
    using assms(3) len addr2 by (simp_all add: ip_src_def ip_dst_def p3_def load32_memput_other)
  have nth3: "p3 ! j = p2 ! j" if "j < length p" "j \<notin> {26..33}" for j
    using that assms(3) len by (auto simp: p3_def nth_memput)
  have shost: "ether_shost (set_ip_sum p3) = ether_shost p"
    using assms(3) len by (simp add: ether_shost_def) (auto intro!: nth_equalityI simp: nth_set_ip_sum nth3 nth2)
  have four: "take 4 (drop 34 (set_ip_sum p3)) = put_sum 2 (take 4 (drop 34 p1))"
    using assms(3) len
    by (intro nth_equalityI) (auto simp: nth3 p2_def put_sum_def nth_memput ICMP_SIZE_def)
  have "icmp_type (set_ip_sum p3) = 0"
    using assms(3) len by (simp add: icmp_type_def nth_set_ip_sum nth3) (simp add: p2_def p1_def nth_memput)
  then have ty: "icmp_type ?q = 0" using assms(3) len mac by (simp add: icmp_type_def readdress_nth)
  have ver: "word_sum (put_sum 2 (take 4 (drop 34 p1))) mod 65535 = 0"
    by (rule put_sum_verifies) (use assms(3) len in \<open>simp_all add: p1_def nth_memput\<close>)
  have d34: "drop 34 ?q = drop 34 (set_ip_sum p3)"
    using len mac by (intro nth_equalityI) (simp_all add: readdress_nth nth_set_ip_sum)
  have d38: "drop 38 (set_ip_sum p3) = drop 38 p"
    using assms(3) len by (intro nth_equalityI) (simp_all add: nth_set_ip_sum nth3 nth2)
  have d38': "drop 38 ?q = drop 38 p"
    using arg_cong [OF d34, of "drop 4"] d38 by simp
  have "sr_send_packet ?q iface s = sent s [(?q, strncpy 16 iface)]"
    by (rule send_ok [OF assms(7)]) (use len mac in simp_all)
  then have "sr_handlepacket tm p iface s = Inr (sent s [(?q, strncpy 16 iface)])"
    using assms(2-7) len mac shost
    by (simp add: ip_frame_handled handle_local_def echo_reply_def with_if_def e readdress_swap)
  then show ?thesis using ty four ver d34 d38' mac len shost src3 dst3
    by (intro exI [of _ ?q]) (simp add: set_ip_sum_verifies)
qed

theorem echo_request_answered_witness:
  "\<exists>q. sr_handlepacket (\<lambda>_. 100) (demo_frame 64 1 0x0100000A [8, 0, 0, 0, 5, 6]) ''eth0'' (demo_router [] [])
       = Inr (sent (demo_router [] []) [(q, ''eth0'')])
     \<and> ether_dhost q = [2, 0, 0, 0, 0, 9] \<and> ip_dst q = 0x0900000A \<and> drop 38 q = [5, 6]"
proof -
  let ?p = "demo_frame 64 1 0x0100000A [8, 0, 0, 0, 5, 6]"
  have f: "ip_frame ?p" by (rule demo_frame_ok) simp
  have "drop 34 ?p = [8, 0, 0, 0, 5, 6]" by (simp only: demo_frame_fields)
  then have t: "icmp_type ?p = 8" "drop 38 ?p = [5, 6]"
    using nth_drop [of 34 ?p 0] drop_drop [of 4 34 ?p] by (simp_all add: icmp_type_def demo_frame_fields)
  from echo_request_answered [OF demo_empty_inv f, of "''eth0''" "demo_ifs ! 0" "\<lambda>_. 100"] t
  show ?thesis
    by (auto simp: demo_frame_fields demo_lookups demo_interfaces ip_protocol_icmp_def strncpy_def)
qed

text \<open>
  C29: A packet on its last hop that is not for the router is not forwarded: it is answered by one
  ICMP time-exceeded message (type 11) to where it came from, from the address of the interface it
  came in on, whose two checksums verify and which quotes the header and eight bytes of the
  packet.
\<close>
theorem expired_packet_reported:
  assumes "router_inv ifs rts s" "ip_frame p" "42 \<le> length p" "find_if_match s (ip_dst p) = None"
    and "ip_ttl p = 1" "sr_get_interface s iface = Some i"
  shows "\<exists>q. sr_handlepacket tm p iface s = Inr (sent s [(q, strncpy 16 iface)])
    \<and> length q = 70 \<and> ether_dhost q = ether_shost p \<and> ip_src q = if_ip i \<and> ip_dst q = ip_src p
    \<and> ip_p q = ip_protocol_icmp \<and> icmp_type q = 11 \<and> word_sum (ip_hdr q) mod 65535 = 0
    \<and> word_sum (drop 34 q) mod 65535 = 0
    \<and> (\<forall>j < 28. j \<notin> {8, 10, 11} \<longrightarrow> q ! (42 + j) = p ! (14 + j))"
proof -
  let ?p = "p[22 := 0]" and ?c = "bytes16 (cksum (take 20 (memput (drop 14 (p[22 := 0])) 10 [0, 0])))"
  let ?d = "memput (memput (drop 14 ?p) 10 [0, 0]) 10 ?c"
  note mac = interface_mac [OF assms(1,6)]
  have l: "28 \<le> length (drop 14 ?p)" using assms(3) by simp
  obtain icmp where icmp: "make_icmp_packet 11 0 (drop 14 ?p) ICMP_DATA_SIZE = Inr (icmp, ?d)"
    "length icmp = 36" "icmp ! 0 = 11" "drop 8 icmp = take 28 ?d" "word_sum icmp mod 65535 = 0"
    using icmp_error_fields [OF _ l, of 11 0] by auto
  define og where "og = take 14 p @ ?d"
  have og: "ether_shost og = ether_shost p" "ip_src og = ip_src p"
    using assms(3)
    by (auto simp: og_def ether_shost_def ip_src_def load32_def nth_append nth_memput
        intro!: nth_equalityI)
  let ?ipp = "make_ip_packet 0 10 ip_protocol_icmp (ip_id og) (if_ip i) (ip_src p) icmp"
  define q where "q = make_eth_packet (ether_shost p) (if_addr i) ethertype_ip ?ipp"
  have sh: "length (ether_shost p) = 6" using assms(3) by (simp add: ether_shost_def)
  note f = eth_ip_fields [OF sh mac q_def]
  have fr: "icmp_error_frame 11 0 10 ip_id i ?p = Inr q"
    using icmp(1) og by (simp add: icmp_error_frame_def ETH_SIZE_def og_def [symmetric] q_def Let_def)
  have snd: "sr_send_packet q iface s = sent s [(q, strncpy 16 iface)]"
    by (rule send_ok [OF assms(6)]) (use f icmp(2) in simp_all)
  have "ip_ttl ?p = 0" using assms(3) by (simp add: ip_ttl_def)
  then have "forward_packet tm p iface s = Inr (sent s [(q, strncpy 16 iface)])"
    using assms(5,6) fr snd by (simp add: forward_packet_def time_exceeded_def with_if_def)
  then have run: "sr_handlepacket tm p iface s = Inr (sent s [(q, strncpy 16 iface)])"
    using assms(4) by (simp add: ip_frame_handled [OF assms(2)])
  have len: "34 \<le> length q" "length q = 70" using f(4) icmp(2) by simp_all
  note h = ip_header_nth [OF f(5)]
  have icmp_q: "q ! (34 + j) = icmp ! j" for j
    using f(6) len by (metis add.commute add_leD1 nth_drop)
  have quote: "q ! (42 + j) = p ! (14 + j)" if "j < 28" "j \<notin> {8, 10, 11}" for j
  proof -
    have "q ! (42 + j) = icmp ! (8 + j)" using icmp_q [of "8 + j"] by simp
    also have "\<dots> = drop 8 icmp ! j" using icmp(2) by simp
    also have "\<dots> = ?d ! j" using icmp(4) that(1) by simp
    also have "\<dots> = p ! (14 + j)"
    proof (cases "j < 10")
      case True
      then show ?thesis using that assms(3) by (simp add: nth_memput)
    next
      case False
      then have "12 \<le> j" using that by auto
      then show ?thesis using that(1) assms(3) by (simp add: nth_memput)
    qed
    finally show ?thesis .
  qed
  show ?thesis using run f len icmp h icmp_q [of 0] quote
    by (intro exI [of _ q]) (simp add: ip_fields_hdr ip_header_verifies icmp_type_def)
qed

theorem expired_packet_reported_witness:
  "\<exists>q. sr_handlepacket (\<lambda>_. 100) (demo_frame 1 17 0x0500000A (replicate 8 3)) ''eth0'' (demo_router [] [])
       = Inr (sent (demo_router [] []) [(q, ''eth0'')])
     \<and> ether_dhost q = [2, 0, 0, 0, 0, 9] \<and> icmp_type q = 11 \<and> ip_src q = 0x0100000A"
proof -
  let ?p = "demo_frame 1 17 0x0500000A (replicate 8 3)"
  have f: "ip_frame ?p" by (rule demo_frame_ok) simp
  from expired_packet_reported [OF demo_empty_inv f, of "''eth0''" "demo_ifs ! 0" "\<lambda>_. 100"]
  show ?thesis by (auto simp: demo_frame_fields demo_lookups demo_interfaces strncpy_def)
qed

text \<open>
  C9: A well-configured router never faults: from any state that satisfies the invariant, whatever
  frames of at least 42 bytes arrive on its interfaces and however often the timeout thread runs
  in between, every event is handled to its end without reading past a packet or following a null
  pointer; the invariant holds after them, so that never more than five requests were sent for a
  queued address and no two queued requests are for the same one.
\<close>
theorem router_never_faults:
  assumes "router_inv ifs rts s" "list_all (event_ok ifs) evs"
  shows "\<exists>s'. run_events (router_step tm) evs s = Inr s' \<and> router_inv ifs rts s'
    \<and> (\<forall>r \<in> set (requests s'). rq_times_sent r \<le> 5) \<and> distinct (map rq_ip (requests s'))
    \<and> length (entries s') = SR_ARPCACHE_SZ"
proof -
  obtain s' where "run_events (router_step tm) evs s = Inr s'" "router_inv ifs rts s'"
    using router.run_total [OF assms] by blast
  then show ?thesis
    by (intro exI [of _ s']) (auto simp: router_inv_def queue_ok_def cache_ok_def list_all_iff req_ok_def)
qed

theorem router_never_faults_witness:
  "\<exists>s'. run_events (router_step (\<lambda>n. 100 * int n))
       [Ev_frame (demo_frame 9 17 0x0500000A (replicate 8 1)) ''eth0'', Ev_second, Ev_frame demo_reply ''eth1'']
       (demo_router [] []) = Inr s' \<and> router_inv demo_ifs demo_rts s'"
proof -
  let ?evs = "[Ev_frame (demo_frame 9 17 0x0500000A (replicate 8 1)) ''eth0'', Ev_second,
      Ev_frame demo_reply ''eth1'']"
  have "list_all (event_ok demo_ifs) ?evs"
    by (simp add: demo_frame_fields demo_reply_fields ETH_SIZE_def ARP_SIZE_def has_if_def demo_ifs_def
        strncmp_eq_def)
  from router_never_faults [OF demo_empty_inv this, of "\<lambda>n. 100 * int n"] show ?thesis by blast
qed

text \<open>
  The message that gives up on a queued packet cannot be understood by its receiver: it is
  sent as an ARP frame, and the last two bytes of the hardware address it goes to are replaced by
  a checksum of the frame's own Ethernet header, because the frame and not the IP packet in it is
  handed to \<open>make_icmp_packet\<close>.
\<close>
theorem host_unreachable_misaddressed:
  assumes "router_inv ifs rts s" "packet_ok ifs pk"
  shows "\<exists>f (i :: sr_if). host_unreachable pk s = Inr (sr_send_packet f (if_name i) s)
    \<and> ethertype f = ethertype_arp \<and> take 4 (ether_dhost f) = take 4 (ether_shost (pk_buf pk))
    \<and> drop 4 (ether_dhost f) = bytes16 (cksum (take 20 (memput (pk_buf pk) 10 [0, 0])))"
proof -
  let ?b = "pk_buf pk" and ?c = "bytes16 (cksum (take 20 (memput (pk_buf pk) 10 [0, 0])))"
  let ?d = "memput (memput ?b 10 [0, 0]) 10 ?c"
  have len: "34 \<le> length ?b" using assms(2) by (simp add: packet_ok_def ETH_SIZE_def IP_SIZE_def)
  obtain rt where rt: "find_rt_match s (ip_src ?b) = Some rt" "has_if ifs (rt_interface rt)"
    using find_rt_ok [OF assms(1)] by metis
  obtain i where i: "sr_get_interface s (rt_interface rt) = Some i" "length (if_addr i) = 6"
    using get_interface_ok [OF assms(1) rt(2)] by metis
  have l28: "28 \<le> length ?b" using len by simp
  obtain icmp where icmp: "make_icmp_packet 3 1 ?b ICMP_DATA_SIZE = Inr (icmp, ?d)"
    using icmp_error_fields [OF _ l28, of 3 1] by auto
  let ?f = "make_eth_packet (ether_shost ?d) (if_addr i) ethertype_arp
      (make_ip_packet 0 10 ip_protocol_icmp (ip_id ?d) (if_ip i) (ip_src ?d) icmp)"
  have sh: "ether_shost ?d = take 4 (ether_shost ?b) @ ?c"
    using len by (simp add: ether_shost_def memput_def take_drop)
  then have "length (ether_shost ?d) = 6" using len by (simp add: ether_shost_def)
  note f = eth_ip_fields [OF this i(2) refl, of ethertype_arp 0 10 ip_protocol_icmp "ip_id ?d" "if_ip i" "ip_src ?d" icmp]
  have "host_unreachable pk s = Inr (sr_send_packet ?f (if_name i) s)"
    using len rt(1) i(1) icmp by (simp add: host_unreachable_def)
  moreover have "length (take 4 (ether_shost ?b)) = 4" using len by (simp add: ether_shost_def)
  ultimately show ?thesis using f(1,3) sh by (intro exI [of _ ?f] exI [of _ i]) simp
qed

theorem host_unreachable_misaddressed_witness:
  "\<exists>f (i :: sr_if). host_unreachable \<lparr>pk_buf = demo_frame 63 17 0x0500000A [], pk_iface = ''eth1''\<rparr> (demo_router [] [])
       = Inr (sr_send_packet f (if_name i) (demo_router [] [])) \<and> ethertype f = ethertype_arp"
proof -
  have "packet_ok demo_ifs \<lparr>pk_buf = demo_frame 63 17 0x0500000A [], pk_iface = ''eth1''\<rparr>"
    by (simp add: packet_ok_def demo_frame_fields ETH_SIZE_def IP_SIZE_def has_if_def demo_ifs_def
        strncmp_eq_def)
  from host_unreachable_misaddressed [OF demo_empty_inv this] show ?thesis by blast
qed

text \<open>
  The route is the first matching entry of the table, in the order of the file, and not the
  one with the longest mask: behind a matching entry no later entry is ever used.
\<close>
theorem first_route_wins:
  "find_rt_match (sr_add_rt_entry d g m n s) a =
     (case find_rt_match s a of
        Some r \<Rightarrow> Some r
      | None \<Rightarrow> if d AND m = a AND m
                then Some \<lparr>rt_dest = d, rt_gw = g, rt_mask = m, rt_interface = strncpy 32 n\<rparr> else None)"
proof -
  have "find P (xs @ [x]) = (case find P xs of Some y \<Rightarrow> Some y | None \<Rightarrow> if P x then Some x else None)"
    for P and xs :: "sr_rt list" and x by (induction xs) auto
  then show ?thesis
    by (simp add: find_rt_match_def sr_add_rt_entry_def rt_matches_def sr_IFACE_NAMELEN_def)
qed

end
