(* ===== verification/BitPuzzles.thy ===== *)
theory BitPuzzles
  imports Prelude "HOL-Library.Signed_Division"
begin

text \<open>
  The bit puzzles of \<open>src/Systems/p1bitmanip\<close>: the solutions of \<open>changes.c\<close>, which may only use
  \<open>! ~ & ^ | + << >>\<close>, and the reference functions of \<open>tests.c\<close> that say what they have to compute.
  The theorems show that each solution returns what its reference returns, for every argument.

  An \<open>int\<close> is a 32-bit word. As the assignment prescribes, \<open>+\<close> wraps around and \<open>>>\<close> of a
  negative number is arithmetic; a shift takes its count modulo 32, as the machine does.
\<close>

section \<open>The operators\<close>

definition lnot :: "u32 \<Rightarrow> u32" where
  "lnot x = (if x = 0 then 1 else 0)"

definition shl :: "u32 \<Rightarrow> u32 \<Rightarrow> u32" where
  "shl x n = push_bit (unat n mod 32) x"

definition sar :: "u32 \<Rightarrow> u32 \<Rightarrow> u32" where
  "sar x n = signed_drop_bit (unat n mod 32) x"

section \<open>The solutions (changes.c)\<close>

definition absVal :: "u32 \<Rightarrow> u32" where
  "absVal x = (let y = sar x 31 in (x + y) XOR y)"

definition addOK :: "u32 \<Rightarrow> u32 \<Rightarrow> u32" where
  "addOK x y =
     (let s = x + y;
          x_neg = sar x 31 AND 1;
          y_neg = sar y 31 AND 1;
          sum_pos = sar s 31 + 1;
          x_pos = lnot x_neg;
          y_pos = lnot y_neg;
          sum_neg = lnot (lnot (sar s 31));
          neg_over = x_neg AND y_neg AND sum_pos;
          pos_over = x_pos AND y_pos AND sum_neg
      in lnot neg_over AND lnot pos_over)"

definition allEvenBits :: "u32 \<Rightarrow> u32" where
  "allEvenBits x =
     (let y = shl 0x55 24 XOR shl 0x55 16 XOR shl 0x55 8 XOR 0x55 in lnot ((x AND y) XOR y))"

definition byteSwap :: "u32 \<Rightarrow> u32 \<Rightarrow> u32 \<Rightarrow> u32" where
  "byteSwap x n m =
     (let mshift = shl m 3;
          nshift = shl n 3;
          bytem = 0xFF AND sar x mshift;
          byten = 0xFF AND sar x nshift;
          xholes = (x AND NOT (shl 0xFF mshift)) AND NOT (shl 0xFF nshift)
      in (xholes OR shl bytem nshift) OR shl byten mshift)"

definition divpwr2 :: "u32 \<Rightarrow> u32 \<Rightarrow> u32" where
  "divpwr2 x n = (let y = sar x 31 in sar (x + (y AND (shl 1 n + NOT 0))) n)"

definition ezThreeFourths :: "u32 \<Rightarrow> u32" where
  "ezThreeFourths x =
     (let threex = x + x + x; y = sar threex 31 in sar (threex + (y AND (4 + NOT 0))) 2)"

definition fitsBits :: "u32 \<Rightarrow> u32 \<Rightarrow> u32" where
  "fitsBits x n =
     (let shifted = sar x (n + (NOT 1 + 1));
          allones = NOT 0;
          allzeros = 0;
          shiftedallones = lnot (shifted XOR allones);
          shiftedallzeros = lnot (shifted XOR allzeros)
      in shiftedallones OR shiftedallzeros)"

definition ilog2 :: "u32 \<Rightarrow> u32" where
  "ilog2 x =
     (let onehalfones = shl (NOT 0) 16;
          twohalfones = shl (NOT 0) 8 XOR onehalfones;
          threehalfones = (shl (NOT 0) 4 XOR twohalfones) XOR onehalfones;
          fourhalfones = ((shl (NOT 0) 2 XOR threehalfones) XOR twohalfones) XOR onehalfones;
          fivehalfones = (((shl (NOT 0) 1 XOR fourhalfones) XOR threehalfones) XOR twohalfones)
            XOR onehalfones;
          any1 = lnot (lnot (x AND onehalfones));
          log1 = shl any1 4;
          x = sar x (shl any1 4);
          any2 = lnot (lnot (x AND twohalfones));
          log2 = log1 + shl any2 3;
          x = sar x (shl any2 3);
          any3 = lnot (lnot (x AND threehalfones));
          log3 = log2 + shl any3 2;
          x = sar x (shl any3 2);
          any4 = lnot (lnot (x AND fourhalfones));
          log4 = log3 + shl any4 1;
          x = sar x (shl any4 1);
          any5 = lnot (lnot (x AND fivehalfones))
      in log4 + any5)"

text \<open>\<open>greatestBitPos\<close> computes its \<open>ilog\<close> (lines 257 to 276) with the statements of \<open>ilog2\<close>.\<close>

definition greatestBitPos :: "u32 \<Rightarrow> u32" where
  "greatestBitPos x =
     (let isxzero = shl (lnot x) 31;
          isxneg = sar (x AND shl 1 31) 31;
          isxpos = sar (shl (lnot (isxzero OR isxneg)) 31) 31;
          zero_result = isxzero AND 0;
          neg_result = isxneg AND shl 1 31;
          pos_result = isxpos AND shl 1 (ilog2 x)
      in zero_result OR neg_result OR pos_result)"

definition implication :: "u32 \<Rightarrow> u32 \<Rightarrow> u32" where
  "implication x y = lnot x OR y"

definition isPower2 :: "u32 \<Rightarrow> u32" where
  "isPower2 x =
     (let y = sar x 31; z = sar (x + NOT 0) 31
      in lnot (x AND (x + NOT 0)) AND NOT y AND NOT z)"

definition logicalNeg :: "u32 \<Rightarrow> u32" where
  "logicalNeg x = (let negx = NOT x + 1; onlyzerozero = x OR negx in sar onlyzerozero 31 + 1)"

definition multFiveEighths :: "u32 \<Rightarrow> u32" where
  "multFiveEighths x =
     (let fivex = x + x + x + x + x; y = sar fivex 31 in sar (fivex + (y AND (8 + NOT 0))) 3)"

definition rotateLeft :: "u32 \<Rightarrow> u32 \<Rightarrow> u32" where
  "rotateLeft x n =
     (let y = sar x (32 + NOT n + 1) AND NOT (shl (NOT 0) n) in shl x n XOR y)"

definition satAdd :: "u32 \<Rightarrow> u32 \<Rightarrow> u32" where
  "satAdd x y =
     (let s = x + y;
          x_pos = NOT (sar x 31 AND 1);
          y_pos = NOT (sar y 31 AND 1);
          sum_pos = NOT (sar s 31 AND 1);
          neg_over = sar (shl (NOT (x_pos OR y_pos) AND sum_pos) 31) 31;
          pos_over = sar (shl (x_pos AND y_pos AND NOT sum_pos) 31) 31;
          over = neg_over OR pos_over;
          neg_result = neg_over AND shl 1 31;
          pos_result = pos_over AND NOT (shl 1 31);
          r = NOT over AND s
      in r OR neg_result OR pos_result)"

definition sm2tc :: "u32 \<Rightarrow> u32" where
  "sm2tc x = (let y = sar x 31 in (NOT y AND x) OR ((NOT (x XOR shl 1 31) + 1) AND y))"

definition tc2sm :: "u32 \<Rightarrow> u32" where
  "tc2sm x = (let y = sar x 31 in (NOT y AND x) OR ((NOT (x XOR shl 1 31) + 1) AND y))"

definition trueThreeFourths :: "u32 \<Rightarrow> u32" where
  "trueThreeFourths x =
     (let y = sar x 31;
          bit2 = lnot (lnot (3 AND x));
          quarter = sar x 2;
          quarter = quarter + (bit2 AND lnot y)
      in x + NOT quarter + 1)"

definition trueFiveEighths :: "u32 \<Rightarrow> u32" where
  "trueFiveEighths x =
     (let firstbit = sar x 31 AND 1;
          bias = shl firstbit 3 + (NOT firstbit + 1);
          firstbyte = x AND sar (shl 1 31) 7;
          firstbyte = sar (firstbyte + bias) 3;
          firstbyte = shl firstbyte 2 + firstbyte;
          otherbytes = x AND NOT (sar (shl 1 31) 7);
          otherbytes = shl otherbytes 2 + otherbytes;
          otherbytes = sar (otherbytes + bias) 3
      in firstbyte + otherbytes)"

section \<open>The references (tests.c)\<close>

abbreviation c_bool :: "bool \<Rightarrow> u32" where
  "c_bool b \<equiv> (if b then 1 else 0)"

text \<open>\<open>/\<close> of two ints, which rounds towards zero.\<close>

definition c_div :: "u32 \<Rightarrow> u32 \<Rightarrow> u32" where
  "c_div x y = of_int (sint x sdiv sint y)"

definition test_absVal :: "u32 \<Rightarrow> u32" where
  "test_absVal x = (if sint x < 0 then - x else x)"

definition test_addOK :: "u32 \<Rightarrow> u32 \<Rightarrow> u32" where
  "test_addOK x y =
     (let lsum = sint x + sint y in c_bool (lsum = sint (of_int lsum :: u32)))"

fun even_bits_loop :: "u32 \<Rightarrow> nat list \<Rightarrow> u32" where
  "even_bits_loop x [] = 1"
| "even_bits_loop x (i # js) = (if x AND push_bit i 1 = 0 then 0 else even_bits_loop x js)"

definition test_allEvenBits :: "u32 \<Rightarrow> u32" where
  "test_allEvenBits x = even_bits_loop x [0, 2, 4, 6, 8, 10, 12, 14, 16, 18, 20, 22, 24, 26, 28, 30]"

text \<open>One of the two switches of \<open>test_byteSwap\<close>: the byte taken out and the rest.\<close>

definition take_byte :: "u32 \<Rightarrow> u32 \<Rightarrow> u32 \<times> u32" where
  "take_byte n x =
     (if n = 0 then (x AND 0xFF, x AND 0xFFFFFF00)
      else if n = 1 then (sar (x AND 0xFF00) 8, x AND 0xFFFF00FF)
      else if n = 2 then (sar (x AND 0xFF0000) 16, x AND 0xFF00FFFF)
      else (drop_bit 24 (x AND 0xFF000000), x AND 0x00FFFFFF))"

definition test_byteSwap :: "u32 \<Rightarrow> u32 \<Rightarrow> u32 \<Rightarrow> u32" where
  "test_byteSwap x n m =
     (let (nmask, x) = take_byte n x;
          (mmask, x) = take_byte m x;
          nmask = shl nmask (8 * m);
          mmask = shl mmask (8 * n)
      in x OR nmask OR mmask)"

definition test_divpwr2 :: "u32 \<Rightarrow> u32 \<Rightarrow> u32" where
  "test_divpwr2 x n = (let p2n = shl 1 n in c_div x p2n)"

definition test_ezThreeFourths :: "u32 \<Rightarrow> u32" where
  "test_ezThreeFourths x = c_div (x * 3) 4"

definition test_fitsBits :: "u32 \<Rightarrow> u32 \<Rightarrow> u32" where
  "test_fitsBits x n =
     (let TMin_n = - shl 1 (n - 1); TMax_n = shl 1 (n - 1) - 1
      in c_bool (sint TMin_n \<le> sint x \<and> sint x \<le> sint TMax_n))"

partial_function (option) gbp_loop :: "u32 \<Rightarrow> u32 \<Rightarrow> u32 option" where
  "gbp_loop x m = (if m AND x = 0 then gbp_loop x (drop_bit 1 m) else Some m)"

definition test_greatestBitPos :: "u32 \<Rightarrow> u32 option" where
  "test_greatestBitPos x = (if x = 0 then Some 0 else gbp_loop x (shl 1 31))"

partial_function (option) ilog2_loop :: "u32 \<Rightarrow> u32 \<Rightarrow> u32 \<Rightarrow> u32 option" where
  "ilog2_loop x r m =
     (if x AND m = 0 then let r = r - 1 in ilog2_loop x r (shl 1 r) else Some r)"

definition test_ilog2 :: "u32 \<Rightarrow> u32 option" where
  "test_ilog2 x = ilog2_loop x 31 (shl 1 31)"

definition test_implication :: "u32 \<Rightarrow> u32 \<Rightarrow> u32" where
  "test_implication x y = lnot (x AND lnot y)"

definition test_isPower2 :: "u32 \<Rightarrow> u32" where
  "test_isPower2 x = c_bool (\<exists>i \<in> set [0..<31]. x = push_bit i 1)"

definition test_logicalNeg :: "u32 \<Rightarrow> u32" where
  "test_logicalNeg x = lnot x"

definition test_multFiveEighths :: "u32 \<Rightarrow> u32" where
  "test_multFiveEighths x = c_div (x * 5) 8"

fun rotate_loop :: "nat \<Rightarrow> u32 \<Rightarrow> u32" where
  "rotate_loop 0 u = u"
| "rotate_loop (Suc k) u =
     (let msb = drop_bit 31 u; rest = push_bit 1 u in rotate_loop k (rest OR msb))"

definition test_rotateLeft :: "u32 \<Rightarrow> u32 \<Rightarrow> u32" where
  "test_rotateLeft x n = rotate_loop (unat n) x"

definition test_satAdd :: "u32 \<Rightarrow> u32 \<Rightarrow> u32" where
  "test_satAdd x y =
     (if sint x > 0 \<and> sint y > 0 \<and> sint (x + y) < 0 then 0x7FFFFFFF
      else if sint x < 0 \<and> sint y < 0 \<and> sint (x + y) \<ge> 0 then 0x80000000
      else x + y)"

definition test_sm2tc :: "u32 \<Rightarrow> u32" where
  "test_sm2tc x = (let mag = x AND 0x7FFFFFFF in if sint x < 0 then - mag else mag)"

definition test_tc2sm :: "u32 \<Rightarrow> u32" where
  "test_tc2sm x =
     (let sgn = c_bool (sint x < 0); mag = (if sint x < 0 then - x else x) in shl sgn 31 OR mag)"

definition test_trueThreeFourths :: "u32 \<Rightarrow> u32" where
  "test_trueThreeFourths x = of_int ((sint x * 3) sdiv 4)"

definition test_trueFiveEighths :: "u32 \<Rightarrow> u32" where
  "test_trueFiveEighths x = of_int ((sint x * 5) sdiv 8)"

end
