(* ===== verification/BitPuzzles_Props.thy ===== *)
theory BitPuzzles_Props
  imports BitPuzzles
begin

text \<open>
  Each solution equals its reference: the bitwise ones bit by bit, the arithmetic ones through the
  signed value of the words.
\<close>

section \<open>Words as signed integers\<close>

lemma sint_u32_bounds: "- 2147483648 \<le> sint (x :: u32)" "sint (x :: u32) < 2147483648"
  using sint_greater_eq [of x] sint_less [of x] by simp_all

lemma sint_of_int_u32:
  "- 2147483648 \<le> k \<Longrightarrow> k < 2147483648 \<Longrightarrow> sint (of_int k :: u32) = k"
  by (simp add: signed_of_int signed_take_bit_int_eq_self)

lemma of_int_sint_u32: "of_int (sint x) = (x :: u32)"
  by (rule signed_word_eqI) (use sint_u32_bounds [of x] in \<open>simp add: sint_of_int_u32\<close>)

lemma bit31: "bit (x :: u32) 31 \<longleftrightarrow> sint x < 0"
  using bit_last_iff [of x] by simp

lemma sar_eq: "sar x n = of_int (sint x div 2 ^ (unat n mod 32))"
proof -
  have "sint (sar x n) = sint x div 2 ^ (unat n mod 32)"
    by (simp add: sar_def sint_signed_drop_bit_eq drop_bit_eq_div)
  then show ?thesis by (metis of_int_sint_u32)
qed

lemma sar31: "sar x 31 = (if sint x < 0 then - 1 else 0)"
proof -
  have "sint x div 2147483648 = (if sint x < 0 then - 1 else 0)"
  proof (cases "sint x < 0")
    case True
    have "(sint x + 2147483648) div 2147483648 = 0" using sint_u32_bounds [of x] True by simp
    then show ?thesis using True by simp
  qed (use sint_u32_bounds [of x] in simp)
  then show ?thesis by (simp add: sar_eq)
qed

lemma NOT_0_u32: "NOT 0 = (- 1 :: u32)"
  by simp

text \<open>Rounding towards zero is rounding down after a bias of \<open>2 ^ n - 1\<close> for negative numbers.\<close>

lemma div_neg_up:
  fixes k d :: int
  assumes "0 < d"
  shows "- k div d = - ((k + (d - 1)) div d)"
proof -
  have "(k + (d - 1)) div d = ((k mod d + (d - 1)) + k div d * d) div d"
    by (simp add: algebra_simps)
  also have "\<dots> = (k mod d + (d - 1)) div d + k div d"
    using assms div_mult_self1 [of d "k mod d + (d - 1)" "k div d"] by (simp add: add.commute)
  also have "(k mod d + (d - 1)) div d = (if k mod d = 0 then 0 else 1)"
  proof (cases "k mod d = 0")
    case False
    then have "0 \<le> k mod d - 1" "k mod d - 1 < d"
      using assms pos_mod_sign [of d k] pos_mod_bound [of d k] by linarith+
    then have "(k mod d - 1 + d) div d = 1" using assms by (subst div_add_self2) simp_all
    then show ?thesis using False by (simp add: algebra_simps)
  qed (use assms in simp)
  finally show ?thesis using assms by (simp add: zdiv_zminus1_eq_if)
qed

lemma sdiv_bias:
  fixes k :: int
  shows "k sdiv 2 ^ n = (k + (if k < 0 then 2 ^ n - 1 else 0)) div 2 ^ n"
  by (simp add: signed_divide_int_def sgn_if div_neg_up)


lemma sint_add_u32:
  "- 2147483648 \<le> sint (a :: u32) + sint b \<Longrightarrow> sint a + sint b < 2147483648 \<Longrightarrow>
   sint (a + b) = sint a + sint b"
  by (simp add: sint_word_add signed_take_bit_int_eq_self)

lemma sar_bias:
  assumes "k < 31" "unat n mod 32 = k" "b = of_int (2 ^ k - 1)"
  shows "sar (w + (sar w 31 AND b)) n = of_int (sint w sdiv 2 ^ k)"
proof -
  have le: "(2 :: int) ^ k \<le> 1073741824" using power_increasing [of k 30 "2 :: int"] assms(1) by simp
  have one: "(1 :: int) \<le> 2 ^ k" by simp
  have b: "sint b = 2 ^ k - 1" unfolding assms(3) by (rule sint_of_int_u32) (use le one in linarith)+
  have "sint (w + (sar w 31 AND b)) = sint w + (if sint w < 0 then 2 ^ k - 1 else 0)"
  proof (cases "sint w < 0")
    case True
    then have "sint (w + b) = sint w + sint b"
      by (intro sint_add_u32) (use True sint_u32_bounds [of w] le one b in linarith)+
    then show ?thesis using True b by (simp add: sar31)
  qed (simp add: sar31)
  then show ?thesis by (simp add: sar_eq assms(2) sdiv_bias)
qed

section \<open>The arithmetic puzzles\<close>

lemma absVal_ok: "absVal x = test_absVal x"
proof -
  have "(x - 1) XOR - 1 = NOT (x - 1)" by (rule bit_word_eqI) (simp add: bit_simps)
  then have "(x - 1) XOR - 1 = - x" by (simp only: minus_eq_not_minus_1)
  then show ?thesis by (simp add: absVal_def test_absVal_def sar31 Let_def)
qed

lemma divpwr2_ok:
  assumes "n \<le> 30"
  shows "divpwr2 x n = test_divpwr2 x n"
proof -
  let ?k = "unat n"
  have k: "?k < 31" using assms by (simp add: word_le_nat_alt)
  have le: "(2 :: int) ^ ?k \<le> 1073741824" "(0 :: int) \<le> 2 ^ ?k"
    using power_increasing [of ?k 30 "2 :: int"] k by simp_all
  have s: "shl 1 n = of_int (2 ^ ?k)" using k by (simp add: shl_def push_bit_eq_mult)
  have "sint (shl 1 n) = 2 ^ ?k"
    unfolding s by (rule sint_of_int_u32) (use le in linarith)+
  moreover have "divpwr2 x n = of_int (sint x sdiv 2 ^ ?k)"
    unfolding divpwr2_def Let_def using k by (intro sar_bias) (simp_all add: s)
  ultimately show ?thesis by (simp add: test_divpwr2_def c_div_def Let_def)
qed

lemma ezThreeFourths_ok: "ezThreeFourths x = test_ezThreeFourths x"
proof -
  have "x + x + x = 3 * x" by simp
  moreover have "sar (w + (sar w 31 AND (4 + NOT 0))) 2 = of_int (sint w sdiv 2 ^ 2)" for w
    by (rule sar_bias) simp_all
  ultimately show ?thesis
    by (simp add: ezThreeFourths_def test_ezThreeFourths_def c_div_def Let_def mult.commute)
qed

lemma multFiveEighths_ok: "multFiveEighths x = test_multFiveEighths x"
proof -
  have "x + x + x + x + x = 5 * x" by simp
  moreover have "sar (w + (sar w 31 AND (8 + NOT 0))) 3 = of_int (sint w sdiv 2 ^ 3)" for w
    by (rule sar_bias) simp_all
  ultimately show ?thesis
    by (simp add: multFiveEighths_def test_multFiveEighths_def c_div_def Let_def mult.commute)
qed

lemma logicalNeg_ok: "logicalNeg x = test_logicalNeg x"
proof (cases "x = 0")
  case False
  have "bit x 31 \<or> bit (- x) 31"
  proof (rule ccontr)
    assume "\<not> ?thesis"
    then have "0 \<le> sint x" "0 \<le> sint (- x)" by (auto simp: bit31)
    moreover have "sint (- x) = - sint x"
      using sint_u32_bounds [of x] \<open>0 \<le> sint x\<close> by (simp add: sint_word_minus signed_take_bit_int_eq_self)
    ultimately have "sint x = 0" by simp
    then show False using False of_int_sint_u32 [of x] by simp
  qed
  then have "sint (x OR - x) < 0" by (simp add: bit31 [symmetric] bit_or_iff)
  moreover have "NOT x + 1 = - x" by (simp add: minus_eq_not_plus_1)
  ultimately show ?thesis using False
    by (simp add: logicalNeg_def test_logicalNeg_def lnot_def sar31 Let_def)
qed (simp add: logicalNeg_def test_logicalNeg_def lnot_def sar31 Let_def)

lemma implication_ok: "x \<in> {0, 1} \<Longrightarrow> y \<in> {0, 1} \<Longrightarrow> implication x y = test_implication x y"
  by (auto simp: implication_def test_implication_def lnot_def)

lemma sint_add_cases:
  fixes x y :: u32
  defines "s \<equiv> sint x + sint y"
  shows "sint (x + y) = (if s < - 2147483648 then s + 4294967296
    else if 2147483648 \<le> s then s - 4294967296 else s)"
proof -
  have b: "- 4294967296 \<le> s" "s < 4294967296"
    using sint_u32_bounds [of x] sint_u32_bounds [of y] by (simp_all add: s_def)
  have xy: "x + y = of_int s" by (simp add: s_def of_int_sint_u32)
  have shift: "(of_int s :: u32) = of_int (s + 4294967296)" "(of_int s :: u32) = of_int (s - 4294967296)"
    by (simp_all add: word_of_int_eq_iff take_bit_eq_mod)
  show ?thesis
  proof (cases "s < - 2147483648")
    case True
    then have "sint (of_int (s + 4294967296) :: u32) = s + 4294967296"
      using b by (intro sint_of_int_u32) auto
    then show ?thesis using True by (simp only: xy shift(1) if_True)
  next
    case False
    note F = this
    show ?thesis
    proof (cases "2147483648 \<le> s")
      case True
      then have "sint (of_int (s - 4294967296) :: u32) = s - 4294967296"
        using b by (intro sint_of_int_u32) auto
      then show ?thesis using True F by (simp only: xy shift(2) if_True if_False)
    next
      case False
      then have "sint (of_int s :: u32) = s" using F by (intro sint_of_int_u32) auto
      then show ?thesis using False F by (simp only: xy if_False)
    qed
  qed
qed

lemma sar31_and_1: "sar x 31 AND 1 = (if sint x < 0 then 1 else 0)"
  by (simp add: sar31)

lemma addOK_ok: "addOK x y = test_addOK x y"
proof -
  have "addOK x y = c_bool (\<not> (sint x < 0 \<and> sint y < 0 \<and> 0 \<le> sint (x + y))
      \<and> \<not> (0 \<le> sint x \<and> 0 \<le> sint y \<and> sint (x + y) < 0))"
    by (auto simp: addOK_def Let_def sar31_and_1 sar31 lnot_def)
  moreover have "test_addOK x y = c_bool (sint x + sint y = sint (x + y))"
    by (simp add: test_addOK_def Let_def of_int_sint_u32)
  ultimately show ?thesis
    using sint_add_cases [of x y] sint_u32_bounds [of x] sint_u32_bounds [of y] by auto
qed

lemma bit_top: "bit (0x80000000 :: u32) n \<longleftrightarrow> n = 31"
proof -
  have e: "(0x80000000 :: u32) = push_bit 31 1" by (simp add: push_bit_eq_mult)
  show ?thesis unfolding e by (simp only: bit_push_bit_iff bit_1_iff) auto
qed

lemma bit_low: "bit (0x7FFFFFFF :: u32) n \<longleftrightarrow> n < 31"
proof -
  have "(0x7FFFFFFF :: u32) = mask 31" by (simp add: mask_eq_exp_minus_1)
  then show ?thesis by (simp only: bit_mask_iff) auto
qed

lemma below_32: "n < LENGTH(32) \<Longrightarrow> n < 31 \<or> n = 31"
  by auto

lemma NOT_top: "NOT 0x80000000 = (0x7FFFFFFF :: u32)"
proof (rule bit_word_eqI)
  fix n assume "n < LENGTH(32)"
  then have "n < 31 \<or> n = 31" by (rule below_32)
  then show "bit (NOT 0x80000000 :: u32) n = bit (0x7FFFFFFF :: u32) n"
    by (simp only: bit_not_iff bit_top bit_low) auto
qed

lemma satAdd_ok: "satAdd x y = test_satAdd x y"
proof -
  have s: "sint (0x80000000 :: u32) < 0" by (simp add: bit31 [symmetric] bit_top)
  have c: "shl 1 31 = 0x80000000" "shl (- 1) 31 = 0x80000000" "shl 0 31 = 0"
    "sar 0x80000000 31 = - 1" "sar 0 31 = 0"
    by (simp_all add: shl_def sar31 s push_bit_eq_mult)
  have "satAdd x y = (if sint x < 0 \<and> sint y < 0 \<and> 0 \<le> sint (x + y) then 0x80000000
      else if 0 \<le> sint x \<and> 0 \<le> sint y \<and> sint (x + y) < 0 then 0x7FFFFFFF else x + y)"
    by (simp add: satAdd_def Let_def sar31_and_1 c)
  then show ?thesis
    using sint_add_cases [of x y] sint_u32_bounds [of x] sint_u32_bounds [of y]
    by (auto simp: test_satAdd_def)
qed

lemma xor_top:
  assumes "bit x 31"
  shows "x XOR 0x80000000 = x - (0x80000000 :: u32)" "x XOR 0x80000000 = x AND (0x7FFFFFFF :: u32)"
proof -
  have "(x XOR 0x80000000) + 0x80000000 = (x XOR 0x80000000) OR (0x80000000 :: u32)"
    using assms
    by (intro disjunctive_add_eq_or bit_word_eqI) (simp only: bit_xor_iff bit_and_iff bit_top bit_0_eq, auto)
  also have "\<dots> = x"
    using assms by (intro bit_word_eqI) (simp only: bit_xor_iff bit_or_iff bit_top, auto)
  finally show "x XOR 0x80000000 = x - (0x80000000 :: u32)" by (simp add: eq_diff_eq)
  show "x XOR 0x80000000 = x AND (0x7FFFFFFF :: u32)"
  proof (rule bit_word_eqI)
    fix n assume "n < LENGTH(32)"
    then have "n < 31 \<or> n = 31" by (rule below_32)
    then show "bit (x XOR 0x80000000) n = bit (x AND 0x7FFFFFFF) n"
      using assms by (simp only: bit_xor_iff bit_and_iff bit_top bit_low) auto
  qed
qed

lemma and_low: "\<not> bit x 31 \<Longrightarrow> x AND 0x7FFFFFFF = (x :: u32)"
proof (rule bit_word_eqI)
  fix n assume "\<not> bit x 31" and n: "n < LENGTH(32)"
  from n have "n < 31 \<or> n = 31" by (rule below_32)
  then show "bit (x AND 0x7FFFFFFF) n = bit x n"
    using \<open>\<not> bit x 31\<close> by (simp only: bit_and_iff bit_low) auto
qed

lemma shl_1_31: "shl 1 31 = 0x80000000"
  by (simp add: shl_def push_bit_eq_mult)

lemma sm2tc_ok: "sm2tc x = test_sm2tc x"
proof (cases "sint x < 0")
  case True
  then have "NOT (x XOR 0x80000000) + 1 = - (x AND 0x7FFFFFFF)"
    using xor_top(2) [of x] minus_eq_not_plus_1 [of "x AND 0x7FFFFFFF"] by (simp only: bit31)
  then show ?thesis using True by (simp add: sm2tc_def test_sm2tc_def sar31 shl_1_31 Let_def)
next
  case False
  then have "x AND 0x7FFFFFFF = x" using and_low [of x] by (simp only: bit31) blast
  then show ?thesis using False by (simp add: sm2tc_def test_sm2tc_def sar31 Let_def)
qed

lemma tc2sm_ok:
  assumes "x \<noteq> 0x80000000"
  shows "tc2sm x = test_tc2sm x"
proof (cases "sint x < 0")
  case True
  have s: "sint (0x80000000 :: u32) = - 2147483648" by simp
  have "sint x \<noteq> - 2147483648" using assms s of_int_sint_u32 by metis
  then have "sint (- x) = - sint x"
    using sint_u32_bounds [of x] by (simp add: sint_word_minus signed_take_bit_int_eq_self)
  then have "\<not> bit (- x) 31" using True by (simp only: bit31)
  then have "0x80000000 AND - x = 0"
    by (intro bit_word_eqI) (simp only: bit_and_iff bit_top bit_0_eq, auto)
  then have "0x80000000 OR - x = 0x80000000 + - x"
    by (rule disjunctive_add_eq_or [symmetric])
  moreover have "NOT (x XOR 0x80000000) + 1 = - (x - 0x80000000)"
    using True xor_top(1) [of x] minus_eq_not_plus_1 [of "x - 0x80000000"] by (simp only: bit31)
  ultimately show ?thesis using True
    by (simp add: tc2sm_def test_tc2sm_def sar31 shl_1_31 Let_def)
next
  case False
  then show ?thesis by (simp add: tc2sm_def test_tc2sm_def sar31 Let_def shl_def)
qed

lemma sint_sub_u32:
  "- 2147483648 \<le> sint (a :: u32) - sint b \<Longrightarrow> sint a - sint b < 2147483648 \<Longrightarrow>
   sint (a - b) = sint a - sint b"
  by (simp add: sint_word_diff signed_take_bit_int_eq_self)

lemma and_3: "3 AND x = of_int (sint x mod 4)"
proof -
  have "3 AND x = take_bit 2 x" by (simp add: take_bit_eq_mask mask_eq_exp_minus_1 and.commute)
  also have "\<dots> = of_int (take_bit 2 (sint x))"
    by (rule bit_word_eqI) (auto simp: bit_take_bit_iff bit_of_int_iff bit_sint_iff dest: bit_imp_le_length)
  finally show ?thesis by (simp add: take_bit_eq_mod)
qed

lemma not_add_1: "x + NOT y + 1 = x - (y :: u32)"
  by (simp add: not_eq_complement)

lemma trueThreeFourths_ok: "trueThreeFourths x = test_trueThreeFourths x"
proof -
  let ?k = "sint x"
  have "3 AND x = 0 \<longleftrightarrow> ?k mod 4 = 0"
  proof -
    have "0 \<le> ?k mod 4" "?k mod 4 < 4" by simp_all
    then have "sint (of_int (?k mod 4) :: u32) = ?k mod 4" by (intro sint_of_int_u32) linarith+
    then show ?thesis unfolding and_3 by (metis of_int_0 signed_0)
  qed
  then have q: "trueThreeFourths x = x - of_int (?k div 4 + (if ?k mod 4 \<noteq> 0 \<and> 0 \<le> ?k then 1 else 0))"
    by (simp add: trueThreeFourths_def Let_def sar31 lnot_def) (simp add: sar_eq not_eq_complement)
  have "(?k * 3) sdiv 4 = ?k - (?k div 4 + (if ?k mod 4 \<noteq> 0 \<and> 0 \<le> ?k then 1 else 0))"
  proof -
    let ?b = "if ?k * 3 < 0 then 3 else 0 :: int"
    have "?k * 3 + ?b = (?k mod 4 * 3 + ?b) + (?k div 4 * 3) * 4"
      using div_mult_mod_eq [of ?k 4] by linarith
    moreover have "(?k * 3) sdiv 4 = (?k * 3 + ?b) div 4"
      using sdiv_bias [of "?k * 3" 2] by (simp only: power2_eq_square) simp
    ultimately have "(?k * 3) sdiv 4 = (?k mod 4 * 3 + ?b + ?k div 4 * 3 * 4) div 4" by (simp only:)
    also have "\<dots> = ?k div 4 * 3 + (?k mod 4 * 3 + ?b) div 4" by (rule div_mult_self1) simp
    finally have d: "(?k * 3) sdiv 4 = ?k div 4 * 3 + (?k mod 4 * 3 + ?b) div 4" .
    have "?k mod 4 = 0 \<or> ?k mod 4 = 1 \<or> ?k mod 4 = 2 \<or> ?k mod 4 = 3"
      using pos_mod_sign [of 4 ?k] pos_mod_bound [of 4 ?k] by linarith
    then have "(?k mod 4 * 3 + ?b) div 4 = ?k mod 4 - (if ?k mod 4 \<noteq> 0 \<and> 0 \<le> ?k then 1 else 0)"
      by (elim disjE) simp_all
    then show ?thesis using d div_mult_mod_eq [of ?k 4] by linarith
  qed
  then show ?thesis unfolding q test_trueThreeFourths_def by (simp add: of_int_sint_u32)
qed

text \<open>The low bits of a word, and the rest of it.\<close>

lemma take_bit_sint: "k \<le> 32 \<Longrightarrow> take_bit k (x :: u32) = of_int (sint x mod 2 ^ k)"
proof -
  assume "k \<le> 32"
  then have "take_bit k x = of_int (take_bit k (sint x))"
    by (intro bit_word_eqI) (auto simp: bit_take_bit_iff bit_of_int_iff bit_sint_iff)
  then show ?thesis by (simp add: take_bit_eq_mod)
qed

lemma high_bits: "x AND NOT m = x - (x AND m)" for x m :: u32
proof -
  have "(x AND m) + (x AND NOT m) = (x AND m) OR (x AND NOT m)"
    by (intro disjunctive_add_eq_or bit_word_eqI) (auto simp: bit_simps)
  also have "\<dots> = x" by (rule bit_word_eqI) (auto simp: bit_simps)
  finally show ?thesis by (simp add: eq_diff_eq add.commute)
qed

lemma trueFiveEighths_ok: "trueFiveEighths x = test_trueFiveEighths x"
proof -
  let ?h = "sint x div 16777216" and ?l = "sint x mod 16777216"
  let ?b = "if sint x < 0 then 7 else 0 :: int"
  have k: "sint x = ?h * 16777216 + ?l" by simp
  have l: "0 \<le> ?l" "?l < 16777216" by simp_all
  have h: "- 128 \<le> ?h" "?h < 128" using sint_u32_bounds [of x] by linarith+
  have b: "0 \<le> ?b" "?b < 8" by simp_all
  have m: "sar (shl 1 31) 7 = NOT (0x00FFFFFF :: u32)" by (simp add: sar_eq shl_def)
  have lo: "x AND 0x00FFFFFF = of_int ?l"
    using take_bit_sint [of 24 x] by (simp add: take_bit_eq_mask mask_eq_exp_minus_1)
  have hi: "x AND sar (shl 1 31) 7 = of_int (?h * 16777216)"
  proof -
    have "x - of_int ?l = of_int (sint x - ?l)" by (simp add: of_int_sint_u32)
    also have "sint x - ?l = ?h * 16777216" using k by linarith
    finally show ?thesis by (simp only: m high_bits lo)
  qed
  have bias: "shl (sar x 31 AND 1) 3 + (NOT (sar x 31 AND 1) + 1) = of_int ?b"
  proof -
    have "shl 1 3 + (NOT 1 + 1) = 7" "shl 0 3 + (NOT 0 + 1) = 0" by (simp_all add: shl_def push_bit_eq_mult)
    then show ?thesis by (cases "sint x < 0") (simp_all only: sar31_and_1 if_True if_False of_int_numeral of_int_0)
  qed
  have five: "shl w 2 + w = 5 * w" for w by (simp add: shl_def push_bit_eq_mult)
  have s3: "sar (of_int v) 3 = of_int (v div 8)" if "- 2147483648 \<le> v" "v < 2147483648" for v
    using that by (simp add: sar_eq sint_of_int_u32)
  have "sar (of_int (?h * 16777216 + ?b)) 3 = of_int ((?h * 16777216 + ?b) div 8)"
    by (rule s3) (use h b in linarith)+
  also have "(?h * 16777216 + ?b) div 8 = ?h * 2097152"
    using b div_mult_self1 [of 8 ?b "?h * 2097152"] by simp
  finally have first: "sar ((x AND sar (shl 1 31) 7) + of_int ?b) 3 = of_int (?h * 2097152)"
    by (simp only: hi of_int_add)
  have "sar (of_int (5 * ?l + ?b)) 3 = of_int ((5 * ?l + ?b) div 8)"
    by (rule s3) (use l b in linarith)+
  then have other: "sar (5 * (x AND NOT (sar (shl 1 31) 7)) + of_int ?b) 3 = of_int ((5 * ?l + ?b) div 8)"
    by (simp only: m lo bit.double_compl of_int_add of_int_mult of_int_numeral)
  have "(sint x * 5) sdiv 8 = (sint x * 5 + ?b) div 8" using sdiv_bias [of "sint x * 5" 3] by simp
  also have "sint x * 5 + ?b = (5 * ?l + ?b) + (5 * ?h * 2097152) * 8" using k by linarith
  also have "\<dots> div 8 = (5 * ?l + ?b) div 8 + 5 * ?h * 2097152" by (subst div_mult_self1) simp_all
  finally have "test_trueFiveEighths x = of_int ((5 * ?l + ?b) div 8 + 5 * ?h * 2097152)"
    by (simp only: test_trueFiveEighths_def)
  then show ?thesis
    by (simp only: trueFiveEighths_def Let_def bias five first other) simp
qed

section \<open>The puzzles on single bits\<close>

lemma and_bit_eq_0: "x AND push_bit i 1 = 0 \<longleftrightarrow> \<not> bit (x :: u32) i"
  using and_exp_eq_0_iff_not_bit [of x i] by (simp add: push_bit_eq_mult)

lemma even_bits_loop_eq: "even_bits_loop x js = c_bool (\<forall>i \<in> set js. bit x i)"
  by (induction js) (simp_all add: and_bit_eq_0 del: push_bit_of_1)

lemma allEvenBits_ok: "allEvenBits x = test_allEvenBits x"
proof -
  let ?js = "[0, 2, 4, 6, 8, 10, 12, 14, 16, 18, 20, 22, 24, 26, 28, 30] :: nat list"
  let ?y = "foldr (\<lambda>i w. push_bit i 1 OR w) ?js 0 :: u32"
  have fold: "bit (foldr (\<lambda>i w. push_bit i 1 OR w) js 0 :: u32) n \<longleftrightarrow> n \<in> set js"
    if "\<forall>i \<in> set js. i < 32" for js n
    using that by (induction js) (auto simp: bit_or_iff bit_push_bit_iff bit_1_iff simp del: push_bit_of_1)
  have y: "bit ?y n \<longleftrightarrow> n \<in> set ?js" for n by (rule fold) simp
  have "shl 0x55 24 XOR shl 0x55 16 XOR shl 0x55 8 XOR 0x55 = ?y" by (simp add: shl_def)
  moreover have "(x AND ?y) XOR ?y = 0 \<longleftrightarrow> (\<forall>i \<in> set ?js. bit x i)"
  proof
    assume "(x AND ?y) XOR ?y = 0"
    then have "bit ((x AND ?y) XOR ?y) i = bit 0 i" for i by simp
    then show "\<forall>i \<in> set ?js. bit x i" unfolding bit_xor_iff bit_and_iff y bit_0_eq by blast
  next
    assume "\<forall>i \<in> set ?js. bit x i"
    then have "bit ((x AND ?y) XOR ?y) i = bit 0 i" for i
      unfolding bit_xor_iff bit_and_iff y bit_0_eq by auto
    then show "(x AND ?y) XOR ?y = 0" by (intro bit_word_eqI)
  qed
  ultimately show ?thesis
    unfolding allEvenBits_def test_allEvenBits_def even_bits_loop_eq Let_def lnot_def by presburger
qed

lemma sint_sar: "sint (sar x n) = sint x div 2 ^ (unat n mod 32)"
  by (simp add: sar_def sint_signed_drop_bit_eq drop_bit_eq_div)

lemma not_eq_0: "NOT x = (0 :: u32) \<longleftrightarrow> x = - 1"
  by (metis bit.double_compl NOT_0_u32)

lemma div_0_or_minus_1:
  fixes k d :: int
  assumes "0 < d"
  shows "k div d = 0 \<or> k div d = - 1 \<longleftrightarrow> - d \<le> k \<and> k \<le> d - 1"
proof -
  have "k div d = 0 \<longleftrightarrow> 0 \<le> k \<and> k < d" using assms by (auto simp: zdiv_eq_0_iff)
  moreover have "(k + d) div d = k div d + 1" using assms by (subst div_add_self2) simp_all
  then have "k div d = - 1 \<longleftrightarrow> (k + d) div d = 0" by linarith
  then have "k div d = - 1 \<longleftrightarrow> 0 \<le> k + d \<and> k + d < d" using assms by (auto simp: zdiv_eq_0_iff)
  ultimately show ?thesis by linarith
qed

lemma fitsBits_ok:
  assumes "1 \<le> n" "n \<le> 32"
  shows "fitsBits x n = test_fitsBits x n"
proof -
  define k where "k = unat n - 1"
  have n: "n = of_nat (Suc k)" "k < 32"
    using assms by (simp_all add: k_def word_le_nat_alt)
  have p: "(2 :: int) ^ k \<le> 2147483648" "(1 :: int) \<le> 2 ^ k"
    using power_increasing [of k 31 "2 :: int"] n(2) by simp_all
  have u: "unat (n - 1) = k" using n by (simp add: unat_of_nat)
  have sh: "shl 1 (n - 1) = of_int (2 ^ k)" using n(2) by (simp add: shl_def u push_bit_eq_mult)
  have "sint (- shl 1 (n - 1)) = sint (of_int (- (2 ^ k)) :: u32)" by (simp only: sh of_int_minus)
  then have lo: "sint (- shl 1 (n - 1)) = - (2 ^ k)" using p by (simp only: sint_of_int_u32)
  have "sint (shl 1 (n - 1) - 1) = sint (of_int (2 ^ k - 1) :: u32)" by (simp only: sh of_int_diff of_int_1)
  also have "\<dots> = 2 ^ k - 1" by (rule sint_of_int_u32) (use p in linarith)+
  finally have hi: "sint (shl 1 (n - 1) - 1) = 2 ^ k - 1" .
  have sar: "sint (sar x (n + (NOT 1 + 1))) = sint x div 2 ^ k"
    using n(2) by (simp add: sint_sar u)
  have "sar x (n + (NOT 1 + 1)) = 0 \<longleftrightarrow> sint x div 2 ^ k = 0"
    "sar x (n + (NOT 1 + 1)) = - 1 \<longleftrightarrow> sint x div 2 ^ k = - 1"
    unfolding sar [symmetric] by (metis of_int_sint_u32 signed_0 sint_0, metis of_int_sint_u32 signed_minus_1)
  then have "fitsBits x n = c_bool (sint x div 2 ^ k = 0 \<or> sint x div 2 ^ k = - 1)"
    by (simp add: fitsBits_def Let_def lnot_def not_eq_0)
  then show ?thesis
    using div_0_or_minus_1 [of "2 ^ k" "sint x"] by (simp add: test_fitsBits_def Let_def lo hi)
qed

section \<open>Searching for the highest bit\<close>

text \<open>\<open>top_bit x k\<close>: the highest bit set in \<open>x\<close> is bit \<open>k\<close>.\<close>

definition top_bit :: "u32 \<Rightarrow> nat \<Rightarrow> bool" where
  "top_bit x k \<longleftrightarrow> 2 ^ k \<le> unat x \<and> unat x < 2 ^ Suc k"

lemma bit_unat: "bit x k \<longleftrightarrow> odd (unat (x :: u32) div 2 ^ k)"
  by (metis bit_iff_odd bit_unsigned_iff possible_bit_nat)

lemma top_bit_bit: "top_bit x k \<Longrightarrow> bit x k"
proof -
  assume "top_bit x k"
  then have "unat x div 2 ^ k = 1" by (intro div_nat_eqI) (simp_all add: top_bit_def)
  then show ?thesis by (simp add: bit_unat)
qed

lemma top_bit_above: "top_bit x k \<Longrightarrow> k < n \<Longrightarrow> \<not> bit x n"
proof -
  assume "top_bit x k" "k < n"
  then have "unat x < 2 ^ n"
    using power_increasing [of "Suc k" n "2 :: nat"] by (auto simp: top_bit_def)
  then show ?thesis by (simp add: bit_unat)
qed

lemma top_bit_less: "top_bit x k \<Longrightarrow> k < 32"
  using top_bit_bit [of x k] bit_imp_le_length [of x k] by auto

lemma top_bit_ex: "x \<noteq> 0 \<Longrightarrow> \<exists>k. top_bit x k"
proof -
  assume "x \<noteq> 0"
  then have "0 < unat x" by (simp add: unat_gt_0)
  then show ?thesis unfolding top_bit_def
    using ex_power_ivl1 [of 2 "unat x"] by auto
qed

lemma top_bit_exp: "k < 32 \<Longrightarrow> top_bit (push_bit k 1) k"
proof -
  assume "k < 32"
  then have "(2 :: nat) ^ k < 4294967296" using power_strict_increasing [of k 32 "2 :: nat"] by simp
  then have "unat (push_bit k 1 :: u32) = 2 ^ k"
    by (simp add: push_bit_eq_mult unat_of_nat [where 'a = 32, of "2 ^ k", simplified])
  then show ?thesis by (simp add: top_bit_def)
qed

lemma power2_iff:
  assumes "x \<noteq> 0"
  shows "x AND (x - 1) = 0 \<longleftrightarrow> (\<exists>i < 32. x = push_bit i (1 :: u32))"
proof -
  obtain k where k: "top_bit x k" using top_bit_ex [OF assms] by blast
  have u: "unat (x - 1) = unat x - 1" using assms by (simp add: unat_minus_one)
  show ?thesis
  proof (cases "unat x = 2 ^ k")
    case True
    have "x = of_nat (2 ^ k)" by (rule unat_eq_of_nat) (rule True)
    then have x: "x = push_bit k 1" by (simp add: push_bit_eq_mult)
    moreover have "x AND (x - 1) = 0"
    proof (rule bit_word_eqI)
      fix n
      show "bit (x AND (x - 1)) n = bit 0 n"
      proof (cases "n = k")
        case True
        then show ?thesis using \<open>unat x = 2 ^ k\<close> by (simp add: bit_and_iff bit_unat [of "x - 1"] u)
      next
        case False
        then show ?thesis unfolding x by (auto simp: bit_and_iff bit_push_bit_iff bit_1_iff simp del: push_bit_of_1)
      qed
    qed
    ultimately show ?thesis using top_bit_less [OF k] by blast
  next
    case False
    then have "top_bit (x - 1) k" using k by (auto simp: top_bit_def u)
    then have "bit (x AND (x - 1)) k" using top_bit_bit k by (simp add: bit_and_iff)
    then have "x AND (x - 1) \<noteq> 0" by auto
    moreover have "x \<noteq> push_bit i 1" if "i < 32" for i
    proof
      assume x: "x = push_bit i 1"
      have "i = k" using top_bit_bit [OF k] unfolding x
        by (simp add: bit_push_bit_iff bit_1_iff del: push_bit_of_1)
      then show False using False x top_bit_exp [OF that] unat_of_nat [where 'a = 32, of "2 ^ k"]
          power_strict_increasing [of k 32 "2 :: nat"] that by (simp add: push_bit_eq_mult)
    qed
    ultimately show ?thesis by blast
  qed
qed

lemma isPower2_ok: "isPower2 x = test_isPower2 x"
proof (cases "0 < sint x")
  case False
  have "x \<noteq> push_bit i 1" if "i < 31" for i
  proof -
    have "(2 :: int) ^ i \<le> 1073741824" "(1 :: int) \<le> 2 ^ i"
      using power_increasing [of i 30 "2 :: int"] that by simp_all
    moreover have "(push_bit i 1 :: u32) = of_int (2 ^ i)" by (simp add: push_bit_eq_mult)
    ultimately have "0 < sint (push_bit i 1 :: u32)" by (simp only: sint_of_int_u32)
    then show ?thesis using False by blast
  qed
  then have "test_isPower2 x = 0" by (simp add: test_isPower2_def del: push_bit_of_1)
  moreover have "x = 0 \<or> sint x < 0"
    using False of_int_sint_u32 [of x] by (cases "sint x = 0") auto
  then have "isPower2 x = 0"
    by (auto simp: isPower2_def Let_def sar31)
  ultimately show ?thesis by simp
next
  case True
  then have x: "x \<noteq> 0" by auto
  have z: "sar (x - 1) 31 = 0"
    using sint_sub_u32 [of x 1] True sint_u32_bounds [of x] by (simp add: sar31)
  have "isPower2 x = lnot (x AND (x - 1))"
    using True z by (simp add: isPower2_def Let_def sar31 [of x] lnot_def)
  also have "\<dots> = c_bool (\<exists>i < 32. x = push_bit i 1)"
    unfolding lnot_def power2_iff [OF x] by (rule refl)
  also have "(\<exists>i < 32. x = push_bit i 1) \<longleftrightarrow> (\<exists>i \<in> set [0..<31]. x = push_bit i 1)"
  proof -
    have "x \<noteq> push_bit 31 1" using True by (auto simp: bit31 [symmetric] simp flip: linorder_not_less)
    moreover have "i < 32 \<longleftrightarrow> i < 31 \<or> i = 31" for i :: nat by linarith
    ultimately show ?thesis unfolding set_upt atLeast0LessThan by (metis lessThan_iff)
  qed
  finally show ?thesis by (simp only: test_isPower2_def)
qed

text \<open>The loops of the references find the top bit.\<close>

lemma gbp_loop_top: "top_bit x k \<Longrightarrow> k + d < 32 \<Longrightarrow> gbp_loop x (push_bit (k + d) 1) = Some (push_bit k 1)"
proof (induction d)
  case 0
  then show ?case
    by (subst gbp_loop.simps) (simp add: and.commute [of _ x] and_bit_eq_0 top_bit_bit del: push_bit_of_1)
next
  case (Suc d)
  have "drop_bit 1 (push_bit (k + Suc d) 1 :: u32) = push_bit (k + d) 1"
    by (rule bit_word_eqI)
      (use Suc.prems in \<open>simp only: bit_drop_bit_eq comp_def bit_push_bit_iff bit_1_iff, auto\<close>)
  moreover have "push_bit (k + Suc d) 1 AND x = 0"
    unfolding and.commute [of _ x] and_bit_eq_0 using top_bit_above [of x k "k + Suc d"] Suc.prems(1) by simp
  moreover have "gbp_loop x (push_bit (k + d) 1) = Some (push_bit k 1)" using Suc by simp
  ultimately show ?case by (subst gbp_loop.simps) (simp only: if_True simp_thms)
qed

lemma shl_1: "k < 32 \<Longrightarrow> shl 1 (of_nat k) = push_bit k 1"
  by (simp add: shl_def unat_of_nat del: push_bit_of_1)

lemma ilog2_loop_top: "top_bit x k \<Longrightarrow> k + d < 32 \<Longrightarrow> ilog2_loop x (of_nat (k + d)) (push_bit (k + d) 1) = Some (of_nat k)"
proof (induction d)
  case 0
  then show ?case
    by (subst ilog2_loop.simps) (simp add: and_bit_eq_0 top_bit_bit del: push_bit_of_1)
next
  case (Suc d)
  have "of_nat (k + Suc d) - 1 = (of_nat (k + d) :: u32)" by simp
  moreover have "shl 1 (of_nat (k + d)) = push_bit (k + d) 1" by (rule shl_1) (use Suc.prems in simp)
  moreover have "x AND push_bit (k + Suc d) 1 = 0"
    unfolding and_bit_eq_0 using top_bit_above [of x k "k + Suc d"] Suc.prems(1) by simp
  moreover have "ilog2_loop x (of_nat (k + d)) (push_bit (k + d) 1) = Some (of_nat k)"
    using Suc by simp
  ultimately show ?case by (subst ilog2_loop.simps) (simp only: Let_def if_True simp_thms)
qed

lemma test_ilog2_top: "top_bit x k \<Longrightarrow> test_ilog2 x = Some (of_nat k)"
  using ilog2_loop_top [of x k "31 - k"] top_bit_less [of x k] shl_1 [of 31]
  by (simp add: test_ilog2_def del: push_bit_of_1)

lemma test_greatestBitPos_top: "top_bit x k \<Longrightarrow> test_greatestBitPos x = Some (push_bit k 1)"
  using gbp_loop_top [of x k "31 - k"] top_bit_less [of x k] shl_1 [of 31]
  by (auto simp: test_greatestBitPos_def top_bit_def simp del: push_bit_of_1)

text \<open>
  The solution halves the part of the word the top bit can be in: one step looks at the upper half
  of the \<open>2 * h\<close> low bits.
\<close>

lemma top_bit_sar:
  assumes "top_bit x k" "0 \<le> sint x" "h \<le> k"
  shows "top_bit (sar x (of_nat h)) (k - h)"
proof -
  have h: "h < 32" using top_bit_less [OF assms(1)] assms(3) by simp
  have "sint (sar x (of_nat h)) = sint x div 2 ^ h" using h by (simp add: sint_sar unat_of_nat)
  moreover have "sint w = int (unat w)" if "0 \<le> sint w" for w :: u32
  proof -
    have "\<not> top_bit w 31" using that top_bit_bit [of w 31] by (auto simp: bit31)
    then have "unat w < 2147483648" using unat_u32_less [of w] by (simp add: top_bit_def not_le)
    then show ?thesis by (rule sint_u32_small)
  qed
  ultimately have "unat (sar x (of_nat h)) = unat x div 2 ^ h"
    using assms(2) by (metis nat_int of_nat_div of_nat_numeral of_nat_power pos_imp_zdiv_nonneg_iff zero_less_numeral zero_less_power)
  moreover have "2 ^ (k - h) \<le> unat x div 2 ^ h" "unat x div 2 ^ h < 2 ^ Suc (k - h)"
    using assms(1,3) by (simp_all add: top_bit_def less_eq_div_iff_mult_less_eq div_less_iff_less_mult
        flip: power_add power_Suc)
  ultimately show ?thesis by (simp add: top_bit_def)
qed

lemma halve:
  assumes "top_bit x k" "k < 2 * h" "h \<le> 16" "0 \<le> sint x"
  shows "lnot (lnot (x AND push_bit h (mask h))) = c_bool (h \<le> k)"
    and "s = (if h \<le> k then of_nat h else 0) \<Longrightarrow>
      top_bit (sar x s) (if h \<le> k then k - h else k) \<and> 0 \<le> sint (sar x s)"
proof -
  have "x AND push_bit h (mask h) = 0 \<longleftrightarrow> \<not> h \<le> k"
  proof
    assume "x AND push_bit h (mask h) = 0"
    then have "\<not> bit (x AND push_bit h (mask h)) k" by simp
    then show "\<not> h \<le> k"
      using top_bit_bit [OF assms(1)] top_bit_less [OF assms(1)] assms(2)
      by (simp add: bit_simps) linarith
  next
    assume "\<not> h \<le> k"
    then show "x AND push_bit h (mask h) = 0"
      using top_bit_above [OF assms(1)] by (intro bit_word_eqI) (auto simp: bit_simps)
  qed
  then show "lnot (lnot (x AND push_bit h (mask h))) = c_bool (h \<le> k)" by (simp add: lnot_def)
  show "top_bit (sar x s) (if h \<le> k then k - h else k) \<and> 0 \<le> sint (sar x s)"
    if s: "s = (if h \<le> k then of_nat h else 0)"
  proof -
    have "0 \<le> sint (sar x s)" using assms(4) by (simp add: sint_sar pos_imp_zdiv_nonneg_iff)
    moreover have "sar x 0 = x" by (simp add: sar_def)
    ultimately show ?thesis using assms(1,4) top_bit_sar [of x k h] s by auto
  qed
qed

lemma ilog2_top:
  assumes "top_bit x k" "0 \<le> sint x"
  shows "ilog2 x = of_nat k"
proof -
  have masks: "shl (NOT 0) 16 = push_bit 16 (mask 16)"
    "shl (NOT 0) 8 XOR push_bit 16 (mask 16) = push_bit 8 (mask 8)"
    "(shl (NOT 0) 4 XOR push_bit 8 (mask 8)) XOR push_bit 16 (mask 16) = push_bit 4 (mask 4)"
    "((shl (NOT 0) 2 XOR push_bit 4 (mask 4)) XOR push_bit 8 (mask 8)) XOR push_bit 16 (mask 16)
      = push_bit 2 (mask 2)"
    "(((shl (NOT 0) 1 XOR push_bit 2 (mask 2)) XOR push_bit 4 (mask 4)) XOR push_bit 8 (mask 8))
      XOR push_bit 16 (mask 16) = push_bit 1 (mask 1)"
    by (simp_all add: shl_def mask_eq_exp_minus_1)
  have sh: "shl (c_bool b) 4 = (if b then of_nat 16 else 0)" "shl (c_bool b) 3 = (if b then of_nat 8 else 0)"
    "shl (c_bool b) 2 = (if b then of_nat 4 else 0)" "shl (c_bool b) 1 = (if b then of_nat 2 else 0)" for b
    by (simp_all add: shl_def push_bit_eq_mult)
  define s where "s b j = (if b then of_nat j else 0 :: u32)" for b j
  define k1 where "k1 = (if 16 \<le> k then k - 16 else k)"
  define k2 where "k2 = (if 8 \<le> k1 then k1 - 8 else k1)"
  define k3 where "k3 = (if 4 \<le> k2 then k2 - 4 else k2)"
  define k4 where "k4 = (if 2 \<le> k3 then k3 - 2 else k3)"
  define x1 where "x1 = sar x (s (16 \<le> k) 16)"
  define x2 where "x2 = sar x1 (s (8 \<le> k1) 8)"
  define x3 where "x3 = sar x2 (s (4 \<le> k2) 4)"
  define x4 where "x4 = sar x3 (s (2 \<le> k3) 2)"
  have l0: "k < 2 * 16" using top_bit_less [OF assms(1)] by simp
  have l1: "k1 < 2 * 8" using l0 unfolding k1_def by auto
  have l2: "k2 < 2 * 4" using l1 unfolding k2_def by auto
  have l3: "k3 < 2 * 2" using l2 unfolding k3_def by auto
  have l4: "k4 < 2 * 1" using l3 unfolding k4_def by auto
  note lt = l0 l1 l2 l3 l4
  have t1: "top_bit x1 k1 \<and> 0 \<le> sint x1"
    unfolding x1_def k1_def by (rule halve(2) [OF assms(1) lt(1) _ assms(2)]) (simp_all add: s_def)
  have t2: "top_bit x2 k2 \<and> 0 \<le> sint x2"
    unfolding x2_def k2_def by (rule halve(2) [OF conjunct1 [OF t1] lt(2) _ conjunct2 [OF t1]]) (simp_all add: s_def)
  have t3: "top_bit x3 k3 \<and> 0 \<le> sint x3"
    unfolding x3_def k3_def by (rule halve(2) [OF conjunct1 [OF t2] lt(3) _ conjunct2 [OF t2]]) (simp_all add: s_def)
  have t4: "top_bit x4 k4 \<and> 0 \<le> sint x4"
    unfolding x4_def k4_def by (rule halve(2) [OF conjunct1 [OF t3] lt(4) _ conjunct2 [OF t3]]) (simp_all add: s_def)
  have le: "16 \<le> (16 :: nat)" "8 \<le> (16 :: nat)" "4 \<le> (16 :: nat)" "2 \<le> (16 :: nat)" "1 \<le> (16 :: nat)"
    by simp_all
  note any = halve(1) [OF assms(1) lt(1) le(1) assms(2)] halve(1) [OF conjunct1 [OF t1] lt(2) le(2) conjunct2 [OF t1]]
    halve(1) [OF conjunct1 [OF t2] lt(3) le(3) conjunct2 [OF t2]] halve(1) [OF conjunct1 [OF t3] lt(4) le(4) conjunct2 [OF t3]]
    halve(1) [OF conjunct1 [OF t4] lt(5) le(5) conjunct2 [OF t4]]
  have "ilog2 x = s (16 \<le> k) 16 + s (8 \<le> k1) 8 + s (4 \<le> k2) 4 + s (2 \<le> k3) 2 + c_bool (1 \<le> k4)"
    unfolding ilog2_def Let_def masks
    by (simp only: any sh s_def [symmetric] x1_def [symmetric] x2_def [symmetric] x3_def [symmetric]
        x4_def [symmetric])
  also have "\<dots> = of_nat ((if 16 \<le> k then 16 else 0) + (if 8 \<le> k1 then 8 else 0) + (if 4 \<le> k2 then 4 else 0)
      + (if 2 \<le> k3 then 2 else 0) + (if 1 \<le> k4 then 1 else 0))"
    by (simp only: s_def of_nat_add if_distrib [of of_nat] semiring_1_class.of_nat_0 of_nat_1
        of_nat_numeral cong: if_cong)
  also have "(if 16 \<le> k then 16 else 0) + (if 8 \<le> k1 then 8 else 0) + (if 4 \<le> k2 then 4 else 0)
      + (if 2 \<le> k3 then 2 else 0) + (if 1 \<le> k4 then 1 else 0) = k"
  proof -
    have "(if 16 \<le> k then 16 else 0) + k1 = k" unfolding k1_def by simp
    moreover have "(if 8 \<le> k1 then 8 else 0) + k2 = k1" unfolding k2_def by simp
    moreover have "(if 4 \<le> k2 then 4 else 0) + k3 = k2" unfolding k3_def by simp
    moreover have "(if 2 \<le> k3 then 2 else 0) + k4 = k3" unfolding k4_def by auto
    moreover have "(if 1 \<le> k4 then 1 else 0) = k4" using l4 by simp
    ultimately show ?thesis by linarith
  qed
  finally show ?thesis .
qed

lemma sint_eq_0: "sint x = 0 \<longleftrightarrow> x = (0 :: u32)"
  by (metis of_int_sint_u32 of_int_0 signed_0)

lemma ilog2_ok:
  assumes "0 < sint x"
  shows "test_ilog2 x = Some (ilog2 x)"
proof -
  have "x \<noteq> 0" using assms by auto
  then obtain k where k: "top_bit x k" using top_bit_ex by blast
  then show ?thesis using test_ilog2_top ilog2_top assms by simp
qed

lemma greatestBitPos_ok: "test_greatestBitPos x = Some (greatestBitPos x)"
proof -
  have top: "sint (0x80000000 :: u32) < 0" "x AND 0x80000000 = (if sint x < 0 then 0x80000000 else 0)"
    by (simp, intro bit_word_eqI) (simp only: bit_and_iff bit_top if_distrib [of bit] if_distribR bit_0_eq
        bit31 [symmetric], auto)
  have s: "sar 0x80000000 31 = - 1" "sar 0 31 = 0" "shl 0 31 = 0"
    using top(1) by (simp_all add: sar31 shl_def)
  consider (zero) "x = 0" | (neg) "sint x < 0" | (pos) "0 < sint x"
    using sint_eq_0 [of x] by linarith
  then show ?thesis
  proof cases
    case zero
    then show ?thesis by (simp add: greatestBitPos_def test_greatestBitPos_def Let_def lnot_def shl_1_31 s)
  next
    case neg
    then have "x \<noteq> 0" by auto
    obtain k where k: "top_bit x k" using top_bit_ex [OF \<open>x \<noteq> 0\<close>] by blast
    have "\<not> k < 31" using neg top_bit_above [OF k, of 31] by (auto simp: bit31)
    then have "k = 31" using top_bit_less [OF k] by simp
    then have "top_bit x 31" using k by simp
    then have "test_greatestBitPos x = Some (push_bit 31 1)" using test_greatestBitPos_top by blast
    moreover have "greatestBitPos x = 0x80000000"
      using neg \<open>x \<noteq> 0\<close> by (simp add: greatestBitPos_def Let_def lnot_def shl_1_31 s top(2))
    ultimately show ?thesis by (simp add: push_bit_eq_mult)
  next
    case pos
    then have "x \<noteq> 0" by auto
    then obtain k where k: "top_bit x k" using top_bit_ex by blast
    have "greatestBitPos x = shl 1 (of_nat k)"
      using pos \<open>x \<noteq> 0\<close> ilog2_top [OF k]
      by (simp add: greatestBitPos_def Let_def lnot_def shl_1_31 s top(2))
    then show ?thesis using test_greatestBitPos_top [OF k] shl_1 [OF top_bit_less [OF k]] by simp
  qed
qed

lemma bit_rotate_loop:
  "k \<le> 32 \<Longrightarrow> i < 32 \<Longrightarrow> bit (rotate_loop k u) i \<longleftrightarrow> bit u (if k \<le> i then i - k else i + 32 - k)"
proof (induction k arbitrary: u)
  case (Suc k)
  let ?v = "push_bit 1 u OR drop_bit 31 u"
  have v: "bit ?v j \<longleftrightarrow> bit u (if j = 0 then 31 else j - 1)" if "j < 32" for j
    using that bit_imp_le_length [of u "31 + j"] by (simp only: bit_or_iff bit_push_bit_iff bit_drop_bit_eq comp_def, auto)
  consider "i = k" | "Suc k \<le> i" | "i < k" by linarith
  then show ?case using Suc v by cases (simp_all add: Let_def or.commute)
qed simp

lemma rotateLeft_ok:
  assumes "n \<le> 31"
  shows "rotateLeft x n = test_rotateLeft x n"
proof (rule bit_word_eqI)
  fix i assume "i < LENGTH(32)"
  then have i: "i < 32" by simp
  define k where "k = unat n"
  have k: "k \<le> 31" using assms by (simp add: k_def word_le_nat_alt)
  show "bit (rotateLeft x n) i = bit (test_rotateLeft x n) i"
  proof (cases "k = 0")
    case True
    then have "n = 0" by (simp add: k_def unat_eq_0)
    then show ?thesis by (simp add: rotateLeft_def test_rotateLeft_def Let_def shl_def sar_def)
  next
    case False
    have "unat (32 + NOT n + 1) = 32 - k"
    proof -
      have "32 + NOT n + 1 = (32 - n :: u32)" by (simp add: not_eq_complement)
      also have "unat (32 - n) = unat (32 :: u32) - unat n"
        by (rule unat_sub) (use k in \<open>simp add: k_def word_le_nat_alt\<close>)
      finally show ?thesis by (simp add: k_def)
    qed
    then have "bit (sar x (32 + NOT n + 1)) i = bit x (if i < k then i + 32 - k else 31)"
      using False k i by (auto simp: sar_def bit_signed_drop_bit_iff add.commute [of 32 i])
    moreover have "bit (shl (NOT 0) n) i \<longleftrightarrow> k \<le> i" "bit (shl x n) i \<longleftrightarrow> k \<le> i \<and> bit x (i - k)"
      using k i by (auto simp: shl_def k_def [symmetric] bit_push_bit_iff bit_not_iff bit_mask_iff)
    ultimately have "bit (rotateLeft x n) i \<longleftrightarrow> bit x (if k \<le> i then i - k else i + 32 - k)"
      using i by (auto simp: rotateLeft_def Let_def bit_xor_iff bit_and_iff bit_not_iff)
    then show ?thesis using bit_rotate_loop [of k i x] k i by (simp add: test_rotateLeft_def k_def)
  qed
qed

lemma byte_no: "n \<le> 3 \<Longrightarrow> n = 0 \<or> n = 1 \<or> n = 2 \<or> n = (3 :: u32)"
proof -
  assume "n \<le> 3"
  then have "unat n \<le> 3" by (simp add: word_le_nat_alt)
  then have "unat n = 0 \<or> unat n = 1 \<or> unat n = 2 \<or> unat n = 3" by linarith
  then show ?thesis by (auto dest!: unat_eq_of_nat)
qed

text \<open>Byte \<open>k\<close> of a word, and the word without it.\<close>

lemma take_byte_eq:
  assumes "n \<le> 3"
  shows "take_byte n x = (drop_bit (8 * unat n) x AND mask 8, x AND NOT (push_bit (8 * unat n) (mask 8)))"
proof -
  have m: "(0xFF :: u32) = mask 8" "(0xFFFFFF00 :: u32) = NOT (push_bit 0 (mask 8))"
    "(0xFF00 :: u32) = push_bit 8 (mask 8)" "(0xFFFF00FF :: u32) = NOT (push_bit 8 (mask 8))"
    "(0xFF0000 :: u32) = push_bit 16 (mask 8)" "(0xFF00FFFF :: u32) = NOT (push_bit 16 (mask 8))"
    "(0xFF000000 :: u32) = push_bit 24 (mask 8)" "(0x00FFFFFF :: u32) = NOT (push_bit 24 (mask 8))"
    by (simp_all add: mask_eq_exp_minus_1)
  have sd: "sar w 8 = signed_drop_bit 8 w" "sar w 16 = signed_drop_bit 16 w" for w
    by (simp_all add: sar_def)
  have b: "sar (x AND push_bit 8 (mask 8)) 8 = drop_bit 8 x AND mask 8"
    "sar (x AND push_bit 16 (mask 8)) 16 = drop_bit 16 x AND mask 8"
    "drop_bit 24 (x AND push_bit 24 (mask 8)) = drop_bit 24 x AND mask 8"
    unfolding sd by (rule bit_word_eqI, auto simp: bit_simps add.commute)+
  consider "n = 0" | "n = 1" | "n = 2" | "n = 3" using byte_no [OF assms] by blast
  then show ?thesis
    by cases (simp_all only: take_byte_def m b refl if_True if_False one_neq_zero, simp_all)
qed


lemma byteSwap_ok:
  assumes "n \<le> 3" "m \<le> 3"
  shows "byteSwap x n m = test_byteSwap x n m"
proof -
  let ?N = "8 * unat n" and ?M = "8 * unat m"
  have le: "unat n \<le> 3" "unat m \<le> 3" using assms by (simp_all add: word_le_nat_alt)
  have sh: "unat (shl k 3) = 8 * unat k" "unat (8 * k) = 8 * unat k" if "unat k \<le> 3" for k :: u32
  proof -
    show "unat (8 * k) = 8 * unat k" using that by (subst unat_mult_lem [THEN iffD1]) simp_all
    then show "unat (shl k 3) = 8 * unat k" by (simp add: shl_def push_bit_eq_mult mult.commute)
  qed
  have byte: "0xFF AND sar x k = drop_bit (unat k) x AND mask 8" if "unat k \<le> 24" for k
  proof -
    have "mask 8 AND signed_drop_bit (unat k) x = drop_bit (unat k) x AND mask 8"
      using that by (intro bit_word_eqI) (auto simp: bit_simps add.commute)
    moreover have "(0xFF :: u32) = mask 8" by (simp add: mask_eq_exp_minus_1)
    ultimately show ?thesis using that by (simp only: sar_def) simp
  qed
  have pb: "shl w k = push_bit (unat k) w" if "unat k \<le> 24" for w k
    using that by (simp add: shl_def)
  have ff: "(0xFF :: u32) = mask 8" by (simp add: mask_eq_exp_minus_1)
  let ?rest = "x AND NOT (push_bit ?M (mask 8)) AND NOT (push_bit ?N (mask 8))"
  let ?n = "drop_bit ?N x AND mask 8" and ?m = "drop_bit ?M x AND mask 8"
  have l: "byteSwap x n m = ?rest OR push_bit ?N ?m OR push_bit ?M ?n"
  proof -
    have s: "unat (shl n 3) = ?N" "unat (shl m 3) = ?M" "unat (shl n 3) \<le> 24" "unat (shl m 3) \<le> 24"
      using le by (simp_all add: sh)
    show ?thesis
      unfolding byteSwap_def Let_def byte [OF s(3)] byte [OF s(4)] pb [OF s(3)] pb [OF s(4)] s(1,2)
      by (simp only: ff ac_simps)
  qed
  have r: "test_byteSwap x n m = ?rest OR push_bit ?M ?n OR
      push_bit ?N (drop_bit ?M (x AND NOT (push_bit ?N (mask 8))) AND mask 8)"
  proof -
    have s: "unat (8 * n) = ?N" "unat (8 * m) = ?M" "unat (8 * n) \<le> 24" "unat (8 * m) \<le> 24"
      using le by (simp_all only: sh)
    show ?thesis
      unfolding test_byteSwap_def take_byte_eq [OF assms(1)] take_byte_eq [OF assms(2)] Let_def prod.case
        pb [OF s(3)] pb [OF s(4)] s(1,2)
      by (simp only: ac_simps)
  qed
  show ?thesis
  proof (cases "n = m")
    case True
    have "drop_bit ?N (x AND NOT (push_bit ?N (mask 8))) AND mask 8 = 0"
      by (rule bit_word_eqI) (auto simp: bit_simps)
    then show ?thesis unfolding l r using True by simp
  next
    case False
    then have "unat n \<noteq> unat m" by (simp add: word_unat_eq_iff)
    then have "\<not> (?N \<le> i + ?M \<and> i + ?M - ?N < 8)" if "i < 8" for i using that by linarith
    then have "drop_bit ?M (x AND NOT (push_bit ?N (mask 8))) AND mask 8 = ?m"
      by (intro bit_word_eqI) (auto simp: bit_simps add.commute dest: bit_imp_le_length)
    then show ?thesis unfolding l r by (simp add: ac_simps)
  qed
qed

section \<open>The puzzles against their references\<close>

text \<open>C37: for every argument the unrestricted puzzles of \<open>changes.c\<close> (\<open>absVal\<close>, \<open>addOK\<close>, \<open>allEvenBits\<close>,
  \<open>ezThreeFourths\<close>, \<open>isPower2\<close>, \<open>logicalNeg\<close>, \<open>multFiveEighths\<close>, \<open>satAdd\<close>, \<open>sm2tc\<close>,
  \<open>trueThreeFourths\<close>, \<open>trueFiveEighths\<close> and \<open>greatestBitPos\<close>) return exactly what the reference function of
  \<open>tests.c\<close> returns, wrap-around and rounding included; the search loop of \<open>test_greatestBitPos\<close> ends.\<close>

theorem puzzles_match_reference:
  "absVal x = test_absVal x \<and> addOK x y = test_addOK x y \<and> allEvenBits x = test_allEvenBits x
   \<and> ezThreeFourths x = test_ezThreeFourths x \<and> isPower2 x = test_isPower2 x
   \<and> logicalNeg x = test_logicalNeg x \<and> multFiveEighths x = test_multFiveEighths x
   \<and> satAdd x y = test_satAdd x y \<and> sm2tc x = test_sm2tc x
   \<and> trueThreeFourths x = test_trueThreeFourths x \<and> trueFiveEighths x = test_trueFiveEighths x
   \<and> test_greatestBitPos x = Some (greatestBitPos x)"
  by (intro conjI absVal_ok addOK_ok allEvenBits_ok ezThreeFourths_ok isPower2_ok logicalNeg_ok
      multFiveEighths_ok satAdd_ok sm2tc_ok trueThreeFourths_ok trueFiveEighths_ok greatestBitPos_ok)

text \<open>C40: the puzzles whose comment restricts the arguments return what their reference returns on
  that range: \<open>divpwr2\<close> for shifts up to 30, \<open>rotateLeft\<close> up to 31, \<open>fitsBits\<close> for widths 1 to 32,
  \<open>byteSwap\<close> for byte numbers up to 3, \<open>implication\<close> on truth values, \<open>tc2sm\<close> above the least
  integer, and \<open>ilog2\<close> of a positive number, where the loop of \<open>test_ilog2\<close> also ends.\<close>

theorem ranged_puzzles_match:
  assumes "k \<le> 30" "r \<le> 31" "1 \<le> w" "w \<le> 32" "n \<le> 3" "m \<le> 3" "p \<in> {0, 1}" "q \<in> {0, 1}"
    "z \<noteq> 0x80000000" "0 < sint v"
  shows "divpwr2 x k = test_divpwr2 x k \<and> rotateLeft x r = test_rotateLeft x r
    \<and> fitsBits x w = test_fitsBits x w \<and> byteSwap x n m = test_byteSwap x n m
    \<and> implication p q = test_implication p q \<and> tc2sm z = test_tc2sm z
    \<and> test_ilog2 v = Some (ilog2 v)"
  using assms by (intro conjI divpwr2_ok rotateLeft_ok fitsBits_ok byteSwap_ok implication_ok tc2sm_ok ilog2_ok)

theorem ranged_puzzles_match_witness:
  "divpwr2 (- 33) 4 = test_divpwr2 (- 33) 4 \<and> rotateLeft 0x87654321 4 = test_rotateLeft 0x87654321 4
    \<and> test_ilog2 16 = Some (ilog2 16)"
  using ranged_puzzles_match [where k = 4 and r = 4 and w = 3 and n = 3 and m = 1 and p = 0 and q = 1
      and z = 5 and v = 16 and x = "- 33"]
    ranged_puzzles_match [where k = 4 and r = 4 and w = 3 and n = 3 and m = 1 and p = 0 and q = 1
      and z = 5 and v = 16 and x = "0x87654321"]
  by simp

end
