(* ===== verification/Irc.thy ===== *)
theory Irc
  imports Prelude
begin

text \<open>
  The IRC server \<open>chirc\<close>: the framing of lines and the threads of \<open>main.c\<close>, the dispatch of
  \<open>parse.c\<close>, the clients of \<open>threads.c\<close>, the channels of \<open>channel.c\<close> and the handlers of
  \<open>handlers.c\<close>.

  Clients, channels and memberships (\<open>userInChannel\<close>) are structures on the heap that several lists
  point to. A pointer is an index into the list of the structures allocated so far; nothing the
  handlers use is ever freed (a channel that is destroyed loses its name, and no list points to it
  any more). The lists of simclist are lists of pointers: \<open>list_locate\<close> followed by
  \<open>list_get_at\<close>, and \<open>list_seek\<close>, find the first element that matches.

  A handler is one step: the threads take turns line by line. The lines a handler sends are
  recorded in order in \<open>out\<close>.
\<close>

section \<open>Strings\<close>

definition crlf :: string where
  "crlf = [CHR 0x0D, CHR 0x0A]"

text \<open>\<open>strlen\<close> of an array, which must hold a NUL.\<close>

definition strlen :: "string \<Rightarrow> nat res" where
  "strlen a = (if NUL \<in> set a then Inr (length (c_str a)) else Inl Overrun)"

text \<open>\<open>strcpy\<close> into an array of \<open>n\<close> characters, and \<open>sprintf\<close> into one.\<close>

definition strcpy :: "nat \<Rightarrow> string \<Rightarrow> string res" where
  "strcpy n src = (if length src < n then Inr src else Inl Overrun)"

definition sprintf :: "nat \<Rightarrow> string list \<Rightarrow> string res" where
  "sprintf n parts = (if length (concat parts) < n then Inr (concat parts) else Inl Overrun)"

definition digit :: "nat \<Rightarrow> char" where
  "digit d = char_of (48 + d)"

fun dec_nat :: "nat \<Rightarrow> string" where
  "dec_nat n = (if n < 10 then [digit n] else dec_nat (n div 10) @ [digit (n mod 10)])"

text \<open>\<open>%d\<close>\<close>

definition dec :: "int \<Rightarrow> string" where
  "dec k = (if k < 0 then ''-'' @ dec_nat (nat (- k)) else dec_nat (nat k))"

section \<open>State\<close>

text \<open>A mode array is the ten characters of a \<open>char[10]\<close>.\<close>

record client =
  ourSocket :: int
  nick :: string
  user :: string
  registered :: bool
  real_name :: string
  away :: string
  userModes :: string
  client_uics :: "nat list"

record channel =
  chan_name :: string
  chanModes :: string
  topic :: string
  chan_uics :: "nat list"
  nusers :: int

record userinchannel =
  uic_chan :: nat
  uic_user :: nat
  userChanModes :: string

text \<open>The buffer of a client's thread: \<open>smallBuffer[0..iinsmall)\<close> and the two flags.\<close>

record thread_buf =
  mySocket :: int
  smallBuffer :: string
  isbackr :: bool
  isbackn :: bool

text \<open>
  \<open>junk a\<close> is what \<open>malloc\<close> leaves in the mode array of the \<open>a\<close>-th structure of its kind,
  \<open>motd\<close> the file \<open>motd.txt\<close> if it can be opened.
\<close>

record irc =
  host :: string
  passwd :: string
  motd :: "string option"
  junk :: "nat \<Rightarrow> string"
  clients :: "client list"
  channels :: "channel list"
  uics :: "userinchannel list"
  clientList :: "nat list"
  channelList :: "nat list"
  threads :: "thread_buf list"
  out :: "(int \<times> string) list"

definition upd_client :: "nat \<Rightarrow> (client \<Rightarrow> client) \<Rightarrow> irc \<Rightarrow> irc" where
  "upd_client a f s = s\<lparr>clients := (clients s)[a := f (clients s ! a)]\<rparr>"

definition upd_channel :: "nat \<Rightarrow> (channel \<Rightarrow> channel) \<Rightarrow> irc \<Rightarrow> irc" where
  "upd_channel a f s = s\<lparr>channels := (channels s)[a := f (channels s ! a)]\<rparr>"

definition upd_uic :: "nat \<Rightarrow> (userinchannel \<Rightarrow> userinchannel) \<Rightarrow> irc \<Rightarrow> irc" where
  "upd_uic a f s = s\<lparr>uics := (uics s)[a := f (uics s ! a)]\<rparr>"

fun locate :: "('a \<Rightarrow> bool) \<Rightarrow> 'a list \<Rightarrow> nat option" where
  "locate P [] = None"
| "locate P (x # xs) = (if P x then Some 0 else map_option Suc (locate P xs))"

section \<open>sockets.c\<close>

text \<open>
  \<open>betterSend\<close>: \<open>rs\<close> are the results of the successive calls of \<open>send\<close>. The result is the return
  value and what has been sent; \<open>None\<close> is a loop that has not ended when the results are used up.
\<close>

fun betterSend :: "int list \<Rightarrow> string \<Rightarrow> (int \<times> string) option" where
  "betterSend rs [] = Some (0, [])"
| "betterSend [] (c # m) = None"
| "betterSend (r # rs) (c # m) =
     (if r = -1 then Some (-1, [])
      else map_option (\<lambda>(ret, sent). (ret, take (nat r) (c # m) @ sent))
             (betterSend rs (drop (nat r) (c # m))))"

text \<open>\<open>sendMessage\<close> (\<open>parse.c\<close>) sends the whole message, unless the connection is broken.\<close>

definition sendMessage :: "string \<Rightarrow> int \<Rightarrow> irc \<Rightarrow> irc" where
  "sendMessage message socket s = s\<lparr>out := out s @ [(socket, c_str message)]\<rparr>"

text \<open>\<open>sprintf(msgbuf, ...); sendMessage(msgbuf, socket)\<close> with \<open>msgbuf\<close> of 512 characters.\<close>

definition say :: "int \<Rightarrow> string list \<Rightarrow> irc \<Rightarrow> irc res" where
  "say socket parts s = rbind (sprintf 512 parts) (\<lambda>m. Inr (sendMessage m socket s))"

fun say_all :: "int \<Rightarrow> string list list \<Rightarrow> irc \<Rightarrow> irc res" where
  "say_all socket [] s = Inr s"
| "say_all socket (parts # ms) s = rbind (say socket parts s) (say_all socket ms)"

section \<open>threads.c\<close>

definition seeker :: "int \<Rightarrow> client \<Rightarrow> bool" where
  "seeker key cli \<longleftrightarrow> ourSocket cli = key"

definition list_seek_socket :: "int \<Rightarrow> irc \<Rightarrow> nat option" where
  "list_seek_socket socket s = find (\<lambda>a. seeker socket (clients s ! a)) (clientList s)"

text \<open>The comparator of clients returns 0 when the nicknames are equal.\<close>

definition comparator :: "string \<Rightarrow> client \<Rightarrow> bool" where
  "comparator n cli \<longleftrightarrow> nick cli = n"

definition findUser :: "string option \<Rightarrow> irc \<Rightarrow> nat option res" where
  "findUser n s = rbind (deref n) (\<lambda>n. rbind (strcpy 9 n)
     (\<lambda>n. Inr (find (\<lambda>a. comparator n (clients s ! a)) (clientList s))))"

definition makeClient :: "int \<Rightarrow> client" where
  "makeClient IDSocket = \<lparr>ourSocket = IDSocket, nick = [], user = [], registered = False,
     real_name = [], away = [], userModes = replicate 10 NUL, client_uics = []\<rparr>"

section \<open>channel.c\<close>

definition hasMode :: "string \<Rightarrow> char \<Rightarrow> bool res" where
  "hasMode modes mode = rbind (strlen modes) (\<lambda>n. Inr (mode \<in> set (take n modes)))"

definition setMode :: "string \<Rightarrow> char \<Rightarrow> string res" where
  "setMode modes mode = rbind (strlen modes) (\<lambda>i.
     if mode \<in> set (take i modes) then Inr modes
     else if Suc i < length modes then Inr (modes[i := mode, Suc i := NUL]) else Inl Overrun)"

text \<open>The inner loop of \<open>removeMode\<close>: everything up to the NUL moves down by one.\<close>

fun shift_down :: "string \<Rightarrow> nat list \<Rightarrow> string" where
  "shift_down modes [] = modes"
| "shift_down modes (j # js) = shift_down (modes[j := modes ! Suc j]) js"

definition removeMode :: "string \<Rightarrow> char \<Rightarrow> string res" where
  "removeMode modes mode = rbind (strlen modes) (\<lambda>origLen.
     Inr (case locate (\<lambda>c. c = mode) (take origLen modes) of
            None \<Rightarrow> modes
          | Some i \<Rightarrow> shift_down modes [i..<origLen]))"

fun message_loop :: "string \<Rightarrow> int \<Rightarrow> nat list \<Rightarrow> irc \<Rightarrow> irc res" where
  "message_loop msg msger [] s = Inr s"
| "message_loop msg msger (u # us) s =
     (let currUser = clients s ! uic_user (uics s ! u) in
      if ourSocket currUser \<noteq> msger then
        rbind (hasMode (userModes currUser) CHR ''a'') (\<lambda>isaway.
          if \<not> isaway then message_loop msg msger us (sendMessage msg (ourSocket currUser) s)
          else rbind (say msger ['':'', host s, '' 301 '', nick currUser, '' :'', away currUser, crlf] s)
                 (message_loop msg msger us))
      else message_loop msg msger us s)"

definition messageAllUsers :: "string \<Rightarrow> nat \<Rightarrow> int \<Rightarrow> irc \<Rightarrow> irc res" where
  "messageAllUsers msg chan msger s = message_loop msg msger (chan_uics (channels s ! chan)) s"

text \<open>\<open>None\<close> is -1.\<close>

definition isUserInChannel :: "int \<Rightarrow> nat \<Rightarrow> irc \<Rightarrow> nat option" where
  "isUserInChannel usersoc chan s =
     locate (\<lambda>u. ourSocket (clients s ! uic_user (uics s ! u)) = usersoc)
       (chan_uics (channels s ! chan))"

definition createChannel :: "string \<Rightarrow> string \<Rightarrow> string \<Rightarrow> channel" where
  "createChannel jnk name tpc = \<lparr>chan_name = name, chanModes = jnk[0 := NUL], topic = tpc,
     chan_uics = [], nusers = 0\<rparr>"

definition seekByName :: "string \<Rightarrow> irc \<Rightarrow> nat \<Rightarrow> bool" where
  "seekByName name s c \<longleftrightarrow> chan_name (channels s ! c) = name"

text \<open>
  \<open>findChannel\<close> makes a channel with the name only to compare it with the others; it is not
  reachable afterwards (nor freed).
\<close>

definition findChannel :: "string option \<Rightarrow> irc \<Rightarrow> nat option res" where
  "findChannel name s = rbind (deref name) (\<lambda>n. Inr (find (seekByName n s) (channelList s)))"

text \<open>\<open>destroyChannel\<close> looks the channel up by its name.\<close>

definition list_delete_at :: "'a list \<Rightarrow> nat option \<Rightarrow> 'a list" where
  "list_delete_at xs pos = (case pos of None \<Rightarrow> xs | Some i \<Rightarrow> take i xs @ drop (Suc i) xs)"

definition destroyChannel :: "nat \<Rightarrow> irc \<Rightarrow> irc" where
  "destroyChannel chan s = upd_channel chan (\<lambda>c. c\<lparr>chan_uics := []\<rparr>)
     (s\<lparr>channelList := list_delete_at (channelList s)
          (locate (seekByName (chan_name (channels s ! chan)) s) (channelList s))\<rparr>)"

definition removeUser :: "int \<Rightarrow> nat \<Rightarrow> irc \<Rightarrow> irc" where
  "removeUser usersoc chan s =
     (let s1 = upd_channel chan (\<lambda>c. c\<lparr>chan_uics :=
                 list_delete_at (chan_uics c) (isUserInChannel usersoc chan s),
                 nusers := nusers c - 1\<rparr>) s
      in if nusers (channels s1 ! chan) = 0 then destroyChannel chan s1 else s1)"

definition makeUserInChannel :: "string \<Rightarrow> nat \<Rightarrow> nat \<Rightarrow> userinchannel" where
  "makeUserInChannel jnk cli chan = \<lparr>uic_chan = chan, uic_user = cli, userChanModes = jnk\<rparr>"

definition addUserInChannel :: "nat \<Rightarrow> nat \<Rightarrow> irc \<Rightarrow> irc" where
  "addUserInChannel chan joiner = upd_channel chan (\<lambda>c. c\<lparr>chan_uics := chan_uics c @ [joiner]\<rparr>)"

definition addChanneltoUsersList :: "nat \<Rightarrow> nat \<Rightarrow> irc \<Rightarrow> irc" where
  "addChanneltoUsersList u cli = upd_client cli (\<lambda>c. c\<lparr>client_uics := client_uics c @ [u]\<rparr>)"

definition pairUserWithChannel :: "nat \<Rightarrow> nat \<Rightarrow> bool \<Rightarrow> irc \<Rightarrow> irc res" where
  "pairUserWithChannel cli chan ifCOp s =
     (let u = length (uics s);
          s = s\<lparr>uics := uics s @ [makeUserInChannel (junk s u) cli chan]\<rparr>;
          s = upd_channel chan (\<lambda>c. c\<lparr>nusers := nusers c + 1\<rparr>) s;
          s = addUserInChannel chan u s;
          s = addChanneltoUsersList u cli s
      in if ifCOp
         then rbind (setMode (userChanModes (uics s ! u)) CHR ''O'')
                (\<lambda>m. Inr (upd_uic u (\<lambda>x. x\<lparr>userChanModes := m\<rparr>) s))
         else Inr s)"

end
