(* ===== verification/Irc_Handlers.thy ===== *)
theory Irc_Handlers
  imports Irc
begin

text \<open>
  The handlers of \<open>handlers.c\<close>, the dispatch of \<open>parse.c\<close> and the reading loop of \<open>main.c\<close>. A
  handler that follows a null pointer, writes past a buffer or reads past a string ends in a fault,
  which ends the server. Reading a field through a null pointer is a fault where the code first
  takes the field.
\<close>

section \<open>Parameters of a command\<close>

text \<open>
  \<open>charTokenArray\<close>: the first eight words of the line (\<open>None\<close> is NULL), \<open>'y'\<close> or \<open>'n'\<close> in entry 9,
  and the text between the first two colons in entry 10.
\<close>

record params =
  word :: "string option list"
  colonflag :: char
  text_arg :: string

text \<open>The client of the connection, which the handlers dereference without a check.\<close>

definition our_client :: "int \<Rightarrow> irc \<Rightarrow> nat res" where
  "our_client socket s = deref (list_seek_socket socket s)"

section \<open>Registration\<close>

definition handle_LUSERS :: "int \<Rightarrow> irc \<Rightarrow> irc res" where
  "handle_LUSERS socket s =
     (let numUsers = length (filter (\<lambda>a. registered (clients s ! a)) (clientList s));
          numUnregUsers = length (filter (\<lambda>a. \<not> registered (clients s ! a)) (clientList s))
      in rbind (our_client socket s) (\<lambda>cli.
        let u = user (clients s ! cli) in
        say_all socket
          [['':'', host s, '' 251 '', u, '' :There are '', dec (int numUsers),
            '' users and 0 services on 1 servers'', crlf],
           ['':'', host s, '' 252 '', u, '' 0 :operator(s) online'', crlf],
           ['':'', host s, '' 253 '', u, '' '', dec (int numUnregUsers), '' :unknown connection(s)'', crlf],
           ['':'', host s, '' 254 '', u, '' 0 :channels formed'', crlf],
           ['':'', host s, '' 255 '', u, '' :I have '', dec (int (numUsers + numUnregUsers)),
            '' clients and 1 servers'', crlf]] s))"

text \<open>\<open>handle_MOTD\<close> reads the file with \<open>fgets(filebuf, 500, file)\<close>.\<close>

function motd_loop :: "int \<Rightarrow> string \<Rightarrow> string \<Rightarrow> irc \<Rightarrow> irc res" where
  "motd_loop socket n file s =
     (if file = [] then Inr s
      else let (filebuf, rest) = fgets 499 file; len = length (c_str filebuf) in
        if len = 0 then Inl Overrun
        else let line = (if filebuf ! (len - 1) = CHR 0x0A then take (len - 1) filebuf else filebuf) in
          rbind (say socket ['':'', host s, '' 372 '', n, '' :- '', c_str line, crlf] s)
            (motd_loop socket n rest))"
  by pat_completeness auto
termination
  by (relation "measure (\<lambda>(socket, n, file, s). length file)")
    (auto, metis fgets_shorter snd_conv zero_less_numeral)

declare motd_loop.simps [simp del]

definition handle_MOTD :: "int \<Rightarrow> irc \<Rightarrow> irc res" where
  "handle_MOTD socket s = rbind (our_client socket s) (\<lambda>srcUser.
     let n = nick (clients s ! srcUser) in
     case motd s of
       Some file \<Rightarrow>
         rbind (say socket ['':'', host s, '' 375 '', n, '' :- '', host s, '' Message of the day - '', crlf] s)
           (\<lambda>s. rbind (motd_loop socket n file s)
              (\<lambda>s. say socket ['':'', host s, '' 376 '', n, '' :End of MOTD command'', crlf] s))
     | None \<Rightarrow>
         say socket ['':'', host s, '' 422 '', user (clients s ! srcUser), '' :MOTD File is missing'', crlf] s)"

text \<open>The end of \<open>handle_NICK\<close> and \<open>handle_USER\<close>: the welcome of a client that has both names.\<close>

definition welcome_client :: "int \<Rightarrow> nat \<Rightarrow> string \<Rightarrow> string \<Rightarrow> irc \<Rightarrow> irc res" where
  "welcome_client socket ourCli n u s =
     (if n \<noteq> [] \<and> u \<noteq> [] then
        rbind (say_all (ourSocket (clients s ! ourCli))
          [['':'', host s, '' 001 '', n, '' :Welcome to the Internet Relay Network '', n, ''!'', u,
            ''@localhost.localdomain'', crlf],
           ['':'', host s, '' 002 '', n, '' :Your host is '', host s, '', running version chirc-0.1'', crlf],
           ['':'', host s, '' 003 '', n, '' :This server was created 2012-01-02 13:30:04'', crlf],
           ['':'', host s, '' 004 '', n, '' '', host s, '' chirc-0.1 ao mtov'', crlf]]
          (upd_client ourCli (\<lambda>c. c\<lparr>registered := True\<rparr>) s))
          (\<lambda>s. rbind (handle_LUSERS socket s) (handle_MOTD socket))
      else Inr s)"

definition handle_NICK :: "params \<Rightarrow> int \<Rightarrow> irc \<Rightarrow> irc res" where
  "handle_NICK p socket s = rbind (findUser (word p ! 1) s) (\<lambda>ifused.
     let n = the (word p ! 1) in
     if ifused \<noteq> None then
       say socket ['':'', host s, '' 433 * '', n, '' :Nickname is already in use'', crlf] s
     else rbind (our_client socket s) (\<lambda>ourCli.
       rbind (strcpy 9 n) (\<lambda>n.
         welcome_client socket ourCli n (user (clients s ! ourCli))
           (upd_client ourCli (\<lambda>c. c\<lparr>nick := n\<rparr>) s))))"

definition handle_USER :: "params \<Rightarrow> int \<Rightarrow> irc \<Rightarrow> irc res" where
  "handle_USER p socket s = rbind (our_client socket s) (\<lambda>ourCli.
     rbind (deref (word p ! 1)) (\<lambda>u. rbind (strcpy 500 u) (\<lambda>u. rbind (strcpy 500 (text_arg p)) (\<lambda>r.
       welcome_client socket ourCli (nick (clients s ! ourCli)) u
         (upd_client ourCli (\<lambda>c. c\<lparr>user := u, real_name := r\<rparr>) s)))))"

text \<open>
  \<open>list_delete\<close> removes the first client with the nickname of the one that quits. With no client
  for the socket it compares the elements with a null pointer. The socket is closed.
\<close>

definition handle_QUIT :: "int \<Rightarrow> irc \<Rightarrow> irc res" where
  "handle_QUIT socket s =
     (case list_seek_socket socket s of
        None \<Rightarrow> if clientList s = [] then Inr s else Inl Null_deref
      | Some srcUser \<Rightarrow>
          Inr (s\<lparr>clientList := list_delete_at (clientList s)
            (locate (\<lambda>a. comparator (nick (clients s ! srcUser)) (clients s ! a)) (clientList s))\<rparr>))"

section \<open>Messages\<close>

definition first_char :: "string \<Rightarrow> char" where
  "first_char t = (if t = [] then NUL else hd t)"

definition handle_PRIVMSG :: "params \<Rightarrow> int \<Rightarrow> irc \<Rightarrow> irc res" where
  "handle_PRIVMSG p socket s =
     (let msg = text_arg p; srcUser = our_client socket s in
      rbind (deref (word p ! 1)) (\<lambda>dest.
      if first_char dest = CHR ''#'' then
        rbind (findChannel (Some dest) s) (\<lambda>chan. case chan of
          None \<Rightarrow> rbind srcUser (\<lambda>a.
            say socket ['':'', host s, '' 401 '', nick (clients s ! a), '' '', dest, '' :No such nick/channel'', crlf] s)
        | Some chan \<Rightarrow>
            if isUserInChannel socket chan s = None then rbind srcUser (\<lambda>a.
              say socket ['':'', host s, '' 404 '', user (clients s ! a), '' '', dest, '' :Cannot send to channel'', crlf] s)
            else rbind srcUser (\<lambda>a.
              rbind (sprintf 512 ['':'', nick (clients s ! a), ''!'', user (clients s ! a),
                ''@hostname PRIVMSG '', dest, '' :'', msg, crlf])
                (\<lambda>m. messageAllUsers m chan socket s)))
      else
        rbind (findUser (Some dest) s) (\<lambda>destUser. case destUser of
          None \<Rightarrow> rbind srcUser (\<lambda>a.
            say socket ['':'', host s, '' 401 '', nick (clients s ! a), '' '', dest, '' :No such nick/channel'', crlf] s)
        | Some d \<Rightarrow> rbind srcUser (\<lambda>a.
            say (ourSocket (clients s ! d)) ['':'', nick (clients s ! a), ''!'', user (clients s ! a),
              ''@srchost PRIVMSG '', dest, '' :'', msg, crlf] s))))"

definition handle_NOTICE :: "params \<Rightarrow> int \<Rightarrow> irc \<Rightarrow> irc res" where
  "handle_NOTICE p socket s =
     (let msg = text_arg p; srcUser = our_client socket s in
      rbind (deref (word p ! 1)) (\<lambda>dest.
      if first_char dest = CHR ''#'' then
        rbind (findChannel (Some dest) s) (\<lambda>chan. case chan of
          None \<Rightarrow> Inr s
        | Some chan \<Rightarrow>
            if isUserInChannel socket chan s = None then Inr s
            else rbind srcUser (\<lambda>a.
              rbind (sprintf 512 ['':'', nick (clients s ! a), ''!'', user (clients s ! a),
                ''@hostname NOTICE '', dest, '' :'', msg, crlf])
                (\<lambda>m. messageAllUsers m chan socket s)))
      else
        rbind (findUser (Some dest) s) (\<lambda>destUser. case destUser of
          None \<Rightarrow> Inr s
        | Some d \<Rightarrow> rbind srcUser (\<lambda>a.
            say (ourSocket (clients s ! d)) ['':'', nick (clients s ! a), ''!'', user (clients s ! a),
              ''@sentuser NOTICE '', dest, '' :'', msg, crlf] s))))"

definition handle_PING :: "int \<Rightarrow> irc \<Rightarrow> irc res" where
  "handle_PING socket s = say socket ['':'', host s, '' PONG '', host s, crlf] s"

definition handle_PONG :: "int \<Rightarrow> irc \<Rightarrow> irc res" where
  "handle_PONG socket s = Inr s"

definition handle_WHO :: "int \<Rightarrow> irc \<Rightarrow> irc res" where
  "handle_WHO socket s = Inr s"

definition handle_WHOIS :: "params \<Rightarrow> int \<Rightarrow> irc \<Rightarrow> irc res" where
  "handle_WHOIS p socket s = rbind (findUser (word p ! 1) s) (\<lambda>vip.
     rbind (our_client socket s) (\<lambda>looker.
       let n = the (word p ! 1); l = nick (clients s ! looker) in
       case vip of
         None \<Rightarrow> say socket ['':'', host s, '' 401 '', l, '' '', n, '' :No such nick/channel'', crlf] s
       | Some v \<Rightarrow>
           say_all socket
             [['':'', host s, '' 311 '', l, '' '', n, '' '', user (clients s ! v), '' '', host s, '' * :'',
               real_name (clients s ! v), crlf],
              ['':'', host s, '' 312 '', l, '' '', n, '' '', host s, '' :The best server ever'', crlf],
              ['':'', host s, '' 318 '', l, '' '', n, '' :End of WHOIS list'', crlf]] s))"

definition handle_AWAY :: "params \<Rightarrow> int \<Rightarrow> irc \<Rightarrow> irc res" where
  "handle_AWAY p socket s = rbind (our_client socket s) (\<lambda>a.
     case word p ! 1 of
       None \<Rightarrow> rbind (removeMode (userModes (clients s ! a)) CHR ''a'') (\<lambda>m.
         say socket ['':'', host s, '' 305 * '', nick (clients s ! a),
             '' :You are no longer marked as being away'', crlf]
           (upd_client a (\<lambda>c. c\<lparr>userModes := m\<rparr>) s))
     | Some msg \<Rightarrow> rbind (setMode (userModes (clients s ! a)) CHR ''a'') (\<lambda>m.
         rbind (strcpy 100 msg) (\<lambda>msg.
           say socket ['':'', host s, '' 306 * '', nick (clients s ! a),
               '' :You have been marked as being away'', crlf]
             (upd_client a (\<lambda>c. c\<lparr>userModes := m, away := msg\<rparr>) s))))"

definition handle_OPER :: "params \<Rightarrow> int \<Rightarrow> irc \<Rightarrow> irc res" where
  "handle_OPER p socket s = rbind (deref (word p ! 1)) (\<lambda>name.
     if length name < 1 then Inr s
     else rbind (deref (word p ! 2)) (\<lambda>password.
       rbind (our_client socket s) (\<lambda>a.
         if passwd s \<noteq> password then
           say socket ['':'', host s, '' 464 '', nick (clients s ! a), '' :Password incorrect'', crlf] s
         else rbind (setMode (userModes (clients s ! a)) CHR ''o'') (\<lambda>m.
           rbind (say socket ['':'', host s, '' 381 '', nick (clients s ! a),
                '' :You are now an IRC operator'', crlf]
              (upd_client a (\<lambda>c. c\<lparr>userModes := m\<rparr>) s))
             (\<lambda>s. rbind (sprintf 512 ['':'', host s, '' MODE '', nick (clients s ! a), '' :+s'', crlf])
               (\<lambda>_. Inr s))))))"

section \<open>Channels\<close>

text \<open>\<open>handle_JOIN\<close> has a buffer of 515 characters.\<close>

definition say515 :: "int \<Rightarrow> string list \<Rightarrow> irc \<Rightarrow> irc res" where
  "say515 socket parts s = rbind (sprintf 515 parts) (\<lambda>m. Inr (sendMessage m socket s))"

definition join_channel :: "int \<Rightarrow> nat \<Rightarrow> string \<Rightarrow> nat \<Rightarrow> bool \<Rightarrow> irc \<Rightarrow> irc res" where
  "join_channel socket beingAdded chanName chan ifnew s =
     (if isUserInChannel socket chan s \<noteq> None then Inr s
      else
        let n = nick (clients s ! beingAdded); u = user (clients s ! beingAdded) in
        rbind (pairUserWithChannel beingAdded chan ifnew s) (\<lambda>s.
        rbind (sprintf 515 ['':'', n, ''!'', u, ''@hostname JOIN '', chanName, crlf]) (\<lambda>m.
        rbind (messageAllUsers m chan socket (sendMessage m socket s)) (\<lambda>s.
        rbind (if topic (channels s ! chan) \<noteq> [] then
                 say515 socket ['':'', host s, '' 332 '', n, '' '', chanName, '' :'', topic (channels s ! chan), crlf] s
               else Inr s) (\<lambda>s.
        rbind (say515 socket ['':'', n, ''!'', u, ''@hostname 353 '', n, '' = '', chanName,
                 '' :nicknames eventually go here'', crlf] s) (\<lambda>s.
        say515 socket ['':'', n, ''!'', u, ''@hostname 366 '', n, '' '', chanName,
          '' :End of NAMES list'', crlf] s))))))"

definition handle_JOIN :: "params \<Rightarrow> int \<Rightarrow> irc \<Rightarrow> irc res" where
  "handle_JOIN p socket s = rbind (our_client socket s) (\<lambda>beingAdded.
     rbind (findChannel (word p ! 1) s) (\<lambda>found.
       let chanName = the (word p ! 1) in
       case found of
         Some chan \<Rightarrow> join_channel socket beingAdded chanName chan False s
       | None \<Rightarrow>
           let chan = length (channels s) in
           join_channel socket beingAdded chanName chan True
             (s\<lparr>channels := channels s @ [createChannel (junk s chan) chanName []],
                channelList := channelList s @ [chan]\<rparr>)))"

definition handle_PART :: "params \<Rightarrow> int \<Rightarrow> irc \<Rightarrow> irc res" where
  "handle_PART p socket s = rbind (our_client socket s) (\<lambda>a.
     let n = nick (clients s ! a); u = user (clients s ! a); msg = text_arg p in
     rbind (findChannel (word p ! 1) s) (\<lambda>found.
       let chanName = the (word p ! 1) in
       case found of
         None \<Rightarrow> say socket ['':'', host s, '' 403 '', n, '' '', chanName, '' :No such channel'', crlf] s
       | Some chan \<Rightarrow>
           if isUserInChannel socket chan s = None then
             say socket ['':'', host s, '' 442 '', n, '' '', chanName, '' :You'', [CHR 0x27], ''re not on that channel'', crlf] s
           else rbind (sprintf 512 (['':'', n, ''!'', u, ''@hostname PART '', chanName]
                  @ (if msg = [] then [] else ['' :'', msg]) @ [crlf])) (\<lambda>m.
             rbind (messageAllUsers m chan socket (sendMessage m socket s)) (\<lambda>s.
               Inr (removeUser socket chan s)))))"

definition handle_TOPIC :: "params \<Rightarrow> int \<Rightarrow> irc \<Rightarrow> irc res" where
  "handle_TOPIC p socket s = rbind (our_client socket s) (\<lambda>a.
     let n = nick (clients s ! a); u = user (clients s ! a); msg = text_arg p in
     rbind (findChannel (word p ! 1) s) (\<lambda>found.
       let chanName = the (word p ! 1);
           not_on = say socket ['':'', host s, '' 442 '', n, '' '', chanName, '' :You'', [CHR 0x27],
             ''re not on that channel'', crlf] s in
       case found of
         None \<Rightarrow> not_on
       | Some chan \<Rightarrow>
           if isUserInChannel socket chan s = None then not_on
           else if colonflag p = CHR ''n'' then
             (if topic (channels s ! chan) \<noteq> [] then
                say socket ['':'', host s, '' 332 '', n, '' '', chanName, '' :'', topic (channels s ! chan), crlf] s
              else say socket ['':'', host s, '' 331 '', n, '' '', chanName, '' :No topic is set'', crlf] s)
           else
             let s = upd_channel chan (\<lambda>c. c\<lparr>topic := msg\<rparr>) s in
             rbind (sprintf 512 ['':'', n, ''!'', u, ''@localhost.localdomain TOPIC '', chanName, '' :'', msg, crlf])
               (\<lambda>m. messageAllUsers m chan socket (sendMessage m socket s))))"

text \<open>
  \<open>handle_LIST\<close>; \<open>list_line\<close> is the line for one channel.
\<close>

definition list_line :: "string \<Rightarrow> nat \<Rightarrow> irc \<Rightarrow> string list" where
  "list_line n chan s =
     (let c = channels s ! chan in
      ['':'', host s, '' 322 '', n, '' '', chan_name c, '' '', dec (nusers c), '' :'', topic c, crlf])"

definition handle_LIST :: "params \<Rightarrow> int \<Rightarrow> irc \<Rightarrow> irc res" where
  "handle_LIST p socket s = rbind (our_client socket s) (\<lambda>a.
     let n = nick (clients s ! a); fin = ['':'', host s, '' 323 '', n, '' :End of LIST'', crlf] in
     case word p ! 1 of
       Some chanName \<Rightarrow>
         rbind (findChannel (Some chanName) s) (\<lambda>found. case found of
           None \<Rightarrow> Inr s
         | Some chan \<Rightarrow> say_all socket [list_line n chan s, fin] s)
     | None \<Rightarrow> say_all socket (map (\<lambda>chan. list_line n chan s) (channelList s) @ [fin]) s)"

text \<open>
  \<open>handle_NAMES\<close>: the names of a channel are appended to \<open>msgbuf\<close> one by one (\<open>strcat\<close>, each
  printed to 25 characters first).
\<close>

fun names_loop :: "irc \<Rightarrow> nat list \<Rightarrow> string \<Rightarrow> string res" where
  "names_loop s [] msgbuf = Inr msgbuf"
| "names_loop s (u # us) msgbuf =
     (let n = nick (clients s ! uic_user (uics s ! u)) in
      rbind (hasMode (userChanModes (uics s ! u)) CHR ''O'') (\<lambda>op.
      rbind (if op then Inr ''@''
             else rbind (hasMode (userChanModes (uics s ! u)) CHR ''v'') (\<lambda>v. Inr ''+''))
        (\<lambda>mark. rbind (sprintf 25 [mark, n]) (\<lambda>smallbuf.
          rbind (sprintf 512 [msgbuf, smallbuf]) (names_loop s us)))))"

definition names_channel :: "int \<Rightarrow> nat \<Rightarrow> irc \<Rightarrow> irc res" where
  "names_channel socket chan s =
     (let c = channels s ! chan in
      rbind (sprintf 512 ['':'', host s, '' 353 = '', chan_name c, '' :'']) (\<lambda>b.
      rbind (names_loop s (chan_uics c) b) (\<lambda>m.
        say socket ['':'', host s, '' 366 '', chan_name c, '' :End of NAMES list'']
          (sendMessage m socket s))))"

fun names_all :: "int \<Rightarrow> nat list \<Rightarrow> irc \<Rightarrow> irc res" where
  "names_all socket [] s = Inr s"
| "names_all socket (c # cs) s = rbind (names_channel socket c s) (names_all socket cs)"

definition handle_NAMES :: "params \<Rightarrow> int \<Rightarrow> irc \<Rightarrow> irc res" where
  "handle_NAMES p socket s =
     (case word p ! 1 of
        None \<Rightarrow> names_all socket (channelList s) s
      | Some chanName \<Rightarrow>
          rbind (findChannel (Some chanName) s) (\<lambda>found.
            rbind (deref found) (\<lambda>chan. names_channel socket chan s)))"

section \<open>Modes\<close>

text \<open>A mode argument is two characters; of an empty string the second lies outside.\<close>

definition mode_arg :: "string \<Rightarrow> (char \<times> char) res" where
  "mode_arg m =
     (if m = [] then Inl Overrun
      else Inr (hd m, if tl m = [] then NUL else hd (tl m)))"

definition set_or_remove :: "char \<Rightarrow> string \<Rightarrow> char \<Rightarrow> string res" where
  "set_or_remove PoM modes mode =
     (if PoM = CHR ''-'' then removeMode modes mode else setMode modes mode)"

definition channel_mode ::
  "int \<Rightarrow> nat \<Rightarrow> string \<Rightarrow> nat \<Rightarrow> bool \<Rightarrow> char \<Rightarrow> char \<Rightarrow> irc \<Rightarrow> irc res" where
  "channel_mode socket a NickorChan theChan isop PoM mode s =
     (let name = nick (clients s ! a); u = user (clients s ! a); c = channels s ! theChan in
      if mode \<noteq> CHR ''m'' \<and> mode \<noteq> CHR ''t'' then
        say socket ['':'', host s, '' 472 '', name, '' '', [mode], '' :is unknown mode char to me for '', chan_name c, crlf] s
      else if isop then
        rbind (set_or_remove PoM (chanModes c) mode) (\<lambda>m.
        let s = upd_channel theChan (\<lambda>c. c\<lparr>chanModes := m\<rparr>) s in
        rbind (sprintf 512 ['':'', name, ''!'', u, ''@localhost.localdomain MODE '', NickorChan, '' '', [PoM], [mode], crlf])
          (\<lambda>m. rbind (messageAllUsers m theChan socket s) (\<lambda>s. Inr (sendMessage m socket s))))
      else say socket ['':'', host s, '' 482 '', name, '' '', chan_name c, '' :You'', [CHR 0x27], ''re not channel operator'', crlf] s)"

definition member_mode ::
  "int \<Rightarrow> nat \<Rightarrow> nat \<Rightarrow> bool \<Rightarrow> string \<Rightarrow> char \<Rightarrow> char \<Rightarrow> irc \<Rightarrow> irc res" where
  "member_mode socket a theChan isop dude PoM mode s =
     (let name = nick (clients s ! a); c = channels s ! theChan;
          not_there = say socket ['':'', host s, '' 441 '', name, '' '', dude, '' '', chan_name c,
            '' :They aren'', [CHR 0x27], ''t on that channel'', crlf] s in
      if mode \<noteq> CHR ''v'' \<and> mode \<noteq> CHR ''o'' then
        say socket ['':'', host s, '' 472 '', name, '' '', [mode], '' :is unknown mode char to me for '', chan_name c, crlf] s
      else if isop then
        rbind (findUser (Some dude) s) (\<lambda>userDude. case userDude of
          None \<Rightarrow> not_there
        | Some d \<Rightarrow>
            (case isUserInChannel (ourSocket (clients s ! d)) theChan s of
               None \<Rightarrow> not_there
             | Some dudePos \<Rightarrow>
                 let dudeUIC = chan_uics c ! dudePos in
                 rbind (set_or_remove PoM (userChanModes (uics s ! dudeUIC)) mode) (\<lambda>m.
                   Inr (upd_uic dudeUIC (\<lambda>x. x\<lparr>userChanModes := m\<rparr>) s))))
      else say socket ['':'', host s, '' 482 '', name, '' '', chan_name c, '' :You'', [CHR 0x27], ''re not channel operator'', crlf] s)"

text \<open>
  \<open>list_get_at\<close> at the position -1 of a client that is not in the channel gives the null pointer of
  the head sentinel.
\<close>

definition channel_MODE :: "params \<Rightarrow> int \<Rightarrow> nat \<Rightarrow> string \<Rightarrow> irc \<Rightarrow> irc res" where
  "channel_MODE p socket a NickorChan s =
     (let name = nick (clients s ! a) in
      rbind (findChannel (Some NickorChan) s) (\<lambda>found. case found of
        None \<Rightarrow> say socket ['':'', host s, '' 403 '', name, '' '', NickorChan, '' :No such channel'', crlf] s
      | Some theChan \<Rightarrow>
          (case word p ! 2 of
             None \<Rightarrow> say socket ['':'', host s, '' 324 '', name, '' '', NickorChan, '' +'',
               c_str (chanModes (channels s ! theChan)), crlf] s
           | Some modeStr \<Rightarrow>
               rbind (mode_arg modeStr) (\<lambda>(PoM, mode).
               rbind (deref (map_option (\<lambda>i. chan_uics (channels s ! theChan) ! i)
                   (isUserInChannel socket theChan s))) (\<lambda>theUIC.
               rbind (hasMode (userChanModes (uics s ! theUIC)) CHR ''O'') (\<lambda>hasCOp.
               rbind (hasMode (userModes (clients s ! a)) CHR ''o'') (\<lambda>hasSOp.
                 case word p ! 3 of
                   None \<Rightarrow> channel_mode socket a NickorChan theChan (hasCOp \<or> hasSOp) PoM mode s
                 | Some dude \<Rightarrow> member_mode socket a theChan (hasCOp \<or> hasSOp) dude PoM mode s)))))))"

definition user_MODE :: "params \<Rightarrow> int \<Rightarrow> nat \<Rightarrow> string \<Rightarrow> irc \<Rightarrow> irc res" where
  "user_MODE p socket a NickorChan s =
     (let name = nick (clients s ! a); u = user (clients s ! a) in
      if NickorChan \<noteq> name then
        say socket ['':'', host s, '' 502 '', name, '' :Cannot change mode for other users'', crlf] s
      else case word p ! 2 of
        None \<Rightarrow> say socket ['':'', host s, '' 403 '', name, '' '', NickorChan, '' :No such channel'', crlf] s
      | Some modeStr \<Rightarrow>
          rbind (mode_arg modeStr) (\<lambda>(PoM, mode).
          if mode = CHR ''o'' then
            (if PoM = CHR ''-'' then
               rbind (removeMode (userModes (clients s ! a)) mode) (\<lambda>m.
                 say socket ['':'', u, ''!'', name, ''@localhost.localdomain MODE '', name, '' :'', [PoM], [mode], crlf]
                   (upd_client a (\<lambda>c. c\<lparr>userModes := m\<rparr>) s))
             else Inr s)
          else if mode = CHR ''a'' then Inr s
          else say socket ['':'', host s, '' 501 '', name, '' :Unknown MODE flag'', crlf] s))"

definition handle_MODE :: "params \<Rightarrow> int \<Rightarrow> irc \<Rightarrow> irc res" where
  "handle_MODE p socket s = rbind (our_client socket s) (\<lambda>a.
     rbind (deref (word p ! 1)) (\<lambda>NickorChan.
       if first_char NickorChan = CHR ''#'' then channel_MODE p socket a NickorChan s
       else user_MODE p socket a NickorChan s))"

section \<open>parse.c\<close>

fun bsplit :: "char \<Rightarrow> string \<Rightarrow> string list" where
  "bsplit c [] = [[]]"
| "bsplit c (x # xs) =
     (if x = c then [] # bsplit c xs
      else case bsplit c xs of [] \<Rightarrow> [[x]] | w # ws \<Rightarrow> (x # w) # ws)"

definition bstraEntry :: "string list \<Rightarrow> nat \<Rightarrow> string option" where
  "bstraEntry tokenArray pos = (if length tokenArray \<le> pos then None else Some (tokenArray ! pos))"

text \<open>
  The text of a message is what stands between its first and its second colon, and the words are
  those before the first colon.
\<close>

definition tokenize :: "string \<Rightarrow> params" where
  "tokenize message =
     (let (message, flag, msgtext) =
        (if CHR '':'' \<in> set message
         then (the (bstraEntry (bsplit CHR '':'' message) 0), CHR ''y'',
               the (bstraEntry (bsplit CHR '':'' message) 1))
         else (message, CHR ''n'', []));
          tokenArray = bsplit CHR '' '' message
      in \<lparr>word = map (bstraEntry tokenArray) [0..<8], colonflag = flag, text_arg = msgtext\<rparr>)"

definition handlers :: "(string \<times> (params \<Rightarrow> int \<Rightarrow> irc \<Rightarrow> irc res)) list" where
  "handlers =
     [(''NICK'', handle_NICK), (''USER'', handle_USER), (''QUIT'', \<lambda>_. handle_QUIT),
      (''PRIVMSG'', handle_PRIVMSG), (''NOTICE'', handle_NOTICE), (''PING'', \<lambda>_. handle_PING),
      (''PONG'', \<lambda>_. handle_PONG), (''MOTD'', \<lambda>_. handle_MOTD), (''LUSERS'', \<lambda>_. handle_LUSERS),
      (''WHOIS'', handle_WHOIS), (''PART'', handle_PART), (''TOPIC'', handle_TOPIC),
      (''MODE'', handle_MODE), (''AWAY'', handle_AWAY), (''NAMES'', handle_NAMES),
      (''LIST'', handle_LIST), (''WHO'', \<lambda>_. handle_WHO), (''JOIN'', handle_JOIN),
      (''OPER'', handle_OPER)]"

definition parse :: "string \<Rightarrow> int \<Rightarrow> irc \<Rightarrow> irc res" where
  "parse message socket s =
     (let p = tokenize message; cmd = the (word p ! 0) in
      case find (\<lambda>e. fst e = cmd) handlers of
        Some e \<Rightarrow> snd e p socket s
      | None \<Rightarrow> rbind (our_client socket s) (\<lambda>cliData.
          say socket ['':'', host s, '' 421 '', user (clients s ! cliData), '' '', cmd,
            '' :Unknown command'', crlf] s))"

section \<open>main.c\<close>

fun contains_crlf :: "string \<Rightarrow> bool" where
  "contains_crlf (c # d # cs) \<longleftrightarrow> (c = CHR 0x0D \<and> d = CHR 0x0A) \<or> contains_crlf (d # cs)"
| "contains_crlf _ \<longleftrightarrow> False"

definition set_buf :: "nat \<Rightarrow> string \<Rightarrow> bool \<Rightarrow> bool \<Rightarrow> irc \<Rightarrow> irc" where
  "set_buf k b r n s = s\<lparr>threads := (threads s)[k := (threads s ! k)
     \<lparr>smallBuffer := b, isbackr := r, isbackn := n\<rparr>]\<rparr>"

text \<open>One turn of the loop of \<open>handleClient\<close> over the received characters.\<close>

definition feed_char :: "nat \<Rightarrow> char \<Rightarrow> irc \<Rightarrow> irc res" where
  "feed_char k cur s =
     (let t = threads s ! k; iinsmall = length (smallBuffer t);
          buf = smallBuffer t @ [cur];
          r = (isbackr t \<or> cur = CHR 0x0D); n = (isbackn t \<or> cur = CHR 0x0A) in
      if 513 \<le> iinsmall then Inl Overrun
      else if r \<and> n then
        (if 513 \<le> Suc iinsmall then Inl Overrun
         else let onemessage = c_str buf in
           if contains_crlf onemessage
           then parse (take (length onemessage - 2) onemessage) (mySocket t) (set_buf k [] False False s)
           else Inr (set_buf k buf False False s))
      else Inr (set_buf k buf r n s))"

fun recv_loop :: "nat \<Rightarrow> string \<Rightarrow> irc \<Rightarrow> irc res" where
  "recv_loop k [] s = Inr s"
| "recv_loop k (c # cs) s = rbind (feed_char k c s) (recv_loop k cs)"

text \<open>
  The events: a thread starts with its socket and makes its client, or the \<open>recv\<close> of a thread
  returns characters.
\<close>

datatype irc_event = Connect int | Recv nat string

fun irc_step :: "irc_event \<Rightarrow> irc \<Rightarrow> irc res" where
  "irc_step (Connect sock) s =
     Inr (s\<lparr>clients := clients s @ [makeClient sock],
            clientList := clientList s @ [length (clients s)],
            threads := threads s @ [\<lparr>mySocket = sock, smallBuffer = [], isbackr = False, isbackn = False\<rparr>]\<rparr>)"
| "irc_step (Recv k bytes) s = (if k < length (threads s) then recv_loop k bytes s else Inr s)"

definition irc_start :: "string \<Rightarrow> string \<Rightarrow> string option \<Rightarrow> (nat \<Rightarrow> string) \<Rightarrow> irc" where
  "irc_start hst pw m jnk = \<lparr>host = hst, passwd = pw, motd = m, junk = jnk, clients = [],
     channels = [], uics = [], clientList = [], channelList = [], threads = [], out = []\<rparr>"

end
