(* ===== verification/Irc_Inv.thy ===== *)
theory Irc_Inv
  imports Irc_Handlers
begin

text \<open>
  The invariant of the IRC server and that every handler keeps it: the strings fit their arrays, the
  lists point to allocated structures, nicknames and channel names are unique, the members of a
  channel are counted and have different sockets, and no empty channel stays in the list.
\<close>

section \<open>Results that only send\<close>

lemma keeps_bind: "(\<And>x. m = Inr x \<Longrightarrow> keeps P (f x)) \<Longrightarrow> keeps P (rbind m f)"
  by (cases m) auto

lemma keeps_case_option:
  "(v = None \<Longrightarrow> keeps P a) \<Longrightarrow> (\<And>x. v = Some x \<Longrightarrow> keeps P (f x)) \<Longrightarrow>
   keeps P (case v of None \<Rightarrow> a | Some x \<Rightarrow> f x)"
  by (cases v) simp_all

definition line_ok :: "string \<Rightarrow> bool" where
  "line_ok m \<longleftrightarrow> length m < 515 \<and> NUL \<notin> set m"

definition only_out :: "irc \<Rightarrow> irc \<Rightarrow> bool" where
  "only_out s s' \<longleftrightarrow> (\<exists>ms. s' = s\<lparr>out := out s @ ms\<rparr> \<and> list_all (line_ok \<circ> snd) ms)"

lemma only_out_refl [simp]: "only_out s s"
  unfolding only_out_def by (rule exI [of _ "[]"]) simp

lemma only_out_trans [trans]: "only_out s s' \<Longrightarrow> only_out s' s'' \<Longrightarrow> only_out s s''"
  unfolding only_out_def by (elim exE conjE) (rename_tac ms ms', rule_tac x = "ms @ ms'" in exI, simp)

lemma only_out_simps:
  assumes "only_out s s'"
  shows "clients s' = clients s" "channels s' = channels s" "uics s' = uics s"
    "clientList s' = clientList s" "channelList s' = channelList s" "threads s' = threads s"
    "host s' = host s" "junk s' = junk s" "passwd s' = passwd s" "motd s' = motd s"
  using assms by (auto simp: only_out_def)

lemma c_str_no_NUL: "NUL \<notin> set (c_str m)"
  by (auto simp: c_str_def dest: set_takeWhileD)

lemma length_c_str: "length (c_str m) \<le> length m"
  by (simp add: c_str_def length_takeWhile_le)

lemma c_str_id: "NUL \<notin> set m \<Longrightarrow> c_str m = m"
  by (auto simp: c_str_def takeWhile_eq_all_conv)

lemma sprintf_length: "sprintf n ps = Inr m \<Longrightarrow> length m < n"
  by (auto simp: sprintf_def split: if_splits)

lemma only_out_send: "length m < 515 \<Longrightarrow> only_out s (sendMessage m socket s)"
  unfolding only_out_def sendMessage_def
  by (rule exI [of _ "[(socket, c_str m)]"])
    (use length_c_str [of m] c_str_no_NUL [of m] in \<open>simp add: line_ok_def\<close>)

lemma keeps_say: "keeps (only_out s) (say socket ps s)"
  unfolding say_def by (rule keeps_bind) (auto dest!: sprintf_length intro: only_out_send)

lemma keeps_say515: "keeps (only_out s) (say515 socket ps s)"
  unfolding say515_def by (rule keeps_bind) (auto dest!: sprintf_length intro: only_out_send)

lemma keeps_say_all: "keeps (only_out s) (say_all socket ms s)"
proof (induction ms arbitrary: s)
  case (Cons ps ms)
  show ?case unfolding say_all.simps
    by (rule keeps_rbind [OF keeps_say]) (auto intro: keeps_mono [OF Cons.IH] only_out_trans)
qed simp

lemma keeps_message_loop: "length msg < 515 \<Longrightarrow> keeps (only_out s) (message_loop msg msger us s)"
proof (induction us arbitrary: s)
  case (Cons u us)
  have rec: "keeps (only_out s) (message_loop msg msger us s')" if "only_out s s'" for s'
    using that by (auto intro: keeps_mono [OF Cons.IH [OF Cons.prems]] only_out_trans)
  show ?case unfolding message_loop.simps Let_def
    by (intro keeps_if keeps_bind rec only_out_send Cons.prems only_out_refl)
      (auto intro: rec dest: keepsD [OF keeps_say])
qed simp

lemma keeps_messageAllUsers: "length msg < 515 \<Longrightarrow> keeps (only_out s) (messageAllUsers msg chan msger s)"
  by (simp add: messageAllUsers_def keeps_message_loop)

lemma keeps_motd_loop: "keeps (only_out s) (motd_loop socket n f s)"
proof (induction f arbitrary: s rule: length_induct)
  case (1 f)
  show ?case
  proof (cases "f = []")
    case True
    then show ?thesis by (subst motd_loop.simps) simp
  next
    case False
    obtain l rest where l: "fgets 499 f = (l, rest)" by fastforce
    then have "length rest < length f" using fgets_shorter [of 499 f] False by simp
    then have "keeps (only_out s) (motd_loop socket n rest s')" if "only_out s s'" for s'
      using 1 that by (auto intro: keeps_mono only_out_trans)
    then show ?thesis
      by (subst motd_loop.simps)
        (simp only: l Let_def prod.case, intro keeps_if keeps_rbind [OF keeps_say], simp_all)
  qed
qed

lemma keeps_names_channel: "keeps (only_out s) (names_channel socket c s)"
proof -
  have "length m < 512" if "names_loop s us b = Inr m" "length b < 512" for us b m
    using that
  proof (induction us arbitrary: b)
    case (Cons u us)
    then show ?case by (auto simp: Let_def dest!: sprintf_length)
  qed simp
  then have "length m < 515" if "names_loop s us b = Inr m" "sprintf 512 ps = Inr b" for us b m ps
    using that sprintf_length by fastforce
  then show ?thesis
    unfolding names_channel_def Let_def
    by (intro keeps_bind keeps_mono [OF keeps_say]) (erule only_out_trans [OF only_out_send, rotated], blast)
qed

lemma keeps_names_all: "keeps (only_out s) (names_all socket cs s)"
proof (induction cs arbitrary: s)
  case (Cons c cs)
  show ?case unfolding names_all.simps
    by (rule keeps_rbind [OF keeps_names_channel]) (auto intro: keeps_mono [OF Cons.IH] only_out_trans)
qed simp

section \<open>Mode arrays\<close>

definition mode_array :: "string \<Rightarrow> bool" where
  "mode_array m \<longleftrightarrow> length m = 10 \<and> NUL \<in> set m"

lemma strlen_eq: "strlen a = Inr n \<longleftrightarrow> NUL \<in> set a \<and> n = length (c_str a)"
  by (auto simp: strlen_def)

lemma take_c_str: "take (length (c_str m)) m = c_str m"
  unfolding c_str_def by (rule takeWhile_eq_take [symmetric])

lemma c_str_less: "NUL \<in> set m \<Longrightarrow> length (c_str m) < length m \<and> m ! length (c_str m) = NUL"
proof -
  assume "NUL \<in> set m"
  then have less: "length (c_str m) < length m"
    unfolding c_str_def by (induction m) auto
  then show ?thesis using nth_length_takeWhile [of "\<lambda>c. c \<noteq> NUL" m] by (simp add: c_str_def)
qed

lemma setMode_array: "setMode m c = Inr m' \<Longrightarrow> length m = 10 \<Longrightarrow> mode_array m'"
proof -
  assume r: "setMode m c = Inr m'" and len: "length m = 10"
  then obtain i where i: "strlen m = Inr i" by (auto simp: setMode_def)
  show ?thesis
  proof (cases "c \<in> set (take i m)")
    case True
    then show ?thesis using r i len by (auto simp: setMode_def mode_array_def strlen_eq)
  next
    case False
    then have m': "m' = m[i := c, Suc i := NUL]" "Suc i < length m"
      using r i by (auto simp: setMode_def split: if_splits)
    then have "m' ! Suc i = NUL" by simp
    then have "NUL \<in> set m'" using m' by (metis length_list_update nth_mem)
    then show ?thesis using m' len by (simp add: mode_array_def)
  qed
qed

lemma length_shift_down [simp]: "length (shift_down m js) = length m"
  by (induction js arbitrary: m) simp_all

lemma shift_down_other: "l \<notin> set js \<Longrightarrow> shift_down m js ! l = m ! l"
  by (induction js arbitrary: m) simp_all

lemma removeMode_array: "removeMode m c = Inr m' \<Longrightarrow> mode_array m \<Longrightarrow> mode_array m'"
proof -
  assume r: "removeMode m c = Inr m'" and m: "mode_array m"
  have l: "length (c_str m) < length m" "m ! length (c_str m) = NUL"
    using c_str_less [of m] m by (simp_all add: mode_array_def)
  then have "shift_down m [i..<length (c_str m)] ! length (c_str m) = NUL" for i
    by (simp add: shift_down_other)
  then have "NUL \<in> set (shift_down m [i..<length (c_str m)])" for i
    using l(1) by (metis length_shift_down nth_mem)
  then show ?thesis using r m
    by (auto simp: removeMode_def mode_array_def strlen_eq split: option.splits)
qed

lemma set_or_remove_array:
  "set_or_remove PoM m c = Inr m' \<Longrightarrow> mode_array m \<Longrightarrow> mode_array m'"
  by (auto simp: set_or_remove_def removeMode_array mode_array_def split: if_splits
      dest: setMode_array [unfolded mode_array_def] removeMode_array [unfolded mode_array_def])

section \<open>The invariant\<close>

definition client_ok :: "client \<Rightarrow> bool" where
  "client_ok c \<longleftrightarrow> length (nick c) < 9 \<and> length (user c) < 500 \<and> length (real_name c) < 500
     \<and> length (away c) < 100 \<and> mode_array (userModes c)
     \<and> NUL \<notin> set (nick c) \<union> set (user c) \<union> set (real_name c) \<union> set (away c)"

definition uic_ok :: "irc \<Rightarrow> nat \<Rightarrow> bool" where
  "uic_ok s u \<longleftrightarrow> u < length (uics s) \<and> uic_user (uics s ! u) < length (clients s)"

abbreviation uic_socket :: "irc \<Rightarrow> nat \<Rightarrow> int" where
  "uic_socket s u \<equiv> ourSocket (clients s ! uic_user (uics s ! u))"

definition channel_ok :: "irc \<Rightarrow> channel \<Rightarrow> bool" where
  "channel_ok s c \<longleftrightarrow> mode_array (chanModes c) \<and> list_all (uic_ok s) (chan_uics c)
     \<and> distinct (map (uic_socket s) (chan_uics c)) \<and> nusers c = int (length (chan_uics c))"

definition nicks_unique :: "irc \<Rightarrow> bool" where
  "nicks_unique s \<longleftrightarrow> (\<forall>a \<in> set (clientList s). \<forall>b \<in> set (clientList s).
     nick (clients s ! a) = nick (clients s ! b) \<longrightarrow> nick (clients s ! a) \<noteq> [] \<longrightarrow> a = b)"

text \<open>\<open>irc_inv_but X\<close>: the listed channels outside \<open>X\<close> have members.\<close>

definition irc_inv_but :: "nat set \<Rightarrow> irc \<Rightarrow> bool" where
  "irc_inv_but X s \<longleftrightarrow>
     list_all client_ok (clients s) \<and>
     distinct (clientList s) \<and> (\<forall>a \<in> set (clientList s). a < length (clients s)) \<and> nicks_unique s \<and>
     (\<forall>x \<in> set (uics s). length (userChanModes x) = 10) \<and> (\<forall>a. length (junk s a) = 10) \<and>
     list_all (channel_ok s) (channels s) \<and>
     (\<forall>c \<in> set (channelList s). c < length (channels s)) \<and>
     distinct (map (\<lambda>c. chan_name (channels s ! c)) (channelList s)) \<and>
     (\<forall>c \<in> set (channelList s) - X. chan_uics (channels s ! c) \<noteq> []) \<and>
     list_all (line_ok \<circ> snd) (out s)"

abbreviation irc_inv :: "irc \<Rightarrow> bool" where
  "irc_inv \<equiv> irc_inv_but {}"

lemma channel_ok_cong:
  assumes "uics s' = uics s" "map ourSocket (clients s') = map ourSocket (clients s)"
  shows "channel_ok s' = channel_ok s"
proof -
  have len: "length (clients s') = length (clients s)" using assms(2) by (metis length_map)
  have u: "uic_ok s' = uic_ok s" by (rule ext) (simp add: uic_ok_def assms(1) len)
  have sock: "uic_socket s' u = uic_socket s u" if "uic_ok s u" for u
    using that assms by (metis len nth_map uic_ok_def)
  show ?thesis
  proof
    fix c :: channel
    have "map (uic_socket s') (chan_uics c) = map (uic_socket s) (chan_uics c)"
      if "list_all (uic_ok s) (chan_uics c)" using that sock by (simp add: list_all_iff)
    then show "channel_ok s' c = channel_ok s c" unfolding channel_ok_def u by metis
  qed
qed

lemma irc_inv_only_out: "only_out s s' \<Longrightarrow> irc_inv_but X s \<Longrightarrow> irc_inv_but X s'"
proof -
  assume "only_out s s'" "irc_inv_but X s"
  moreover from this obtain ms where "s' = s\<lparr>out := out s @ ms\<rparr>" "list_all (line_ok \<circ> snd) ms"
    by (auto simp: only_out_def)
  moreover have "channel_ok (s\<lparr>out := out s @ ms\<rparr>) = channel_ok s" by (rule channel_ok_cong) simp_all
  ultimately show ?thesis by (simp add: irc_inv_but_def nicks_unique_def)
qed

lemma keeps_inv_out: "keeps (only_out s) m \<Longrightarrow> irc_inv_but X s \<Longrightarrow> keeps (irc_inv_but X) m"
  by (erule keeps_mono) (rule irc_inv_only_out)

lemmas keeps_inv_say =
  keeps_say [THEN keeps_inv_out] keeps_say_all [THEN keeps_inv_out] keeps_say515 [THEN keeps_inv_out]

lemma irc_inv_threads: "irc_inv_but X s \<Longrightarrow> irc_inv_but X (s\<lparr>threads := ts\<rparr>)"
proof -
  have "channel_ok (s\<lparr>threads := ts\<rparr>) = channel_ok s" by (rule channel_ok_cong) simp_all
  then show "irc_inv_but X s \<Longrightarrow> irc_inv_but X (s\<lparr>threads := ts\<rparr>)"
    by (simp add: irc_inv_but_def nicks_unique_def)
qed

section \<open>Updates\<close>

lemma our_client_member:
  "our_client socket s = Inr a \<Longrightarrow> a \<in> set (clientList s) \<and> ourSocket (clients s ! a) = socket"
  by (auto simp: our_client_def deref_def list_seek_socket_def seeker_def dest!: find_SomeD
      split: option.splits)

lemma our_client_ok:
  assumes "our_client socket s = Inr a" "irc_inv_but X s"
  shows "a < length (clients s)" "client_ok (clients s ! a)"
  using our_client_member [OF assms(1)] assms(2)
  by (auto simp: irc_inv_but_def list_all_length)

lemma irc_inv_upd_client:
  assumes "irc_inv_but X s" "a < length (clients s)"
    and "ourSocket (f (clients s ! a)) = ourSocket (clients s ! a)"
    and "client_ok (f (clients s ! a))"
    and "nick (f (clients s ! a)) = nick (clients s ! a)
      \<or> (\<forall>b \<in> set (clientList s). nick (clients s ! b) \<noteq> nick (f (clients s ! a)))"
  shows "irc_inv_but X (upd_client a f s)"
proof -
  have "map ourSocket ((clients s)[a := f (clients s ! a)]) = map ourSocket (clients s)"
    using assms(2,3) by (intro nth_equalityI) (auto simp: nth_list_update)
  then have "channel_ok (upd_client a f s) = channel_ok s"
    by (intro channel_ok_cong) (simp_all add: upd_client_def)
  moreover have "nicks_unique (upd_client a f s)"
  proof -
    have u: "nicks_unique s" using assms(1) by (simp add: irc_inv_but_def)
    have nth: "clients (upd_client a f s) ! b = (if b = a then f (clients s ! a) else clients s ! b)" for b
      using assms(2) by (auto simp: upd_client_def nth_list_update)
    have L: "clientList (upd_client a f s) = clientList s" by (simp add: upd_client_def)
    from assms(5) show ?thesis
    proof
      assume "nick (f (clients s ! a)) = nick (clients s ! a)"
      then have "nick (clients (upd_client a f s) ! b) = nick (clients s ! b)" for b by (simp add: nth)
      then show ?thesis using u by (simp add: nicks_unique_def L)
    next
      assume "\<forall>b \<in> set (clientList s). nick (clients s ! b) \<noteq> nick (f (clients s ! a))"
      then have n: "nick (clients s ! b) \<noteq> nick (f (clients s ! a))" if "b \<in> set (clientList s)" for b
        using that by blast
      have old: "x = y" if "x \<in> set (clientList s)" "y \<in> set (clientList s)"
        "nick (clients s ! x) = nick (clients s ! y)" "nick (clients s ! x) \<noteq> []" for x y
        using u that by (simp add: nicks_unique_def)
      show ?thesis unfolding nicks_unique_def L nth
      proof (intro ballI impI)
        fix x y
        assume xy: "x \<in> set (clientList s)" "y \<in> set (clientList s)"
          and eq: "nick (if x = a then f (clients s ! a) else clients s ! x)
            = nick (if y = a then f (clients s ! a) else clients s ! y)"
          and ne: "nick (if x = a then f (clients s ! a) else clients s ! x) \<noteq> []"
        show "x = y"
          using n [OF xy(1)] n [OF xy(2)] eq ne old [OF xy] by (cases "x = a"; cases "y = a") simp_all
      qed
    qed
  qed
  moreover have "list_all client_ok (clients (upd_client a f s))"
    using assms(1,2,4) by (auto simp: irc_inv_but_def list_all_length upd_client_def nth_list_update)
  ultimately show ?thesis using assms(1,2) by (simp add: irc_inv_but_def upd_client_def)
qed

lemma irc_inv_upd_channel:
  assumes "irc_inv_but X s" "c < length (channels s)"
    and "channel_ok s (f (channels s ! c))" "chan_name (f (channels s ! c)) = chan_name (channels s ! c)"
    and "chan_uics (f (channels s ! c)) = [] \<Longrightarrow> chan_uics (channels s ! c) = [] \<or> c \<in> X"
  shows "irc_inv_but X (upd_channel c f s)"
proof -
  have "channel_ok (upd_channel c f s) = channel_ok s"
    by (rule channel_ok_cong) (simp_all add: upd_channel_def)
  moreover have "chan_name ((channels s)[c := f (channels s ! c)] ! d) = chan_name (channels s ! d)" for d
    using assms(2,4) by (cases "d = c") simp_all
  moreover have "chan_uics ((channels s)[c := f (channels s ! c)] ! d) \<noteq> []"
    if "chan_uics (channels s ! d) \<noteq> []" "d \<notin> X" for d
    using that assms(2,5) by (cases "d = c") auto
  ultimately show ?thesis
    using assms(1-3)
    by (simp add: irc_inv_but_def upd_channel_def nicks_unique_def list_all_length nth_list_update)
qed

lemma irc_inv_upd_uic:
  assumes "irc_inv_but X s" "u < length (uics s)" "length m = 10"
  shows "irc_inv_but X (upd_uic u (\<lambda>x. x\<lparr>userChanModes := m\<rparr>) s)"
proof -
  let ?s = "upd_uic u (\<lambda>x. x\<lparr>userChanModes := m\<rparr>) s"
  have user: "uic_user (uics ?s ! v) = uic_user (uics s ! v)" for v
    using assms(2) by (cases "v = u") (simp_all add: upd_uic_def)
  have "uic_ok ?s = uic_ok s" by (rule ext) (simp add: uic_ok_def user, simp add: upd_uic_def)
  moreover have "uic_socket ?s = uic_socket s" by (rule ext) (simp add: user, simp add: upd_uic_def)
  ultimately have "channel_ok ?s = channel_ok s" by (intro ext) (simp add: channel_ok_def)
  then show ?thesis using assms
    by (auto simp: irc_inv_but_def upd_uic_def nicks_unique_def dest: set_update_subset_insert [THEN subsetD])
qed

section \<open>Registration and messages\<close>

definition params_ok :: "params \<Rightarrow> bool" where
  "params_ok p \<longleftrightarrow> length (word p) = 8 \<and> NUL \<notin> set (text_arg p)
     \<and> (\<forall>x. Some x \<in> set (word p) \<longrightarrow> NUL \<notin> set x)"

lemma word_ok: "params_ok p \<Longrightarrow> word p ! i = Some x \<Longrightarrow> i < 8 \<Longrightarrow> NUL \<notin> set x"
  by (metis nth_mem params_ok_def)

lemma strcpy_eq: "strcpy n x = Inr y \<longleftrightarrow> y = x \<and> length x < n"
  by (auto simp: strcpy_def)

lemma deref_eq: "deref v = Inr x \<longleftrightarrow> v = Some x"
  by (simp add: deref_def split: option.splits)

lemma findUser_eq:
  "findUser w s = Inr r \<longleftrightarrow>
   (\<exists>n. w = Some n \<and> length n < 9 \<and> r = find (\<lambda>a. comparator n (clients s ! a)) (clientList s))"
  by (auto simp: findUser_def rbind_eq_Inr_iff deref_eq strcpy_eq)

lemma findChannel_eq:
  "findChannel w s = Inr r \<longleftrightarrow> (\<exists>n. w = Some n \<and> r = find (seekByName n s) (channelList s))"
  by (auto simp: findChannel_def rbind_eq_Inr_iff deref_eq)

lemma findChannel_Some:
  assumes "findChannel w s = Inr (Some c)" "irc_inv_but X s"
  shows "c \<in> set (channelList s)" "c < length (channels s)" "w = Some (chan_name (channels s ! c))"
    "channel_ok s (channels s ! c)"
proof -
  obtain n where n: "w = Some n" "find (seekByName n s) (channelList s) = Some c"
    using assms(1) by (metis findChannel_eq)
  then show c: "c \<in> set (channelList s)" "w = Some (chan_name (channels s ! c))"
    using find_SomeD by (fastforce simp: seekByName_def)+
  then show "c < length (channels s)" using assms(2) by (simp add: irc_inv_but_def)
  then show "channel_ok s (channels s ! c)" using assms(2) by (simp add: irc_inv_but_def list_all_length)
qed

lemma handle_LUSERS_inv: "irc_inv s \<Longrightarrow> keeps irc_inv (handle_LUSERS socket s)"
  unfolding handle_LUSERS_def Let_def by (intro keeps_bind keeps_inv_say)

lemma handle_MOTD_inv: "irc_inv s \<Longrightarrow> keeps irc_inv (handle_MOTD socket s)"
  unfolding handle_MOTD_def Let_def
  by (intro keeps_bind keeps_case_option keeps_inv_say keeps_rbind [OF keeps_inv_say(1)]
      keeps_rbind [OF keeps_motd_loop [THEN keeps_inv_out]])

lemma welcome_inv:
  assumes "irc_inv s" "a < length (clients s)"
  shows "keeps irc_inv (welcome_client socket a n u s)"
proof -
  have "irc_inv (upd_client a (\<lambda>c. c\<lparr>registered := True\<rparr>) s)"
    using assms by (intro irc_inv_upd_client) (auto simp: irc_inv_but_def list_all_length client_ok_def)
  then show ?thesis
    unfolding welcome_client_def using assms(1)
    by (intro keeps_if keeps_rbind [OF keeps_inv_say(2)] keeps_rbind [OF handle_LUSERS_inv]
        handle_MOTD_inv) simp_all
qed

lemma handle_NICK_inv:
  assumes "irc_inv s" "params_ok p"
  shows "keeps irc_inv (handle_NICK p socket s)"
proof -
  have step: "irc_inv (upd_client a (\<lambda>c. c\<lparr>nick := n\<rparr>) s)" "a < length (clients s)"
    if "findUser (word p ! 1) s = Inr None" "our_client socket s = Inr a" "strcpy 9 (the (word p ! 1)) = Inr n"
    for a n
  proof -
    have w: "word p ! 1 = Some n" "length n < 9" "\<forall>b \<in> set (clientList s). nick (clients s ! b) \<noteq> n"
      using that(1,3) find_None_iff [of "\<lambda>a. comparator n (clients s ! a)" "clientList s"]
      by (auto simp: findUser_eq strcpy_eq comparator_def)
    show "a < length (clients s)" by (rule our_client_ok [OF that(2) assms(1)])
    moreover have "client_ok (clients s ! a)" by (rule our_client_ok [OF that(2) assms(1)])
    moreover have "NUL \<notin> set n" using word_ok [OF assms(2) w(1)] by simp
    ultimately show "irc_inv (upd_client a (\<lambda>c. c\<lparr>nick := n\<rparr>) s)"
      using assms(1) w by (intro irc_inv_upd_client) (auto simp: client_ok_def)
  qed
  show ?thesis
    unfolding handle_NICK_def Let_def
    by (intro keeps_bind keeps_if keeps_inv_say(1) assms(1) welcome_inv)
      (use step in \<open>auto simp: upd_client_def\<close>)
qed

lemma handle_USER_inv:
  assumes "irc_inv s" "params_ok p"
  shows "keeps irc_inv (handle_USER p socket s)"
proof -
  have "keeps irc_inv (welcome_client socket a n u (upd_client a (\<lambda>c. c\<lparr>user := u, real_name := r\<rparr>) s))"
    if "our_client socket s = Inr a" "word p ! 1 = Some x" "strcpy 500 x = Inr u" "strcpy 500 (text_arg p) = Inr r"
    for a x u r n
    using that our_client_ok [OF that(1) assms(1)] assms word_ok [OF assms(2) that(2)]
    by (intro welcome_inv irc_inv_upd_client)
      (auto simp: strcpy_eq client_ok_def params_ok_def upd_client_def)
  then show ?thesis
    unfolding handle_USER_def by (intro keeps_bind) (auto simp: deref_eq)
qed

lemma set_list_delete_at: "set (list_delete_at xs p) \<subseteq> set xs"
  by (auto simp: list_delete_at_def split: option.splits dest: in_set_takeD in_set_dropD)

lemma distinct_list_delete_at: "distinct (map f xs) \<Longrightarrow> distinct (map f (list_delete_at xs p))"
proof (cases p)
  case (Some i)
  define L where "L = map f xs"
  assume "distinct (map f xs)"
  then have d: "distinct L" "distinct (take i L @ drop i L)" by (simp_all add: L_def)
  have "set (take i L) \<inter> set (drop (Suc i) L) = {}"
    using d(2) set_drop_subset_set_drop [OF le_SucI [OF order_refl], of i L] unfolding distinct_append by blast
  then have "distinct (take i L @ drop (Suc i) L)" using d(1) by (simp add: distinct_drop)
  then show ?thesis using Some by (simp add: list_delete_at_def take_map drop_map L_def)
qed (simp add: list_delete_at_def)

lemma handle_QUIT_inv: "irc_inv s \<Longrightarrow> keeps irc_inv (handle_QUIT socket s)"
proof -
  assume inv: "irc_inv s"
  have "irc_inv (s\<lparr>clientList := list_delete_at (clientList s) p\<rparr>)" for p
  proof -
    have "channel_ok (s\<lparr>clientList := list_delete_at (clientList s) p\<rparr>) = channel_ok s"
      by (rule channel_ok_cong) simp_all
    then show ?thesis
      using inv set_list_delete_at [of "clientList s" p] distinct_list_delete_at [of id "clientList s" p]
      by (simp add: irc_inv_but_def nicks_unique_def) (meson subsetD)
  qed
  then show ?thesis unfolding handle_QUIT_def using inv by (intro keeps_case_option keeps_if) simp_all
qed

lemma keeps_inv_message_all:
  "sprintf n ps = Inr m \<Longrightarrow> n \<le> 515 \<Longrightarrow> irc_inv_but X s \<Longrightarrow>
   keeps (irc_inv_but X) (messageAllUsers m chan socket s)"
  by (rule keeps_messageAllUsers [THEN keeps_inv_out]) (auto dest: sprintf_length)

lemmas keeps_inv_message_512 = keeps_inv_message_all [of 512, simplified]

lemma handle_PRIVMSG_inv: "irc_inv s \<Longrightarrow> keeps irc_inv (handle_PRIVMSG p socket s)"
  unfolding handle_PRIVMSG_def Let_def
  by (intro keeps_bind keeps_if keeps_case_option keeps_inv_say(1) keeps_inv_message_512) assumption+

lemma handle_NOTICE_inv: "irc_inv s \<Longrightarrow> keeps irc_inv (handle_NOTICE p socket s)"
  unfolding handle_NOTICE_def Let_def
  by (intro keeps_bind keeps_if keeps_case_option keeps_inv_say(1) keeps_inv_message_512 keeps_Inr [THEN iffD2])
    assumption+

lemma handle_WHOIS_inv: "irc_inv s \<Longrightarrow> keeps irc_inv (handle_WHOIS p socket s)"
  unfolding handle_WHOIS_def Let_def
  by (intro keeps_bind keeps_case_option keeps_inv_say(1,2))

lemma handle_AWAY_inv:
  assumes "irc_inv s" "params_ok p"
  shows "keeps irc_inv (handle_AWAY p socket s)"
proof -
  have "irc_inv (upd_client a (\<lambda>c. c\<lparr>userModes := m\<rparr>) s)"
    if "our_client socket s = Inr a" "removeMode (userModes (clients s ! a)) CHR ''a'' = Inr m" for a m
    using our_client_ok [OF that(1) assms(1)] assms(1) removeMode_array [OF that(2)]
    by (intro irc_inv_upd_client) (auto simp: client_ok_def)
  moreover have "irc_inv (upd_client a (\<lambda>c. c\<lparr>userModes := m, away := x\<rparr>) s)"
    if "our_client socket s = Inr a" "setMode (userModes (clients s ! a)) CHR ''a'' = Inr m"
      "word p ! 1 = Some y" "strcpy 100 y = Inr x" for a m x y
    using our_client_ok [OF that(1) assms(1)] assms(1) setMode_array [OF that(2)] that(4)
      word_ok [OF assms(2) that(3)]
    by (intro irc_inv_upd_client) (auto simp: client_ok_def mode_array_def strcpy_eq)
  ultimately show ?thesis
    unfolding handle_AWAY_def by (intro keeps_bind keeps_case_option keeps_inv_say(1))
qed

lemma handle_OPER_inv:
  assumes "irc_inv s"
  shows "keeps irc_inv (handle_OPER p socket s)"
proof -
  have "irc_inv (upd_client a (\<lambda>c. c\<lparr>userModes := m\<rparr>) s)"
    if "our_client socket s = Inr a" "setMode (userModes (clients s ! a)) CHR ''o'' = Inr m" for a m
    using our_client_ok [OF that(1) assms] assms setMode_array [OF that(2)]
    by (intro irc_inv_upd_client) (auto simp: client_ok_def mode_array_def)
  then show ?thesis
    unfolding handle_OPER_def
    by (intro keeps_bind keeps_if keeps_inv_say(1) keeps_rbind [OF keeps_inv_say(1)] assms) (auto intro: keeps_bind assms)
qed

section \<open>Channels\<close>

lemma locate_None: "locate P xs = None \<Longrightarrow> x \<in> set xs \<Longrightarrow> \<not> P x"
  by (induction xs) (auto split: if_splits)

lemma locate_Some: "locate P xs = Some i \<Longrightarrow> i < length xs \<and> P (xs ! i)"
  by (induction xs arbitrary: i) (auto split: if_splits)

lemma irc_inv_butI: "irc_inv_but {c} s \<Longrightarrow> chan_uics (channels s ! c) \<noteq> [] \<Longrightarrow> irc_inv s"
  by (auto simp: irc_inv_but_def)

lemma irc_inv_but_mono: "irc_inv s \<Longrightarrow> irc_inv_but X s"
  by (simp add: irc_inv_but_def)

lemma irc_inv_add_uic:
  assumes "irc_inv_but X s" "length (userChanModes x) = 10"
  shows "irc_inv_but X (s\<lparr>uics := uics s @ [x]\<rparr>)"
proof -
  have "channel_ok (s\<lparr>uics := uics s @ [x]\<rparr>) c" if "channel_ok s c" for c
  proof -
    have u: "list_all (uic_ok s) (chan_uics c)" using that by (simp add: channel_ok_def)
    then have "map (uic_socket (s\<lparr>uics := uics s @ [x]\<rparr>)) (chan_uics c) = map (uic_socket s) (chan_uics c)"
      by (auto simp: list_all_iff uic_ok_def nth_append)
    moreover have "list_all (uic_ok (s\<lparr>uics := uics s @ [x]\<rparr>)) (chan_uics c)"
      using u by (auto simp: list_all_iff uic_ok_def nth_append)
    ultimately show ?thesis using that unfolding channel_ok_def by metis
  qed
  then show ?thesis using assms by (auto simp: irc_inv_but_def nicks_unique_def list_all_iff)
qed

lemma upd_channel_twice:
  "upd_channel c f (upd_channel c g s) = upd_channel c (\<lambda>x. f (g x)) s"
  by (cases "c < length (channels s)") (simp_all add: upd_channel_def not_less list_update_beyond)

text \<open>What joining a channel comes to: a new membership at the end of its list.\<close>

lemma pairUser_inv:
  assumes inv: "irc_inv_but {chan} s" and chan: "chan < length (channels s)"
    and a: "a < length (clients s)" "isUserInChannel (ourSocket (clients s ! a)) chan s = None"
    and r: "pairUserWithChannel a chan ifCOp s = Inr s'"
  shows "irc_inv s'"
proof -
  let ?u = "length (uics s)" and ?c = "channels s ! chan"
  define s1 where "s1 = s\<lparr>uics := uics s @ [makeUserInChannel (junk s ?u) a chan]\<rparr>"
  define s2 where "s2 = upd_channel chan (\<lambda>c. c\<lparr>nusers := nusers c + 1, chan_uics := chan_uics c @ [?u]\<rparr>) s1"
  define s3 where "s3 = upd_client a (\<lambda>c. c\<lparr>client_uics := client_uics c @ [?u]\<rparr>) s2"
  have len: "length (junk s ?u) = 10" using inv by (simp add: irc_inv_but_def)
  have c0: "channel_ok s ?c" using inv chan by (simp add: irc_inv_but_def list_all_length)
  have inv1: "irc_inv_but {chan} s1"
    unfolding s1_def using inv len by (intro irc_inv_add_uic) (simp_all add: makeUserInChannel_def)
  have c1: "channel_ok s1 ?c" using inv1 chan by (simp add: irc_inv_but_def list_all_length s1_def)
  have u: "uic_ok s1 ?u" "uic_socket s1 ?u = ourSocket (clients s ! a)"
    using a(1) by (simp_all add: uic_ok_def s1_def makeUserInChannel_def nth_append)
  have "uic_socket s1 v \<noteq> ourSocket (clients s ! a)" if "v \<in> set (chan_uics ?c)" for v
  proof -
    have "v < length (uics s)"
      using that c0 by (simp add: channel_ok_def list_all_iff uic_ok_def)
    then show ?thesis
      using locate_None [OF a(2) [unfolded isUserInChannel_def] that] by (simp add: s1_def nth_append)
  qed
  then have "uic_socket s1 ?u \<notin> uic_socket s1 ` set (chan_uics ?c)" unfolding u(2) by force
  then have c2: "channel_ok s1 (?c\<lparr>nusers := nusers ?c + 1, chan_uics := chan_uics ?c @ [?u]\<rparr>)"
    using c1 u(1) by (simp add: channel_ok_def)
  have "irc_inv_but {chan} s2"
    unfolding s2_def using inv1 chan c2 by (intro irc_inv_upd_channel) (simp_all add: s1_def)
  then have "irc_inv s2"
    by (rule irc_inv_butI) (use chan in \<open>simp add: s2_def s1_def upd_channel_def\<close>)
  then have inv3: "irc_inv s3"
    unfolding s3_def using a(1)
    by (intro irc_inv_upd_client)
      (auto simp: s2_def s1_def upd_channel_def irc_inv_but_def list_all_length client_ok_def)
  have s3: "pairUserWithChannel a chan ifCOp s = (if ifCOp
      then rbind (setMode (userChanModes (uics s3 ! ?u)) CHR ''O'')
             (\<lambda>m. Inr (upd_uic ?u (\<lambda>x. x\<lparr>userChanModes := m\<rparr>) s3))
      else Inr s3)"
    unfolding pairUserWithChannel_def Let_def addUserInChannel_def addChanneltoUsersList_def
      upd_channel_twice s3_def s2_def s1_def by simp
  have "length (userChanModes (uics s3 ! ?u)) = 10" "?u < length (uics s3)"
    using len by (simp_all add: s3_def s2_def s1_def upd_client_def upd_channel_def makeUserInChannel_def nth_append)
  then show ?thesis
    using r inv3 unfolding s3
    by (auto split: if_splits intro!: irc_inv_upd_uic dest!: setMode_array simp: mode_array_def)
qed

lemma join_channel_inv:
  assumes inv: "irc_inv_but {chan} s" and chan: "chan < length (channels s)"
    and a: "a < length (clients s)" "ourSocket (clients s ! a) = socket"
  shows "keeps irc_inv (join_channel socket a chanName chan ifnew s)"
proof (cases "isUserInChannel socket chan s")
  case None
  have "keeps irc_inv (pairUserWithChannel a chan ifnew s)"
    unfolding keeps_def using pairUser_inv [OF inv chan a(1)] None a(2) by blast
  moreover have "irc_inv (sendMessage m socket s')" if "irc_inv s'" "sprintf 515 ps = Inr m" for s' m ps
    using irc_inv_only_out [OF only_out_send that(1)] sprintf_length [OF that(2)] by simp
  ultimately show ?thesis
    using None unfolding join_channel_def Let_def
    by simp (intro keeps_rbind [where Q = irc_inv] keeps_bind keeps_if keeps_inv_say(3)
        keeps_inv_message_all [of 515]; simp)
next
  case (Some i)
  then have "chan_uics (channels s ! chan) \<noteq> []" by (auto simp: isUserInChannel_def)
  then show ?thesis using irc_inv_butI [OF inv] Some by (simp add: join_channel_def)
qed

lemma handle_JOIN_inv:
  assumes "irc_inv s"
  shows "keeps irc_inv (handle_JOIN p socket s)"
proof -
  have new: "keeps irc_inv (join_channel socket a n (length (channels s)) True
      (s\<lparr>channels := channels s @ [createChannel (junk s (length (channels s))) n []],
         channelList := channelList s @ [length (channels s)]\<rparr>))" (is "keeps irc_inv (join_channel _ _ _ ?c _ ?s)")
    if a: "our_client socket s = Inr a" and f: "findChannel (word p ! 1) s = Inr None" "n = the (word p ! 1)" for a n
  proof (rule join_channel_inv)
    have no: "chan_name (channels s ! c) \<noteq> n" if "c \<in> set (channelList s)" for c
      using f that find_None_iff [of "seekByName n s" "channelList s"]
      by (auto simp: findChannel_eq seekByName_def)
    have ok: "channel_ok ?s = channel_ok s" by (rule channel_ok_cong) simp_all
    have lt: "c < length (channels s)" if "c \<in> set (channelList s)" for c
      using that assms by (simp add: irc_inv_but_def)
    have "length (junk s ?c) = 10" using assms by (simp add: irc_inv_but_def)
    then have "channel_ok s (createChannel (junk s ?c) n [])"
      by (auto simp: channel_ok_def createChannel_def mode_array_def set_update_memI)
    moreover have "map (\<lambda>c. chan_name (channels ?s ! c)) (channelList s) = map (\<lambda>c. chan_name (channels s ! c)) (channelList s)"
      using lt by (simp add: nth_append)
    moreover have "chan_name (channels ?s ! ?c) = n" by (simp add: createChannel_def)
    moreover have "n \<notin> (\<lambda>c. chan_name (channels ?s ! c)) ` set (channelList s)"
      using no lt by (auto simp: nth_append)
    moreover have "chan_uics (channels ?s ! c) \<noteq> []" if "c \<in> set (channelList s)" for c
      using that lt assms by (auto simp: irc_inv_but_def nth_append)
    ultimately show "irc_inv_but {?c} ?s"
      using assms lt no by (auto simp: irc_inv_but_def nicks_unique_def ok less_SucI simp del: map_eq_conv)
    show "?c < length (channels ?s)" by simp
    show "a < length (clients ?s)" "ourSocket (clients ?s ! a) = socket"
      using our_client_ok [OF a assms] our_client_member [OF a] by simp_all
  qed
  have old: "keeps irc_inv (join_channel socket a n c False s)"
    if "our_client socket s = Inr a" "findChannel w s = Inr (Some c)" for a n c w
    by (rule join_channel_inv [OF irc_inv_but_mono [OF assms] findChannel_Some(2) [OF that(2) assms]
          our_client_ok(1) [OF that(1) assms] our_client_member [OF that(1), THEN conjunct2]])
  show ?thesis
    unfolding handle_JOIN_def Let_def
    by (intro keeps_bind keeps_case_option) (use new old in auto)
qed

lemma locate_distinct:
  "distinct (map f xs) \<Longrightarrow> i < length xs \<Longrightarrow> locate (\<lambda>x. f x = f (xs ! i)) xs = Some i"
  by (induction xs arbitrary: i) (auto simp: nth_Cons split: nat.splits)

lemma destroyChannel_inv:
  assumes inv: "irc_inv_but {c} s" and c: "c \<in> set (channelList s)" "nusers (channels s ! c) = 0"
  shows "irc_inv (destroyChannel c s)"
proof -
  obtain i where i: "i < length (channelList s)" "channelList s ! i = c"
    using c(1) by (auto simp: in_set_conv_nth)
  have d: "distinct (map (\<lambda>c. chan_name (channels s ! c)) (channelList s))"
    using inv by (simp add: irc_inv_but_def)
  have l: "locate (seekByName (chan_name (channels s ! c)) s) (channelList s) = Some i"
    using locate_distinct [OF d i(1)] i(2) by (simp add: seekByName_def [abs_def])
  define s1 where "s1 = s\<lparr>channelList := list_delete_at (channelList s) (Some i)\<rparr>"
  have lt: "c < length (channels s)" using inv c(1) by (auto simp: irc_inv_but_def)
  have "distinct (channelList s)" using d by (simp add: distinct_map)
  then have "distinct (take i (channelList s) @ c # drop (Suc i) (channelList s))"
    using id_take_nth_drop [OF i(1)] i(2) by simp
  then have out: "c \<notin> set (channelList s1)" by (simp add: s1_def list_delete_at_def)
  have ok: "channel_ok s1 = channel_ok s" by (rule channel_ok_cong) (simp_all add: s1_def)
  have "irc_inv_but {c} s1"
    using inv set_list_delete_at [of "channelList s" "Some i"] distinct_list_delete_at [OF d, of "Some i"]
    unfolding irc_inv_but_def nicks_unique_def ok by (auto simp: s1_def)
  then have inv1: "irc_inv s1" using out by (auto simp: irc_inv_but_def)
  have "channel_ok s (channels s ! c)" using inv lt by (simp add: irc_inv_but_def list_all_length)
  then have "chan_uics (channels s ! c) = []" using c(2) by (simp add: channel_ok_def)
  then have "(channels s)[c := (channels s ! c)\<lparr>chan_uics := []\<rparr>] = channels s"
    by (metis (full_types) channel.surjective channel.update_convs(4) list_update_id)
  then have "destroyChannel c s = s1"
    unfolding destroyChannel_def upd_channel_def by (simp add: s1_def l)
  then show ?thesis using inv1 by simp
qed

lemma removeUser_inv:
  assumes inv: "irc_inv s" and c: "c \<in> set (channelList s)"
    and m: "isUserInChannel socket c s = Some i"
  shows "irc_inv (removeUser socket c s)"
proof -
  let ?c = "channels s ! c"
  define f where "f x = x\<lparr>chan_uics := list_delete_at (chan_uics x) (Some i), nusers := nusers x - 1\<rparr>" for x :: channel
  have lt: "c < length (channels s)" using inv c by (simp add: irc_inv_but_def)
  then have ok: "channel_ok s ?c" using inv by (simp add: irc_inv_but_def list_all_length)
  have i: "i < length (chan_uics ?c)" using locate_Some m by (fastforce simp: isUserInChannel_def)
  have "channel_ok s (f ?c)"
  proof -
    let ?us = "list_delete_at (chan_uics ?c) (Some i)"
    have "list_all (uic_ok s) ?us"
      using ok set_list_delete_at [of "chan_uics ?c" "Some i"] by (auto simp: channel_ok_def list_all_iff)
    moreover have "distinct (map (uic_socket s) ?us)"
      using ok by (intro distinct_list_delete_at) (simp add: channel_ok_def)
    moreover have "int (length ?us) = int (length (chan_uics ?c)) - 1"
      using i by (simp add: list_delete_at_def of_nat_diff)
    moreover have "mode_array (chanModes ?c)" "nusers ?c = int (length (chan_uics ?c))"
      using ok by (simp_all add: channel_ok_def)
    moreover have "chanModes (f ?c) = chanModes ?c" "chan_uics (f ?c) = ?us" "nusers (f ?c) = nusers ?c - 1"
      by (simp_all add: f_def)
    ultimately show ?thesis by (simp only: channel_ok_def simp_thms)
  qed
  then have inv1: "irc_inv_but {c} (upd_channel c f s)"
    by (intro irc_inv_upd_channel [OF irc_inv_but_mono [OF inv] lt]) (simp_all add: f_def)
  have r: "removeUser socket c s =
      (if nusers (f ?c) = 0 then destroyChannel c (upd_channel c f s) else upd_channel c f s)"
    unfolding removeUser_def Let_def m using lt by (simp add: f_def upd_channel_def cong: if_cong)
  show ?thesis
  proof (cases "nusers (f ?c) = 0")
    case True
    then have "irc_inv (destroyChannel c (upd_channel c f s))"
      using inv1 c lt by (intro destroyChannel_inv) (simp_all add: upd_channel_def)
    then show ?thesis using r True by simp
  next
    case False
    then have "chan_uics (f ?c) \<noteq> []" using \<open>channel_ok s (f ?c)\<close> by (auto simp: channel_ok_def)
    then have "irc_inv (upd_channel c f s)"
      using inv1 lt by (intro irc_inv_butI [of c]) (simp_all add: upd_channel_def)
    then show ?thesis using r False by simp
  qed
qed

lemma keeps_send_all:
  assumes "sprintf 512 ps = Inr m"
  shows "keeps (only_out s) (messageAllUsers m chan msger (sendMessage m socket s))"
proof -
  have "length m < 515" using sprintf_length [OF assms] by simp
  then show ?thesis
    by (intro keeps_mono [OF keeps_messageAllUsers]) (auto intro: only_out_trans [OF only_out_send])
qed

lemma isUserInChannel_only_out:
  "only_out s s' \<Longrightarrow> isUserInChannel socket c s' = isUserInChannel socket c s"
  by (simp add: isUserInChannel_def only_out_simps)

lemma handle_PART_inv:
  assumes inv: "irc_inv s"
  shows "keeps irc_inv (handle_PART p socket s)"
proof -
  have "irc_inv (removeUser socket c s')"
    if "findChannel w s = Inr (Some c)" "isUserInChannel socket c s \<noteq> None" "sprintf 512 ps = Inr m"
      "messageAllUsers m c socket (sendMessage m socket s) = Inr s'" for w c m ps s'
  proof -
    have o: "only_out s s'" by (rule keepsD [OF keeps_send_all [OF that(3)] that(4)])
    show ?thesis
      using that(2) findChannel_Some(1) [OF that(1) inv] irc_inv_only_out [OF o inv]
      by (auto intro!: removeUser_inv simp: isUserInChannel_only_out [OF o] only_out_simps [OF o])
  qed
  then show ?thesis
    unfolding handle_PART_def Let_def
    by (intro keeps_bind keeps_case_option keeps_if keeps_inv_say(1) inv keeps_Inr [THEN iffD2]) (assumption | simp)+
qed

lemma handle_TOPIC_inv:
  assumes inv: "irc_inv s"
  shows "keeps irc_inv (handle_TOPIC p socket s)"
proof -
  have "keeps irc_inv (messageAllUsers m c socket (sendMessage m socket (upd_channel c (\<lambda>c. c\<lparr>topic := t\<rparr>) s)))"
    if "findChannel w s = Inr (Some c)" "sprintf 512 ps = Inr m" for w c m ps t
    using findChannel_Some [OF that(1) inv] that(2)
    by (intro keeps_send_all [THEN keeps_inv_out] irc_inv_upd_channel inv) (simp_all add: channel_ok_def)
  then show ?thesis
    unfolding handle_TOPIC_def Let_def
    by (intro keeps_bind keeps_case_option keeps_if keeps_inv_say(1) inv) auto
qed

lemma handle_LIST_inv: "irc_inv s \<Longrightarrow> keeps irc_inv (handle_LIST p socket s)"
  unfolding handle_LIST_def Let_def
  by (intro keeps_bind keeps_case_option keeps_inv_say(2)) simp_all

lemma handle_NAMES_inv: "irc_inv s \<Longrightarrow> keeps irc_inv (handle_NAMES p socket s)"
  unfolding handle_NAMES_def
  by (intro keeps_bind keeps_case_option keeps_names_channel [THEN keeps_inv_out]
      keeps_names_all [THEN keeps_inv_out])

section \<open>Modes\<close>

lemma channel_mode_inv:
  assumes inv: "irc_inv s" and c: "c < length (channels s)"
  shows "keeps irc_inv (channel_mode socket a n c isop PoM mode s)"
proof -
  have "channel_ok s (channels s ! c)" using inv c by (simp add: irc_inv_but_def list_all_length)
  then have inv1: "irc_inv (upd_channel c (\<lambda>x. x\<lparr>chanModes := m\<rparr>) s)"
    if "set_or_remove PoM (chanModes (channels s ! c)) mode = Inr m" for m
    using set_or_remove_array [OF that] inv c by (intro irc_inv_upd_channel) (simp_all add: channel_ok_def)
  have "irc_inv (sendMessage m socket s')" if "irc_inv s'" "sprintf 512 ps = Inr m" for s' m ps
    using irc_inv_only_out [OF only_out_send that(1)] sprintf_length [OF that(2)] by simp
  then show ?thesis
    unfolding channel_mode_def Let_def
    by (intro keeps_if keeps_bind keeps_inv_say(1) inv keeps_rbind [OF keeps_inv_message_512 [OF _ inv1]])
      (assumption | simp)+
qed

lemma member_mode_inv:
  assumes inv: "irc_inv s" and c: "c < length (channels s)"
  shows "keeps irc_inv (member_mode socket a c isop dude PoM mode s)"
proof -
  have "irc_inv (upd_uic u (\<lambda>x. x\<lparr>userChanModes := m\<rparr>) s)"
    if "isUserInChannel k c s = Some i" "u = chan_uics (channels s ! c) ! i"
      "set_or_remove PoM (userChanModes (uics s ! u)) mode = Inr m" for k i u m
  proof -
    have "channel_ok s (channels s ! c)" using inv c by (simp add: irc_inv_but_def list_all_length)
    moreover have "i < length (chan_uics (channels s ! c))"
      using locate_Some that(1) by (fastforce simp: isUserInChannel_def)
    ultimately have u: "u < length (uics s)" using that(2) by (simp add: channel_ok_def list_all_length uic_ok_def)
    then have "length (userChanModes (uics s ! u)) = 10" using inv by (simp add: irc_inv_but_def)
    then have "length m = 10"
      using that(3) setMode_array
      by (auto simp: set_or_remove_def removeMode_def mode_array_def split: if_splits option.splits)
    then show ?thesis using inv u by (intro irc_inv_upd_uic)
  qed
  then show ?thesis
    unfolding member_mode_def Let_def
    by (intro keeps_if keeps_bind keeps_case_option keeps_inv_say(1) inv) auto
qed

lemma handle_MODE_inv:
  assumes inv: "irc_inv s"
  shows "keeps irc_inv (handle_MODE p socket s)"
proof -
  have "keeps irc_inv (channel_MODE p socket a n s)" for a n
  proof -
    have "c < length (channels s)" if "findChannel w s = Inr (Some c)" for w c
      using findChannel_Some [OF that inv] by simp
    then show ?thesis
      unfolding channel_MODE_def Let_def split_def
      by (intro keeps_bind keeps_case_option keeps_inv_say(1) inv channel_mode_inv member_mode_inv) auto
  qed
  moreover have "keeps irc_inv (user_MODE p socket a n s)" if a: "our_client socket s = Inr a" for a n
  proof -
    have "irc_inv (upd_client a (\<lambda>c. c\<lparr>userModes := m\<rparr>) s)"
      if "removeMode (userModes (clients s ! a)) x = Inr m" for m x
      using our_client_ok [OF a inv] inv removeMode_array [OF that]
      by (intro irc_inv_upd_client) (auto simp: client_ok_def)
    then show ?thesis
      unfolding user_MODE_def Let_def split_def
      by (intro keeps_if keeps_bind keeps_case_option keeps_inv_say(1) inv keeps_Inr [THEN iffD2])
  qed
  ultimately show ?thesis
    unfolding handle_MODE_def by (intro keeps_bind keeps_if)
qed

section \<open>Lines\<close>

lemma bsplit_subset: "w \<in> set (bsplit c cs) \<Longrightarrow> set w \<subseteq> set cs"
proof (induction cs arbitrary: w)
  case (Cons x cs)
  show ?case
  proof (cases "bsplit c cs")
    case Nil
    then show ?thesis using Cons.prems Cons.IH by (auto split: if_splits)
  next
    case v: (Cons v vs)
    then show ?thesis using Cons.IH [of v] Cons.IH [of w] \<open>w \<in> set (bsplit c (x # cs))\<close>
      by (cases "x = c") auto
  qed
qed simp

lemma bsplit_not_Nil [simp]: "bsplit c cs \<noteq> []"
  by (cases cs) (auto split: list.splits)

lemma length_bsplit: "length (bsplit c cs) = Suc (length (filter (\<lambda>x. x = c) cs))"
proof (induction cs)
  case (Cons x cs)
  then show ?case by (cases "bsplit c cs") simp_all
qed simp

lemma bstraEntry_ok: "bstraEntry (bsplit c m) i = Some x \<Longrightarrow> NUL \<notin> set m \<Longrightarrow> NUL \<notin> set x"
  using bsplit_subset [of x c m] by (auto simp: bstraEntry_def split: if_splits)

lemma words_ok:
  "NUL \<notin> set m \<Longrightarrow> Some x \<in> set (map (bstraEntry (bsplit c m)) js) \<Longrightarrow> NUL \<notin> set x"
  by (auto dest!: sym [of "Some x"] dest: bstraEntry_ok)

lemma tokenize_colon:
  assumes "CHR '':'' \<in> set m"
  shows "\<exists>b t. bstraEntry (bsplit CHR '':'' m) 0 = Some b \<and> bstraEntry (bsplit CHR '':'' m) 1 = Some t
    \<and> tokenize m = \<lparr>word = map (bstraEntry (bsplit CHR '' '' b)) [0..<8], colonflag = CHR ''y'', text_arg = t\<rparr>"
proof -
  have "filter (\<lambda>x. x = CHR '':'') m \<noteq> []" using assms unfolding filter_empty_conv by blast
  then have "1 < length (bsplit CHR '':'' m)" unfolding length_bsplit by simp
  then obtain b t where "bstraEntry (bsplit CHR '':'' m) 0 = Some b" "bstraEntry (bsplit CHR '':'' m) 1 = Some t"
    by (simp add: bstraEntry_def)
  then have "tokenize m = \<lparr>word = map (bstraEntry (bsplit CHR '' '' b)) [0..<8], colonflag = CHR ''y'', text_arg = t\<rparr>"
    unfolding tokenize_def if_P [OF assms] Let_def prod.case by (simp only: option.sel)
  then show ?thesis
    using \<open>bstraEntry (bsplit CHR '':'' m) 0 = Some b\<close> \<open>bstraEntry (bsplit CHR '':'' m) 1 = Some t\<close> by blast
qed

lemma tokenize_no_colon:
  "CHR '':'' \<notin> set m \<Longrightarrow>
   tokenize m = \<lparr>word = map (bstraEntry (bsplit CHR '' '' m)) [0..<8], colonflag = CHR ''n'', text_arg = []\<rparr>"
  unfolding tokenize_def by (simp only: if_False Let_def prod.case)

lemma tokenize_ok:
  assumes "NUL \<notin> set m"
  shows "params_ok (tokenize m)"
proof (cases "CHR '':'' \<in> set m")
  case True
  then obtain b t where b: "bstraEntry (bsplit CHR '':'' m) 0 = Some b" "bstraEntry (bsplit CHR '':'' m) 1 = Some t"
    and tok: "tokenize m = \<lparr>word = map (bstraEntry (bsplit CHR '' '' b)) [0..<8], colonflag = CHR ''y'', text_arg = t\<rparr>"
    using tokenize_colon by blast
  then have "NUL \<notin> set b" "NUL \<notin> set t" using assms by (auto dest: bstraEntry_ok)
  then show ?thesis
    unfolding tok params_ok_def params.simps length_map length_upt
    using words_ok [of b] by (intro conjI allI impI) (simp, assumption, blast)
next
  case False
  show ?thesis
    unfolding tokenize_no_colon [OF False] params_ok_def params.simps length_map length_upt
    using words_ok [OF assms] by (intro conjI allI impI) (simp, simp, blast)
qed

lemma handlers_inv:
  "irc_inv s \<Longrightarrow> params_ok p \<Longrightarrow> e \<in> set handlers \<Longrightarrow> keeps irc_inv (snd e p socket s)"
  by (auto simp: handlers_def handle_NICK_inv handle_USER_inv handle_QUIT_inv handle_PRIVMSG_inv
      handle_NOTICE_inv handle_PING_def handle_PONG_def handle_MOTD_inv handle_LUSERS_inv
      handle_WHOIS_inv handle_PART_inv handle_TOPIC_inv handle_MODE_inv handle_AWAY_inv
      handle_NAMES_inv handle_LIST_inv handle_WHO_def handle_JOIN_inv handle_OPER_inv
      intro: keeps_inv_say(1))

lemma parse_inv: "irc_inv s \<Longrightarrow> NUL \<notin> set m \<Longrightarrow> keeps irc_inv (parse m socket s)"
  unfolding parse_def Let_def
  by (intro keeps_case_option keeps_bind keeps_inv_say(1) handlers_inv tokenize_ok)
    (auto dest: find_SomeD)

lemma feed_char_inv: "irc_inv s \<Longrightarrow> keeps irc_inv (feed_char k c s)"
proof -
  assume inv: "irc_inv s"
  have "NUL \<notin> set (take n (c_str b))" for n b
    using c_str_no_NUL by (metis in_set_takeD)
  then show ?thesis using inv
    unfolding feed_char_def Let_def set_buf_def
    by (auto intro!: keeps_if parse_inv irc_inv_threads)
qed

lemma recv_loop_inv: "irc_inv s \<Longrightarrow> keeps irc_inv (recv_loop k cs s)"
  by (induction cs arbitrary: s) (auto intro: keeps_rbind [OF feed_char_inv])

lemma connect_inv:
  assumes inv: "irc_inv s"
  shows "keeps irc_inv (irc_step (Connect sock) s)"
proof -
  let ?a = "length (clients s)"
  let ?s = "s\<lparr>clients := clients s @ [makeClient sock], clientList := clientList s @ [?a]\<rparr>"
  have lt: "a < ?a" if "a \<in> set (clientList s)" for a using that inv by (simp add: irc_inv_but_def)
  have "channel_ok ?s c" if "channel_ok s c" for c
  proof -
    have u: "list_all (uic_ok s) (chan_uics c)" using that by (simp add: channel_ok_def)
    then have "map (uic_socket ?s) (chan_uics c) = map (uic_socket s) (chan_uics c)"
      by (auto simp: list_all_iff uic_ok_def nth_append)
    moreover have "list_all (uic_ok ?s) (chan_uics c)"
      using u by (auto simp: list_all_iff uic_ok_def)
    ultimately show ?thesis using that unfolding channel_ok_def by metis
  qed
  moreover have "nicks_unique ?s"
    using inv lt by (auto simp: irc_inv_but_def nicks_unique_def nth_append makeClient_def)
  moreover have "client_ok (makeClient sock)" by (simp add: client_ok_def makeClient_def mode_array_def)
  ultimately have "irc_inv ?s"
    using inv lt by (auto simp: irc_inv_but_def list_all_iff less_SucI)
  then show ?thesis using irc_inv_threads [of "{}" ?s] by simp
qed

lemma irc_step_inv: "irc_inv s \<Longrightarrow> irc_step ev s = Inr s' \<Longrightarrow> irc_inv s'"
proof (cases ev)
  case (Connect sock)
  assume "irc_inv s" "irc_step ev s = Inr s'"
  then show ?thesis using keepsD [OF connect_inv] Connect by blast
next
  case (Recv k bytes)
  assume "irc_inv s" "irc_step ev s = Inr s'"
  then show ?thesis using Recv by (auto split: if_splits dest: keepsD [OF recv_loop_inv])
qed

interpretation irc: event_machine irc_inv irc_step "\<lambda>_. True"
  by unfold_locales (rule irc_step_inv)

lemma irc_start_inv: "(\<And>a. length (jnk a) = 10) \<Longrightarrow> irc_inv (irc_start h pw m jnk)"
  by (simp add: irc_start_def irc_inv_but_def nicks_unique_def)

end
