(* ===== verification/Irc_Props.thy ===== *)
theory Irc_Props
  imports Irc_Inv
begin

text \<open>
  What the IRC server does: how lines are cut out of the stream, to whom messages go, what a
  departure does to others, who is a channel operator, and which lines end the server.
\<close>

section \<open>What the handlers leave alone\<close>

text \<open>
  A property of the state that no elementary change of the handlers breaks: sending, updates of
  clients, of channels and of the two lists, a new channel, a new membership, and the change of a
  member's mode \<open>v\<close> or \<open>o\<close>. Every line keeps it.
\<close>

locale irc_frame =
  fixes P :: "irc \<Rightarrow> bool"
  assumes out: "only_out s s' \<Longrightarrow> P s \<Longrightarrow> P s'"
    and sent: "P s \<Longrightarrow> P (sendMessage m k s)"
    and client: "P s \<Longrightarrow> P (upd_client a f s)"
    and channel: "P s \<Longrightarrow> P (upd_channel c g s)"
    and leave: "P s \<Longrightarrow> P (s\<lparr>clientList := cl\<rparr>)"
    and destroy: "P s \<Longrightarrow> P (s\<lparr>channelList := ch\<rparr>)"
    and create: "P s \<Longrightarrow> P (s\<lparr>channels := cs, channelList := ch\<rparr>)"
    and join: "P s \<Longrightarrow> pairUserWithChannel a c b s = Inr s' \<Longrightarrow> P s'"
    and member: "P s \<Longrightarrow> mode = CHR ''v'' \<or> mode = CHR ''o'' \<Longrightarrow>
      set_or_remove PoM (userChanModes (uics s ! u)) mode = Inr md \<Longrightarrow>
      P (upd_uic u (\<lambda>x. x\<lparr>userChanModes := md\<rparr>) s)"
begin

lemma keeps_out: "keeps (only_out s) m \<Longrightarrow> P s \<Longrightarrow> keeps P m"
  by (erule keeps_mono) (rule out)

lemmas say = keeps_say [THEN keeps_out] keeps_say_all [THEN keeps_out] keeps_say515 [THEN keeps_out]
  keeps_motd_loop [THEN keeps_out] keeps_names_channel [THEN keeps_out] keeps_names_all [THEN keeps_out]

lemma message: "P s \<Longrightarrow> keeps P (messageAllUsers m c k s)"
proof -
  have "P s \<Longrightarrow> keeps P (message_loop m k us s)" for us
  proof (induction us arbitrary: s)
    case (Cons u us)
    show ?case unfolding message_loop.simps Let_def
      by (intro keeps_if keeps_bind Cons.IH sent) (auto intro: Cons.prems dest: keepsD [OF say(1) [OF Cons.prems]])
  qed simp
  then show "P s \<Longrightarrow> keeps P (messageAllUsers m c k s)" by (simp add: messageAllUsers_def)
qed

lemma LUSERS: "P s \<Longrightarrow> keeps P (handle_LUSERS k s)"
  unfolding handle_LUSERS_def Let_def by (intro keeps_bind say)

lemma MOTD: "P s \<Longrightarrow> keeps P (handle_MOTD k s)"
  unfolding handle_MOTD_def Let_def
  by (intro keeps_bind keeps_case_option say keeps_rbind [OF say(1)] keeps_rbind [OF say(4)])

lemma welcomed: "P s \<Longrightarrow> keeps P (welcome_client k a n u s)"
  unfolding welcome_client_def
  by (intro keeps_if keeps_rbind [OF say(2)] keeps_rbind [OF LUSERS] MOTD) (simp_all add: client)

lemma paired: "P s \<Longrightarrow> keeps P (pairUserWithChannel a c b s)"
  unfolding keeps_def using join by blast

lemma joined: "P s \<Longrightarrow> keeps P (join_channel k a n c b s)"
  unfolding join_channel_def Let_def
  by (intro keeps_if keeps_rbind [OF paired] keeps_bind [of "sprintf _ _"]
      keeps_rbind [OF message] keeps_rbind [where Q = P and m = "if _ then _ else _"]
      keeps_rbind [OF say(3)] say(3) sent) simp_all

lemmas intros = keeps_if keeps_case_option welcomed say joined message LUSERS MOTD
  keeps_Inr [THEN iffD2] keeps_Inl client channel leave create member sent

lemma removed: "P s \<Longrightarrow> P (removeUser k c s)"
  unfolding removeUser_def Let_def destroyChannel_def by (simp add: channel destroy)

lemma channel_modes: "P s \<Longrightarrow> keeps P (channel_mode k a n c b PoM mode s)"
  unfolding channel_mode_def Let_def
  by (intro intros keeps_rbind [OF message] keeps_bind [of "set_or_remove _ _ _"] keeps_bind [of "sprintf _ _"])

lemma member_modes: "P s \<Longrightarrow> keeps P (member_mode k a c b d PoM mode s)"
  unfolding member_mode_def Let_def by (intro intros keeps_bind) auto

lemma MODE: "P s \<Longrightarrow> keeps P (handle_MODE p k s)"
  unfolding handle_MODE_def channel_MODE_def user_MODE_def Let_def split_def
  by (intro keeps_bind channel_modes member_modes intros)

lemma PART: "P s \<Longrightarrow> keeps P (handle_PART p k s)"
proof -
  assume p: "P s"
  have "keeps P (rbind (messageAllUsers m c k (sendMessage m k s)) (\<lambda>s. Inr (removeUser k c s)))" for m c
    by (rule keeps_rbind [OF message [OF sent [OF p]]]) (simp add: removed)
  then show ?thesis
    unfolding handle_PART_def Let_def using p
    by (intro keeps_bind [of "our_client _ _"] keeps_bind [of "findChannel _ _"] keeps_bind [of "sprintf _ _"] intros)
qed

lemma OPER: "P s \<Longrightarrow> keeps P (handle_OPER p k s)"
  unfolding handle_OPER_def
  by (intro keeps_bind [of "deref _"] keeps_bind [of "our_client _ _"] keeps_bind [of "setMode _ _"]
      keeps_rbind [OF say(1)] keeps_bind [of "sprintf _ _"] intros)

lemma others:
  assumes "P s"
  shows "keeps P (handle_NICK p k s)" "keeps P (handle_USER p k s)" "keeps P (handle_QUIT k s)"
    "keeps P (handle_PRIVMSG p k s)" "keeps P (handle_NOTICE p k s)" "keeps P (handle_WHOIS p k s)"
    "keeps P (handle_TOPIC p k s)" "keeps P (handle_AWAY p k s)" "keeps P (handle_NAMES p k s)"
    "keeps P (handle_LIST p k s)" "keeps P (handle_JOIN p k s)" "keeps P (handle_PING k s)"
  using assms
  unfolding handle_NICK_def handle_USER_def handle_QUIT_def handle_PRIVMSG_def handle_NOTICE_def
    handle_WHOIS_def handle_TOPIC_def handle_AWAY_def handle_NAMES_def handle_LIST_def
    handle_JOIN_def handle_PING_def Let_def
  by (intro keeps_bind intros; assumption?)+

lemma handler: "P s \<Longrightarrow> e \<in> set handlers \<Longrightarrow> keeps P (snd e p k s)"
  by (auto simp: handlers_def handle_PONG_def handle_WHO_def MOTD LUSERS PART MODE OPER others)

lemma line: "P s \<Longrightarrow> keeps P (parse m k s)"
  unfolding parse_def Let_def
  by (intro keeps_case_option keeps_bind say(1) handler) (auto dest: find_SomeD)

end

text \<open>No handler touches the buffers of the threads.\<close>

lemma thr_upd [simp]:
  "threads (upd_client a f s) = threads s" "threads (upd_channel c g s) = threads s"
  "threads (upd_uic u h s) = threads s" "threads (sendMessage m k s) = threads s"
  by (simp_all add: upd_client_def upd_channel_def upd_uic_def sendMessage_def)

lemma thr_pairUser: "pairUserWithChannel a c b s = Inr s' \<Longrightarrow> threads s' = threads s"
  by (auto simp: pairUserWithChannel_def Let_def addUserInChannel_def addChanneltoUsersList_def split: if_splits)

interpretation keep_threads: irc_frame "\<lambda>s. threads s = ts" for ts
  by unfold_locales (simp_all add: only_out_simps thr_pairUser)

lemma thr_parse: "keeps (\<lambda>s'. threads s' = threads s) (parse m k s)"
  by (rule keep_threads.line) (rule refl)

section \<open>Lines\<close>

text \<open>The lines \<open>ms\<close> handled one after the other.\<close>

fun run_lines :: "int \<Rightarrow> string list \<Rightarrow> irc \<Rightarrow> irc res" where
  "run_lines socket [] s = Inr s"
| "run_lines socket (m # ms) s = rbind (parse m socket s) (run_lines socket ms)"

text \<open>A line the server can take: no terminator inside, and short enough for \<open>smallBuffer\<close>.\<close>

definition plain_line :: "string \<Rightarrow> bool" where
  "plain_line m \<longleftrightarrow> length m \<le> 510 \<and> NUL \<notin> set m \<and> CHR 0x0D \<notin> set m \<and> CHR 0x0A \<notin> set m"

definition idle_thread :: "thread_buf \<Rightarrow> bool" where
  "idle_thread t \<longleftrightarrow> smallBuffer t = [] \<and> \<not> isbackr t \<and> \<not> isbackn t"

lemma recv_loop_append: "recv_loop k (xs @ ys) s = rbind (recv_loop k xs s) (recv_loop k ys)"
  by (induction xs arbitrary: s) (simp_all add: rbind_def split: sum.splits)

lemma set_buf_simps [simp]:
  assumes "k < length (threads s)"
  shows "threads (set_buf k b r n s) ! k = (threads s ! k)\<lparr>smallBuffer := b, isbackr := r, isbackn := n\<rparr>"
    "set_buf k b r n (set_buf k b' r' n' s) = set_buf k b r n s"
    "length (threads (set_buf k b r n s)) = length (threads s)"
  using assms by (simp_all add: set_buf_def)

lemma set_buf_idle: "idle_thread (threads s ! k) \<Longrightarrow> set_buf k [] False False s = s"
proof -
  assume "idle_thread (threads s ! k)"
  then have "(threads s ! k)\<lparr>smallBuffer := [], isbackr := False, isbackn := False\<rparr> = threads s ! k"
    by (simp add: idle_thread_def)
  then show ?thesis unfolding set_buf_def by (simp only: list_update_id) simp
qed

lemma feed_length: "keeps (\<lambda>s'. length (threads s') = length (threads s)) (feed_char k c s)"
proof -
  have "keeps (\<lambda>s'. length (threads s') = length (threads s)) (parse m x (set_buf k b r n s))" for m x b r n
    by (rule keeps_mono [OF thr_parse]) (simp add: set_buf_def)
  then show ?thesis unfolding feed_char_def Let_def by (intro keeps_if) (simp_all add: set_buf_def)
qed

lemma recv_length: "keeps (\<lambda>s'. length (threads s') = length (threads s)) (recv_loop k cs s)"
proof (induction cs arbitrary: s)
  case (Cons c cs)
  show ?case unfolding recv_loop.simps
  proof (rule keeps_rbind [OF feed_length])
    fix s' :: irc assume "length (threads s') = length (threads s)"
    then show "keeps (\<lambda>t. length (threads t) = length (threads s)) (recv_loop k cs s')" using Cons.IH [of s'] by simp
  qed
qed simp

lemma run_chunks:
  "k < length (threads s) \<Longrightarrow> run_events irc_step (map (Recv k) chunks) s = recv_loop k (concat chunks) s"
proof (induction chunks arbitrary: s)
  case (Cons ch chunks)
  have "run_events irc_step (map (Recv k) chunks) s' = recv_loop k (concat chunks) s'"
    if "recv_loop k ch s = Inr s'" for s'
    using keepsD [OF recv_length that] Cons by simp
  then show ?case using Cons.prems
    by (simp add: recv_loop_append) (cases "recv_loop k ch s"; simp)
qed simp

lemma contains_crlf_end: "contains_crlf (xs @ [CHR 0x0D, CHR 0x0A])"
proof (induction xs)
  case (Cons x xs)
  then show ?case by (cases xs) simp_all
qed simp

lemma feed_text:
  assumes "k < length (threads s)" "\<not> isbackr (threads s ! k)" "\<not> isbackn (threads s ! k)"
    and "CHR 0x0D \<notin> set m" "CHR 0x0A \<notin> set m" "length (smallBuffer (threads s ! k)) + length m \<le> 513"
  shows "recv_loop k m s = Inr (set_buf k (smallBuffer (threads s ! k) @ m) False False s)"
  using assms
proof (induction m arbitrary: s)
  case Nil
  then have "(threads s ! k)\<lparr>smallBuffer := smallBuffer (threads s ! k), isbackr := False, isbackn := False\<rparr> = threads s ! k"
    by simp
  then have "set_buf k (smallBuffer (threads s ! k)) False False s = s"
    unfolding set_buf_def by (simp only: list_update_id) simp
  then show ?case by simp
next
  case (Cons c m)
  have "feed_char k c s = Inr (set_buf k (smallBuffer (threads s ! k) @ [c]) False False s)"
    using Cons.prems by (auto simp: feed_char_def Let_def)
  then show ?case
    using Cons.prems Cons.IH [of "set_buf k (smallBuffer (threads s ! k) @ [c]) False False s"] by simp
qed

lemma recv_line:
  assumes k: "k < length (threads s)" "idle_thread (threads s ! k)" and m: "plain_line m"
  shows "recv_loop k (m @ crlf) s = parse m (mySocket (threads s ! k)) s"
proof -
  let ?s = "set_buf k m False False s"
  have "recv_loop k m s = Inr ?s"
    using feed_text [of k s m] k m by (simp add: idle_thread_def plain_line_def)
  moreover have "feed_char k (CHR 0x0D) ?s = Inr (set_buf k (m @ [CHR 0x0D]) True False s)"
    using k(1) m by (simp add: feed_char_def Let_def plain_line_def)
  moreover have "c_str (m @ [CHR 0x0D, CHR 0x0A]) = m @ [CHR 0x0D, CHR 0x0A]"
    by (rule c_str_id) (use m in \<open>auto simp: plain_line_def\<close>)
  then have "feed_char k (CHR 0x0A) (set_buf k (m @ [CHR 0x0D]) True False s)
      = parse m (mySocket (threads s ! k)) s"
    using k m by (simp add: feed_char_def Let_def plain_line_def contains_crlf_end set_buf_idle)
  ultimately show ?thesis by (simp add: recv_loop_append crlf_def) (cases "parse m (mySocket (threads s ! k)) s"; simp)
qed

lemma recv_lines:
  assumes "k < length (threads s)" "idle_thread (threads s ! k)" "list_all plain_line ms"
  shows "recv_loop k (concat (map (\<lambda>m. m @ crlf) ms)) s = run_lines (mySocket (threads s ! k)) ms s"
  using assms
proof (induction ms arbitrary: s)
  case (Cons m ms)
  have "recv_loop k (concat (map (\<lambda>m. m @ crlf) ms)) s' = run_lines (mySocket (threads s ! k)) ms s'"
    if "parse m (mySocket (threads s ! k)) s = Inr s'" for s'
  proof -
    have "threads s' = threads s" by (rule keepsD [OF thr_parse that])
    then show ?thesis using Cons.IH [of s'] Cons.prems by simp
  qed
  moreover have "recv_loop k (concat (map (\<lambda>m. m @ crlf) (m # ms))) s
      = rbind (recv_loop k (m @ crlf) s) (recv_loop k (concat (map (\<lambda>m. m @ crlf) ms)))"
    using recv_loop_append [of k "m @ crlf" "concat (map (\<lambda>m. m @ crlf) ms)" s] by simp
  moreover have "recv_loop k (m @ crlf) s = parse m (mySocket (threads s ! k)) s"
    using Cons.prems by (intro recv_line) simp_all
  ultimately show ?case
    by (cases "parse m (mySocket (threads s ! k)) s") (simp_all only: run_lines.simps rbind_Inr rbind_Inl)
qed simp

text \<open>C10: whatever chunks \<open>recv\<close> delivers, the thread of a client handles exactly the lines that were sent,
  in their order, provided each is at most 510 characters long and free of NUL, CR and LF.\<close>

theorem lines_framed:
  assumes "k < length (threads s)" "idle_thread (threads s ! k)" "list_all plain_line ms"
    and "concat chunks = concat (map (\<lambda>m. m @ crlf) ms)"
  shows "run_events irc_step (map (Recv k) chunks) s = run_lines (mySocket (threads s ! k)) ms s"
  using recv_lines [OF assms(1-3)] by (simp add: run_chunks [OF assms(1)] assms(4))

section \<open>Words of a line\<close>

abbreviation plain_word :: "string \<Rightarrow> bool" where
  "plain_word w \<equiv> CHR '' '' \<notin> set w \<and> CHR '':'' \<notin> set w \<and> NUL \<notin> set w"

lemma bsplit_append: "c \<notin> set xs \<Longrightarrow> bsplit c (xs @ c # ys) = xs # bsplit c ys"
  by (induction xs) auto

lemma bsplit_none: "c \<notin> set xs \<Longrightarrow> bsplit c xs = [xs]"
  by (induction xs) auto

lemma bsplit_hd: "bsplit c xs ! 0 = takeWhile (\<lambda>x. x \<noteq> c) xs"
proof (induction xs)
  case (Cons x xs)
  then show ?case by (cases "bsplit c xs") simp_all
qed simp

text \<open>A line with a colon: the words before it, and the text up to the next colon.\<close>

lemma tokenize_text:
  assumes "CHR '':'' \<notin> set pre"
  shows "tokenize (pre @ CHR '':'' # t) = \<lparr>word = map (bstraEntry (bsplit CHR '' '' pre)) [0..<8],
    colonflag = CHR ''y'', text_arg = takeWhile (\<lambda>x. x \<noteq> CHR '':'') t\<rparr>"
proof -
  have "bsplit CHR '':'' (pre @ CHR '':'' # t) = pre # bsplit CHR '':'' t" by (rule bsplit_append [OF assms])
  then have "bstraEntry (bsplit CHR '':'' (pre @ CHR '':'' # t)) 0 = Some pre"
    "bstraEntry (bsplit CHR '':'' (pre @ CHR '':'' # t)) 1 = Some (takeWhile (\<lambda>x. x \<noteq> CHR '':'') t)"
    by (simp_all add: bstraEntry_def bsplit_hd)
  moreover have "CHR '':'' \<in> set (pre @ CHR '':'' # t)" by simp
  ultimately show ?thesis
    unfolding tokenize_def by (simp only: if_True Let_def prod.case option.sel)
qed

lemma split_words:
  "CHR '' '' \<notin> set v \<Longrightarrow> bsplit CHR '' '' (v @ CHR '' '' # ys) = v # bsplit CHR '' '' ys"
  "CHR '' '' \<notin> set v \<Longrightarrow> bsplit CHR '' '' v = [v]"
  by (rule bsplit_append, assumption, rule bsplit_none)

text \<open>Commands are found by their name.\<close>

lemma word_nth: "i < 8 \<Longrightarrow> map f [0..<8] ! i = f i"
  by simp

lemma find_key: "distinct (map fst xs) \<Longrightarrow> (k, v) \<in> set xs \<Longrightarrow> find (\<lambda>e. fst e = k) xs = Some (k, v)"
  by (induction xs) (auto simp: rev_image_eqI)

lemma handlers_distinct: "distinct (map fst handlers)"
  by (simp add: handlers_def)

lemmas find_handler = find_key [OF handlers_distinct]

lemma parse_command:
  assumes "word (tokenize m) ! 0 = Some cmd" "(cmd, h) \<in> set handlers"
  shows "parse m socket s = h (tokenize m) socket s"
  using find_handler [OF assms(2)] assms(1) by (simp add: parse_def)

lemma parse_one:
  assumes "(cmd, h) \<in> set handlers" "plain_word cmd" "plain_word w"
  shows "\<exists>p. parse (cmd @ CHR '' '' # w) socket s = h p socket s \<and> word p ! 1 = Some w \<and> word p ! 2 = None"
proof -
  let ?m = "cmd @ CHR '' '' # w"
  have b: "bsplit CHR '' '' ?m = [cmd, w]" using assms(2,3) by (simp add: split_words)
  have t: "tokenize ?m = \<lparr>word = map (bstraEntry [cmd, w]) [0..<8], colonflag = CHR ''n'', text_arg = []\<rparr>"
    using tokenize_no_colon [of ?m] assms(2,3) unfolding b by simp
  have "word (tokenize ?m) ! 0 = Some cmd" "word (tokenize ?m) ! 1 = Some w" "word (tokenize ?m) ! 2 = None"
    unfolding t params.simps by (subst word_nth, simp, simp add: bstraEntry_def)+
  then show ?thesis using parse_command [of ?m cmd h] assms(1) by blast
qed

section \<open>Messages\<close>

lemma message_loop_out:
  assumes "\<forall>u \<in> set us. hasMode (userModes (clients s ! uic_user (uics s ! u))) CHR ''a'' = Inr False"
  shows "message_loop msg k us s = Inr (s\<lparr>out := out s @ map (\<lambda>x. (x, c_str msg))
    (filter (\<lambda>x. x \<noteq> k) (map (uic_socket s) us))\<rparr>)"
  using assms
proof (induction us arbitrary: s)
  case (Cons u us)
  then show ?case
    using Cons.IH [of s] Cons.IH [of "sendMessage msg (uic_socket s u) s"]
    by (simp add: Let_def sendMessage_def)
qed simp

lemma find_listed_channel:
  assumes "irc_inv s" "c \<in> set (channelList s)"
  shows "find (seekByName (chan_name (channels s ! c)) s) (channelList s) = Some c"
proof -
  have d: "distinct (map (\<lambda>c. chan_name (channels s ! c)) (channelList s))"
    using assms(1) by (simp add: irc_inv_but_def)
  obtain d where e: "find (seekByName (chan_name (channels s ! c)) s) (channelList s) = Some d"
    using assms(2) find_None_iff [of "seekByName (chan_name (channels s ! c)) s" "channelList s"]
    by (cases "find (seekByName (chan_name (channels s ! c)) s) (channelList s)") (auto simp: seekByName_def)
  then have "d \<in> set (channelList s)" "chan_name (channels s ! d) = chan_name (channels s ! c)"
    using find_SomeD by (fastforce simp: seekByName_def)+
  then have "d = c" using d assms(2) by (auto simp: distinct_map inj_on_def)
  then show ?thesis using e by simp
qed

text \<open>C15: a message to a channel that is not moderated, sent by one of its members while nobody in it is
  away, reaches every other member exactly once, in the order they joined, with the sender's name and
  the text up to its next colon (the rest is lost, a fault of \<open>parse.c\<close>); nothing else changes. In a
  moderated channel the code does the same, where it ought to refuse the message of a member without
  a voice.\<close>

theorem channel_message_delivered:
  assumes inv: "irc_inv s" and a: "our_client socket s = Inr a"
    and c: "c \<in> set (channelList s)" "chan_name (channels s ! c) = CHR ''#'' # n" "plain_word n"
    and "isUserInChannel socket c s \<noteq> None"
    and "hasMode (chanModes (channels s ! c)) CHR ''m'' = Inr False"
    and "\<forall>u \<in> set (chan_uics (channels s ! c)).
      hasMode (userModes (clients s ! uic_user (uics s ! u))) CHR ''a'' = Inr False"
    and t: "NUL \<notin> set t"
    and m: "m = '':'' @ nick (clients s ! a) @ ''!'' @ user (clients s ! a) @ ''@hostname PRIVMSG #'' @ n
      @ '' :'' @ takeWhile (\<lambda>x. x \<noteq> CHR '':'') t @ crlf" "length m < 512"
  shows "parse (''PRIVMSG #'' @ n @ '' :'' @ t) socket s
      = Inr (s\<lparr>out := out s @ map (\<lambda>k. (k, m))
          (filter (\<lambda>k. k \<noteq> socket) (map (uic_socket s) (chan_uics (channels s ! c))))\<rparr>)
    \<and> distinct (filter (\<lambda>k. k \<noteq> socket) (map (uic_socket s) (chan_uics (channels s ! c))))"
proof -
  let ?ch = "CHR ''#'' # n" and ?x = "takeWhile (\<lambda>x. x \<noteq> CHR '':'') t"
  define p where "p = \<lparr>word = map (bstraEntry [''PRIVMSG'', ?ch, []]) [0..<8], colonflag = CHR ''y'', text_arg = ?x\<rparr>"
  have "bsplit CHR '' '' (''PRIVMSG'' @ CHR '' '' # ?ch @ [CHR '' '']) = [''PRIVMSG'', ?ch, []]"
    using c(3) split_words(1) [of "''PRIVMSG''"] split_words(1) [of ?ch "[]"] by simp
  then have p: "tokenize (''PRIVMSG #'' @ n @ '' :'' @ t) = p"
    using tokenize_text [of "''PRIVMSG'' @ CHR '' '' # ?ch @ [CHR '' '']" t] c(3) by (simp add: p_def)
  have w: "word p ! 0 = Some ''PRIVMSG''" "word p ! 1 = Some ?ch" "text_arg p = ?x"
    unfolding p_def params.simps by (subst word_nth, simp, simp add: bstraEntry_def)+ simp
  have "parse (''PRIVMSG #'' @ n @ '' :'' @ t) socket s = handle_PRIVMSG p socket s"
    using parse_command [of "''PRIVMSG #'' @ n @ '' :'' @ t" "''PRIVMSG''" handle_PRIVMSG] w(1)
    unfolding p by (simp add: handlers_def)
  also have "\<dots> = messageAllUsers m c socket s"
  proof -
    have "findChannel (Some ?ch) s = Inr (Some c)"
      using find_listed_channel [OF inv c(1)] c(2) by (simp add: findChannel_eq)
    moreover have "concat ['':'', nick (clients s ! a), ''!'', user (clients s ! a), ''@hostname PRIVMSG '', ?ch, '' :'', ?x, crlf] = m"
      by (simp add: m(1))
    then have "sprintf 512 ['':'', nick (clients s ! a), ''!'', user (clients s ! a), ''@hostname PRIVMSG '', ?ch, '' :'', ?x, crlf] = Inr m"
      unfolding sprintf_def using m(2) by (simp only: if_True)
    moreover have "deref (Some ?ch) = Inr ?ch" "first_char ?ch = CHR ''#''"
      by (simp_all add: deref_def first_char_def)
    ultimately show ?thesis
      unfolding handle_PRIVMSG_def Let_def w
      by (simp only: rbind_Inr if_True if_False option.case a assms(6) simp_thms)
  qed
  also have "\<dots> = Inr (s\<lparr>out := out s @ map (\<lambda>k. (k, m))
      (filter (\<lambda>k. k \<noteq> socket) (map (uic_socket s) (chan_uics (channels s ! c))))\<rparr>)"
  proof -
    have "client_ok (clients s ! a)" by (rule our_client_ok [OF a inv])
    moreover have "set ?x \<subseteq> set t" by (auto dest: set_takeWhileD)
    ultimately have "NUL \<notin> set m" using t c(3) by (auto simp: m(1) client_ok_def crlf_def)
    then show ?thesis
      using message_loop_out [OF assms(8)] by (simp add: messageAllUsers_def c_str_id)
  qed
  finally have sent: "parse (''PRIVMSG #'' @ n @ '' :'' @ t) socket s = \<dots>" .
  have "channel_ok s (channels s ! c)" using inv c(1) by (simp add: irc_inv_but_def list_all_length)
  then have "distinct (filter (\<lambda>k. k \<noteq> socket) (map (uic_socket s) (chan_uics (channels s ! c))))"
    by (intro distinct_filter) (simp add: channel_ok_def)
  with sent show ?thesis by (rule conjI)
qed

section \<open>Lines that end the server\<close>

lemma parse_alone:
  assumes "(cmd, h) \<in> set handlers" "plain_word cmd"
  shows "\<exists>p. parse cmd socket s = h p socket s \<and> word p ! 1 = None"
proof -
  have t: "tokenize cmd = \<lparr>word = map (bstraEntry [cmd]) [0..<8], colonflag = CHR ''n'', text_arg = []\<rparr>"
    using tokenize_no_colon [of cmd] assms(2) by (simp add: split_words)
  have "word (tokenize cmd) ! 0 = Some cmd" "word (tokenize cmd) ! 1 = None"
    unfolding t params.simps by (subst word_nth, simp, simp add: bstraEntry_def)+
  then show ?thesis using parse_command [of cmd cmd h] assms(1) by blast
qed

lemma parse_two:
  assumes "(cmd, h) \<in> set handlers" "plain_word cmd" "plain_word v" "plain_word w"
  shows "\<exists>p. parse (cmd @ CHR '' '' # v @ CHR '' '' # w) socket s = h p socket s
    \<and> word p ! 1 = Some v \<and> word p ! 2 = Some w \<and> word p ! 3 = None"
proof -
  let ?m = "cmd @ CHR '' '' # v @ CHR '' '' # w"
  have b: "bsplit CHR '' '' ?m = [cmd, v, w]" using assms(2-4) by (simp add: split_words)
  have t: "tokenize ?m = \<lparr>word = map (bstraEntry [cmd, v, w]) [0..<8], colonflag = CHR ''n'', text_arg = []\<rparr>"
    using tokenize_no_colon [of ?m] assms(2-4) unfolding b by simp
  have "word (tokenize ?m) ! 0 = Some cmd" "word (tokenize ?m) ! 1 = Some v" "word (tokenize ?m) ! 2 = Some w"
    "word (tokenize ?m) ! 3 = None"
    unfolding t params.simps by (subst word_nth, simp, simp add: bstraEntry_def)+
  then show ?thesis using parse_command [of ?m cmd h] assms(1) by blast
qed

lemma no_listed_channel:
  "(\<forall>c \<in> set (channelList s). chan_name (channels s ! c) \<noteq> n) \<Longrightarrow> findChannel (Some n) s = Inr None"
  by (simp add: findChannel_def deref_def find_None_iff seekByName_def)

text \<open>
  A nickname of nine characters or more is copied past the array of the client's nickname, into what
  follows in the structure or, if it is long enough, past the structure.
\<close>

lemma long_nickname_overruns:
  assumes "plain_word n" "9 \<le> length n"
  shows "parse (''NICK '' @ n) socket s = Inl Overrun"
proof -
  have h: "(''NICK'', handle_NICK) \<in> set handlers" by (simp add: handlers_def)
  obtain p where p: "parse (''NICK'' @ CHR '' '' # n) socket s = handle_NICK p socket s" "word p ! 1 = Some n"
    using parse_one [OF h _ assms(1)] by auto
  have "findUser (Some n) s = Inl Overrun" using assms(2) by (simp add: findUser_def deref_def strcpy_def)
  then show ?thesis using p by (simp add: handle_NICK_def)
qed

text \<open>C25: single lines of a connected client that make a handler follow a null pointer, which ends the
  whole server: \<open>NICK\<close>, \<open>JOIN\<close>, \<open>PRIVMSG\<close> or \<open>MODE\<close> without its parameter, \<open>NAMES\<close> of a channel that does
  not exist, and a mode change of a channel by a client that is not in it.\<close>

theorem lines_that_end_the_server:
  assumes a: "our_client socket s = Inr a" "irc_inv s"
    and missing: "plain_word x" "\<forall>c \<in> set (channelList s). chan_name (channels s ! c) \<noteq> x"
    and out: "c \<in> set (channelList s)" "chan_name (channels s ! c) = CHR ''#'' # y" "plain_word y"
      "isUserInChannel socket c s = None"
    and md: "plain_word z" "z \<noteq> []"
  shows "parse ''NICK'' socket s = Inl Null_deref \<and> parse ''JOIN'' socket s = Inl Null_deref
    \<and> parse ''PRIVMSG'' socket s = Inl Null_deref \<and> parse ''MODE'' socket s = Inl Null_deref
    \<and> parse (''NAMES '' @ x) socket s = Inl Null_deref
    \<and> parse (''MODE #'' @ y @ '' '' @ z) socket s = Inl Null_deref"
proof (intro conjI)
  have none: "findUser None s = Inl Null_deref" "findChannel None s = Inl Null_deref" "deref None = Inl Null_deref"
    by (simp_all add: findUser_def findChannel_def deref_def)
  have h: "(''NICK'', handle_NICK) \<in> set handlers" "(''JOIN'', handle_JOIN) \<in> set handlers"
    "(''PRIVMSG'', handle_PRIVMSG) \<in> set handlers" "(''MODE'', handle_MODE) \<in> set handlers"
    "(''NAMES'', handle_NAMES) \<in> set handlers"
    by (simp_all add: handlers_def)
  have pw: "plain_word ''NICK''" "plain_word ''JOIN''" "plain_word ''PRIVMSG''" "plain_word ''MODE''" "plain_word ''NAMES''"
    by simp_all
  obtain p where p: "parse ''NICK'' socket s = handle_NICK p socket s" "word p ! 1 = None"
    using parse_alone [OF h(1) pw(1)] by blast
  show "parse ''NICK'' socket s = Inl Null_deref"
    unfolding p(1) handle_NICK_def p(2) none rbind_Inl by (rule refl)
  obtain p where p: "parse ''JOIN'' socket s = handle_JOIN p socket s" "word p ! 1 = None"
    using parse_alone [OF h(2) pw(2)] by blast
  show "parse ''JOIN'' socket s = Inl Null_deref"
    unfolding p(1) handle_JOIN_def p(2) none a(1) rbind_Inl rbind_Inr by (rule refl)
  obtain p where p: "parse ''PRIVMSG'' socket s = handle_PRIVMSG p socket s" "word p ! 1 = None"
    using parse_alone [OF h(3) pw(3)] by blast
  show "parse ''PRIVMSG'' socket s = Inl Null_deref"
    unfolding p(1) handle_PRIVMSG_def p(2) none rbind_Inl Let_def by (rule refl)
  obtain p where p: "parse ''MODE'' socket s = handle_MODE p socket s" "word p ! 1 = None"
    using parse_alone [OF h(4) pw(4)] by blast
  show "parse ''MODE'' socket s = Inl Null_deref"
    unfolding p(1) handle_MODE_def p(2) none a(1) rbind_Inl rbind_Inr by (rule refl)
  obtain p where p: "parse (''NAMES'' @ CHR '' '' # x) socket s = handle_NAMES p socket s" "word p ! 1 = Some x"
    using parse_one [OF h(5) pw(5) missing(1)] by blast
  then show "parse (''NAMES '' @ x) socket s = Inl Null_deref"
    using no_listed_channel [OF missing(2)] by (simp add: handle_NAMES_def deref_def)
  let ?ch = "CHR ''#'' # y"
  have ch: "plain_word ?ch" using out(3) by simp
  obtain p where p: "parse (''MODE'' @ CHR '' '' # ?ch @ CHR '' '' # z) socket s = handle_MODE p socket s"
    "word p ! 1 = Some ?ch" "word p ! 2 = Some z"
    using parse_two [OF h(4) pw(4) ch md(1)] by blast
  have "findChannel (Some ?ch) s = Inr (Some c)"
    using find_listed_channel [OF a(2) out(1)] out(2) by (simp add: findChannel_eq)
  then have "channel_MODE p socket a ?ch s = Inl Null_deref"
    using md(2) out(4) none by (simp add: channel_MODE_def p(3) mode_arg_def Let_def deref_def)
  then have "handle_MODE p socket s = Inl Null_deref"
    using a(1) p(2) by (simp add: handle_MODE_def deref_def first_char_def)
  then show "parse (''MODE #'' @ y @ '' '' @ z) socket s = Inl Null_deref" using p(1) by simp
qed

section \<open>Departures\<close>

lemma find_unique:
  "P x \<Longrightarrow> x \<in> set xs \<Longrightarrow> (\<And>y. y \<in> set xs \<Longrightarrow> P y \<Longrightarrow> y = x) \<Longrightarrow> find P xs = Some x"
proof (induction xs)
  case (Cons z xs)
  show ?case
  proof (cases "P z")
    case True
    then have "z = x" by (intro Cons.prems(3)) simp_all
    then show ?thesis using True by simp
  next
    case False
    then have "x \<in> set xs" using Cons.prems(1,2) by auto
    then have "find P xs = Some x" by (intro Cons.IH Cons.prems(1)) (use Cons.prems(3) in simp_all)
    then show ?thesis using False by simp
  qed
qed simp

lemma locate_first: "P x \<Longrightarrow> (\<And>y. y \<in> set xs \<Longrightarrow> \<not> P y) \<Longrightarrow> locate P (xs @ x # ys) = Some (length xs)"
  by (induction xs) auto

text \<open>\<open>QUIT\<close> removes the first client with the nickname of the one that quits. When two clients have not
  chosen a nickname yet, the later one's \<open>QUIT\<close> removes the earlier one, keeps the one that left, and
  the next nickname the earlier one asks for ends the server.\<close>

theorem quit_removes_namesake:
  assumes "clientList s = xs @ a # ys @ b # zs" "distinct (map (\<lambda>x. ourSocket (clients s ! x)) (clientList s))"
    and "nick (clients s ! a) = nick (clients s ! b)" "\<forall>x \<in> set xs. nick (clients s ! x) \<noteq> nick (clients s ! b)"
    and n: "plain_word n" "length n < 9" "\<forall>x \<in> set (clientList s). nick (clients s ! x) \<noteq> n"
  shows "parse ''QUIT'' (ourSocket (clients s ! b)) s = Inr (s\<lparr>clientList := xs @ ys @ b # zs\<rparr>)
    \<and> parse (''NICK '' @ n) (ourSocket (clients s ! a)) (s\<lparr>clientList := xs @ ys @ b # zs\<rparr>) = Inl Null_deref"
proof
  let ?L = "xs @ ys @ b # zs" and ?sa = "ourSocket (clients s ! a)" and ?sb = "ourSocket (clients s ! b)"
  have uniq: "y = x" if "x \<in> set (clientList s)" "y \<in> set (clientList s)" "ourSocket (clients s ! y) = ourSocket (clients s ! x)" for x y
    using assms(2) that by (auto simp: distinct_map inj_on_def)
  have "list_seek_socket ?sb s = Some b"
    unfolding list_seek_socket_def seeker_def
    by (rule find_unique) (use assms(1) uniq [of b] in auto)
  moreover have "locate (\<lambda>x. comparator (nick (clients s ! b)) (clients s ! x)) (clientList s) = Some (length xs)"
    unfolding assms(1) comparator_def by (rule locate_first) (use assms(3,4) in auto)
  ultimately have "handle_QUIT ?sb s = Inr (s\<lparr>clientList := ?L\<rparr>)"
    by (simp add: handle_QUIT_def list_delete_at_def assms(1))
  moreover have "(''QUIT'', \<lambda>_. handle_QUIT) \<in> set handlers" by (simp add: handlers_def)
  ultimately show "parse ''QUIT'' ?sb s = Inr (s\<lparr>clientList := ?L\<rparr>)"
    using parse_alone [of "''QUIT''" "\<lambda>_. handle_QUIT" ?sb s] by auto
  have "a \<notin> set ?L" using assms(1,2) by (auto simp: distinct_map)
  then have "x \<noteq> a \<and> x \<in> set (clientList s)" if "x \<in> set ?L" for x using that assms(1) by auto
  then have "find (\<lambda>x. seeker ?sa (clients s ! x)) ?L = None"
    using uniq [of a] assms(1) unfolding find_None_iff seeker_def by auto
  then have o: "our_client ?sa (s\<lparr>clientList := ?L\<rparr>) = Inl Null_deref"
    by (simp add: our_client_def list_seek_socket_def deref_def)
  have "find (\<lambda>x. comparator n (clients s ! x)) ?L = None"
    using n(3) assms(1) by (auto simp: find_None_iff comparator_def)
  then have f: "findUser (Some n) (s\<lparr>clientList := ?L\<rparr>) = Inr None"
    using n(2) by (simp add: findUser_def deref_def strcpy_def)
  have "(''NICK'', handle_NICK) \<in> set handlers" by (simp add: handlers_def)
  then obtain p where "parse (''NICK'' @ CHR '' '' # n) ?sa (s\<lparr>clientList := ?L\<rparr>)
      = handle_NICK p ?sa (s\<lparr>clientList := ?L\<rparr>)" "word p ! 1 = Some n"
    using parse_one [of "''NICK''" handle_NICK n ?sa "s\<lparr>clientList := ?L\<rparr>"] n(1) by auto
  then show "parse (''NICK '' @ n) ?sa (s\<lparr>clientList := ?L\<rparr>) = Inl Null_deref"
    using f o by (simp add: handle_NICK_def)
qed

section \<open>Channel operators\<close>

lemma hasMode_eq: "hasMode m c = Inr b \<longleftrightarrow> NUL \<in> set m \<and> b = (c \<in> set (c_str m))"
  by (auto simp: hasMode_def rbind_eq_Inr_iff strlen_eq take_c_str)

lemma c_str_take: "n < length m \<Longrightarrow> m ! n = NUL \<Longrightarrow> (\<And>j. j < n \<Longrightarrow> m ! j \<noteq> NUL) \<Longrightarrow> c_str m = take n m"
  unfolding c_str_def by (rule takeWhile_eq_take_P_nth) auto

lemma c_str_nth: "j < length (c_str m) \<Longrightarrow> m ! j \<noteq> NUL"
  unfolding c_str_def by (metis (mono_tags, lifting) nth_mem set_takeWhileD takeWhile_nth)

lemma setMode_str:
  assumes "setMode m c = Inr m'" "c \<noteq> NUL"
  shows "NUL \<in> set m'" "c_str m' = (if c \<in> set (c_str m) then c_str m else c_str m @ [c])"
proof -
  let ?i = "length (c_str m)"
  have n: "NUL \<in> set m" using assms(1) by (auto simp: setMode_def strlen_eq)
  have "NUL \<in> set m' \<and> c_str m' = (if c \<in> set (c_str m) then c_str m else c_str m @ [c])"
  proof (cases "c \<in> set (c_str m)")
    case True
    then show ?thesis using assms(1) n by (auto simp: setMode_def strlen_eq take_c_str)
  next
    case False
    then have m': "m' = m[?i := c, Suc ?i := NUL]" "Suc ?i < length m"
      using assms(1) by (auto simp: setMode_def strlen_eq take_c_str split: if_splits)
    have "c_str m' = take (Suc ?i) m'"
    proof (rule c_str_take)
      fix j assume "j < Suc ?i"
      then show "m' ! j \<noteq> NUL" using m' assms(2) c_str_nth [of j m] by (auto simp: less_Suc_eq)
    qed (use m' in simp_all)
    also have "\<dots> = take ?i m @ [c]" using m' by (simp add: take_Suc_conv_app_nth)
    finally have "c_str m' = c_str m @ [c]" by (simp add: take_c_str)
    moreover have "m' ! Suc ?i = NUL" "Suc ?i < length m'" using m' by simp_all
    then have "NUL \<in> set m'" by (metis nth_mem)
    ultimately show ?thesis using False by simp
  qed
  then show "NUL \<in> set m'" "c_str m' = (if c \<in> set (c_str m) then c_str m else c_str m @ [c])" by blast+
qed

lemma nth_shift_down:
  "L < length m \<Longrightarrow> j < length m \<Longrightarrow>
   shift_down m [i..<L] ! j = (if i \<le> j \<and> j < L then m ! Suc j else m ! j)"
proof (induction "L - i" arbitrary: i m)
  case (Suc d)
  then have "[i..<L] = i # [Suc i..<L]" by (simp add: upt_conv_Cons)
  then show ?case using Suc.hyps(1) [of "Suc i" "m[i := m ! Suc i]"] Suc.hyps(2) Suc.prems
    by (auto simp: nth_list_update)
qed auto

lemma removeMode_str:
  assumes r: "removeMode m c = Inr m'" and ne: "c \<noteq> x" "x \<noteq> NUL"
  shows "NUL \<in> set m'" "x \<in> set (c_str m') \<longleftrightarrow> x \<in> set (c_str m)"
proof -
  let ?L = "length (c_str m)"
  have n: "NUL \<in> set m" using r by (auto simp: removeMode_def strlen_eq split: option.splits)
  have L: "?L < length m" "m ! ?L = NUL" using c_str_less [OF n] by simp_all
  have "NUL \<in> set m' \<and> (x \<in> set (c_str m') \<longleftrightarrow> x \<in> set (c_str m))"
  proof (cases "locate (\<lambda>a. a = c) (c_str m)")
    case None
    then show ?thesis using r n by (simp add: removeMode_def strlen_def take_c_str)
  next
    case (Some i)
    have m': "m' = shift_down m [i..<?L]" using r n Some by (simp add: removeMode_def strlen_def take_c_str)
    have i: "i < ?L" "c_str m ! i = c" using locate_Some [OF Some] by simp_all
    then have mi: "m ! i = c" by (metis nth_take take_c_str)
    have nth: "m' ! j = (if i \<le> j \<and> j < ?L then m ! Suc j else m ! j)" if "j < length m" for j
      unfolding m' using nth_shift_down [OF L(1) that] .
    have len: "length m' = length m" by (simp add: m')
    have c: "c_str m' = take (?L - 1) m'"
    proof (rule c_str_take)
      show "?L - 1 < length m'" using L(1) len by simp
      show "m' ! (?L - 1) = NUL" proof -
        have "Suc (?L - 1) = ?L" "i \<le> ?L - 1" "?L - 1 < ?L" using i(1) by simp_all
        then show ?thesis using nth [of "?L - 1"] L by simp
      qed
      show "m' ! j \<noteq> NUL" if "j < ?L - 1" for j
        using that nth [of j] L(1) c_str_nth [of j m] c_str_nth [of "Suc j" m] by auto
    qed
    have "x \<in> set (c_str m') \<longleftrightarrow> (\<exists>j < ?L - 1. m' ! j = x)"
      unfolding c using L(1) len by (auto simp: in_set_conv_nth)
    also have "\<dots> \<longleftrightarrow> (\<exists>j < ?L. m ! j = x)"
    proof
      assume "\<exists>j < ?L - 1. m' ! j = x"
      then obtain j where j: "j < ?L - 1" "m' ! j = x" by blast
      then show "\<exists>j < ?L. m ! j = x"
        using nth [of j] L(1) by (intro exI [of _ "if i \<le> j then Suc j else j"]) auto
    next
      assume "\<exists>j < ?L. m ! j = x"
      then obtain j where j: "j < ?L" "m ! j = x" by blast
      then have "j \<noteq> i" using mi ne by auto
      then show "\<exists>j < ?L - 1. m' ! j = x"
        using j i(1) L(1) nth [of j] nth [of "j - 1"]
        by (intro exI [of _ "if j < i then j else j - 1"]) auto
    qed
    also have "\<dots> \<longleftrightarrow> x \<in> set (c_str m)"
      by (metis in_set_conv_nth nth_take take_c_str)
    finally have "x \<in> set (c_str m') \<longleftrightarrow> x \<in> set (c_str m)" .
    moreover have "m' ! ?L = NUL" using nth [OF L(1)] L(2) by simp
    then have "NUL \<in> set m'" using L(1) len by (metis nth_mem)
    ultimately show ?thesis by simp
  qed
  then show "NUL \<in> set m'" "x \<in> set (c_str m') \<longleftrightarrow> x \<in> set (c_str m)" by blast+
qed

text \<open>
  \<open>same_ops s0 s\<close>: every membership of \<open>s0\<close> has the operator flag \<open>O\<close> in \<open>s\<close> exactly if it had it
  in \<open>s0\<close>.
\<close>

definition same_ops :: "irc \<Rightarrow> irc \<Rightarrow> bool" where
  "same_ops s0 s \<longleftrightarrow> length (uics s0) \<le> length (uics s) \<and> (\<forall>u < length (uics s0).
     hasMode (userChanModes (uics s ! u)) CHR ''O'' = hasMode (userChanModes (uics s0 ! u)) CHR ''O'')"

lemma same_ops_simps:
  "same_ops s0 (s\<lparr>out := os\<rparr>) = same_ops s0 s" "same_ops s0 (s\<lparr>clients := cl\<rparr>) = same_ops s0 s"
  "same_ops s0 (s\<lparr>channels := cs\<rparr>) = same_ops s0 s" "same_ops s0 (s\<lparr>clientList := is\<rparr>) = same_ops s0 s"
  "same_ops s0 (s\<lparr>channelList := ls\<rparr>) = same_ops s0 s"
  by (simp_all add: same_ops_def)

lemma same_ops_pair:
  assumes "same_ops s0 s" "pairUserWithChannel a c b s = Inr s'"
  shows "same_ops s0 s'"
proof -
  have "length (uics s) \<le> length (uics s') \<and> (\<forall>u < length (uics s). uics s' ! u = uics s ! u)"
    using assms(2)
    by (auto simp: pairUserWithChannel_def Let_def upd_uic_def addUserInChannel_def
        addChanneltoUsersList_def upd_client_def upd_channel_def nth_append split: if_splits)
  then show ?thesis using assms(1) by (auto simp: same_ops_def)
qed

lemma same_ops_member:
  assumes "same_ops s0 s" "mode = CHR ''v'' \<or> mode = CHR ''o''"
    and r: "set_or_remove PoM (userChanModes (uics s ! u)) mode = Inr m"
  shows "same_ops s0 (upd_uic u (\<lambda>x. x\<lparr>userChanModes := m\<rparr>) s)"
proof -
  let ?m = "userChanModes (uics s ! u)"
  have "NUL \<in> set m \<and> (CHR ''O'' \<in> set (c_str m) \<longleftrightarrow> CHR ''O'' \<in> set (c_str ?m))"
  proof (cases "PoM = CHR ''-''")
    case True
    then show ?thesis using r removeMode_str [of ?m mode m "CHR ''O''"] assms(2) by (auto simp: set_or_remove_def)
  next
    case False
    then show ?thesis using r setMode_str [of ?m mode m] assms(2) by (auto simp: set_or_remove_def split: if_splits)
  qed
  moreover have "NUL \<in> set ?m"
    using r by (auto simp: set_or_remove_def setMode_def removeMode_def strlen_eq split: if_splits option.splits)
  ultimately have "hasMode m CHR ''O'' = hasMode ?m CHR ''O''" by (simp add: hasMode_def strlen_def take_c_str)
  then have "hasMode (userChanModes ((uics s)[u := (uics s ! u)\<lparr>userChanModes := m\<rparr>] ! v)) CHR ''O''
      = hasMode (userChanModes (uics s ! v)) CHR ''O''" if "v < length (uics s)" for v
    using that by (cases "v = u") simp_all
  then show ?thesis using assms(1) by (simp add: same_ops_def upd_uic_def)
qed

interpretation keep_ops: irc_frame "same_ops s0" for s0
  by unfold_locales
    (auto simp: upd_client_def upd_channel_def sendMessage_def only_out_def same_ops_simps
      intro: same_ops_pair same_ops_member)

text \<open>C30: who is operator of a channel is decided when the membership is created: no line of any client
  gives an existing membership the operator flag or takes it away. In particular \<open>MODE +o\<close>, which
  sets the flag \<open>o\<close>, makes nobody operator, and \<open>MODE -o\<close> takes the right from nobody.\<close>

theorem channel_operators_fixed:
  assumes "parse m socket s = Inr s'" "u < length (uics s)"
  shows "hasMode (userChanModes (uics s' ! u)) CHR ''O'' = hasMode (userChanModes (uics s ! u)) CHR ''O''"
proof -
  have "same_ops s s" by (simp add: same_ops_def)
  then have "same_ops s s'" using keepsD [OF keep_ops.line assms(1)] by blast
  then show ?thesis using assms(2) by (simp add: same_ops_def)
qed

section \<open>Runs\<close>

lemma runs_inv:
  assumes "\<forall>a. length (jnk a) = 10" "run_events irc_step evs (irc_start h pw md jnk) = Inr s"
  shows "irc_inv s"
  by (rule irc.run_inv [OF irc_start_inv _ assms(2)]) (use assms(1) in \<open>simp_all add: list_all_iff\<close>)

text \<open>C13: after any sequence of connections and received characters the server is consistent: listed
  clients that have chosen a nickname have different ones, listed channels have different names and at least one member, and a
  channel counts its members, whose sockets differ.\<close>

theorem irc_runs_consistent:
  assumes "\<forall>a. length (jnk a) = 10" "run_events irc_step evs (irc_start h pw md jnk) = Inr s"
  shows "nicks_unique s \<and> distinct (clientList s)
    \<and> distinct (map (\<lambda>c. chan_name (channels s ! c)) (channelList s))
    \<and> (\<forall>c \<in> set (channelList s). chan_uics (channels s ! c) \<noteq> []
        \<and> nusers (channels s ! c) = int (length (chan_uics (channels s ! c)))
        \<and> distinct (map (uic_socket s) (chan_uics (channels s ! c))))"
  using runs_inv [OF assms] by (auto simp: irc_inv_but_def list_all_length channel_ok_def)

text \<open>C28: after any run every string of a client fits its array and holds no NUL, the mode arrays of
  clients and of listed channels are ten characters with a terminator, every pointer of the lists is to
  an allocated structure, and every line sent is shorter than 515 characters and holds no NUL. (The
  mode array of a membership is not among them: it starts as what \<open>malloc\<close> returned, the argument
  \<open>jnk\<close>.)\<close>

theorem irc_state_well_typed:
  assumes "\<forall>a. length (jnk a) = 10" "run_events irc_step evs (irc_start h pw md jnk) = Inr s"
  shows "list_all client_ok (clients s) \<and> (\<forall>a \<in> set (clientList s). a < length (clients s))
    \<and> (\<forall>c \<in> set (channelList s). c < length (channels s) \<and> mode_array (chanModes (channels s ! c))
        \<and> (\<forall>u \<in> set (chan_uics (channels s ! c)). u < length (uics s) \<and> uic_user (uics s ! u) < length (clients s)))
    \<and> list_all (\<lambda>x. length (snd x) < 515 \<and> NUL \<notin> set (snd x)) (out s)"
proof -
  have i: "irc_inv s" by (rule runs_inv [OF assms])
  then have ch: "channel_ok s (channels s ! c)" if "c \<in> set (channelList s)" for c
    using that by (auto simp: irc_inv_but_def list_all_length)
  have o: "list_all (line_ok \<circ> snd) (out s)" using i by (simp add: irc_inv_but_def)
  show ?thesis
  proof (intro conjI ballI)
    show "list_all (\<lambda>x. length (snd x) < 515 \<and> NUL \<notin> set (snd x)) (out s)"
      using o by (auto simp: list_all_iff line_ok_def)
  qed (use i ch in \<open>auto simp: irc_inv_but_def channel_ok_def uic_ok_def list_all_iff\<close>)
qed

section \<open>A session\<close>

text \<open>Two clients register and join a channel; two more connect and have not chosen a name.\<close>

definition session :: "irc_event list" where
  "session = [Connect 4, Connect 5, Recv 0 (''NICK al'' @ crlf), Recv 0 (''USER a * * :A'' @ crlf),
     Recv 1 (''NICK bo'' @ crlf), Recv 1 (''USER b * * :B'' @ crlf), Recv 0 (''JOIN #c'' @ crlf),
     Recv 1 (''JOIN #c'' @ crlf), Connect 6, Connect 7]"

definition session_start :: irc where
  "session_start = irc_start ''h'' ''pw'' None (\<lambda>_. replicate 10 NUL)"

definition session_end :: irc where
  "session_end = (case run_events irc_step session session_start of Inl e \<Rightarrow> session_start | Inr s \<Rightarrow> s)"

lemma session_runs: "run_events irc_step session session_start = Inr session_end"
proof -
  have "\<not> isl (run_events irc_step session session_start)" by code_simp
  then show ?thesis by (auto simp: session_end_def split: sum.splits)
qed

lemma session_inv: "irc_inv session_end"
  by (rule runs_inv [OF _ session_runs [unfolded session_start_def]]) simp

text \<open>What the session ends in.\<close>

definition session_result :: "irc \<Rightarrow> bool" where
  "session_result s \<longleftrightarrow>
     clientList s = [0, 1, 2, 3] \<and>
     channelList s = [0] \<and>
     length (threads s) = 4 \<and>
     length (uics s) = 2 \<and>
     length (channels s) = 1 \<and>
     ourSocket (clients s ! 0) = 4 \<and>
     ourSocket (clients s ! 1) = 5 \<and>
     ourSocket (clients s ! 2) = 6 \<and>
     ourSocket (clients s ! 3) = 7 \<and>
     nick (clients s ! 0) = ''al'' \<and>
     nick (clients s ! 1) = ''bo'' \<and>
     nick (clients s ! 2) = [] \<and>
     nick (clients s ! 3) = [] \<and>
     user (clients s ! 0) = ''a'' \<and>
     chan_name (channels s ! 0) = ''#c'' \<and>
     chan_uics (channels s ! 0) = [0, 1] \<and>
     uic_user (uics s ! 0) = 0 \<and>
     uic_user (uics s ! 1) = 1 \<and>
     mySocket (threads s ! 3) = 7 \<and>
     idle_thread (threads s ! 3) \<and>
     our_client 4 s = Inr 0 \<and>
     our_client 6 s = Inr 2 \<and>
     isUserInChannel 4 0 s = Some 0 \<and>
     isUserInChannel 6 0 s = None \<and>
     hasMode (chanModes (channels s ! 0)) CHR ''m'' = Inr False \<and>
     hasMode (userModes (clients s ! 0)) CHR ''a'' = Inr False \<and>
     hasMode (userModes (clients s ! 1)) CHR ''a'' = Inr False \<and>
     \<not> isl (parse ''MODE #c +o al'' 4 s) \<and>
     hasMode (userChanModes (uics s ! 0)) CHR ''O'' = Inr True"

lemma session_results: "session_result session_end"
  by code_simp

lemma session_facts:
  "clientList session_end = [0, 1, 2, 3]" "channelList session_end = [0]" "length (threads session_end) = 4"
  "length (uics session_end) = 2" "length (channels session_end) = 1"
  "ourSocket (clients session_end ! 0) = 4" "ourSocket (clients session_end ! 1) = 5"
  "ourSocket (clients session_end ! 2) = 6" "ourSocket (clients session_end ! 3) = 7"
  "nick (clients session_end ! 0) = ''al''" "nick (clients session_end ! 1) = ''bo''"
  "nick (clients session_end ! 2) = []" "nick (clients session_end ! 3) = []"
  "user (clients session_end ! 0) = ''a''"
  "chan_name (channels session_end ! 0) = ''#c''" "chan_uics (channels session_end ! 0) = [0, 1]"
  "uic_user (uics session_end ! 0) = 0" "uic_user (uics session_end ! 1) = 1"
  "mySocket (threads session_end ! 3) = 7" "idle_thread (threads session_end ! 3)"
  "our_client 4 session_end = Inr 0" "our_client 6 session_end = Inr 2"
  "isUserInChannel 4 0 session_end = Some 0" "isUserInChannel 6 0 session_end = None"
  "hasMode (chanModes (channels session_end ! 0)) CHR ''m'' = Inr False"
  "hasMode (userModes (clients session_end ! 0)) CHR ''a'' = Inr False"
  "hasMode (userModes (clients session_end ! 1)) CHR ''a'' = Inr False"
  "\<not> isl (parse ''MODE #c +o al'' 4 session_end)"
  "hasMode (userChanModes (uics session_end ! 0)) CHR ''O'' = Inr True"
  using session_results by (simp_all only: session_result_def not_False_eq_True)

theorem lines_framed_witness:
  "run_events irc_step [Recv 3 (''NICK'' @ '' di'' @ [CHR 0x0D]), Recv 3 ([CHR 0x0A] @ ''LUSERS'' @ crlf)] session_end
    = run_lines 7 [''NICK di'', ''LUSERS''] session_end"
  using lines_framed [of 3 session_end "[''NICK di'', ''LUSERS'']"
      "[''NICK'' @ '' di'' @ [CHR 0x0D], [CHR 0x0A] @ ''LUSERS'' @ crlf]"]
  by (simp add: session_facts plain_line_def crlf_def del: recv_loop.simps run_lines.simps run_events.simps irc_step.simps)

theorem channel_message_delivered_witness:
  "parse ''PRIVMSG #c :hi'' 4 session_end
    = Inr (session_end\<lparr>out := out session_end @ [(5, '':al!a@hostname PRIVMSG #c :hi'' @ crlf)]\<rparr>)"
proof -
  have "parse (''PRIVMSG #'' @ ''c'' @ '' :'' @ ''hi'') 4 session_end
      = Inr (session_end\<lparr>out := out session_end @ map (\<lambda>k. (k, '':al!a@hostname PRIVMSG #c :hi'' @ crlf))
          (filter (\<lambda>k. k \<noteq> 4) (map (uic_socket session_end) (chan_uics (channels session_end ! 0))))\<rparr>)
    \<and> distinct (filter (\<lambda>k. k \<noteq> 4) (map (uic_socket session_end) (chan_uics (channels session_end ! 0))))"
    by (rule channel_message_delivered [where a = 0])
      (use session_inv in \<open>simp_all add: session_facts crlf_def session_facts(18) [simplified] session_facts(27) [simplified]\<close>)
  then show ?thesis by (simp add: session_facts session_facts(7,18) [simplified])
qed

theorem lines_that_end_the_server_witness:
  "parse ''JOIN'' 6 session_end = Inl Null_deref
    \<and> parse ''NAMES #d'' 6 session_end = Inl Null_deref \<and> parse ''MODE #c +m'' 6 session_end = Inl Null_deref"
  using lines_that_end_the_server [of 6 session_end 2 "''#d''" 0 "''c''" "''+m''"] session_inv
  by (simp add: session_facts)

theorem quit_removes_namesake_witness:
  "parse ''QUIT'' 7 session_end = Inr (session_end\<lparr>clientList := [0, 1, 3]\<rparr>)
    \<and> parse ''NICK di'' 6 (session_end\<lparr>clientList := [0, 1, 3]\<rparr>) = Inl Null_deref"
  using quit_removes_namesake [of session_end "[0, 1]" 2 "[]" 3 "[]" "''di''"]
  by (simp add: session_facts session_facts(7,11) [simplified])

theorem channel_operators_fixed_witness:
  "\<exists>s'. parse ''MODE #c +o al'' 4 session_end = Inr s' \<and> hasMode (userChanModes (uics s' ! 0)) CHR ''O'' = Inr True"
proof -
  obtain s' where p: "parse ''MODE #c +o al'' 4 session_end = Inr s'"
    using session_facts(28) by (cases "parse ''MODE #c +o al'' 4 session_end") simp_all
  then show ?thesis using channel_operators_fixed [OF p, of 0] session_facts(4,29) by simp
qed

theorem irc_runs_consistent_witness:
  "nicks_unique session_end \<and> nusers (channels session_end ! 0) = 2"
  using irc_runs_consistent [OF _ session_runs [unfolded session_start_def]] by (simp add: session_facts)

theorem irc_state_well_typed_witness:
  "list_all client_ok (clients session_end) \<and> mode_array (chanModes (channels session_end ! 0))"
  using irc_state_well_typed [OF _ session_runs [unfolded session_start_def]] by (simp add: session_facts)

end
