(* ===== verification/Lookup.thy ===== *)
theory Lookup
  imports Prelude "HOL-Library.Signed_Division"
begin

text \<open>
  The hash tables of \<open>src/C/hw7\<close>: \<open>lookupa.c\<close> (values are accounts) and \<open>lookupi.c\<close> (values are
  integers) are one program with two value types, so the model is polymorphic in the value.

  A table is an array of 100 buckets, each a linked list. A node owns a copy of its key, and
  \<open>lookup_delete\<close> compares the address of that copy with the address of its argument. Addresses
  matter only for equality: \<open>malloc\<close> hands out \<open>brk\<close>, \<open>brk + 1\<close>, ..., and a \<open>char *\<close> argument is a
  pair of its address and its characters.

  The sum of the characters of a key is taken exactly; an \<open>int\<close> holds it for keys of less than
  \<open>2^24\<close> characters.
\<close>

section \<open>Operations\<close>

record 'v node =
  key_at :: nat
  node_key :: string
  node_value :: 'v

record 'v hash_table =
  buckets :: int
  table :: "'v node list list"
  brk :: nat

type_synonym c_string = "nat \<times> string"

definition lookup_mkTable :: "nat \<Rightarrow> 'v hash_table" where
  "lookup_mkTable heap = \<lparr>buckets = 100, table = replicate 100 [], brk = heap\<rparr>"

text \<open>A \<open>char\<close> is signed.\<close>

definition char_val :: "char \<Rightarrow> int" where
  "char_val c = (let n = int (of_char c :: nat) in if n < 128 then n else n - 256)"

fun hash_loop :: "int \<Rightarrow> string \<Rightarrow> int" where
  "hash_loop hash [] = hash"
| "hash_loop hash (c # key) = hash_loop (hash + char_val c) key"

definition lookup_hash :: "string \<Rightarrow> int" where
  "lookup_hash key = hash_loop 0 key smod 100"

text \<open>The bucket of a key; the remainder of a negative sum is negative and lies before the array.\<close>

definition bucket_of :: "string \<Rightarrow> nat res" where
  "bucket_of key = (let h = lookup_hash key in if 0 \<le> h then Inr (nat h) else Inl Overrun)"

fun contains_loop :: "'v node list \<Rightarrow> string \<Rightarrow> bool" where
  "contains_loop [] key = False"
| "contains_loop (cur # rest) key = (if node_key cur = key then True else contains_loop rest key)"

definition lookup_contains :: "'v hash_table \<Rightarrow> string \<Rightarrow> bool res" where
  "lookup_contains t key = rbind (bucket_of key) (\<lambda>h. Inr (contains_loop (table t ! h) key))"

text \<open>The search of \<open>lookup_get\<close>; behind its end the function returns no value.\<close>

fun get_loop :: "'v node list \<Rightarrow> string \<Rightarrow> 'v res" where
  "get_loop [] key = Inl Uninit"
| "get_loop (cur # rest) key = (if key = node_key cur then Inr (node_value cur) else get_loop rest key)"

definition lookup_get :: "'v \<Rightarrow> 'v hash_table \<Rightarrow> string \<Rightarrow> 'v res" where
  "lookup_get invalid t key = rbind (lookup_contains t key) (\<lambda>found.
     if \<not> found then Inr invalid
     else rbind (bucket_of key) (\<lambda>h. get_loop (table t ! h) key))"

definition lookup_insert :: "'v hash_table \<Rightarrow> string \<Rightarrow> 'v \<Rightarrow> 'v hash_table res" where
  "lookup_insert t key v = rbind (bucket_of key) (\<lambda>h.
     let new = \<lparr>key_at = brk t, node_key = key, node_value = v\<rparr>
     in Inr (t\<lparr>table := (table t)[h := new # table t ! h], brk := Suc (brk t)\<rparr>))"

text \<open>The loop of \<open>lookup_delete\<close> behind the first node of the bucket.\<close>

fun delete_loop :: "'v node list \<Rightarrow> string \<Rightarrow> 'v node list" where
  "delete_loop [] key = []"
| "delete_loop (cur # rest) key = (if key = node_key cur then rest else cur # delete_loop rest key)"

definition lookup_delete :: "'v hash_table \<Rightarrow> c_string \<Rightarrow> 'v hash_table res" where
  "lookup_delete t k = (case k of (addr, key) \<Rightarrow>
     rbind (bucket_of key) (\<lambda>h. case table t ! h of
       [] \<Rightarrow> Inl Null_deref
     | first # rest \<Rightarrow>
         if key_at first = addr then Inr (t\<lparr>table := (table t)[h := rest]\<rparr>)
         else Inr (t\<lparr>table := (table t)[h := first # delete_loop rest key]\<rparr>)))"

definition lookup_set :: "'v hash_table \<Rightarrow> c_string \<Rightarrow> 'v \<Rightarrow> 'v hash_table res" where
  "lookup_set t k v = rbind (lookup_contains t (snd k)) (\<lambda>found.
     rbind (if found then lookup_delete t k else Inr t) (\<lambda>t. lookup_insert t (snd k) v))"

text \<open>\<open>lookup_size\<close> advances its index twice in each turn.\<close>

function size_loop :: "'v hash_table \<Rightarrow> nat \<Rightarrow> int \<Rightarrow> int" where
  "size_loop t i sz =
     (if i < 100 then size_loop t (i + 2) (sz + int (length (table t ! i))) else sz)"
  by pat_completeness auto
termination
  by (relation "measure (\<lambda>(t, i, sz). 100 - i)") auto

declare size_loop.simps [simp del]

definition lookup_size :: "'v hash_table \<Rightarrow> int" where
  "lookup_size t = size_loop t 0 0"

text \<open>The two instances differ in the value that stands for a missing key.\<close>

definition lookupi_get :: "int hash_table \<Rightarrow> string \<Rightarrow> int res" where
  "lookupi_get = lookup_get (-1001)"

section \<open>The map of a table\<close>

text \<open>
  A well-formed table has its 100 buckets, each node in the bucket of its key. \<open>map_of_table\<close> is the
  value of the first node with the key. \<open>own\<close> says that no key argument is one of the table's own
  copies.
\<close>

definition table_ok :: "'v hash_table \<Rightarrow> bool" where
  "table_ok t \<longleftrightarrow> length (table t) = 100 \<and>
     (\<forall>h < 100. \<forall>n \<in> set (table t ! h). bucket_of (node_key n) = Inr h)"

definition assoc :: "'v node list \<Rightarrow> string \<Rightarrow> 'v option" where
  "assoc b = map_of (map (\<lambda>n. (node_key n, node_value n)) b)"

definition map_of_table :: "'v hash_table \<Rightarrow> string \<Rightarrow> 'v option" where
  "map_of_table t key = (case bucket_of key of Inl e \<Rightarrow> None | Inr h \<Rightarrow> assoc (table t ! h) key)"

definition foreign :: "'v hash_table \<Rightarrow> nat \<Rightarrow> bool" where
  "foreign t addr \<longleftrightarrow> (\<forall>b \<in> set (table t). \<forall>n \<in> set b. key_at n \<noteq> addr) \<and> addr < brk t"

definition ascii :: "string \<Rightarrow> bool" where
  "ascii key \<longleftrightarrow> (\<forall>c \<in> set key. of_char c < (128 :: nat))"

lemma hash_loop_nonneg: "ascii key \<Longrightarrow> 0 \<le> h \<Longrightarrow> 0 \<le> hash_loop h key"
  by (induction h key rule: hash_loop.induct) (auto simp: ascii_def char_val_def)

lemma smod_nonneg: "0 \<le> (a :: int) \<Longrightarrow> a smod 100 = a mod 100"
  by (simp add: smod_mod_positive)

lemma bucket_of_ascii: "ascii key \<Longrightarrow> bucket_of key = Inr (nat (hash_loop 0 key mod 100))"
  by (simp add: bucket_of_def lookup_hash_def smod_nonneg hash_loop_nonneg)

lemma bucket_less: "bucket_of key = Inr h \<Longrightarrow> h < 100"
proof -
  assume b: "bucket_of key = Inr h"
  have "lookup_hash key < 100" using smod_int_range [of 100 "hash_loop 0 key"] by (simp add: lookup_hash_def)
  then show ?thesis using b by (auto simp: bucket_of_def Let_def split: if_splits)
qed

lemma contains_loop_assoc: "contains_loop b key \<longleftrightarrow> assoc b key \<noteq> None"
  by (induction b) (auto simp: assoc_def)

lemma get_loop_assoc: "get_loop b key = (case assoc b key of None \<Rightarrow> Inl Uninit | Some v \<Rightarrow> Inr v)"
  by (induction b) (auto simp: assoc_def)

lemma assoc_Cons: "assoc (n # b) = (assoc b)(node_key n \<mapsto> node_value n)"
  by (simp add: assoc_def)

lemma assoc_delete_loop: "key \<noteq> k \<Longrightarrow> assoc (delete_loop b key) k = assoc b k"
  by (induction b) (auto simp: assoc_def)

lemma set_delete_loop: "set (delete_loop b key) \<subseteq> set b"
  by (induction b) auto

section \<open>What the operations do\<close>

lemma mkTable_ok: "table_ok (lookup_mkTable heap)"
  by (simp add: table_ok_def lookup_mkTable_def)

lemma mkTable_empty: "map_of_table (lookup_mkTable heap) key = None"
  by (auto simp: map_of_table_def lookup_mkTable_def assoc_def dest: bucket_less split: sum.split)

lemma mkTable_foreign: "addr < heap \<Longrightarrow> foreign (lookup_mkTable heap) addr"
  by (simp add: foreign_def lookup_mkTable_def)

lemma lookup_contains_map:
  "ascii key \<Longrightarrow> lookup_contains t key = Inr (map_of_table t key \<noteq> None)"
  by (simp add: lookup_contains_def map_of_table_def bucket_of_ascii contains_loop_assoc)

lemma lookup_get_map:
  "ascii key \<Longrightarrow> lookup_get d t key = Inr (case map_of_table t key of None \<Rightarrow> d | Some v \<Rightarrow> v)"
  by (simp add: lookup_get_def lookup_contains_map)
    (auto simp: map_of_table_def bucket_of_ascii get_loop_assoc split: option.split)

lemma map_of_table_upd:
  assumes "length (table t) = 100" "bucket_of key = Inr h"
    and "\<And>k. k \<noteq> key \<Longrightarrow> assoc b k = assoc (table t ! h) k"
  shows "map_of_table (t\<lparr>table := (table t)[h := b], brk := n\<rparr>) = (map_of_table t)(key := assoc b key)"
proof
  fix k
  show "map_of_table (t\<lparr>table := (table t)[h := b], brk := n\<rparr>) k = ((map_of_table t)(key := assoc b key)) k"
    using assms bucket_less [OF assms(2)]
    by (cases "bucket_of k") (auto simp: map_of_table_def nth_list_update)
qed

lemma table_ok_upd:
  assumes "table_ok t" "h < 100" "\<forall>n \<in> set b. bucket_of (node_key n) = Inr h"
  shows "table_ok (t\<lparr>table := (table t)[h := b], brk := m\<rparr>)"
  using assms by (auto simp: table_ok_def nth_list_update)

lemma foreign_upd:
  assumes "foreign t a" "\<forall>n \<in> set b. key_at n \<noteq> a" "brk t \<le> m"
  shows "foreign (t\<lparr>table := (table t)[h := b], brk := m\<rparr>) a"
  using assms by (auto simp: foreign_def dest!: set_update_subset_insert [THEN subsetD])

text \<open>An insertion makes the new value the one that is found, whatever the bucket holds.\<close>

lemma lookup_insert_ok:
  assumes "table_ok t" "foreign t a" "ascii key"
  shows "ends_in (\<lambda>t'. table_ok t' \<and> foreign t' a \<and> map_of_table t' = (map_of_table t)(key \<mapsto> v))
    (lookup_insert t key v)"
proof -
  obtain h where h: "bucket_of key = Inr h" using assms(3) bucket_of_ascii by blast
  let ?b = "\<lparr>key_at = brk t, node_key = key, node_value = v\<rparr> # table t ! h"
  have l: "h < 100" "length (table t) = 100" using bucket_less [OF h] assms(1) by (simp_all add: table_ok_def)
  then have "table t ! h \<in> set (table t)" by simp
  then have "\<forall>n \<in> set (table t ! h). key_at n \<noteq> a" using assms(2) by (auto simp: foreign_def)
  moreover have "map_of_table (t\<lparr>table := (table t)[h := ?b], brk := Suc (brk t)\<rparr>) = (map_of_table t)(key := assoc ?b key)"
    by (rule map_of_table_upd [OF l(2) h]) (simp add: assoc_def)
  moreover have "foreign (t\<lparr>table := (table t)[h := ?b], brk := Suc (brk t)\<rparr>) a"
    by (rule foreign_upd [OF assms(2)]) (use calculation(1) assms(2) in \<open>auto simp: foreign_def\<close>)
  moreover have "table_ok (t\<lparr>table := (table t)[h := ?b], brk := Suc (brk t)\<rparr>)"
    using assms(1) h l by (intro table_ok_upd) (auto simp: table_ok_def)
  ultimately show ?thesis using h by (simp add: lookup_insert_def assoc_def)
qed

text \<open>
  A deletion with an argument that is not the table's own copy leaves the first node of the bucket,
  and the other keys.
\<close>

lemma lookup_delete_ok:
  assumes "table_ok t" "foreign t a" "ascii key" "map_of_table t key \<noteq> None"
  shows "ends_in (\<lambda>t'. table_ok t' \<and> foreign t' a \<and> (\<forall>k. k \<noteq> key \<longrightarrow> map_of_table t' k = map_of_table t k))
    (lookup_delete t (a, key))"
proof -
  obtain h where h: "bucket_of key = Inr h" using assms(3) bucket_of_ascii by blast
  have l: "h < 100" "length (table t) = 100" using bucket_less [OF h] assms(1) by (simp_all add: table_ok_def)
  have "table t ! h \<noteq> []" using assms(4) h by (auto simp: map_of_table_def assoc_def)
  then obtain n ns where b: "table t ! h = n # ns" by (cases "table t ! h") auto
  have "table t ! h \<in> set (table t)" using l by simp
  then have f: "\<forall>m \<in> set (n # ns). key_at m \<noteq> a" using assms(2) b by (auto simp: foreign_def)
  let ?b = "n # delete_loop ns key"
  have r: "lookup_delete t (a, key) = Inr (t\<lparr>table := (table t)[h := ?b], brk := brk t\<rparr>)"
    using f h b by (simp add: lookup_delete_def)
  have "table_ok (t\<lparr>table := (table t)[h := ?b], brk := brk t\<rparr>)"
    using assms(1) l b set_delete_loop [of ns key] by (intro table_ok_upd) (auto simp: table_ok_def)
  moreover have "foreign (t\<lparr>table := (table t)[h := ?b], brk := brk t\<rparr>) a"
    using assms(2) f set_delete_loop [of ns key] by (intro foreign_upd) auto
  moreover have "map_of_table (t\<lparr>table := (table t)[h := ?b], brk := brk t\<rparr>) = (map_of_table t)(key := assoc ?b key)"
    by (rule map_of_table_upd [OF l(2) h]) (use b in \<open>simp add: assoc_Cons assoc_delete_loop\<close>)
  ultimately show ?thesis by (simp add: r)
qed

lemma lookup_set_ok:
  assumes "table_ok t" "foreign t a" "ascii key"
  shows "ends_in (\<lambda>t'. table_ok t' \<and> foreign t' a \<and> map_of_table t' = (map_of_table t)(key \<mapsto> v))
    (lookup_set t (a, key) v)"
proof -
  have "ends_in (\<lambda>t'. table_ok t' \<and> foreign t' a \<and> (\<forall>k. k \<noteq> key \<longrightarrow> map_of_table t' k = map_of_table t k))
      (if map_of_table t key \<noteq> None then lookup_delete t (a, key) else Inr t)"
    using lookup_delete_ok [OF assms] assms by simp
  then have "ends_in (\<lambda>t'. table_ok t' \<and> foreign t' a \<and> map_of_table t' = (map_of_table t)(key \<mapsto> v))
      (rbind (if map_of_table t key \<noteq> None then lookup_delete t (a, key) else Inr t) (\<lambda>t. lookup_insert t key v))"
  proof (rule ends_in_rbind)
    fix t1 assume t1: "table_ok t1 \<and> foreign t1 a \<and> (\<forall>k. k \<noteq> key \<longrightarrow> map_of_table t1 k = map_of_table t k)"
    then have "(map_of_table t1)(key \<mapsto> v) = (map_of_table t)(key \<mapsto> v)" by auto
    then show "ends_in (\<lambda>t'. table_ok t' \<and> foreign t' a \<and> map_of_table t' = (map_of_table t)(key \<mapsto> v))
        (lookup_insert t1 key v)"
      using lookup_insert_ok [of t1 a key v] t1 assms(3) by simp
  qed
  then show ?thesis using assms(3) by (simp add: lookup_set_def lookup_contains_map)
qed

text \<open>\<open>lookup_delete\<close> does not remove a key that is first in its bucket.\<close>

lemma delete_keeps_first:
  assumes "table_ok t" "foreign t a" "bucket_of key = Inr h" "table t ! h = n # ns" "node_key n = key"
  shows "rbind (lookup_delete t (a, key)) (\<lambda>t. lookup_get d t key) = Inr (node_value n)"
proof -
  have l: "h < length (table t)" using bucket_less [OF assms(3)] assms(1) by (simp add: table_ok_def)
  then have "table t ! h \<in> set (table t)" by simp
  then have "key_at n \<noteq> a" using assms(2,4) by (auto simp: foreign_def)
  then show ?thesis using assms(3-5) l by (simp add: lookup_delete_def lookup_get_def lookup_contains_def)
qed

section \<open>Tables as maps\<close>

text \<open>
  What a client of a table relies on: reading gives the value of the map or a default, writing
  updates the map.
\<close>

locale lookup_table =
  fixes get :: "'t \<Rightarrow> string \<Rightarrow> 'v res"
    and put :: "'t \<Rightarrow> c_string \<Rightarrow> 'v \<Rightarrow> 't res"
    and ok :: "nat \<Rightarrow> 't \<Rightarrow> bool"
    and contents :: "'t \<Rightarrow> string \<Rightarrow> 'v option"
    and missing :: 'v
  assumes get: "ascii key \<Longrightarrow> get t key = Inr (case contents t key of None \<Rightarrow> missing | Some v \<Rightarrow> v)"
    and put: "ok a t \<Longrightarrow> ascii key \<Longrightarrow>
      ends_in (\<lambda>t'. ok a t' \<and> contents t' = (contents t)(key \<mapsto> v)) (put t (a, key) v)"
begin

lemma get_put:
  assumes "ok a t" "ascii key" "ascii k"
  shows "rbind (put t (a, key) v) (\<lambda>t'. get t' k) = (if k = key then Inr v else get t k)"
proof -
  obtain t' where "put t (a, key) v = Inr t'" "contents t' = (contents t)(key \<mapsto> v)"
    using put [OF assms(1,2), of v] by (auto simp: ends_in_def)
  then show ?thesis using assms(2,3) by (simp add: get)
qed

text \<open>Reading a value, changing it and writing it back.\<close>

lemma modify:
  assumes "ok a t" "ascii key"
  shows "ends_in (\<lambda>t'. ok a t' \<and> contents t'
      = (contents t)(key \<mapsto> f (case contents t key of None \<Rightarrow> missing | Some v \<Rightarrow> v)))
    (rbind (get t key) (\<lambda>v. put t (a, key) (f v)))"
  using put [OF assms, of "f (case contents t key of None \<Rightarrow> missing | Some v \<Rightarrow> v)"] by (simp add: get assms)

end

lemma lookup_table_laws:
  "lookup_table (lookup_get d) lookup_set (\<lambda>a t. table_ok t \<and> foreign t a) map_of_table d"
  using lookup_set_ok by unfold_locales (auto simp: lookup_get_map)

interpretation ints: lookup_table lookupi_get lookup_set "\<lambda>a t. table_ok t \<and> foreign t a" map_of_table "-1001"
  unfolding lookupi_get_def by (rule lookup_table_laws)

section \<open>The size\<close>

text \<open>\<open>lookup_size\<close> counts the nodes of the buckets with an even index only.\<close>

lemma size_loop_eq:
  "size_loop t (2 * i) sz = sz + (\<Sum>j \<in> {i..<50}. int (length (table t ! (2 * j))))"
proof (induction "50 - i" arbitrary: i sz)
  case 0
  then show ?case by (simp add: size_loop.simps [of t "2 * i"])
next
  case (Suc d)
  have i: "i < 50" using Suc.hyps(2) by simp
  have "size_loop t (2 * i) sz = size_loop t (2 * Suc i) (sz + int (length (table t ! (2 * i))))"
    using i by (subst size_loop.simps) simp
  also have "\<dots> = sz + int (length (table t ! (2 * i))) + (\<Sum>j \<in> {Suc i..<50}. int (length (table t ! (2 * j))))"
    by (rule Suc.hyps(1)) (use Suc.hyps(2) in simp)
  finally show ?case using Suc.hyps(2) by (simp add: sum.atLeast_Suc_lessThan)
qed

lemma lookup_size_eq: "lookup_size t = (\<Sum>j < 50. int (length (table t ! (2 * j))))"
  using size_loop_eq [of t 0 0] by (simp add: lookup_size_def atLeast0LessThan)

end
