(* ===== verification/Bank.thy ===== *)
theory Bank
  imports Lookup
begin

text \<open>
  The bank of \<open>src/C/hw7/tsl.c\<close>, a client of the tables of \<open>lookupa.c\<close>: commands are read line by
  line from the standard input or from a file.

  The arithmetic of \<open>float\<close> and \<open>double\<close> and \<open>atof\<close> are a parameter, a record of the operations the
  program uses. The names the table is asked for lie in the buffer on the stack, at address 0; the
  heap begins at 1.
\<close>

section \<open>Accounts\<close>

record 'f account =
  credit :: int
  money :: 'f

record ('f, 'd) float_ops =
  fl_zero :: 'f
  fl_add :: "'f \<Rightarrow> 'd \<Rightarrow> 'f"
  fl_sub :: "'f \<Rightarrow> 'd \<Rightarrow> 'f"
  fl_less :: "'f \<Rightarrow> int \<Rightarrow> bool"
  fl_atof :: "string \<Rightarrow> 'd"

definition no_account :: "('f, 'd) float_ops \<Rightarrow> 'f account" where
  "no_account ops = \<lparr>credit = -1, money = fl_zero ops\<rparr>"

definition lookupa_get :: "('f, 'd) float_ops \<Rightarrow> 'f account hash_table \<Rightarrow> string \<Rightarrow> 'f account res" where
  "lookupa_get ops = lookup_get (no_account ops)"

interpretation accounts_table: lookup_table "lookupa_get ops" lookup_set
  "\<lambda>a t. table_ok t \<and> foreign t a" map_of_table "no_account ops" for ops
  unfolding lookupa_get_def by (rule lookup_table_laws)

section \<open>Commands\<close>

datatype 'f printout = Balance string 'f | Failed string

record 'f bank =
  accounts :: "'f account hash_table"
  printed :: "'f printout list"

definition bank_start :: "'f bank" where
  "bank_start = \<lparr>accounts = lookup_mkTable 1, printed = []\<rparr>"

abbreviation set_account :: "'f bank \<Rightarrow> string \<Rightarrow> 'f account \<Rightarrow> 'f bank res" where
  "set_account s name acc \<equiv>
     rbind (lookup_set (accounts s) (0, name) acc) (\<lambda>t. Inr (s\<lparr>accounts := t\<rparr>))"

text \<open>\<open>strncmp(s, "x", 1) == 0\<close>\<close>

definition starts :: "string \<Rightarrow> char \<Rightarrow> bool" where
  "starts s c \<longleftrightarrow> s \<noteq> [] \<and> hd s = c"

definition join_account :: "('f, 'd) float_ops \<Rightarrow> string \<Rightarrow> 'f account" where
  "join_account ops info = (no_account ops)\<lparr>credit :=
     if starts info CHR ''u'' then 0 else if starts info CHR ''t'' then 1 else -1\<rparr>"

definition joinsfun :: "('f, 'd) float_ops \<Rightarrow> string \<Rightarrow> string option \<Rightarrow> 'f bank \<Rightarrow> 'f bank res" where
  "joinsfun ops name info s = rbind (deref info) (\<lambda>info. set_account s name (join_account ops info))"

definition depositsfun :: "('f, 'd) float_ops \<Rightarrow> string \<Rightarrow> string option \<Rightarrow> 'f bank \<Rightarrow> 'f bank res" where
  "depositsfun ops name info s = rbind (lookupa_get ops (accounts s) name) (\<lambda>theacc.
     rbind (deref info) (\<lambda>info.
       set_account s name (theacc\<lparr>money := fl_add ops (money theacc) (fl_atof ops info)\<rparr>)))"

text \<open>
  A withdrawal that goes below the limit is undone by adding the amount again. The account after
  a withdrawal, and whether it failed:
\<close>

definition withdraw :: "('f, 'd) float_ops \<Rightarrow> 'd \<Rightarrow> 'f account \<Rightarrow> 'f account \<times> bool" where
  "withdraw ops x theacc =
     (let theacc = theacc\<lparr>money := fl_sub ops (money theacc) x\<rparr>;
          undone = theacc\<lparr>money := fl_add ops (money theacc) x\<rparr>
      in if credit theacc = 1 then
           (if fl_less ops (money theacc) (-1000) then (undone, True) else (theacc, False))
         else if credit theacc = 0 then
           (if fl_less ops (money theacc) 0 then (undone, True) else (theacc, False))
         else (theacc, False))"

definition withdrawsfun :: "('f, 'd) float_ops \<Rightarrow> string \<Rightarrow> string option \<Rightarrow> 'f bank \<Rightarrow> 'f bank res" where
  "withdrawsfun ops name info s = rbind (lookupa_get ops (accounts s) name) (\<lambda>theacc.
     rbind (deref info) (\<lambda>info.
       let (theacc, failed) = withdraw ops (fl_atof ops info) theacc;
           s = (if failed then s\<lparr>printed := printed s @ [Failed name]\<rparr> else s)
       in set_account s name theacc))"

definition printsfun :: "('f, 'd) float_ops \<Rightarrow> string \<Rightarrow> 'f bank \<Rightarrow> 'f bank res" where
  "printsfun ops name s = rbind (lookupa_get ops (accounts s) name) (\<lambda>acc.
     Inr (s\<lparr>printed := printed s @ [Balance name (money acc)]\<rparr>))"

section \<open>Reading commands\<close>

text \<open>The words \<open>strtok(..., " ")\<close> returns one after the other; \<open>w\<close> is the current word, reversed.\<close>

fun strtok_words :: "string \<Rightarrow> string \<Rightarrow> string list" where
  "strtok_words w [] = (if w = [] then [] else [rev w])"
| "strtok_words w (c # cs) =
     (if c = CHR '' '' then (if w = [] then strtok_words [] cs else rev w # strtok_words [] cs)
      else strtok_words (c # w) cs)"

definition word_at :: "string list \<Rightarrow> nat \<Rightarrow> string option" where
  "word_at ws i = (if i < length ws then Some (ws ! i) else None)"

text \<open>The body of the loop of \<open>main\<close>. Without a second word \<open>strncmp\<close> gets a null pointer.\<close>

definition bank_command :: "('f, 'd) float_ops \<Rightarrow> string \<Rightarrow> 'f bank \<Rightarrow> 'f bank res" where
  "bank_command ops buffer s =
     (let ws = strtok_words [] (c_str buffer); name = hd ws in
      rbind (deref (word_at ws 1)) (\<lambda>action.
        if starts action CHR ''p'' then printsfun ops name s
        else let info = word_at ws 2 in
          if starts action CHR ''j'' then joinsfun ops name info s
          else if starts action CHR ''d'' then depositsfun ops name info s
          else if starts action CHR ''w'' then withdrawsfun ops name info s
          else Inr s))"

function tsl_stdin :: "('f, 'd) float_ops \<Rightarrow> string \<Rightarrow> 'f bank \<Rightarrow> 'f bank res" where
  "tsl_stdin ops input s =
     (if input = [] then Inr s
      else let (buffer, rest) = fgets 100 input in
        rbind (bank_command ops buffer s) (tsl_stdin ops rest))"
  by pat_completeness auto
termination
  by (relation "measure (\<lambda>(ops, input, s). length input)")
    (auto, metis fgets_shorter snd_conv zero_less_numeral)

declare tsl_stdin.simps [simp del]

text \<open>
  The loop over a file tests \<open>feof\<close>, which is set when \<open>fgets\<close> meets the end of the file before it
  has read a newline or 100 characters. When there is nothing left to read, \<open>fgets\<close> leaves the
  buffer as it is: as \<open>strtok\<close> left it, cut off behind the first word. Before the first line it
  is uninitialised (\<open>None\<close>).
\<close>

definition after_strtok :: "string \<Rightarrow> string" where
  "after_strtok b = takeWhile (\<lambda>c. c = CHR '' '') (c_str b)
     @ takeWhile (\<lambda>c. c \<noteq> CHR '' '') (dropWhile (\<lambda>c. c = CHR '' '') (c_str b))"

function tsl_file :: "('f, 'd) float_ops \<Rightarrow> string \<Rightarrow> string option \<Rightarrow> 'f bank \<Rightarrow> 'f bank res" where
  "tsl_file ops input old s =
     (let (line, rest) = fgets 100 input;
          buffer = (if line = [] then old else Some line);
          feof = (length line < 100 \<and> (line = [] \<or> last line \<noteq> CHR 0x0A))
      in case buffer of
           None \<Rightarrow> Inl Uninit
         | Some b \<Rightarrow> rbind (bank_command ops b s) (\<lambda>s.
             if feof then Inr s else tsl_file ops rest (Some (after_strtok b)) s))"
  by pat_completeness auto
termination
proof (relation "measure (\<lambda>(ops, input, old, s). length input)")
  fix ops :: "('f, 'd) float_ops" and input :: string and old :: "string option" and s s' :: "'f bank"
    and x line rest buffer feof b
  assume x: "x = fgets 100 input" "(line, rest) = x"
    "feof = (length line < 100 \<and> (line = [] \<or> last line \<noteq> CHR 0x0A))" "\<not> feof"
  then have "input \<noteq> []" using fgets_append [of 100 input line rest] by auto
  then have "length rest < length input" using fgets_shorter [of 100 input] x(1,2) by (metis snd_conv zero_less_numeral)
  then show "((ops, rest, Some (after_strtok b), s'), (ops, input, old, s))
    \<in> measure (\<lambda>(ops, input, old, s). length input)" by simp
qed simp

declare tsl_file.simps [simp del]

section \<open>The bank as a map\<close>

text \<open>
  What the commands mean: an account is a value of a map, a name without account has the invalid
  one, and every command but the printing of a balance replaces the account of its name.
\<close>

datatype 'd command = Print string | Join string string | Deposit string 'd | Withdraw string 'd | Ignore

definition parse_command :: "('f, 'd) float_ops \<Rightarrow> string \<Rightarrow> 'd command res" where
  "parse_command ops line =
     (case strtok_words [] (c_str line) of
        name # action # args \<Rightarrow>
          if hd action = CHR ''p'' then Inr (Print name)
          else if hd action \<notin> {CHR ''j'', CHR ''d'', CHR ''w''} then Inr Ignore
          else (case args of
            [] \<Rightarrow> Inl Null_deref
          | info # _ \<Rightarrow> Inr (if hd action = CHR ''j'' then Join name info
              else if hd action = CHR ''d'' then Deposit name (fl_atof ops info)
              else Withdraw name (fl_atof ops info)))
      | _ \<Rightarrow> Inl Null_deref)"

type_synonym 'f bank_view = "(string \<Rightarrow> 'f account option) \<times> 'f printout list"

definition account_of :: "('f, 'd) float_ops \<Rightarrow> 'f bank_view \<Rightarrow> string \<Rightarrow> 'f account" where
  "account_of ops v name = (case fst v name of None \<Rightarrow> no_account ops | Some acc \<Rightarrow> acc)"

fun run_command :: "('f, 'd) float_ops \<Rightarrow> 'd command \<Rightarrow> 'f bank_view \<Rightarrow> 'f bank_view" where
  "run_command ops (Print name) v = (fst v, snd v @ [Balance name (money (account_of ops v name))])"
| "run_command ops (Join name info) v = ((fst v)(name \<mapsto> join_account ops info), snd v)"
| "run_command ops (Deposit name x) v =
     ((fst v)(name \<mapsto> (account_of ops v name)\<lparr>money := fl_add ops (money (account_of ops v name)) x\<rparr>), snd v)"
| "run_command ops (Withdraw name x) v =
     (let (acc, failed) = withdraw ops x (account_of ops v name)
      in ((fst v)(name \<mapsto> acc), if failed then snd v @ [Failed name] else snd v))"
| "run_command ops Ignore v = v"

text \<open>The lines \<open>fgets\<close> cuts an input into.\<close>

function lines_of :: "string \<Rightarrow> string list" where
  "lines_of input = (if input = [] then [] else let (l, rest) = fgets 100 input in l # lines_of rest)"
  by pat_completeness auto
termination
  by (relation "measure length") (auto, metis fgets_shorter snd_conv zero_less_numeral)

declare lines_of.simps [simp del]

fun run_commands :: "('f, 'd) float_ops \<Rightarrow> string list \<Rightarrow> 'f bank_view \<Rightarrow> 'f bank_view res" where
  "run_commands ops [] v = Inr v"
| "run_commands ops (l # ls) v = rbind (parse_command ops l) (\<lambda>c. run_commands ops ls (run_command ops c v))"

definition bank_view :: "'f bank \<Rightarrow> 'f bank_view" where
  "bank_view s = (map_of_table (accounts s), printed s)"

definition bank_ok :: "'f bank \<Rightarrow> bool" where
  "bank_ok s \<longleftrightarrow> table_ok (accounts s) \<and> foreign (accounts s) 0"

lemma bank_start_ok: "bank_ok bank_start" "bank_view bank_start = (Map.empty, [])"
  by (auto simp: bank_ok_def bank_start_def mkTable_ok mkTable_foreign bank_view_def mkTable_empty)

text \<open>\<open>does c s r\<close>: \<open>r\<close> is a bank in the state the command \<open>c\<close> gives.\<close>

definition does :: "('f, 'd) float_ops \<Rightarrow> 'd command \<Rightarrow> 'f bank \<Rightarrow> 'f bank res \<Rightarrow> bool" where
  "does ops c s = ends_in (\<lambda>s'. bank_ok s' \<and> bank_view s' = run_command ops c (bank_view s))"

lemma get_account: "ascii name \<Longrightarrow> lookupa_get ops (accounts s) name = Inr (account_of ops (bank_view s) name)"
  by (simp add: accounts_table.get account_of_def bank_view_def)

lemma set_account_ok:
  assumes "bank_ok s" "ascii name"
  shows "ends_in (\<lambda>s'. bank_ok s' \<and> bank_view s' = ((fst (bank_view s))(name \<mapsto> acc), printed s)) (set_account s name acc)"
  using accounts_table.put [where a = 0 and t = "accounts s" and key = name and v = acc] assms
  by (auto simp: ends_in_def bank_ok_def bank_view_def)

lemma prints_ok: "bank_ok s \<Longrightarrow> ascii name \<Longrightarrow> does ops (Print name) s (printsfun ops name s)"
  by (auto simp: does_def printsfun_def get_account bank_ok_def bank_view_def account_of_def)

lemma joins_ok: "bank_ok s \<Longrightarrow> ascii name \<Longrightarrow> does ops (Join name info) s (joinsfun ops name (Some info) s)"
  using set_account_ok [of s name "join_account ops info"]
  by (simp add: does_def joinsfun_def deref_def bank_view_def)

lemma deposits_ok:
  "bank_ok s \<Longrightarrow> ascii name \<Longrightarrow> does ops (Deposit name (fl_atof ops info)) s (depositsfun ops name (Some info) s)"
  using set_account_ok [of s name]
  by (simp add: does_def depositsfun_def get_account deref_def bank_view_def)

lemma withdraws_ok:
  assumes "bank_ok s" "ascii name"
  shows "does ops (Withdraw name (fl_atof ops info)) s (withdrawsfun ops name (Some info) s)"
proof -
  obtain acc failed where w: "withdraw ops (fl_atof ops info) (account_of ops (bank_view s) name) = (acc, failed)"
    by fastforce
  let ?s = "if failed then s\<lparr>printed := printed s @ [Failed name]\<rparr> else s"
  have "bank_ok ?s" using assms(1) by (simp add: bank_ok_def)
  from set_account_ok [OF this assms(2), of acc] show ?thesis
    by (simp add: does_def withdrawsfun_def get_account [OF assms(2)] deref_def w)
      (auto elim!: ends_in_mono simp: bank_view_def)
qed

end
