(* ===== verification/Bank_Props.thy ===== *)
theory Bank_Props
  imports Bank
begin

text \<open>
  The bank implements a map of accounts; a file whose last line is complete ends the program with
  a fault.
\<close>

section \<open>Lines and words\<close>

lemma strtok_words_in: "w' \<in> set (strtok_words w cs) \<Longrightarrow> w' \<noteq> [] \<and> set w' \<subseteq> set w \<union> set cs"
proof (induction w cs rule: strtok_words.induct)
  case (2 w c cs)
  show ?case
  proof (cases "c = CHR '' ''")
    case True
    then show ?thesis using 2 by (auto split: if_splits)
  next
    case False
    then have "w' \<noteq> [] \<and> set w' \<subseteq> set (c # w) \<union> set cs" using 2 by simp
    then show ?thesis by auto
  qed
qed (auto split: if_splits)

lemma ascii_simps: "ascii (xs @ ys) = (ascii xs \<and> ascii ys)"
  by (auto simp: ascii_def)

lemma ascii_word: "ascii line \<Longrightarrow> w \<in> set (strtok_words [] (c_str line)) \<Longrightarrow> ascii w"
  using strtok_words_in [of w "[]" "c_str line"]
  by (auto simp: ascii_def c_str_def dest!: set_takeWhileD subsetD)

lemma no_info:
  assumes "ascii name"
  shows "joinsfun ops name None s = Inl Null_deref" "depositsfun ops name None s = Inl Null_deref"
    "withdrawsfun ops name None s = Inl Null_deref"
  using assms by (simp_all add: joinsfun_def depositsfun_def withdrawsfun_def get_account deref_def)

lemma ignore_ok: "bank_ok s \<Longrightarrow> does ops Ignore s (Inr s)"
  by (simp add: does_def)

lemma bank_command_ok:
  assumes "bank_ok s" "ascii line"
  shows "case parse_command ops line of Inl e \<Rightarrow> bank_command ops line s = Inl e
    | Inr c \<Rightarrow> does ops c s (bank_command ops line s)"
proof -
  let ?ws = "strtok_words [] (c_str line)"
  have short: ?thesis if "length ?ws < 2"
    using that by (auto simp: parse_command_def bank_command_def word_at_def deref_def Suc_less_eq2
        split: list.split)
  have long: ?thesis if ws: "?ws = name # action # args" for name action args
  proof -
    have "action \<in> set ?ws" "name \<in> set ?ws" by (simp_all add: ws)
    then have a: "starts action c = (hd action = c)" "ascii name" for c
      using strtok_words_in [of action "[]" "c_str line"] ascii_word [OF assms(2)] by (auto simp: starts_def)
    have w: "word_at ?ws 1 = Some action" "word_at ?ws 2 = (case args of [] \<Rightarrow> None | i # _ \<Rightarrow> Some i)"
      by (auto simp: ws word_at_def split: list.split)
    show ?thesis
      unfolding bank_command_def parse_command_def w Let_def
      using assms(1) a(2) prints_ok [of s name ops]
      by (cases args) (auto simp: ws a(1) deref_def joins_ok deposits_ok withdraws_ok no_info ignore_ok)
  qed
  show ?thesis
  proof (cases ?ws)
    case (Cons name ws)
    then show ?thesis using short long by (cases ws) auto
  qed (use short in simp)
qed

section \<open>Refinement\<close>

lemma stdin_refines:
  "bank_ok s \<Longrightarrow> ascii input \<Longrightarrow>
   map_sum id bank_view (tsl_stdin ops input s) = run_commands ops (lines_of input) (bank_view s)"
proof (induction ops input s rule: tsl_stdin.induct)
  case (1 ops input s)
  show ?case
  proof (cases "input = []")
    case False
    obtain l rest where f: "fgets 100 input = (l, rest)" by fastforce
    have asc: "ascii l" "ascii rest" using fgets_append [OF f] "1.prems"(2) by (simp_all add: ascii_simps)
    have run: "tsl_stdin ops input s = rbind (bank_command ops l s) (tsl_stdin ops rest)"
      using False f by (subst tsl_stdin.simps) simp
    have lines: "lines_of input = l # lines_of rest" using False f by (subst lines_of.simps) simp
    show ?thesis
    proof (cases "parse_command ops l")
      case (Inl e)
      then show ?thesis using bank_command_ok [OF "1.prems"(1) asc(1), of ops] by (simp add: run lines)
    next
      case (Inr c)
      then obtain s' where s': "bank_command ops l s = Inr s'" "bank_ok s'" "bank_view s' = run_command ops c (bank_view s)"
        using bank_command_ok [OF "1.prems"(1) asc(1), of ops] by (auto simp: does_def ends_in_def)
      show ?thesis using "1.IH" [OF False refl f [symmetric] s'(1,2) asc(2)] Inr s' by (simp add: run lines)
    qed
  qed (simp add: tsl_stdin.simps lines_of.simps)
qed

text \<open>C18: for commands of ASCII characters the bank on its hash table behaves as a map from names to
  accounts: it prints the same balances and refusals in the same order, ends in the same accounts,
  and stops at the same command, whatever keys share a bucket and although a deletion leaves the
  first node of a bucket in place.\<close>

theorem bank_refines_map:
  assumes "ascii input"
  shows "map_sum id bank_view (tsl_stdin ops input bank_start) = run_commands ops (lines_of input) (Map.empty, [])"
  using stdin_refines [OF bank_start_ok(1) assms] bank_start_ok(2) by metis

section \<open>Files\<close>

lemma strtok_spaces: "strtok_words [] (takeWhile (\<lambda>c. c = CHR '' '') cs @ t) = strtok_words [] t"
  by (induction cs) auto

lemma strtok_no_space: "CHR '' '' \<notin> set t \<Longrightarrow> length (strtok_words w t) < 2"
  by (induction t arbitrary: w) auto

lemma after_strtok_one_word: "length (strtok_words [] (c_str (after_strtok b))) < 2"
proof -
  have nul: "NUL \<notin> set (after_strtok b)"
    by (auto simp: after_strtok_def c_str_def dest!: set_takeWhileD set_dropWhileD)
  have "CHR '' '' \<notin> set (takeWhile (\<lambda>c. c \<noteq> CHR '' '') cs)" for cs by (auto dest: set_takeWhileD)
  from strtok_no_space [OF this, of "[]"] have "length (strtok_words [] (after_strtok b)) < 2"
    by (simp add: after_strtok_def strtok_spaces)
  moreover have "c_str (after_strtok b) = after_strtok b"
    unfolding c_str_def using nul by (intro takeWhile_eq_all_conv [THEN iffD2]) auto
  ultimately show ?thesis by simp
qed

lemma one_word_faults: "length (strtok_words [] (c_str b)) < 2 \<Longrightarrow> bank_command ops b s = Inl Null_deref"
  by (simp add: bank_command_def word_at_def deref_def)

lemma file_end_faults:
  assumes "old = None \<or> old = Some (after_strtok b)"
  shows "isl (tsl_file ops [] old s)"
  using assms one_word_faults [OF after_strtok_one_word [of b], of ops s]
  by (subst tsl_file.simps) (auto simp: fgets.simps(2) [of 99, simplified])

lemma file_faults:
  "old = None \<or> (\<exists>b. old = Some (after_strtok b)) \<Longrightarrow> input = [] \<or> last input = CHR 0x0A \<Longrightarrow>
   isl (tsl_file ops input old s)"
proof (induction ops input old s rule: tsl_file.induct)
  case (1 ops input old s)
  show ?case
  proof (cases "input = []")
    case True
    then show ?thesis using "1.prems" file_end_faults by blast
  next
    case False
    obtain l rest where f: "fgets 100 input = (l, rest)" by fastforce
    have l: "l \<noteq> []" using False fgets_shorter [of 100 input] fgets_append [OF f] f by auto
    have more: "\<not> (length l < 100 \<and> (l = [] \<or> last l \<noteq> CHR 0x0A))"
      using fgets_end [OF f] fgets_append [OF f] "1.prems"(2) False by (cases "rest = []") auto
    have rest: "rest = [] \<or> last rest = CHR 0x0A"
      using fgets_append [OF f] "1.prems"(2) False by (cases "rest = []") auto
    have "isl (tsl_file ops rest (Some (after_strtok l)) s')" if "bank_command ops l s = Inr s'" for s'
      by (rule "1.IH" [OF refl f [symmetric] refl refl, of l]) (use l more rest that in auto)
    then show ?thesis using f l more
      by (subst tsl_file.simps) (auto simp: rbind_def split: sum.split)
  qed
qed

text \<open>C39: with a file the program ends in a fault whenever the file is empty or its last line is
  complete: the loop tests \<open>feof\<close> before it reads, so it handles the last buffer twice, and the
  second time \<open>strtok\<close> finds one word only.\<close>

theorem tsl_file_faults:
  assumes "input = [] \<or> last input = CHR 0x0A"
  shows "isl (tsl_file ops input None s)"
  using file_faults assms by blast

section \<open>An example\<close>

text \<open>Arithmetic on whole amounts.\<close>

fun digits :: "int \<Rightarrow> string \<Rightarrow> int" where
  "digits n [] = n"
| "digits n (c # cs) = (let d = char_val c - 48 in if 0 \<le> d \<and> d \<le> 9 then digits (10 * n + d) cs else n)"

definition int_ops :: "(int, int) float_ops" where
  "int_ops = \<lparr>fl_zero = 0, fl_add = (+), fl_sub = (-), fl_less = (<), fl_atof = digits 0\<rparr>"

definition example_input :: string where
  "example_input = ''al joins trusted'' @ [CHR 0x0A] @ ''bo joins u'' @ [CHR 0x0A] @ ''al withdraws 700'' @ [CHR 0x0A]
     @ ''bo withdraws 7'' @ [CHR 0x0A] @ ''al prints'' @ [CHR 0x0A]"

theorem bank_refines_map_witness:
  "map_sum id (\<lambda>s. snd (bank_view s)) (tsl_stdin int_ops example_input bank_start)
    = Inr [Failed ''bo'', Balance ''al'' (-700)]"
proof -
  have "ascii example_input" by code_simp
  from bank_refines_map [OF this, of int_ops]
  have "map_sum id snd (map_sum id bank_view (tsl_stdin int_ops example_input bank_start))
      = map_sum id snd (run_commands int_ops (lines_of example_input) (Map.empty, []))" by simp
  also have "\<dots> = Inr [Failed ''bo'', Balance ''al'' (-700)]" by code_simp
  finally have "map_sum id snd (map_sum id bank_view (tsl_stdin int_ops example_input bank_start))
      = Inr [Failed ''bo'', Balance ''al'' (-700)]" .
  then show ?thesis by (cases "tsl_stdin int_ops example_input bank_start") simp_all
qed

theorem tsl_file_faults_witness: "isl (tsl_file int_ops example_input None bank_start)"
  by (rule tsl_file_faults) code_simp

end
