(* ===== verification/Transpose.thy ===== *)
theory Transpose
  imports Prelude
begin

text \<open>
  The matrix transpositions of \<open>Systems/p3cache/trans.c\<close>. A matrix \<open>int A[N][M]\<close> is the list of its
  \<open>N\<close> rows; the arrays \<open>A\<close> and \<open>B\<close> are different objects. The loops are folds over the values of
  their variable.
\<close>

section \<open>The functions\<close>

definition mymin :: "nat \<Rightarrow> nat \<Rightarrow> nat" where
  "mymin x y = (if x < y then x else y)"

text \<open>\<open>tmp = A[i][j]; B[j][i] = tmp;\<close>\<close>

definition move :: "int list list \<Rightarrow> nat \<Rightarrow> nat \<Rightarrow> int list list \<Rightarrow> int list list" where
  "move A i j B = (let tmp = A ! i ! j in B[j := (B ! j)[i := tmp]])"

text \<open>The values of \<open>ii\<close> in \<open>for (ii = 0; ii < N; ii += Bsize)\<close>.\<close>

function steps :: "nat \<Rightarrow> nat \<Rightarrow> nat \<Rightarrow> nat list" where
  "steps Bsize ii N = (if ii < N \<and> 0 < Bsize then ii # steps Bsize (ii + Bsize) N else [])"
  by pat_completeness auto
termination
  by (relation "measure (\<lambda>(Bsize, ii, N). N - ii)") auto

declare steps.simps [simp del]

definition transpose_submit :: "nat \<Rightarrow> nat \<Rightarrow> int list list \<Rightarrow> int list list \<Rightarrow> int list list" where
  "transpose_submit M N A =
     (let Bsize = 14 in
      fold (\<lambda>ii. fold (\<lambda>jj. fold (\<lambda>i. fold (\<lambda>j. move A i j)
          [jj..<mymin M (jj + Bsize)]) [ii..<mymin N (ii + Bsize)]) (steps Bsize 0 M)) (steps Bsize 0 N))"

definition trans_rows :: "nat \<Rightarrow> nat \<Rightarrow> int list list \<Rightarrow> int list list \<Rightarrow> int list list" where
  "trans_rows M N A = fold (\<lambda>i. fold (\<lambda>j. move A i j) [0..<M]) [0..<N]"

definition is_transpose :: "nat \<Rightarrow> nat \<Rightarrow> int list list \<Rightarrow> int list list \<Rightarrow> bool" where
  "is_transpose M N A B = list_all (\<lambda>i. list_all (\<lambda>j. A ! i ! j = B ! j ! i) [0..<M]) [0..<N]"

definition matrix :: "nat \<Rightarrow> nat \<Rightarrow> int list list \<Rightarrow> bool" where
  "matrix rows cols A \<longleftrightarrow> length A = rows \<and> (\<forall>r \<in> set A. length r = cols)"

section \<open>Moves\<close>

abbreviation moves :: "int list list \<Rightarrow> (nat \<times> nat) list \<Rightarrow> int list list \<Rightarrow> int list list" where
  "moves A ps \<equiv> fold (\<lambda>(i, j). move A i j) ps"

abbreviation pairs :: "nat list \<Rightarrow> nat list \<Rightarrow> (nat \<times> nat) list" where
  "pairs is js \<equiv> concat (map (\<lambda>i. map (Pair i) js) is)"

lemma fold_move: "fold (\<lambda>j. move A i j) js B = moves A (map (Pair i) js) B"
  by (induction js arbitrary: B) simp_all

lemma fold_moves: "(\<And>x B. f x B = moves A (ps x) B) \<Longrightarrow> fold f xs B = moves A (concat (map ps xs)) B"
  by (induction xs arbitrary: B) simp_all

text \<open>Moves put elements at their places and leave the rest: their order does not matter.\<close>

lemma move_matrix: "matrix M N B \<Longrightarrow> matrix M N (move A i j B)"
  by (cases "j < length B") (auto simp: matrix_def move_def list_update_beyond dest!: set_update_subset_insert [THEN subsetD])

lemma move_nth:
  assumes "matrix M N B" "i' < N" "j' < M"
  shows "move A i j B ! j' ! i' = (if i = i' \<and> j = j' then A ! i ! j else B ! j' ! i')"
proof -
  have "length (B ! j') = N" "length B = M" using assms by (auto simp: matrix_def)
  then show ?thesis using assms(2,3) by (cases "j = j'") (auto simp: move_def nth_list_update)
qed

lemma moves_nth:
  "matrix M N B \<Longrightarrow> matrix M N (moves A ps B) \<and>
   (\<forall>j < M. \<forall>i < N. moves A ps B ! j ! i = (if (i, j) \<in> set ps then A ! i ! j else B ! j ! i))"
proof (induction ps arbitrary: B)
  case (Cons p ps)
  obtain i j where p: "p = (i, j)" by fastforce
  have m: "matrix M N (move A i j B)" by (rule move_matrix [OF Cons.prems])
  from Cons.IH [OF m] show ?case using move_nth [OF Cons.prems] by (auto simp: p)
qed simp

lemma matrix_eqI:
  assumes "matrix M N B" "matrix M N C" "\<And>i j. i < N \<Longrightarrow> j < M \<Longrightarrow> B ! j ! i = C ! j ! i"
  shows "B = C"
proof (rule nth_equalityI)
  show "length B = length C" using assms by (simp add: matrix_def)
  fix j assume "j < length B"
  then show "B ! j = C ! j" using assms by (intro nth_equalityI) (auto simp: matrix_def)
qed

lemma moves_all:
  assumes "matrix M N B" "matrix M N C" "\<And>i j. i < N \<Longrightarrow> j < M \<Longrightarrow> (i, j) \<in> set ps"
    and "\<And>i j. i < N \<Longrightarrow> j < M \<Longrightarrow> (i, j) \<in> set qs"
  shows "moves A ps B = moves A qs C"
  by (rule matrix_eqI [of M N]) (use moves_nth assms in auto)

section \<open>Blocks\<close>

lemma steps_cover: "0 < b \<Longrightarrow> lo \<le> k \<Longrightarrow> k < n \<Longrightarrow> \<exists>ii \<in> set (steps b lo n). ii \<le> k \<and> k < ii + b"
proof (induction b lo n rule: steps.induct)
  case (1 b lo n)
  have s: "set (steps b lo n) = insert lo (set (steps b (lo + b) n))"
    using "1.prems" by (subst steps.simps) simp
  show ?case
  proof (cases "k < lo + b")
    case False
    then show ?thesis using "1.IH" "1.prems" by (auto simp: s)
  qed (use "1.prems" s in auto)
qed

abbreviation block_pairs :: "nat \<Rightarrow> nat \<Rightarrow> nat \<Rightarrow> nat \<Rightarrow> (nat \<times> nat) list" where
  "block_pairs M N ii jj \<equiv> pairs [ii..<mymin N (ii + 14)] [jj..<mymin M (jj + 14)]"

abbreviation all_pairs :: "nat \<Rightarrow> nat \<Rightarrow> (nat \<times> nat) list" where
  "all_pairs M N \<equiv> concat (map (\<lambda>ii. concat (map (block_pairs M N ii) (steps 14 0 M))) (steps 14 0 N))"

lemma transpose_submit_moves: "transpose_submit M N A B = moves A (all_pairs M N) B"
  unfolding transpose_submit_def Let_def by (intro fold_moves fold_move)

lemma trans_rows_moves: "trans_rows M N A B = moves A (pairs [0..<N] [0..<M]) B"
  unfolding trans_rows_def by (intro fold_moves fold_move)

lemma all_pairs_cover:
  assumes "i < N" "j < M"
  shows "(i, j) \<in> set (all_pairs M N)"
proof -
  obtain ii jj where "ii \<in> set (steps 14 0 N)" "ii \<le> i" "i < ii + 14" "jj \<in> set (steps 14 0 M)" "jj \<le> j" "j < jj + 14"
    using steps_cover [of 14 0 i N] steps_cover [of 14 0 j M] assms by auto
  then show ?thesis using assms by (force simp: mymin_def)
qed

lemma set_row_pairs: "i < N \<Longrightarrow> j < M \<Longrightarrow> (i, j) \<in> set (pairs [0..<N] [0..<M])"
  by simp (rule bexI [of _ i], auto)

text \<open>C34: the transposition in blocks of 14 returns, for matrices of any size, what the plain loop over
  the rows returns, and it is the transpose, whatever the destination held.\<close>

theorem transpose_submit_correct:
  assumes "matrix N M A" "matrix M N B" "matrix M N C"
  shows "transpose_submit M N A B = trans_rows M N A C \<and> is_transpose M N A (transpose_submit M N A B)"
proof
  show "transpose_submit M N A B = trans_rows M N A C"
    unfolding transpose_submit_moves trans_rows_moves
    by (rule moves_all [OF assms(2,3)]) (use all_pairs_cover set_row_pairs in blast)+
  have "transpose_submit M N A B ! j ! i = A ! i ! j" if "i < N" "j < M" for i j
    using moves_nth [OF assms(2), of A "all_pairs M N"] that all_pairs_cover [OF that]
    by (simp add: transpose_submit_moves)
  then show "is_transpose M N A (transpose_submit M N A B)" by (simp add: is_transpose_def list_all_iff)
qed

theorem transpose_submit_correct_witness:
  "transpose_submit 2 3 [[1, 2], [3, 4], [5, 6]] [[0, 0, 0], [0, 0, 0]]
    = trans_rows 2 3 [[1, 2], [3, 4], [5, 6]] [[0, 0, 0], [7, 0, 0]]"
  using transpose_submit_correct [of 3 2 "[[1, 2], [3, 4], [5, 6]]" "[[0, 0, 0], [0, 0, 0]]" "[[0, 0, 0], [7, 0, 0]]"]
  by (simp add: matrix_def)

end
