(* ===== verification/Structures.thy ===== *)
theory Structures
  imports Prelude "HOL-Library.Tree" "HOL-Library.Multiset" "HOL-Library.Char_ord" "HOL-Library.List_Lexorder"
begin

unbundle bit_operations_syntax

text \<open>
  The linked lists of strings of \<open>src/C/hw5/sll.c\<close> and \<open>src/C/lab4/sll.c\<close> (the same functions, and
  three more in \<open>lab4\<close>), and the search tree of \<open>src/C/lab5\<close>.

  A list is the list of its strings: no function but \<open>SLL_removeAllBut\<close> changes a node. The order of
  \<open>strcmp\<close> is the lexicographic order of the characters as unsigned numbers. Every string is copied
  into memory that is requested one byte too small; \<open>room n\<close> is the size of the block \<open>malloc(n)\<close>
  returns, which is at least \<open>n\<close>.
\<close>

section \<open>Lists\<close>

definition SLL_is_empty :: "string list \<Rightarrow> bool" where
  "SLL_is_empty list \<longleftrightarrow> list = []"

definition SLL_cons :: "(nat \<Rightarrow> nat) \<Rightarrow> string \<Rightarrow> string list \<Rightarrow> string list res" where
  "SLL_cons room s list = (if length s < room (length s) then Inr (s # list) else Inl Overrun)"

fun SLL_length :: "string list \<Rightarrow> nat" where
  "SLL_length [] = 0"
| "SLL_length (s # list) = 1 + SLL_length list"

fun SLL_totalChars :: "string list \<Rightarrow> char \<Rightarrow> nat" where
  "SLL_totalChars [] ch = 0"
| "SLL_totalChars (s # list) ch = length (filter (\<lambda>c. c = ch) s) + SLL_totalChars list ch"

fun reverse_loop :: "(nat \<Rightarrow> nat) \<Rightarrow> string list \<Rightarrow> string list \<Rightarrow> string list res" where
  "reverse_loop room [] accum = Inr accum"
| "reverse_loop room (s # first) accum = rbind (SLL_cons room s accum) (reverse_loop room first)"

definition SLL_reverse :: "(nat \<Rightarrow> nat) \<Rightarrow> string list \<Rightarrow> string list res" where
  "SLL_reverse room list = reverse_loop room list []"

fun copies_loop :: "(nat \<Rightarrow> nat) \<Rightarrow> nat \<Rightarrow> string \<Rightarrow> string list \<Rightarrow> string list res" where
  "copies_loop room 0 s new = Inr new"
| "copies_loop room (Suc n) s new = rbind (SLL_cons room s new) (copies_loop room n s)"

fun replicate_loop :: "(nat \<Rightarrow> nat) \<Rightarrow> string list \<Rightarrow> int \<Rightarrow> string list \<Rightarrow> string list res" where
  "replicate_loop room [] cnt new = Inr new"
| "replicate_loop room (s # rest) cnt new =
     rbind (copies_loop room (nat (cnt + 1)) s new) (replicate_loop room rest cnt)"

definition SLL_replicate :: "(nat \<Rightarrow> nat) \<Rightarrow> string list \<Rightarrow> int \<Rightarrow> string list res" where
  "SLL_replicate room list cnt = rbind (SLL_cons room ''whatever'' list) (\<lambda>_.
     rbind (replicate_loop room list cnt []) (SLL_reverse room))"

lemma SLL_cons_Inr: "SLL_cons room s l = Inr r \<Longrightarrow> r = s # l"
  by (simp add: SLL_cons_def split: if_splits)

text \<open>A swap is followed by a step without one, so the recursion ends.\<close>

function SLL_order :: "(nat \<Rightarrow> nat) \<Rightarrow> string list \<Rightarrow> string list res" where
  "SLL_order room (a # b # next2) =
     (if a \<le> b then rbind (SLL_order room (b # next2)) (SLL_cons room a)
      else rbind (SLL_cons room a next2) (\<lambda>l. rbind (SLL_cons room b l) (SLL_order room)))"
| "SLL_order room [] = Inr []"
| "SLL_order room [a] = Inr [a]"
  by pat_completeness auto
termination
  by (relation "measure (\<lambda>(room, xs). 2 * length xs + (case xs of a # b # _ \<Rightarrow> if a \<le> b then 0 else 1 | _ \<Rightarrow> 0))")
    (auto dest!: SLL_cons_Inr split: list.split)

definition SLL_merge :: "(nat \<Rightarrow> nat) \<Rightarrow> string list \<Rightarrow> string list \<Rightarrow> string list res" where
  "SLL_merge room list1 list2 = reverse_loop room list1 list2"

definition SLL_mergeAndOrder :: "(nat \<Rightarrow> nat) \<Rightarrow> string list \<Rightarrow> string list \<Rightarrow> string list res" where
  "SLL_mergeAndOrder room list1 list2 = rbind (SLL_merge room list1 list2) (SLL_order room)"

text \<open>The comparison loop takes \<open>n\<close> turns.\<close>

fun same_loop :: "nat \<Rightarrow> string list \<Rightarrow> string list \<Rightarrow> bool" where
  "same_loop (Suc n) (s # curr1) (t # curr2) = (if s \<noteq> t then False else same_loop n curr1 curr2)"
| "same_loop _ _ _ = True"

definition SLL_same :: "string list \<Rightarrow> string list \<Rightarrow> bool" where
  "SLL_same list1 list2 =
     (if SLL_length list1 \<noteq> SLL_length list2 then False
      else same_loop (SLL_length list1 - 1) list1 list2)"

fun SLL_contains :: "string list \<Rightarrow> string \<Rightarrow> bool" where
  "SLL_contains [] str = False"
| "SLL_contains (s # rest) str = (if s = str then True else SLL_contains rest str)"

fun intersect_loop :: "(nat \<Rightarrow> nat) \<Rightarrow> string list \<Rightarrow> string list \<Rightarrow> string list \<Rightarrow> string list res" where
  "intersect_loop room [] list2 new = Inr new"
| "intersect_loop room (s # rest) list2 new =
     (if SLL_contains list2 s \<and> \<not> SLL_contains new s
      then rbind (SLL_cons room s new) (intersect_loop room rest list2)
      else intersect_loop room rest list2 new)"

definition SLL_intersect :: "(nat \<Rightarrow> nat) \<Rightarrow> string list \<Rightarrow> string list \<Rightarrow> string list res" where
  "SLL_intersect room list1 list2 =
     (if list1 = [] \<or> list2 = [] then Inr [] else intersect_loop room list1 list2 [])"

text \<open>
  \<open>SLL_removeAllBut\<close> frees the node it takes out and then reads its \<open>next\<close>; the string of the first
  node, if it is not the one wanted, is freed at the start and compared again at the end.
\<close>

fun remove_loop :: "string list \<Rightarrow> string \<Rightarrow> unit res" where
  "remove_loop [] str = Inr ()"
| "remove_loop (s # rest) str = (if s \<noteq> str then Inl Freed else remove_loop rest str)"

definition SLL_removeAllBut :: "string list \<Rightarrow> string \<Rightarrow> string list res" where
  "SLL_removeAllBut list str =
     (case list of [] \<Rightarrow> Inr []
      | s # rest \<Rightarrow> rbind (remove_loop rest str) (\<lambda>_. if s \<noteq> str then Inl Freed else Inr list))"

section \<open>What the lists hold\<close>

text \<open>\<open>roomy\<close>: a block has room for the byte the request forgets.\<close>

definition roomy :: "(nat \<Rightarrow> nat) \<Rightarrow> bool" where
  "roomy room \<longleftrightarrow> (\<forall>n. n < room n)"

lemma SLL_cons_roomy [simp]: "roomy room \<Longrightarrow> SLL_cons room s l = Inr (s # l)"
  by (simp add: SLL_cons_def roomy_def)

text \<open>With blocks of exactly the requested size nothing can be put into a list.\<close>

lemma SLL_cons_exact: "SLL_cons (\<lambda>n. n) s l = Inl Overrun"
  by (simp add: SLL_cons_def)

lemma SLL_length_eq: "SLL_length l = length l"
  by (induction l) simp_all

lemma SLL_totalChars_eq: "SLL_totalChars l ch = length (filter (\<lambda>c. c = ch) (concat l))"
  by (induction l) simp_all

lemma reverse_loop_eq: "roomy room \<Longrightarrow> reverse_loop room l acc = Inr (rev l @ acc)"
  by (induction l arbitrary: acc) simp_all

lemma SLL_reverse_eq: "roomy room \<Longrightarrow> SLL_reverse room l = Inr (rev l)"
  by (simp add: SLL_reverse_def reverse_loop_eq)

lemma copies_loop_eq: "roomy room \<Longrightarrow> copies_loop room n s new = Inr (replicate n s @ new)"
  by (induction n arbitrary: new) (simp_all add: replicate_app_Cons_same)

lemma replicate_loop_eq:
  "roomy room \<Longrightarrow> replicate_loop room l cnt new = Inr (concat (map (replicate (nat (cnt + 1))) (rev l)) @ new)"
  by (induction l arbitrary: new) (simp_all add: copies_loop_eq)

text \<open>Every string is there \<open>cnt + 1\<close> times.\<close>

lemma SLL_replicate_eq:
  assumes "roomy room"
  shows "SLL_replicate room l cnt = Inr (concat (map (replicate (nat (cnt + 1))) l))"
proof -
  have "rev (concat (map (replicate n) (rev xs))) = concat (map (replicate n) xs)" for n and xs :: "string list"
    by (induction xs) simp_all
  then show ?thesis by (simp add: SLL_replicate_def replicate_loop_eq SLL_reverse_eq assms)
qed

lemma SLL_contains_eq: "SLL_contains l s \<longleftrightarrow> s \<in> set l"
  by (induction l) auto

lemma intersect_loop_eq:
  "roomy room \<Longrightarrow> distinct new \<Longrightarrow>
   \<exists>r. intersect_loop room l list2 new = Inr r \<and> distinct r \<and> set r = set new \<union> (set l \<inter> set list2)"
proof (induction l arbitrary: new)
  case (Cons s l)
  show ?case
  proof (cases "s \<in> set list2 \<and> s \<notin> set new")
    case True
    then show ?thesis using Cons.IH [of "s # new"] Cons.prems by (simp add: SLL_contains_eq)
  next
    case False
    then have "intersect_loop room (s # l) list2 new = intersect_loop room l list2 new"
      by (auto simp: SLL_contains_eq)
    moreover have "set new \<union> (set (s # l) \<inter> set list2) = set new \<union> (set l \<inter> set list2)" using False by auto
    ultimately show ?thesis using Cons.IH [OF Cons.prems] by simp
  qed
qed simp

lemma SLL_intersect_eq:
  assumes "roomy room"
  shows "\<exists>r. SLL_intersect room l1 l2 = Inr r \<and> distinct r \<and> set r = set l1 \<inter> set l2"
  using intersect_loop_eq [OF assms, of "[]" l1 l2] by (auto simp: SLL_intersect_def)

lemma remove_loop_eq: "remove_loop l str = (if \<forall>s \<in> set l. s = str then Inr () else Inl Freed)"
  by (induction l) auto

text \<open>It returns only when there is nothing to remove.\<close>

lemma SLL_removeAllBut_eq:
  "SLL_removeAllBut l str = (if \<forall>s \<in> set l. s = str then Inr l else Inl Freed)"
  by (auto simp: SLL_removeAllBut_def remove_loop_eq split: list.split)

lemma same_loop_eq: "length xs = length ys \<Longrightarrow> same_loop (length xs - 1) xs ys \<longleftrightarrow> butlast xs = butlast ys"
proof (induction xs ys rule: list_induct2)
  case (Cons x xs y ys)
  then show ?case by (cases xs; cases ys) auto
qed simp

text \<open>The last strings are not compared.\<close>

lemma SLL_same_eq: "SLL_same l1 l2 \<longleftrightarrow> length l1 = length l2 \<and> butlast l1 = butlast l2"
  using same_loop_eq [of l1 l2] by (auto simp: SLL_same_def SLL_length_eq)

lemma SLL_order_ok:
  "roomy room \<Longrightarrow> \<exists>ys. SLL_order room xs = Inr ys \<and> mset ys = mset xs \<and> (xs \<noteq> [] \<longrightarrow> (\<forall>x \<in> set xs. x \<le> last ys))"
proof (induction room xs rule: SLL_order.induct)
  case (1 room a b next2)
  show ?case
  proof (cases "a \<le> b")
    case True
    obtain ys where ys: "SLL_order room (b # next2) = Inr ys" "mset ys = mset (b # next2)" "\<forall>x \<in> set (b # next2). x \<le> last ys"
      using "1.IH"(1) [OF True "1.prems"] by auto
    then have "ys \<noteq> []" by auto
    moreover have "a \<le> last ys" using True ys(3) by (meson list.set_intros(1) order_trans)
    ultimately show ?thesis using ys True "1.prems" by (intro exI [of _ "a # ys"]) simp
  next
    case False
    have c: "SLL_cons room a next2 = Inr (a # next2)" "SLL_cons room b (a # next2) = Inr (b # a # next2)"
      using "1.prems" by simp_all
    obtain ys where ys: "SLL_order room (b # a # next2) = Inr ys" "mset ys = mset (b # a # next2)"
      "\<forall>x \<in> set (b # a # next2). x \<le> last ys"
      using "1.IH"(2) [OF False c "1.prems"] by blast
    have "SLL_order room (a # b # next2) = SLL_order room (b # a # next2)"
      by (subst SLL_order.simps(1)) (simp only: False c if_False rbind_Inr)
    then have "SLL_order room (a # b # next2) = Inr ys" using ys(1) by (rule trans)
    moreover have "mset ys = mset (a # b # next2)" unfolding ys(2) by simp
    moreover have "\<forall>x \<in> set (a # b # next2). x \<le> last ys" using ys(3) by auto
    ultimately show ?thesis by blast
  qed
qed simp_all

text \<open>One pass brings the greatest string to the end, but need not sort.\<close>

lemma SLL_order_unsorted:
  "roomy room \<Longrightarrow> SLL_order room [''c'', ''b'', ''a''] = Inr [''b'', ''a'', ''c'']"
  by (simp add: less_eq_char_def less_le_not_le)

section \<open>The search tree\<close>

text \<open>
  A \<open>Node *\<close> is a tree of the library, a \<open>BST *\<close> null or a structure with a root. Values are
  \<open>unsigned short\<close>.
\<close>

type_synonym bst_ptr = "u16 tree option"

fun bst_nodeInsert :: "u16 tree \<Rightarrow> u16 \<Rightarrow> u16 tree" where
  "bst_nodeInsert Leaf newValue = Node Leaf newValue Leaf"
| "bst_nodeInsert (Node l v r) newValue =
     (let l' = (if newValue < v then bst_nodeInsert l newValue else l);
          r' = (if newValue > v then bst_nodeInsert r newValue else r)
      in Node l' v r')"

definition bst_insert :: "bst_ptr \<Rightarrow> u16 \<Rightarrow> bst_ptr" where
  "bst_insert t newValue =
     (case t of None \<Rightarrow> Some (Node Leaf newValue Leaf) | Some root \<Rightarrow> Some (bst_nodeInsert root newValue))"

text \<open>The values printed.\<close>

fun bst_NodeTraverseInOrder :: "u16 tree \<Rightarrow> u16 list" where
  "bst_NodeTraverseInOrder Leaf = []"
| "bst_NodeTraverseInOrder (Node l v r) =
     (if l = Leaf \<and> r = Leaf then [v] else bst_NodeTraverseInOrder l @ [v] @ bst_NodeTraverseInOrder r)"

definition bst_traverseInOrder :: "bst_ptr \<Rightarrow> u16 list" where
  "bst_traverseInOrder t = (case t of None \<Rightarrow> [] | Some root \<Rightarrow> bst_NodeTraverseInOrder root)"

fun find_loop :: "u16 tree \<Rightarrow> u16 \<Rightarrow> bool" where
  "find_loop Leaf findMe = False"
| "find_loop (Node l v r) findMe =
     (if v = findMe then True else if findMe < v then find_loop l findMe else find_loop r findMe)"

definition bst_isValueInTree :: "bst_ptr \<Rightarrow> u16 \<Rightarrow> bool" where
  "bst_isValueInTree t findMe = (case t of None \<Rightarrow> False | Some root \<Rightarrow> find_loop root findMe)"

text \<open>Sixteen characters as a binary number; character \<open>i\<close> is bit \<open>15 - i\<close>.\<close>

definition convertToShort :: "string \<Rightarrow> u16" where
  "convertToShort binString =
     fold (\<lambda>i result. if binString ! i = CHR ''1'' then result OR push_bit (15 - i) 1 else result) [0..<16] 0"

lemma NodeTraverse_eq: "bst_NodeTraverseInOrder t = inorder t"
  by (induction t) auto

lemma set_nodeInsert: "set_tree (bst_nodeInsert t v) = insert v (set_tree t)"
  by (induction t) (auto simp: Let_def)

lemma bst_nodeInsert: "bst t \<Longrightarrow> bst (bst_nodeInsert t v)"
  by (induction t) (auto simp: Let_def set_nodeInsert)

lemma find_loop_eq: "bst t \<Longrightarrow> find_loop t v \<longleftrightarrow> v \<in> set_tree t"
  by (induction t) auto

definition values_of :: "bst_ptr \<Rightarrow> u16 set" where
  "values_of t = (case t of None \<Rightarrow> {} | Some root \<Rightarrow> set_tree root)"

definition ordered :: "bst_ptr \<Rightarrow> bool" where
  "ordered t \<longleftrightarrow> (case t of None \<Rightarrow> True | Some root \<Rightarrow> bst root)"

lemma bst_insert_ok: "ordered t \<Longrightarrow> ordered (bst_insert t v) \<and> values_of (bst_insert t v) = insert v (values_of t)"
  by (cases t) (auto simp: ordered_def values_of_def bst_insert_def set_nodeInsert bst_nodeInsert)

lemma inserts_ok:
  "ordered t \<Longrightarrow> ordered (fold (\<lambda>v t. bst_insert t v) vs t)
    \<and> values_of (fold (\<lambda>v t. bst_insert t v) vs t) = set vs \<union> values_of t"
  by (induction vs arbitrary: t) (auto simp: bst_insert_ok)

lemma traverse_ordered: "ordered t \<Longrightarrow> bst_traverseInOrder t = sorted_list_of_set (values_of t)"
proof (cases t)
  case (Some root)
  assume "ordered t"
  then have "sorted_wrt (<) (inorder root)" using Some by (simp add: ordered_def bst_iff_sorted_wrt_less)
  then have "inorder root = sorted_list_of_set (set (inorder root))"
    by (metis sorted_list_of_set.idem_if_sorted_distinct strict_sorted_iff)
  then show ?thesis using Some by (simp add: bst_traverseInOrder_def NodeTraverse_eq values_of_def)
qed (simp add: bst_traverseInOrder_def values_of_def)

text \<open>A tree built by inserting values into the null pointer prints them in ascending order, each
  once, and finds exactly them.\<close>

lemma bst_sorts:
  "bst_traverseInOrder (fold (\<lambda>v t. bst_insert t v) vs None) = sorted_list_of_set (set vs)
   \<and> bst_isValueInTree (fold (\<lambda>v t. bst_insert t v) vs None) v = (v \<in> set vs)"
proof -
  let ?t = "fold (\<lambda>v t. bst_insert t v) vs None"
  have t: "ordered ?t" "values_of ?t = set vs" using inserts_ok [of None vs] by (simp_all add: ordered_def values_of_def)
  have "bst_isValueInTree ?t v \<longleftrightarrow> v \<in> values_of ?t"
    using t(1) by (auto simp: bst_isValueInTree_def values_of_def ordered_def find_loop_eq split: option.splits)
  then show ?thesis using traverse_ordered [OF t(1)] t(2) by simp
qed

text \<open>The digits of \<open>convertToShort\<close>.\<close>

lemma convert_fold:
  "k \<le> 16 \<Longrightarrow> bit (fold (\<lambda>i result. if b ! i = CHR ''1'' then result OR push_bit (15 - i) 1 else result) [0..<k] (0 :: u16)) n
    \<longleftrightarrow> (\<exists>i < k. n = 15 - i \<and> b ! i = CHR ''1'')"
proof (induction k)
  case (Suc k)
  then show ?case by (auto simp: bit_simps less_Suc_eq)
qed simp

lemma bit_convertToShort: "n < 16 \<Longrightarrow> bit (convertToShort b) n \<longleftrightarrow> b ! (15 - n) = CHR ''1''"
  unfolding convertToShort_def by (subst convert_fold) (auto intro!: exI [of _ "15 - n"])

end
