(* ===== verification/Sha1.thy ===== *)
theory Sha1
  imports Prelude
begin

text \<open>
  The SHA-1 of \<open>simple-router/router/sha1.c\<close>, with which the router proves its user's key to the
  server, and the function it is meant to compute, defined from the standard (FIPS 180): the padded
  message, its blocks, and the compression of a block.
\<close>

section \<open>The program\<close>

record sha1_context =
  Message_Digest :: "u32 \<times> u32 \<times> u32 \<times> u32 \<times> u32"
  Length_Low :: u32
  Length_High :: u32
  Message_Block :: "byte list"
  Message_Block_Index :: nat
  Computed :: bool
  Corrupted :: bool

definition SHA1CircularShift :: "nat \<Rightarrow> u32 \<Rightarrow> u32" where
  "SHA1CircularShift bits w = (push_bit bits w AND 0xFFFFFFFF) OR drop_bit (32 - bits) w"

text \<open>\<open>SHA1Reset\<close> leaves the block as it is.\<close>

definition SHA1Reset :: "sha1_context \<Rightarrow> sha1_context" where
  "SHA1Reset c = c\<lparr>Length_Low := 0, Length_High := 0, Message_Block_Index := 0,
     Message_Digest := (0x67452301, 0xEFCDAB89, 0x98BADCFE, 0x10325476, 0xC3D2E1F0),
     Computed := False, Corrupted := False\<rparr>"

text \<open>The array \<open>W\<close>: sixteen words of the block, and the loop that computes the others.\<close>

definition block_word :: "byte list \<Rightarrow> nat \<Rightarrow> u32" where
  "block_word b t =
     push_bit 24 (ucast (b ! (t * 4))) OR push_bit 16 (ucast (b ! (t * 4 + 1)))
     OR push_bit 8 (ucast (b ! (t * 4 + 2))) OR ucast (b ! (t * 4 + 3))"

definition expand :: "nat \<Rightarrow> u32 list \<Rightarrow> u32 list" where
  "expand t W = W @ [SHA1CircularShift 1 (W ! (t - 3) XOR W ! (t - 8) XOR W ! (t - 14) XOR W ! (t - 16))]"

definition word_array :: "byte list \<Rightarrow> u32 list" where
  "word_array b = fold expand [16..<80] (map (block_word b) [0..<16])"

text \<open>A turn of each of the four loops over the word buffers.\<close>

definition turn :: "u32 \<Rightarrow> (u32 \<times> u32 \<times> u32 \<times> u32 \<times> u32) \<Rightarrow> (u32 \<times> u32 \<times> u32 \<times> u32 \<times> u32)" where
  "turn temp s = (case s of (A, B, C, D, E) \<Rightarrow> (temp AND 0xFFFFFFFF, A, SHA1CircularShift 30 B, C, D))"

definition turn0 :: "u32 list \<Rightarrow> nat \<Rightarrow> (u32 \<times> u32 \<times> u32 \<times> u32 \<times> u32) \<Rightarrow> (u32 \<times> u32 \<times> u32 \<times> u32 \<times> u32)" where
  "turn0 W t s = (case s of (A, B, C, D, E) \<Rightarrow>
     turn (SHA1CircularShift 5 A + ((B AND C) OR (NOT B AND D)) + E + W ! t + 0x5A827999) s)"

definition turn1 :: "u32 list \<Rightarrow> nat \<Rightarrow> (u32 \<times> u32 \<times> u32 \<times> u32 \<times> u32) \<Rightarrow> (u32 \<times> u32 \<times> u32 \<times> u32 \<times> u32)" where
  "turn1 W t s = (case s of (A, B, C, D, E) \<Rightarrow>
     turn (SHA1CircularShift 5 A + (B XOR C XOR D) + E + W ! t + 0x6ED9EBA1) s)"

definition turn2 :: "u32 list \<Rightarrow> nat \<Rightarrow> (u32 \<times> u32 \<times> u32 \<times> u32 \<times> u32) \<Rightarrow> (u32 \<times> u32 \<times> u32 \<times> u32 \<times> u32)" where
  "turn2 W t s = (case s of (A, B, C, D, E) \<Rightarrow>
     turn (SHA1CircularShift 5 A + ((B AND C) OR (B AND D) OR (C AND D)) + E + W ! t + 0x8F1BBCDC) s)"

definition turn3 :: "u32 list \<Rightarrow> nat \<Rightarrow> (u32 \<times> u32 \<times> u32 \<times> u32 \<times> u32) \<Rightarrow> (u32 \<times> u32 \<times> u32 \<times> u32 \<times> u32)" where
  "turn3 W t s = (case s of (A, B, C, D, E) \<Rightarrow>
     turn (SHA1CircularShift 5 A + (B XOR C XOR D) + E + W ! t + 0xCA62C1D6) s)"

definition SHA1ProcessMessageBlock :: "sha1_context \<Rightarrow> sha1_context" where
  "SHA1ProcessMessageBlock c =
     (let W = word_array (Message_Block c);
          s = fold (turn3 W) [60..<80] (fold (turn2 W) [40..<60]
                (fold (turn1 W) [20..<40] (fold (turn0 W) [0..<20] (Message_Digest c))))
      in case (Message_Digest c, s) of ((H0, H1, H2, H3, H4), (A, B, C, D, E)) \<Rightarrow>
        c\<lparr>Message_Digest := ((H0 + A) AND 0xFFFFFFFF, (H1 + B) AND 0xFFFFFFFF, (H2 + C) AND 0xFFFFFFFF,
            (H3 + D) AND 0xFFFFFFFF, (H4 + E) AND 0xFFFFFFFF),
          Message_Block_Index := 0\<rparr>)"

text \<open>\<open>context->Message_Block[context->Message_Block_Index++] = v\<close>\<close>

definition put_byte :: "byte \<Rightarrow> sha1_context \<Rightarrow> sha1_context" where
  "put_byte v c = c\<lparr>Message_Block := (Message_Block c)[Message_Block_Index c := v],
     Message_Block_Index := Suc (Message_Block_Index c)\<rparr>"

text \<open>The two lengths count bits; the second is the carry of the first.\<close>

definition count_byte :: "sha1_context \<Rightarrow> sha1_context" where
  "count_byte c =
     (let c = c\<lparr>Length_Low := (Length_Low c + 8) AND 0xFFFFFFFF\<rparr> in
      if Length_Low c = 0 then
        (let c = c\<lparr>Length_High := (Length_High c + 1) AND 0xFFFFFFFF\<rparr> in
         if Length_High c = 0 then c\<lparr>Corrupted := True\<rparr> else c)
      else c)"

fun input_loop :: "byte list \<Rightarrow> sha1_context \<Rightarrow> sha1_context" where
  "input_loop [] c = c"
| "input_loop (v # ms) c =
     (if Corrupted c then c
      else
        let c = count_byte (put_byte (v AND 0xFF) c);
            c = (if Message_Block_Index c = 64 then SHA1ProcessMessageBlock c else c)
        in input_loop ms c)"

definition SHA1Input :: "byte list \<Rightarrow> sha1_context \<Rightarrow> sha1_context" where
  "SHA1Input message_array c =
     (if message_array = [] then c
      else if Computed c \<or> Corrupted c then c\<lparr>Corrupted := True\<rparr>
      else input_loop message_array c)"

text \<open>\<open>while (Message_Block_Index < n)\<close> zeros are put.\<close>

function zero_to :: "nat \<Rightarrow> sha1_context \<Rightarrow> sha1_context" where
  "zero_to n c = (if Message_Block_Index c < n then zero_to n (put_byte 0 c) else c)"
  by pat_completeness auto
termination
  by (relation "measure (\<lambda>(n, c). n - Message_Block_Index c)") (auto simp: put_byte_def)

declare zero_to.simps [simp del]

definition put_length :: "sha1_context \<Rightarrow> sha1_context" where
  "put_length c =
     (let h = Length_High c; l = Length_Low c
      in c\<lparr>Message_Block := (Message_Block c)
        [56 := ucast (drop_bit 24 h), 57 := ucast (drop_bit 16 h), 58 := ucast (drop_bit 8 h), 59 := ucast h,
         60 := ucast (drop_bit 24 l), 61 := ucast (drop_bit 16 l), 62 := ucast (drop_bit 8 l), 63 := ucast l]\<rparr>)"

definition SHA1PadMessage :: "sha1_context \<Rightarrow> sha1_context" where
  "SHA1PadMessage c =
     SHA1ProcessMessageBlock (put_length
       (if Message_Block_Index c > 55
        then zero_to 56 (SHA1ProcessMessageBlock (zero_to 64 (put_byte 0x80 c)))
        else zero_to 56 (put_byte 0x80 c)))"

definition SHA1Result :: "sha1_context \<Rightarrow> bool \<times> sha1_context" where
  "SHA1Result c =
     (if Corrupted c then (False, c)
      else (True, if \<not> Computed c then (SHA1PadMessage c)\<lparr>Computed := True\<rparr> else c))"

section \<open>The standard\<close>

text \<open>\<open>ROTL\<close>, the logical functions \<open>f\<close>, the constants \<open>K\<close> and the message schedule.\<close>

definition rotl :: "nat \<Rightarrow> u32 \<Rightarrow> u32" where
  "rotl n x = word_rotl n x"

definition fips_f :: "nat \<Rightarrow> u32 \<Rightarrow> u32 \<Rightarrow> u32 \<Rightarrow> u32" where
  "fips_f t x y z =
     (if t < 20 then (x AND y) XOR (NOT x AND z)
      else if 40 \<le> t \<and> t < 60 then (x AND y) XOR (x AND z) XOR (y AND z)
      else x XOR y XOR z)"

definition fips_K :: "nat \<Rightarrow> u32" where
  "fips_K t = (if t < 20 then 0x5A827999 else if t < 40 then 0x6ED9EBA1 else if t < 60 then 0x8F1BBCDC else 0xCA62C1D6)"

fun fips_W :: "byte list \<Rightarrow> nat \<Rightarrow> u32" where
  "fips_W b t =
     (if t < 16 then word_cat (word_cat (b ! (4 * t)) (b ! (4 * t + 1)) :: u16) (word_cat (b ! (4 * t + 2)) (b ! (4 * t + 3)) :: u16)
      else rotl 1 (fips_W b (t - 3) XOR fips_W b (t - 8) XOR fips_W b (t - 14) XOR fips_W b (t - 16)))"

declare fips_W.simps [simp del]

definition fips_step :: "byte list \<Rightarrow> nat \<Rightarrow> (u32 \<times> u32 \<times> u32 \<times> u32 \<times> u32) \<Rightarrow> (u32 \<times> u32 \<times> u32 \<times> u32 \<times> u32)" where
  "fips_step blk t s = (case s of (a, b, c, d, e) \<Rightarrow>
     (rotl 5 a + fips_f t b c d + e + fips_K t + fips_W blk t, a, rotl 30 b, c, d))"

definition fips_block :: "byte list \<Rightarrow> (u32 \<times> u32 \<times> u32 \<times> u32 \<times> u32) \<Rightarrow> (u32 \<times> u32 \<times> u32 \<times> u32 \<times> u32)" where
  "fips_block blk H = (case (H, fold (fips_step blk) [0..<80] H) of ((h0, h1, h2, h3, h4), (a, b, c, d, e)) \<Rightarrow>
     (h0 + a, h1 + b, h2 + c, h3 + d, h4 + e))"

fun fips_blocks :: "nat \<Rightarrow> byte list \<Rightarrow> (u32 \<times> u32 \<times> u32 \<times> u32 \<times> u32) \<Rightarrow> (u32 \<times> u32 \<times> u32 \<times> u32 \<times> u32)" where
  "fips_blocks 0 m H = H"
| "fips_blocks (Suc n) m H = fips_blocks n (drop 64 m) (fips_block (take 64 m) H)"

text \<open>The message, a one bit, the least number of zeros that fills the blocks, and the length in bits.\<close>

definition fips_pad :: "byte list \<Rightarrow> byte list" where
  "fips_pad m = m @ [0x80] @ replicate ((119 - length m mod 64) mod 64) 0
     @ map (\<lambda>i. ucast (drop_bit (56 - 8 * i) (of_nat (8 * length m) :: u64))) [0..<8]"

definition fips_sha1 :: "byte list \<Rightarrow> u32 \<times> u32 \<times> u32 \<times> u32 \<times> u32" where
  "fips_sha1 m = fips_blocks (length (fips_pad m) div 64) (fips_pad m)
     (0x67452301, 0xEFCDAB89, 0x98BADCFE, 0x10325476, 0xC3D2E1F0)"

section \<open>Blocks\<close>

lemma mask32 [simp]: "(w :: u32) AND 0xFFFFFFFF = w"
proof -
  have "(0xFFFFFFFF :: u32) = - 1" by simp
  then show ?thesis by (simp only: and.right_neutral)
qed

lemma circular_shift: "0 < n \<Longrightarrow> n < 32 \<Longrightarrow> SHA1CircularShift n w = rotl n w"
proof (rule bit_word_eqI)
  fix k assume n: "0 < n" "n < 32" and "k < LENGTH(32)"
  then have k: "k < 32" by simp
  have b: "\<not> bit w j" if "32 \<le> j" for j using that bit_imp_le_length [of w j] by auto
  show "bit (SHA1CircularShift n w) k = bit (rotl n w) k"
  proof (cases "n \<le> k")
    case True
    then have "(k + 32 - n) mod 32 = k - n" using k by (simp add: mod_if)
    then show ?thesis using True n k b [of "32 - n + k"]
      by (simp add: SHA1CircularShift_def rotl_def bit_simps)
  next
    case False
    then have "(k + 32 - n) mod 32 = 32 - n + k" using n by simp
    then show ?thesis using False n k by (simp add: SHA1CircularShift_def rotl_def bit_simps)
  qed
qed

lemma block_word_eq:
  "block_word b t = word_cat (word_cat (b ! (4 * t)) (b ! (4 * t + 1)) :: u16) (word_cat (b ! (4 * t + 2)) (b ! (4 * t + 3)) :: u16)"
proof (rule bit_word_eqI)
  fix n assume "n < LENGTH(32)"
  have b: "\<not> bit (v :: byte) j" if "8 \<le> j" for v j using that bit_imp_le_length [of v j] by auto
  consider "n < 8" | "8 \<le> n" "n < 16" | "16 \<le> n" "n < 24" | "24 \<le> n" "n < 32"
    using \<open>n < LENGTH(32)\<close> by (simp, linarith)
  then show "bit (block_word b t) n = bit (word_cat (word_cat (b ! (4 * t)) (b ! (4 * t + 1)) :: u16)
      (word_cat (b ! (4 * t + 2)) (b ! (4 * t + 3)) :: u16) :: u32) n"
    by cases (auto simp add: block_word_def bit_simps bit_word_cat_iff b mult.commute [of t 4])
qed

lemma word_array_upt: "16 \<le> n \<Longrightarrow> fold expand [16..<n] (map (block_word b) [0..<16]) = map (fips_W b) [0..<n]"
proof (induction n)
  case (Suc n)
  show ?case
  proof (cases "16 \<le> n")
    case True
    then have "fold expand [16..<Suc n] (map (block_word b) [0..<16]) = expand n (map (fips_W b) [0..<n])"
      using Suc.IH by simp
    also have "\<dots> = map (fips_W b) [0..<Suc n]"
      using True by (simp add: expand_def fips_W.simps [of b n] circular_shift)
    finally show ?thesis .
  next
    case False
    then have "n = 15" using Suc.prems by simp
    then show ?thesis by (simp add: fips_W.simps [of b] block_word_eq)
  qed
qed simp

lemma word_array_eq: "word_array b = map (fips_W b) [0..<80]"
  unfolding word_array_def by (rule word_array_upt) simp

lemma choose_eq: "(x AND y) OR (NOT x AND z) = ((x AND y) XOR (NOT x AND z) :: u32)"
  by (rule bit_word_eqI) (auto simp: bit_simps)

lemma majority_eq: "(x AND y) OR (x AND z) OR (y AND z) = ((x AND y) XOR (x AND z) XOR (y AND z) :: u32)"
  by (rule bit_word_eqI) (auto simp: bit_simps)

lemmas turn_defs = turn_def turn0_def turn1_def turn2_def turn3_def fips_step_def fips_f_def fips_K_def
  circular_shift

lemma turns:
  "t < 20 \<Longrightarrow> turn0 (word_array b) t s = fips_step b t s"
  "20 \<le> t \<Longrightarrow> t < 40 \<Longrightarrow> turn1 (word_array b) t s = fips_step b t s"
  "40 \<le> t \<Longrightarrow> t < 60 \<Longrightarrow> turn2 (word_array b) t s = fips_step b t s"
  "60 \<le> t \<Longrightarrow> t < 80 \<Longrightarrow> turn3 (word_array b) t s = fips_step b t s"
  by (cases s; simp add: turn_defs word_array_eq choose_eq majority_eq)+

lemma fold_upt_split:
  "i \<le> j \<Longrightarrow> j \<le> k \<Longrightarrow> fold f [j..<k] (fold f [i..<j] s) = fold f [i..<k] s"
  using upt_add_eq_append [of i j "k - j"] by simp

lemma fold_upt_cong:
  "(\<And>t s. i \<le> t \<Longrightarrow> t < j \<Longrightarrow> f t s = g t s) \<Longrightarrow> fold f [i..<j] s = fold g [i..<j] s"
  by (rule fold_cong) auto

lemma fold_turns:
  "fold (turn3 (word_array b)) [60..<80] (fold (turn2 (word_array b)) [40..<60]
     (fold (turn1 (word_array b)) [20..<40] (fold (turn0 (word_array b)) [0..<20] s))) = fold (fips_step b) [0..<80] s"
proof -
  have "fold (turn0 (word_array b)) [0..<20] s = fold (fips_step b) [0..<20] s" for s
    by (rule fold_upt_cong) (rule turns)
  moreover have "fold (turn1 (word_array b)) [20..<40] s = fold (fips_step b) [20..<40] s" for s
    by (rule fold_upt_cong) (rule turns)
  moreover have "fold (turn2 (word_array b)) [40..<60] s = fold (fips_step b) [40..<60] s" for s
    by (rule fold_upt_cong) (rule turns)
  moreover have "fold (turn3 (word_array b)) [60..<80] s = fold (fips_step b) [60..<80] s" for s
    by (rule fold_upt_cong) (rule turns)
  moreover have "fold (fips_step b) [20..<40] (fold (fips_step b) [0..<20] s) = fold (fips_step b) [0..<40] s"
    "fold (fips_step b) [40..<60] (fold (fips_step b) [0..<40] s) = fold (fips_step b) [0..<60] s"
    "fold (fips_step b) [60..<80] (fold (fips_step b) [0..<60] s) = fold (fips_step b) [0..<80] s"
    by (rule fold_upt_split; simp)+
  ultimately show ?thesis by (simp only:)
qed

lemma process_block:
  "SHA1ProcessMessageBlock c = c\<lparr>Message_Digest := fips_block (Message_Block c) (Message_Digest c), Message_Block_Index := 0\<rparr>"
proof -
  obtain H0 H1 H2 H3 H4 where H: "Message_Digest c = (H0, H1, H2, H3, H4)" by (cases "Message_Digest c")
  obtain A B C D E where "fold (fips_step (Message_Block c)) [0..<80] (H0, H1, H2, H3, H4) = (A, B, C, D, E)"
    by (cases "fold (fips_step (Message_Block c)) [0..<80] (H0, H1, H2, H3, H4)")
  then show ?thesis
    unfolding SHA1ProcessMessageBlock_def Let_def fold_turns fips_block_def mask32 H by (simp only: prod.case)
qed

section \<open>Sequences of blocks\<close>

lemma fips_blocks_append: "length m = 64 * n \<Longrightarrow> fips_blocks (n + k) (m @ m') H = fips_blocks k m' (fips_blocks n m H)"
  by (induction n arbitrary: m H) simp_all

lemma fips_blocks_one: "length b = 64 \<Longrightarrow> fips_blocks 1 b H = fips_block b H"
  by simp

section \<open>Absorbing a message\<close>

abbreviation sha1_H :: "u32 \<times> u32 \<times> u32 \<times> u32 \<times> u32" where
  "sha1_H \<equiv> (0x67452301, 0xEFCDAB89, 0x98BADCFE, 0x10325476, 0xC3D2E1F0)"

text \<open>
  \<open>absorbed m c\<close>: \<open>c\<close> has taken in the message \<open>m\<close>: its full blocks are in the digest, the rest is in
  the block, and the two lengths are those of \<open>m\<close> in bits.
\<close>

definition absorbed :: "byte list \<Rightarrow> sha1_context \<Rightarrow> bool" where
  "absorbed m c \<longleftrightarrow> \<not> Computed c \<and> \<not> Corrupted c \<and> length (Message_Block c) = 64 \<and>
     unat (Length_Low c) = 8 * length m mod 2 ^ 32 \<and> unat (Length_High c) = 8 * length m div 2 ^ 32 \<and>
     (\<exists>q full. length full = 64 * q \<and> Message_Digest c = fips_blocks q full sha1_H \<and>
        m = full @ take (Message_Block_Index c) (Message_Block c) \<and> Message_Block_Index c < 64)"

lemma absorbedD:
  assumes "absorbed m c"
  shows "\<not> Computed c" "\<not> Corrupted c" "length (Message_Block c) = 64"
    "unat (Length_Low c) = 8 * length m mod 2 ^ 32" "unat (Length_High c) = 8 * length m div 2 ^ 32"
  using assms unfolding absorbed_def by blast+

lemma absorbedE:
  assumes "absorbed m c"
  obtains q full i where "length full = 64 * q" "Message_Digest c = fips_blocks q full sha1_H"
    "m = full @ take i (Message_Block c)" "Message_Block_Index c = i" "i < 64"
  using assms unfolding absorbed_def by blast

lemma absorbed_Reset: "length (Message_Block c) = 64 \<Longrightarrow> absorbed [] (SHA1Reset c)"
  by (simp add: absorbed_def SHA1Reset_def)

lemma carry:
  assumes "8 * Suc n mod 2 ^ 32 = 0"
  shows "8 * Suc n div 2 ^ 32 = Suc (8 * n div 2 ^ 32)"
proof -
  have "8 * Suc n = 2 ^ 32 * (8 * Suc n div 2 ^ 32)" using assms by (metis add.right_neutral mult_div_mod_eq)
  then show ?thesis by simp
qed

lemma no_carry:
  assumes "8 * Suc n mod 2 ^ 32 \<noteq> 0"
  shows "8 * Suc n div 2 ^ 32 = 8 * n div 2 ^ 32"
proof -
  have e: "(2 :: nat) ^ 32 = 8 * 2 ^ 29" by simp
  have "Suc n mod 2 ^ 29 \<noteq> 0" using assms unfolding e mult_mod_right [symmetric] by simp
  then have "Suc n div 2 ^ 29 = n div 2 ^ 29" by (subst div_Suc) (simp only: if_False)
  then show ?thesis unfolding e using div_mult_mult1 [of 8 "Suc n" "2 ^ 29"] div_mult_mult1 [of 8 n "2 ^ 29"]
    by (simp only: zero_neq_numeral not_False_eq_True simp_thms)
qed

lemma count_byte_ok:
  assumes "unat (Length_Low c) = 8 * n mod 2 ^ 32" "unat (Length_High c) = 8 * n div 2 ^ 32" "8 * Suc n < 2 ^ 64"
  shows "\<exists>l h. count_byte c = c\<lparr>Length_Low := l, Length_High := h\<rparr> \<and>
    unat l = 8 * Suc n mod 2 ^ 32 \<and> unat h = 8 * Suc n div 2 ^ 32"
proof -
  let ?l = "Length_Low c + 8"
  have l: "unat ?l = 8 * Suc n mod 2 ^ 32"
  proof -
    have "unat ?l = (unat (Length_Low c) + 8) mod 2 ^ 32" by (simp add: unat_word_ariths)
    also have "\<dots> = (8 * n mod 2 ^ 32 + 8) mod 2 ^ 32" by (simp only: assms(1))
    also have "\<dots> = (8 * n + 8) mod 2 ^ 32" by (rule mod_add_left_eq)
    also have "8 * n + 8 = 8 * Suc n" by simp
    finally show ?thesis .
  qed
  have h: "8 * Suc n div 2 ^ 32 < 2 ^ 32" using assms(3) by (simp add: div_less_iff_less_mult)
  show ?thesis
  proof (cases "?l = 0")
    case True
    then have "(8 * Suc n) mod 2 ^ 32 = 0" using l by simp
    then have d: "8 * Suc n div 2 ^ 32 = Suc (8 * n div 2 ^ 32)" by (rule carry)
    then have "unat (Length_High c + 1) = 8 * Suc n div 2 ^ 32"
      using assms(2) h by (simp add: unat_word_ariths)
    moreover from this d have "Length_High c + 1 \<noteq> 0" by (metis nat.distinct(1) unat_0)
    ultimately show ?thesis using True l
      by (intro exI [of _ 0] exI [of _ "Length_High c + 1"]) (simp add: count_byte_def Let_def)
  next
    case False
    then have "(8 * Suc n) mod 2 ^ 32 \<noteq> 0" using l by (metis unat_eq_0)
    then have "8 * Suc n div 2 ^ 32 = 8 * n div 2 ^ 32" by (rule no_carry)
    then show ?thesis using False l assms(2)
      by (intro exI [of _ ?l] exI [of _ "Length_High c"]) (simp add: count_byte_def Let_def)
  qed
qed

lemma take_snoc_update: "i < length b \<Longrightarrow> take (Suc i) (b[i := v]) = take i b @ [v]"
  by (simp add: take_Suc_conv_app_nth)

lemma byte_mask [simp]: "(v :: byte) AND 0xFF = v"
proof -
  have "(0xFF :: byte) = - 1" by simp
  then show ?thesis by (simp only: and.right_neutral)
qed

lemma absorb_byte:
  assumes "absorbed m c" "8 * Suc (length m) < 2 ^ 64"
  shows "absorbed (m @ [v]) (let c = count_byte (put_byte (v AND 0xFF) c)
    in if Message_Block_Index c = 64 then SHA1ProcessMessageBlock c else c)"
proof -
  note D = absorbedD [OF assms(1)]
  obtain q full i where q: "length full = 64 * q" "Message_Digest c = fips_blocks q full sha1_H"
    "m = full @ take i (Message_Block c)" "Message_Block_Index c = i" "i < 64"
    by (rule absorbedE [OF assms(1)])
  obtain l h where c: "count_byte (put_byte v c) = put_byte v c\<lparr>Length_Low := l, Length_High := h\<rparr>"
    and l: "unat l = 8 * length (m @ [v]) mod 2 ^ 32" "unat h = 8 * length (m @ [v]) div 2 ^ 32"
    using count_byte_ok [of "put_byte v c" "length m"] D(4,5) assms(2) by (auto simp: put_byte_def)
  define b where "b = (Message_Block c)[i := v]"
  have b: "length b = 64" using D(3) by (simp add: b_def)
  have p: "put_byte v c = c\<lparr>Message_Block := b, Message_Block_Index := Suc i\<rparr>"
    by (simp add: put_byte_def b_def q(4))
  have m: "m @ [v] = full @ take (Suc i) b" using q(3,5) D(3) by (simp add: b_def take_snoc_update)
  show ?thesis
  proof (cases "Suc i = 64")
    case True
    have m': "m @ [v] = full @ b" using m True b by simp
    have "fips_blocks (q + 1) (full @ b) sha1_H = fips_block b (Message_Digest c)"
      unfolding fips_blocks_append [OF q(1)] q(2) using fips_blocks_one [OF b] .
    then have "\<exists>q' full'. length full' = 64 * q' \<and> fips_block b (Message_Digest c) = fips_blocks q' full' sha1_H \<and>
        m @ [v] = full' @ take 0 b"
      using q(1) b m' by (intro exI [of _ "q + 1"] exI [of _ "full @ b"]) simp
    then show ?thesis using True D(1,2) l b unfolding absorbed_def byte_mask p c [unfolded p] process_block Let_def by simp
  next
    case False
    then show ?thesis using D(1,2,3) l b m q False unfolding absorbed_def byte_mask p c [unfolded p] Let_def by auto
  qed
qed

lemma absorb_loop:
  "absorbed m c \<Longrightarrow> 8 * length (m @ ms) < 2 ^ 64 \<Longrightarrow> absorbed (m @ ms) (input_loop ms c)"
proof (induction ms arbitrary: m c)
  case (Cons v ms)
  have "absorbed (m @ [v]) (let c = count_byte (put_byte (v AND 0xFF) c)
      in if Message_Block_Index c = 64 then SHA1ProcessMessageBlock c else c)"
    by (rule absorb_byte) (use Cons.prems in simp_all)
  from Cons.IH [OF this] show ?case using Cons.prems by (simp add: absorbedD(2) Let_def)
qed simp

lemma absorb_Input: "absorbed m c \<Longrightarrow> 8 * length (m @ ms) < 2 ^ 64 \<Longrightarrow> absorbed (m @ ms) (SHA1Input ms c)"
  using absorb_loop [of m c ms] by (simp add: SHA1Input_def absorbedD(1,2))

lemma absorb_Inputs:
  "absorbed m c \<Longrightarrow> 8 * length (m @ concat mss) < 2 ^ 64 \<Longrightarrow> absorbed (m @ concat mss) (fold SHA1Input mss c)"
proof (induction mss arbitrary: m c)
  case (Cons ms mss)
  have "absorbed (m @ ms) (SHA1Input ms c)" by (rule absorb_Input) (use Cons.prems in simp_all)
  from Cons.IH [OF this] show ?case using Cons.prems(2) by simp
qed simp

section \<open>Padding\<close>

lemma zero_to_eq:
  "Message_Block_Index c \<le> n \<Longrightarrow> n \<le> length (Message_Block c) \<Longrightarrow>
   zero_to n c = c\<lparr>Message_Block := take (Message_Block_Index c) (Message_Block c)
      @ replicate (n - Message_Block_Index c) 0 @ drop n (Message_Block c), Message_Block_Index := n\<rparr>"
proof (induction n c rule: zero_to.induct)
  case (1 n c)
  show ?case
  proof (cases "Message_Block_Index c < n")
    case True
    let ?i = "Message_Block_Index c"
    have "zero_to n c = zero_to n (put_byte 0 c)" using True by (simp add: zero_to.simps [of n c])
    moreover have "take (Suc ?i) ((Message_Block c)[?i := 0]) = take ?i (Message_Block c) @ [0]"
      using True "1.prems" by (intro take_snoc_update) simp
    moreover have "n - ?i = Suc (n - Suc ?i)" using True by simp
    ultimately show ?thesis using "1.IH" True "1.prems" by (simp add: put_byte_def)
  next
    case False
    then have "Message_Block_Index c = n" using "1.prems" by simp
    then show ?thesis by (simp add: zero_to.simps [of n c])
  qed
qed

lemma upt8: "[0..<8] = [0, 1, 2, 3, 4, 5, 6, 7 :: nat]"
  by code_simp

text \<open>The eight bytes of a length in bits.\<close>

definition length_bytes :: "u32 \<Rightarrow> u32 \<Rightarrow> byte list" where
  "length_bytes h l = [ucast (drop_bit 24 h), ucast (drop_bit 16 h), ucast (drop_bit 8 h), ucast h,
     ucast (drop_bit 24 l), ucast (drop_bit 16 l), ucast (drop_bit 8 l), ucast l]"

lemma put_length_eq:
  assumes "length (Message_Block c) = 64" "Message_Block c = b @ r" "length b = 56"
  shows "put_length c = c\<lparr>Message_Block := b @ length_bytes (Length_High c) (Length_Low c)\<rparr>"
proof -
  have "length r = 8" using assms by simp
  then obtain r0 r1 r2 r3 r4 r5 r6 r7 where "r = [r0, r1, r2, r3, r4, r5, r6, r7]"
    by (auto simp: length_Suc_conv eval_nat_numeral)
  then show ?thesis using assms(2,3) by (simp add: put_length_def Let_def length_bytes_def list_update_append)
qed

lemma length_bytes_eq:
  assumes "unat l = n mod 2 ^ 32" "unat h = n div 2 ^ 32"
  shows "length_bytes h l = map (\<lambda>i. ucast (drop_bit (56 - 8 * i) (of_nat n :: u64))) [0..<8]"
proof -
  have bl: "bit l k \<longleftrightarrow> k < 32 \<and> bit n k" for k
  proof -
    have "unat l = take_bit 32 n" using assms(1) by (simp only: take_bit_eq_mod)
    then have "bit (unat l) k = bit (take_bit 32 n) k" by (rule arg_cong)
    then show ?thesis by (simp add: bit_unsigned_iff bit_take_bit_iff)
  qed
  have bh: "bit h k \<longleftrightarrow> bit n (32 + k)" for k
  proof -
    have "unat h = drop_bit 32 n" using assms(2) by (simp only: drop_bit_eq_div)
    then have "bit (unat h) k = bit (drop_bit 32 n) k" by (rule arg_cong)
    then show ?thesis by (simp add: bit_unsigned_iff bit_drop_bit_eq)
  qed
  have bn: "bit (of_nat n :: u64) k \<longleftrightarrow> k < 64 \<and> bit n k" for k by (simp add: bit_of_nat_iff)
  have hi: "(ucast (drop_bit j h) :: byte) = ucast (drop_bit (32 + j) (of_nat n :: u64))" if "j \<le> 24" for j
    by (rule bit_word_eqI) (use that in \<open>auto simp: bit_simps bh bn ac_simps\<close>)
  have lo: "(ucast (drop_bit j l) :: byte) = ucast (drop_bit j (of_nat n :: u64))" if "j \<le> 24" for j
    by (rule bit_word_eqI) (use that in \<open>auto simp: bit_simps bl bn ac_simps\<close>)
  show ?thesis using hi [of 0] hi [of 8] hi [of 16] hi [of 24] lo [of 0] lo [of 8] lo [of 16] lo [of 24]
    by (simp add: length_bytes_def upt8)
qed

lemma pad_zeros:
  "i < 64 \<Longrightarrow> (119 - i) mod 64 = (if i > 55 then (63 - i) + 56 else 55 - (i :: nat))"
  by (auto simp: mod_if)

lemma pad_blocks:
  assumes "length full = 64 * q" "m = full @ t" "length t < 64"
  shows "fips_sha1 m = (if length t > 55
    then fips_blocks 2 (t @ [0x80] @ replicate (63 - length t) 0 @ replicate 56 0 @ drop (length (fips_pad m) - 8) (fips_pad m)) (fips_blocks q full sha1_H)
    else fips_blocks 1 (t @ [0x80] @ replicate (55 - length t) 0 @ drop (length (fips_pad m) - 8) (fips_pad m)) (fips_blocks q full sha1_H))"
proof -
  have r: "length m mod 64 = length t" using assms by simp
  define z where "z = replicate ((119 - length t) mod 64) (0 :: byte)"
  define L where "L = map (\<lambda>i. ucast (drop_bit (56 - 8 * i) (of_nat (8 * length m) :: u64)) :: byte) [0..<8]"
  have L: "length L = 8" by (simp add: L_def)
  have p: "fips_pad m = full @ t @ [0x80] @ z @ L" unfolding fips_pad_def r z_def [symmetric] L_def [symmetric] using assms(2) by simp
  have d: "drop (length (fips_pad m) - 8) (fips_pad m) = L" using L by (simp add: p)
  show ?thesis
  proof (cases "length t > 55")
    case True
    then have z: "z = replicate (63 - length t) 0 @ replicate 56 0"
      unfolding z_def pad_zeros [OF assms(3)] if_P [OF True] replicate_add by (simp only:)
    then have "length (fips_pad m) div 64 = q + 2" using True assms(1,3) L by (simp add: p)
    then have "fips_sha1 m = fips_blocks 2 (t @ [0x80] @ z @ L) (fips_blocks q full sha1_H)"
      unfolding fips_sha1_def by (simp only: p fips_blocks_append [OF assms(1)])
    then show ?thesis using True unfolding d z by simp
  next
    case False
    then have z: "z = replicate (55 - length t) 0" unfolding z_def using assms(3) by (simp add: pad_zeros)
    then have "length (fips_pad m) div 64 = q + 1" using False assms(1,3) L by (simp add: p)
    then have "fips_sha1 m = fips_blocks 1 (t @ [0x80] @ z @ L) (fips_blocks q full sha1_H)"
      unfolding fips_sha1_def by (simp only: p fips_blocks_append [OF assms(1)])
    then show ?thesis using False unfolding d z by simp
  qed
qed

lemma fips_pad_length: "drop (length (fips_pad m) - 8) (fips_pad m)
    = map (\<lambda>i. ucast (drop_bit (56 - 8 * i) (of_nat (8 * length m) :: u64))) [0..<8]"
proof -
  define L where "L = map (\<lambda>i. ucast (drop_bit (56 - 8 * i) (of_nat (8 * length m) :: u64)) :: byte) [0..<8]"
  have "length L = 8" by (simp add: L_def)
  then show ?thesis unfolding fips_pad_def L_def [symmetric] by simp
qed

text \<open>The end of the padding: the last block up to the length is \<open>b\<close>.\<close>

lemma pad_end:
  assumes "length (Message_Block c) = 64" "take 56 (Message_Block c) = b"
  shows "Message_Digest (SHA1ProcessMessageBlock (put_length c))
    = fips_block (b @ length_bytes (Length_High c) (Length_Low c)) (Message_Digest c)"
proof -
  have "put_length c = c\<lparr>Message_Block := b @ length_bytes (Length_High c) (Length_Low c)\<rparr>"
    by (rule put_length_eq [of _ _ "drop 56 (Message_Block c)"]) (use assms in auto)
  then show ?thesis by (simp add: process_block)
qed

lemma pad_message:
  assumes a: "absorbed m c"
  shows "Message_Digest (SHA1PadMessage c) = fips_sha1 m"
proof -
  note D = absorbedD [OF a]
  obtain q full i where q: "length full = 64 * q" "Message_Digest c = fips_blocks q full sha1_H"
    "m = full @ take i (Message_Block c)" "Message_Block_Index c = i" "i < 64"
    by (rule absorbedE [OF a])
  define t where "t = take i (Message_Block c)"
  have t: "length t = i" using D(3) q(5) by (simp add: t_def)
  define L where "L = length_bytes (Length_High c) (Length_Low c)"
  have L: "drop (length (fips_pad m) - 8) (fips_pad m) = L" "length L = 8"
    unfolding L_def fips_pad_length length_bytes_eq [OF D(4,5)] by simp_all
  define p where "p = put_byte 0x80 c"
  have p: "take (Suc i) (Message_Block p) = t @ [0x80]" "length (Message_Block p) = 64" "Message_Block_Index p = Suc i"
    "Length_High p = Length_High c" "Length_Low p = Length_Low c" "Message_Digest p = Message_Digest c"
    using D(3) q(4,5) by (simp_all add: p_def t_def put_byte_def take_snoc_update)
  have m: "m = full @ t" "length t < 64" using q(3,5) t by (simp_all add: t_def)
  show ?thesis
  proof (cases "i > 55")
    case True
    define b where "b = t @ [0x80] @ replicate (63 - i) 0"
    have b: "length b = 64" using t q(5) by (simp add: b_def)
    have z: "zero_to 64 p = p\<lparr>Message_Block := b, Message_Block_Index := 64\<rparr>"
      using zero_to_eq [of p 64] p q(5) by (simp add: b_def)
    define c1 where "c1 = SHA1ProcessMessageBlock (zero_to 64 p)"
    have c1: "Message_Block c1 = b" "Message_Block_Index c1 = 0" "Message_Digest c1 = fips_block b (Message_Digest c)"
      "Length_High c1 = Length_High c" "Length_Low c1 = Length_Low c"
      unfolding c1_def process_block z using p by simp_all
    have c2: "zero_to 56 c1 = c1\<lparr>Message_Block := replicate 56 0 @ drop 56 b, Message_Block_Index := 56\<rparr>"
      using zero_to_eq [of c1 56] b c1(1,2) by simp
    have "Message_Digest (SHA1PadMessage c) = fips_block (replicate 56 0 @ L) (fips_block b (Message_Digest c))"
      using True q(4) pad_end [of "zero_to 56 c1" "replicate 56 0"] b c1
      unfolding SHA1PadMessage_def p_def [symmetric] c1_def [symmetric] c2 L_def by simp
    moreover have "fips_sha1 m = fips_blocks (1 + 1) (b @ (replicate 56 0 @ L)) (Message_Digest c)"
      using True unfolding pad_blocks [OF q(1) m] L t q(2) b_def by (simp add: numeral_2_eq_2 del: fips_blocks.simps)
    moreover have "fips_blocks (1 + 1) (b @ (replicate 56 0 @ L)) H = fips_block (replicate 56 0 @ L) (fips_block b H)" for H
      using fips_blocks_append [of b 1 1 "replicate 56 0 @ L" H] fips_blocks_one [of b] fips_blocks_one [of "replicate 56 0 @ L"] b L(2)
      by simp
    ultimately show ?thesis by simp
  next
    case False
    define b where "b = t @ [0x80] @ replicate (55 - i) 0"
    have b: "length b = 56" using t False by (simp add: b_def)
    have z: "zero_to 56 p = p\<lparr>Message_Block := b @ drop 56 (Message_Block p), Message_Block_Index := 56\<rparr>"
      using zero_to_eq [of p 56] p False by (simp add: b_def)
    have "Message_Digest (SHA1PadMessage c) = fips_block (b @ L) (Message_Digest c)"
      using False q(4) pad_end [of "zero_to 56 p" b] b p
      unfolding SHA1PadMessage_def p_def [symmetric] z L_def by simp
    moreover have "fips_sha1 m = fips_blocks 1 (b @ L) (Message_Digest c)"
      using False unfolding pad_blocks [OF q(1) m] L t q(2) b_def by (simp del: fips_blocks.simps)
    ultimately show ?thesis using fips_blocks_one [of "b @ L"] b L(2) by simp
  qed
qed

text \<open>The message in pieces.\<close>

lemma digest_of_pieces:
  assumes "length (Message_Block c) = 64" "8 * length (concat mss) < 2 ^ 64"
  shows "\<exists>c'. SHA1Result (fold SHA1Input mss (SHA1Reset c)) = (True, c') \<and> Message_Digest c' = fips_sha1 (concat mss)"
proof -
  let ?c = "fold SHA1Input mss (SHA1Reset c)"
  have a: "absorbed (concat mss) ?c"
    using absorb_Inputs [OF absorbed_Reset [OF assms(1)], of mss] assms(2) by simp
  have "SHA1Result ?c = (True, (SHA1PadMessage ?c)\<lparr>Computed := True\<rparr>)"
    using absorbedD(1,2) [OF a] by (simp add: SHA1Result_def)
  then show ?thesis using pad_message [OF a] by simp
qed

text \<open>C31: the digest does not depend on how the message is handed over, and it is the SHA-1 of the
  standard, for every message shorter than \<open>2^64\<close> bits.\<close>

theorem sha1_is_standard:
  assumes "length (Message_Block c) = 64" "8 * length (concat mss) < 2 ^ 64"
  shows "\<exists>c'. SHA1Result (fold SHA1Input mss (SHA1Reset c)) = (True, c') \<and> Message_Digest c' = fips_sha1 (concat mss)"
  using digest_of_pieces [OF assms] .

text \<open>The digest of ''abc'', handed over in two pieces.\<close>

definition some_context :: sha1_context where
  "some_context = \<lparr>Message_Digest = (0, 0, 0, 0, 0), Length_Low = 0, Length_High = 0,
     Message_Block = replicate 64 7, Message_Block_Index = 3, Computed = True, Corrupted = True\<rparr>"

theorem sha1_is_standard_witness:
  "\<exists>c'. SHA1Result (SHA1Input [0x63] (SHA1Input [0x61, 0x62] (SHA1Reset some_context))) = (True, c')
    \<and> Message_Digest c' = fips_sha1 [0x61, 0x62, 0x63]"
  using sha1_is_standard [of some_context "[[0x61, 0x62], [0x63]]"] by (simp add: some_context_def)

end
