(* ===== verification/Vns.thy ===== *)
theory Vns
  imports Router Sha1
begin

text \<open>
  The session of the router with the server (\<open>sr_vns_comm.c\<close>) and its start and main loop
  (\<open>sr_main.c\<close>): messages are read from a stream that arrives in pieces, the router proves its
  user's key and opens the topology, then each message is dispatched. The timeout thread runs while
  the main thread waits, so a schedule of the stream holds its rounds too.
\<close>

section \<open>The state\<close>

text \<open>
  What one \<open>recv\<close> of the main thread meets: bytes, the end of the stream, a signal, an error; or a
  round of the timeout thread before it returns. \<open>recv\<close> of a closed stream returns 0 each time.
  When the list ends, nothing arrives any more, and \<open>recv\<close> waits.
\<close>

datatype recv_ev = Data "byte list" | Closed | Intr | Recv_error | Tick

text \<open>
  \<open>struct sr_instance\<close> is \<open>sr\<close> and the fields from \<open>user\<close> on. \<open>timer\<close> tells whether the timeout
  thread was started. \<open>written\<close> holds the messages of the session, \<open>out\<close> of \<open>sr\<close> the frames.
\<close>

record vns =
  sr :: sr_instance
  timer :: bool
  incoming :: "recv_ev list"
  written :: "byte list list"
  sock_closed :: bool
  files :: "string \<Rightarrow> string option"
  user :: string
  host :: string
  templ :: string
  topo_id :: u16

text \<open>
  What the code takes from outside: the clock, uninitialised objects (an interface, a SHA-1
  context, the array of the key, the arrays of \<open>sr_load_rt\<close>), \<open>inet_aton\<close>, whether \<open>send\<close> takes a
  message, whether a file can be written, whether the connection is made, the user's login.
\<close>

record vns_env =
  tm :: clock
  new_if :: sr_if
  new_sha :: sha1_context
  new_key :: "byte list"
  new_words :: "string list"
  aton :: "string \<Rightarrow> ip option"
  sends :: "byte list \<Rightarrow> bool"
  writable :: "string \<Rightarrow> bool"
  connects :: bool
  login :: "string option"

definition VNSOPEN :: u32 where
  "VNSOPEN = 1"

definition VNSCLOSE :: u32 where
  "VNSCLOSE = 2"

definition VNSPACKET :: u32 where
  "VNSPACKET = 4"

definition VNSBANNER :: u32 where
  "VNSBANNER = 8"

definition VNSHWINFO :: u32 where
  "VNSHWINFO = 16"

definition VNS_RTABLE :: u32 where
  "VNS_RTABLE = 32"

definition VNS_OPEN_TEMPLATE :: u32 where
  "VNS_OPEN_TEMPLATE = 64"

definition VNS_AUTH_REQUEST :: u32 where
  "VNS_AUTH_REQUEST = 128"

definition VNS_AUTH_REPLY :: u32 where
  "VNS_AUTH_REPLY = 256"

definition VNS_AUTH_STATUS :: u32 where
  "VNS_AUTH_STATUS = 512"

definition IDSIZE :: nat where
  "IDSIZE = 32"

definition AUTH_KEY_LEN :: nat where
  "AUTH_KEY_LEN = 64"

section \<open>Strings in messages\<close>

definition to_bytes :: "string \<Rightarrow> byte list" where
  "to_bytes s = map (\<lambda>c. of_nat (of_char c)) s"

definition of_bytes :: "byte list \<Rightarrow> string" where
  "of_bytes bs = map (\<lambda>b. char_of (unat b)) bs"

text \<open>\<open>strncpy\<close> into an array of \<open>n\<close> bytes pads with zeros.\<close>

definition fixed :: "nat \<Rightarrow> string \<Rightarrow> byte list" where
  "fixed n s = to_bytes (take n s) @ replicate (n - length s) 0"

text \<open>\<open>strlen\<close> of an array of \<open>n\<close> characters that \<open>strncpy\<close> filled: it must hold a NUL.\<close>

definition fits :: "nat \<Rightarrow> string \<Rightarrow> 'a res \<Rightarrow> 'a res" where
  "fits n s r = (if length s < n then r else Inl Overrun)"

text \<open>
  \<open>printf\<close> of the bytes of a message from \<open>off\<close> on with \<open>%s\<close>: it reads up to a NUL, which must be in
  the message. What is printed is not modelled.
\<close>

definition prints :: "nat \<Rightarrow> byte list \<Rightarrow> 'a res \<Rightarrow> 'a res" where
  "prints off buf r = (if 0 \<in> set (drop off buf) then r else Inl Overrun)"

definition be32 :: "nat \<Rightarrow> byte list" where
  "be32 n = bytes32 (htonl (of_nat n))"

definition header :: "nat \<Rightarrow> u32 \<Rightarrow> byte list" where
  "header len mType = be32 len @ bytes32 (htonl mType)"

section \<open>Handlers of the session\<close>

text \<open>The hardware description as an array of entries.\<close>

definition hw_entries :: "byte list \<Rightarrow> (u32 \<times> byte list) list" where
  "hw_entries buf = map (\<lambda>i. (ntohl (load32 buf (8 + 36 * i)), take 32 (drop (12 + 36 * i) buf)))
     [0..<(length buf - 8) div 36]"

text \<open>
  The name of the host and the table: \<open>strcat\<close> reads up to a NUL and writes at most 32 characters
  in bounds; \<open>ntohl(mLen) - 8 - IDSIZE\<close> is unsigned.
\<close>

definition sr_handle_rtable :: "vns_env \<Rightarrow> byte list \<Rightarrow> vns \<Rightarrow> (bool \<times> vns) res" where
  "sr_handle_rtable e buf s =
     (let name = cstring (drop 8 buf); fn = ''rtable.'' @ name in
      if 0 \<notin> set (drop 8 buf) \<or> length name > IDSIZE then Inl Overrun
      else if writable e fn then
        need (8 + IDSIZE) buf (Inr (True, s\<lparr>files := (files s)(fn \<mapsto> of_bytes (drop (8 + IDSIZE) buf))\<rparr>))
      else Inr (False, s))"

text \<open>The array \<open>auth_key\<close> after \<open>fgets\<close> of the file; None if there is nothing to read.\<close>

definition read_key :: "vns_env \<Rightarrow> string \<Rightarrow> byte list option" where
  "read_key e content =
     (case fst (fgets AUTH_KEY_LEN content) of
        [] \<Rightarrow> None
      | line \<Rightarrow> Some (to_bytes line @ [0] @ drop (Suc (length line)) (new_key e)))"

definition auth_reply :: "string \<Rightarrow> (u32 \<times> u32 \<times> u32 \<times> u32 \<times> u32) \<Rightarrow> byte list" where
  "auth_reply u d = (case d of (d0, d1, d2, d3, d4) \<Rightarrow>
     header (12 + length u + 20) VNS_AUTH_REPLY @ be32 (length u) @ to_bytes u
     @ concat (map (\<lambda>d. bytes32 (htonl d)) [d0, d1, d2, d3, d4]))"

definition sr_handle_auth_request :: "vns_env \<Rightarrow> byte list \<Rightarrow> vns \<Rightarrow> (bool \<times> vns) res" where
  "sr_handle_auth_request e buf s =
     (case files s ''auth_key'' of
        None \<Rightarrow> Inr (False, s)
      | Some content \<Rightarrow>
          (case read_key e content of
             None \<Rightarrow> Inr (False, s)
           | Some key \<Rightarrow>
               (case SHA1Result (SHA1Input (take AUTH_KEY_LEN key) (SHA1Input (drop 8 buf) (SHA1Reset (new_sha e)))) of
                  (ok, sha) \<Rightarrow>
                    if \<not> ok then Inr (False, s)
                    else fits 32 (user s)
                      (let reply = auth_reply (user s) (Message_Digest sha)
                       in Inr (if sends e reply then (True, s\<lparr>written := written s @ [reply]\<rparr>) else (False, s))))))"

text \<open>The user's name is printed in both cases, the text of the server (from byte 9 on) on a refusal.\<close>

definition sr_handle_auth_status :: "byte list \<Rightarrow> vns \<Rightarrow> bool res" where
  "sr_handle_auth_status buf s =
     need 9 buf (fits 32 (user s) (if buf ! 8 \<noteq> 0 then Inr True else prints 9 buf (Inr False)))"

section \<open>Reading a message\<close>

definition tick :: "vns_env \<Rightarrow> vns \<Rightarrow> vns res" where
  "tick e s = (if timer s then rbind (sr_arpcache_timeout (tm e) (sr s)) (\<lambda>r. Inr (s\<lparr>sr := r\<rparr>)) else Inr s)"

text \<open>
  Both reading loops: until \<open>n\<close> bytes are there. The schedule is an argument; what is left of it
  goes back to \<open>incoming\<close>. None is the error return.
\<close>

fun server_read :: "vns_env \<Rightarrow> nat \<Rightarrow> byte list \<Rightarrow> recv_ev list \<Rightarrow> vns \<Rightarrow> (byte list option \<times> vns) res" where
  "server_read e n acc [] s = (if n \<le> length acc then Inr (Some acc, s\<lparr>incoming := []\<rparr>) else Inl No_return)"
| "server_read e n acc (ev # evs) s =
     (if n \<le> length acc then Inr (Some acc, s\<lparr>incoming := ev # evs\<rparr>)
      else case ev of
        Data d \<Rightarrow>
          if length acc + length d \<le> n then server_read e n (acc @ d) evs s
          else Inr (Some (acc @ take (n - length acc) d),
                    s\<lparr>incoming := Data (drop (n - length acc) d) # evs\<rparr>)
      | Closed \<Rightarrow> Inl No_return
      | Intr \<Rightarrow> server_read e n acc evs s
      | Recv_error \<Rightarrow> Inr (None, s\<lparr>incoming := evs\<rparr>)
      | Tick \<Rightarrow> rbind (tick e s) (server_read e n acc evs))"

text \<open>
  A frame: the name of the interface is read from byte 8 on, at most 32 characters; a name that ends
  nowhere is taken as an overrun. \<open>len - 38 + 14\<close> is unsigned.
\<close>

definition read_packet :: "vns_env \<Rightarrow> byte list \<Rightarrow> vns \<Rightarrow> (int \<times> vns) res" where
  "read_packet e buf s =
     need 24 buf
       (if length buf < 40 \<and> 0 \<notin> set (drop 8 buf) then Inl Overrun
        else rbind (vns_packet (tm e) (drop 24 buf) (cstring (drop 8 buf)) (sr s)) (\<lambda>r. Inr (1, s\<lparr>sr := r\<rparr>)))"

definition vns_dispatch :: "vns_env \<Rightarrow> u32 \<Rightarrow> byte list \<Rightarrow> vns \<Rightarrow> (int \<times> vns) res" where
  "vns_dispatch e command buf s =
     (if command = VNSPACKET then read_packet e buf s
      else if command = VNSCLOSE then prints 8 buf (Inr (0, s))
      else if command = VNSBANNER then prints 8 buf (Inr (1, s))
      else if command = VNSHWINFO then
        rbind (vns_hwinfo (new_if e) (hw_entries buf) (sr s)) (\<lambda>(ret, r). Inr (ret, s\<lparr>sr := r\<rparr>))
      else if command = VNS_RTABLE then
        rbind (sr_handle_rtable e buf s) (\<lambda>(ok, s). Inr (if ok then 1 else - 1, s))
      else if command = VNS_AUTH_REQUEST then
        rbind (sr_handle_auth_request e buf s) (\<lambda>(ok, s). Inr (if ok then 1 else - 1, s))
      else if command = VNS_AUTH_STATUS then
        rbind (sr_handle_auth_status buf s) (\<lambda>ok. Inr (if ok then 1 else - 1, s))
      else Inr (1, s))"

definition sr_read_from_server_expect :: "vns_env \<Rightarrow> u32 \<Rightarrow> vns \<Rightarrow> (int \<times> vns) res" where
  "sr_read_from_server_expect e expected s =
     rbind (server_read e 4 [] (incoming s) s) (\<lambda>(r, s).
       case r of
         None \<Rightarrow> Inr (- 1, s)
       | Some hdr \<Rightarrow>
           (let len = sint (ntohl (load32 hdr 0)) in
            if len > 10000 \<or> len < 0 then Inr (- 1, s\<lparr>sock_closed := True\<rparr>)
            else if len < 4 then Inl Overrun
            else rbind (server_read e (nat len - 4) [] (incoming s) s) (\<lambda>(r, s).
              case r of
                None \<Rightarrow> Inr (- 1, s\<lparr>sock_closed := True\<rparr>)
              | Some body \<Rightarrow>
                  if len < 8 then Inl Overrun
                  else (let buf = hdr @ body; command = ntohl (load32 buf 4) in
                        if expected \<noteq> 0 \<and> command \<noteq> expected \<and> command \<noteq> VNSCLOSE then Inr (- 1, s)
                        else vns_dispatch e command buf s))))"

definition sr_read_from_server :: "vns_env \<Rightarrow> vns \<Rightarrow> (int \<times> vns) res" where
  "sr_read_from_server e s = sr_read_from_server_expect e 0 s"

section \<open>Opening the session\<close>

definition open_message :: "vns \<Rightarrow> byte list" where
  "open_message s = header 108 VNSOPEN @ bytes16 (htons (topo_id s)) @ [0, 0]
     @ fixed IDSIZE (host s) @ fixed IDSIZE (user s) @ replicate IDSIZE 0"

definition open_template_message :: "vns \<Rightarrow> byte list" where
  "open_template_message s = header 70 VNS_OPEN_TEMPLATE @ fixed 30 (templ s) @ fixed IDSIZE (host s)"

text \<open>\<open>sr_read_from_server_expect(sr, cmd) != 1\<close> ends the opening.\<close>

definition expecting :: "vns_env \<Rightarrow> u32 \<Rightarrow> (vns \<Rightarrow> (int \<times> vns) res) \<Rightarrow> vns \<Rightarrow> (int \<times> vns) res" where
  "expecting e cmd k s =
     rbind (sr_read_from_server_expect e cmd s) (\<lambda>(r, s). if r \<noteq> 1 then Inr (- 1, s) else k s)"

definition sr_connect_to_server :: "vns_env \<Rightarrow> vns \<Rightarrow> (int \<times> vns) res" where
  "sr_connect_to_server e s =
     (if \<not> connects e then Inr (- 1, s)
      else expecting e VNS_AUTH_REQUEST (expecting e VNS_AUTH_STATUS (\<lambda>s.
        fits 30 (templ s)
          (let buf = (if templ s \<noteq> [] then open_template_message s else open_message s) in
           if \<not> sends e buf then Inr (- 1, s)
           else (let s = s\<lparr>written := written s @ [buf]\<rparr> in
                 if templ s \<noteq> [] then expecting e VNS_RTABLE (\<lambda>s. Inr (0, s)) s else Inr (0, s))))) s)"

section \<open>The main loop\<close>

text \<open>Every message takes at least its length from the stream, so the loop ends or waits for ever.\<close>

fun weight :: "recv_ev \<Rightarrow> nat" where
  "weight (Data d) = Suc (length d)"
| "weight _ = 1"

definition pending :: "recv_ev list \<Rightarrow> nat" where
  "pending evs = sum_list (map weight evs)"

lemma pending_simps [simp]:
  "pending [] = 0"
  "pending (ev # evs) = weight ev + pending evs"
  by (simp_all add: pending_def)

lemma tick_keeps: "tick e s = Inr s' \<Longrightarrow> s' = s\<lparr>sr := sr s'\<rparr>"
  by (auto simp: tick_def split: if_splits)

lemma server_read_pending:
  "server_read e n acc evs s = Inr (r, s') \<Longrightarrow>
   pending (incoming s') \<le> pending evs \<and> (length acc < n \<longrightarrow> pending (incoming s') < pending evs)"
proof (induction e n acc evs s arbitrary: r s' rule: server_read.induct)
  case (2 e n acc ev evs s)
  then show ?case by (cases ev) (fastforce split: if_splits)+
qed (auto split: if_splits)

lemma dispatch_incoming: "vns_dispatch e cmd buf s = Inr (r, s') \<Longrightarrow> incoming s' = incoming s"
  by (auto simp: vns_dispatch_def read_packet_def need_def fits_def sr_handle_rtable_def
      sr_handle_auth_request_def sr_handle_auth_status_def prints_def Let_def rbind_eq_Inr_iff
      split: if_splits option.splits prod.splits)

lemma read_pending:
  assumes "sr_read_from_server_expect e cmd s = Inr (r, s')"
  shows "pending (incoming s') < pending (incoming s)"
proof -
  obtain h s1 where h: "server_read e 4 [] (incoming s) s = Inr (h, s1)"
    using assms by (auto simp: sr_read_from_server_expect_def)
  have lt: "pending (incoming s1) < pending (incoming s)" using server_read_pending [OF h] by simp
  have "pending (incoming s') \<le> pending (incoming s1)"
    using assms h by (auto simp: sr_read_from_server_expect_def Let_def
        split: option.split_asm if_split_asm dest!: server_read_pending dispatch_incoming)
  then show ?thesis using lt by simp
qed

function main_loop :: "vns_env \<Rightarrow> vns \<Rightarrow> vns res" where
  "main_loop e s = rbind (sr_read_from_server e s) (\<lambda>(r, s'). if r = 1 then main_loop e s' else Inr s')"
  by pat_completeness auto
termination
  by (relation "measure (\<lambda>(e, s). pending (incoming s))") (auto simp: sr_read_from_server_def read_pending)

declare main_loop.simps [simp del]

section \<open>Start-up (sr_main.c)\<close>

text \<open>The lines \<open>sr_load_rt\<close> reads with \<open>fgets(line, BUFSIZ, fp)\<close>, as strings.\<close>

function file_lines :: "string \<Rightarrow> string list" where
  "file_lines cs = (if cs = [] then [] else c_str (fst (fgets 8191 cs)) # file_lines (snd (fgets 8191 cs)))"
  by pat_completeness auto
termination
  by (relation "measure length") (simp_all add: fgets_shorter)

declare file_lines.simps [simp del]

text \<open>\<open>exit(1)\<close> is the result 1 of the whole program; the other results are those of \<open>main\<close>.\<close>

definition sr_load_rt_wrap :: "vns_env \<Rightarrow> string \<Rightarrow> (vns \<Rightarrow> (int \<times> vns) res) \<Rightarrow> vns \<Rightarrow> (int \<times> vns) res" where
  "sr_load_rt_wrap e rtable k s =
     rbind (sr_load_rt (aton e) (new_words e) (map_option file_lines (files s rtable)) (sr s))
       (\<lambda>(ret, r). if ret \<noteq> 0 then Inr (1, s\<lparr>sr := r\<rparr>) else k (s\<lparr>sr := r\<rparr>))"

definition sr_set_user :: "vns_env \<Rightarrow> vns \<Rightarrow> vns" where
  "sr_set_user e s = s\<lparr>user := strncpy 32 (case login e of None \<Rightarrow> ''something_silly'' | Some n \<Rightarrow> n)\<rparr>"

text \<open>The arguments of the command line that are modelled.\<close>

record sr_options =
  opt_host :: string
  opt_user :: "string option"
  opt_rtable :: string
  opt_template :: "string option"
  opt_topo :: u32

definition default_options :: sr_options where
  "default_options = \<lparr>opt_host = ''vrhost'', opt_user = None, opt_rtable = ''rtable'',
     opt_template = None, opt_topo = 0\<rparr>"

text \<open>The process starts with one thread and no connection. \<open>sr_init\<close> sets up the cache and starts the timeout thread.\<close>

definition sr_init :: "vns \<Rightarrow> vns" where
  "sr_init s = s\<lparr>sr := sr_arpcache_init (sr s), timer := True\<rparr>"

definition sr_init_instance :: "vns \<Rightarrow> vns" where
  "sr_init_instance s = s\<lparr>user := [], host := [], topo_id := 0,
     sr := (sr s)\<lparr>if_list := [], routing_table := []\<rparr>\<rparr>"

definition sr_main :: "vns_env \<Rightarrow> sr_options \<Rightarrow> vns \<Rightarrow> (int \<times> vns) res" where
  "sr_main e opts s =
     (let s = sr_init_instance (s\<lparr>timer := False, written := [], sock_closed := False\<rparr>);
          run = (\<lambda>s. rbind (main_loop e (sr_init s)) (\<lambda>s. Inr (0, s)));
          session = (\<lambda>s.
            let s = s\<lparr>topo_id := ucast (opt_topo opts), host := strncpy 32 (opt_host opts)\<rparr>;
                s = (case opt_user opts of None \<Rightarrow> sr_set_user e s | Some u \<Rightarrow> s\<lparr>user := strncpy 32 u\<rparr>)
            in rbind (sr_connect_to_server e s) (\<lambda>(r, s).
                 if r = - 1 then Inr (1, s)
                 else if opt_template opts \<noteq> None \<and> opt_rtable opts = ''rtable.vrhost''
                   then sr_load_rt_wrap e ''rtable.vrhost'' run s
                   else sr_load_rt_wrap e (opt_rtable opts) run s))
      in case opt_template opts of
           None \<Rightarrow> sr_load_rt_wrap e (opt_rtable opts) session (s\<lparr>templ := []\<rparr>)
         | Some t \<Rightarrow> session (s\<lparr>templ := strncpy 30 t\<rparr>))"

end
