(* ===== verification/Vns_Props.thy ===== *)
theory Vns_Props
  imports Vns Router_Props
begin

text \<open>
  What a session does: messages are taken whole from a stream in pieces, the opening proves the key
  with the SHA-1 of the standard, and the frames that follow are the events of the running router.
\<close>

section \<open>Taking bytes from the stream\<close>

text \<open>The bytes of a schedule; \<open>calm\<close>: neither an error nor the end of the stream.\<close>

fun event_bytes :: "recv_ev \<Rightarrow> byte list" where
  "event_bytes (Data d) = d"
| "event_bytes _ = []"

definition stream :: "recv_ev list \<Rightarrow> byte list" where
  "stream evs = concat (map event_bytes evs)"

lemma stream_simps [simp]:
  "stream [] = []"
  "stream (ev # evs) = event_bytes ev @ stream evs"
  by (simp_all add: stream_def)

fun calm :: "recv_ev \<Rightarrow> bool" where
  "calm Closed \<longleftrightarrow> False"
| "calm Recv_error \<longleftrightarrow> False"
| "calm _ \<longleftrightarrow> True"

text \<open>How many rounds of the timeout thread pass while \<open>m\<close> bytes are read, and what is left.\<close>

fun cut :: "nat \<Rightarrow> recv_ev list \<Rightarrow> nat \<times> recv_ev list" where
  "cut m [] = (0, [])"
| "cut m (ev # evs) =
     (if m = 0 then (0, ev # evs)
      else case ev of
        Data d \<Rightarrow> if length d \<le> m then cut (m - length d) evs else (0, Data (drop m d) # evs)
      | Tick \<Rightarrow> (Suc (fst (cut m evs)), snd (cut m evs))
      | _ \<Rightarrow> cut m evs)"

lemma cut_rest:
  "list_all calm evs \<Longrightarrow> m \<le> length (stream evs) \<Longrightarrow>
   list_all calm (snd (cut m evs)) \<and> stream (snd (cut m evs)) = drop m (stream evs)"
proof (induction m evs rule: cut.induct)
  case (2 m ev evs)
  then show ?case by (cases ev) auto
qed simp

definition ticks :: "vns_env \<Rightarrow> nat \<Rightarrow> vns \<Rightarrow> vns res" where
  "ticks e k = run_events (\<lambda>_. tick e) (replicate k ())"

lemma ticks_simps [simp]:
  "ticks e 0 s = Inr s"
  "ticks e (Suc k) s = rbind (tick e s) (ticks e k)"
  by (simp_all add: ticks_def)

lemma rbind_assoc: "rbind (rbind m f) g = rbind m (\<lambda>x. rbind (f x) g)"
  by (cases m) simp_all

lemma tick_incoming: "tick e (s\<lparr>incoming := evs\<rparr>) = rbind (tick e s) (\<lambda>s. Inr (s\<lparr>incoming := evs\<rparr>))"
  by (cases "sr_arpcache_timeout (tm e) (sr s)") (simp_all add: tick_def)

lemma recv_calm:
  "list_all calm evs \<Longrightarrow> length acc \<le> n \<Longrightarrow> n \<le> length (acc @ stream evs) \<Longrightarrow>
   server_read e n acc evs s = rbind (ticks e (fst (cut (n - length acc) evs)) s)
     (\<lambda>s. Inr (Some (take n (acc @ stream evs)), s\<lparr>incoming := snd (cut (n - length acc) evs)\<rparr>))"
proof (induction e n acc evs s rule: server_read.induct)
  case (2 e n acc ev evs s)
  show ?case
  proof (cases "n = length acc")
    case False
    then have n: "length acc < n" using 2 by simp
    show ?thesis
    proof (cases ev)
      case (Data d)
      then show ?thesis using 2 n by (auto simp: diff_diff_left)
    next
      case Tick
      have "rbind (tick e s) (server_read e n acc evs) = rbind (tick e s) (\<lambda>s1. rbind (ticks e (fst (cut (n - length acc) evs)) s1)
        (\<lambda>s. Inr (Some (take n (acc @ stream evs)), s\<lparr>incoming := snd (cut (n - length acc) evs)\<rparr>)))"
        by (rule rbind_cong) (use 2 Tick n in auto)
      then show ?thesis using Tick n by (simp add: rbind_assoc)
    qed (use 2 n in auto)
  qed simp
qed simp

text \<open>The rounds are events of the router once its thread runs, and nothing before.\<close>

lemma ticks_timer:
  "timer s \<Longrightarrow> ticks e k s
     = rbind (run_events (router_step (tm e)) (replicate k Ev_second) (sr s)) (\<lambda>r. Inr (s\<lparr>sr := r\<rparr>))"
  by (induction k arbitrary: s) (simp_all add: tick_def rbind_assoc)

lemma ticks_no_timer: "\<not> timer s \<Longrightarrow> ticks e k s = Inr s"
  by (induction k) (simp_all add: tick_def)

section \<open>Messages\<close>

definition message :: "u32 \<Rightarrow> byte list \<Rightarrow> byte list" where
  "message mType body = header (8 + length body) mType @ body"

lemma length_header [simp]: "length (header n t) = 8"
  by (simp add: header_def be32_def)

lemma load32_append: "i + 4 \<le> length p \<Longrightarrow> load32 (p @ q) i = load32 p i"
  by (simp add: load32_def nth_append)

lemma load32_append2: "length p \<le> i \<Longrightarrow> load32 (p @ q) i = load32 q (i - length p)"
  by (simp add: load32_def nth_append Suc_diff_le)

lemma message_fields:
  "ntohl (load32 (take 4 (message t b)) 0) = of_nat (8 + length b)" "ntohl (load32 (message t b) 4) = t"
  "length (message t b) = 8 + length b" "take 4 (message t b) @ take n (drop 4 (message t b) @ q) = take (4 + n) (message t b @ q)"
  by (simp_all add: message_def header_def be32_def load32_append load32_append2 take_add)

lemma sint_of_nat_small: "n < 2147483648 \<Longrightarrow> sint (of_nat n :: u32) = int n"
  by (simp add: sint_u32_small unat_of_nat)

text \<open>A whole message is read, whatever the pieces.\<close>

lemma read_message:
  assumes "list_all calm (incoming s)" "stream (incoming s) = message t b @ rest" "length b \<le> 9992"
  obtains k evs where "list_all calm evs" "stream evs = rest"
    "sr_read_from_server_expect e x s = rbind (ticks e k s) (\<lambda>s.
       if x \<noteq> 0 \<and> t \<noteq> x \<and> t \<noteq> VNSCLOSE then Inr (- 1, s\<lparr>incoming := evs\<rparr>)
       else vns_dispatch e t (message t b) (s\<lparr>incoming := evs\<rparr>))"
proof -
  define m where "m = message t b"
  have len: "length m = 8 + length b" "sint (ntohl (load32 (take 4 m) 0)) = 8 + int (length b)" "ntohl (load32 m 4) = t"
    using sint_of_nat_small [of "8 + length b"] assms(3) by (simp_all add: m_def message_fields)
  obtain k1 evs1 where c1: "cut 4 (incoming s) = (k1, evs1)" by fastforce
  have e1: "list_all calm evs1" "stream evs1 = drop 4 m @ rest"
    using cut_rest [OF assms(1), of 4] assms(2) len(1) c1 by (simp_all add: m_def [symmetric])
  obtain k2 evs2 where c2: "cut (4 + length b) evs1 = (k2, evs2)" by fastforce
  have e2: "list_all calm evs2" "stream evs2 = rest"
    using cut_rest [OF e1(1), of "4 + length b"] e1(2) len(1) c2 by simp_all
  have r1: "server_read e 4 [] (incoming s) s = rbind (ticks e k1 s) (\<lambda>s. Inr (Some (take 4 m), s\<lparr>incoming := evs1\<rparr>))"
    using recv_calm [OF assms(1), of "[]" 4 e s] assms(2) len(1) c1 by (simp add: m_def [symmetric])
  have r2: "server_read e (4 + length b) [] evs1 s = rbind (ticks e k2 s) (\<lambda>s. Inr (Some (drop 4 m), s\<lparr>incoming := evs2\<rparr>))" for s
    using recv_calm [OF e1(1), of "[]" "4 + length b" e s] e1(2) len(1) c2 by simp
  have n: "nat (8 + int (length b)) - 4 = 4 + length b" by simp
  have inc: "ticks e k (s\<lparr>incoming := evs\<rparr>) = rbind (ticks e k s) (\<lambda>s. Inr (s\<lparr>incoming := evs\<rparr>))" for k s evs
  proof (induction k arbitrary: s)
    case (Suc k)
    show ?case by (cases "tick e s") (simp_all add: tick_incoming Suc)
  qed simp
  have two: "rbind (ticks e k1 s) (ticks e k2) = ticks e (k1 + k2) s"
    by (induction k1 arbitrary: s) (simp_all add: rbind_assoc)
  have "sr_read_from_server_expect e x s = rbind (ticks e (k1 + k2) s) (\<lambda>s.
       if x \<noteq> 0 \<and> t \<noteq> x \<and> t \<noteq> VNSCLOSE then Inr (- 1, s\<lparr>incoming := evs2\<rparr>)
       else vns_dispatch e t m (s\<lparr>incoming := evs2\<rparr>))"
    unfolding sr_read_from_server_expect_def r1 two [symmetric]
    using assms(3) by (simp add: rbind_assoc len(2,3) r2 n inc)
  from that [OF e2 this [unfolded m_def]] show ?thesis .
qed

section \<open>The opening of a session\<close>

definition digest_bytes :: "u32 \<times> u32 \<times> u32 \<times> u32 \<times> u32 \<Rightarrow> byte list" where
  "digest_bytes d = (case d of (a, b, c, d, e) \<Rightarrow>
     bytes32 (htonl a) @ bytes32 (htonl b) @ bytes32 (htonl c) @ bytes32 (htonl d) @ bytes32 (htonl e))"

lemma command_codes:
  "VNS_AUTH_REQUEST \<noteq> 0" "VNS_AUTH_STATUS \<noteq> 0"
  "vns_dispatch e VNS_AUTH_REQUEST buf s = rbind (sr_handle_auth_request e buf s) (\<lambda>(ok, s). Inr (if ok then 1 else - 1, s))"
  "vns_dispatch e VNS_AUTH_STATUS buf s = rbind (sr_handle_auth_status buf s) (\<lambda>ok. Inr (if ok then 1 else - 1, s))"
  "vns_dispatch e VNSPACKET buf s = read_packet e buf s"
  "vns_dispatch e VNSCLOSE buf s = prints 8 buf (Inr (0, s))"
  by (simp_all add: vns_dispatch_def VNSPACKET_def VNSCLOSE_def VNSBANNER_def VNSHWINFO_def VNS_RTABLE_def
      VNS_AUTH_REQUEST_def VNS_AUTH_STATUS_def)

lemma drop_message: "drop 8 (message t b) = b"
  by (simp add: message_def)

text \<open>A key of 64 characters is read whole, whatever follows it.\<close>

lemma fgets_full: "CHR 0x0A \<notin> set key \<Longrightarrow> fgets (length key) (key @ cs) = (key, cs)"
  by (induction key) auto

lemma read_key_full:
  assumes "length key = 64" "CHR 0x0A \<notin> set key"
  shows "\<exists>k. read_key e (key @ cs) = Some k \<and> take AUTH_KEY_LEN k = to_bytes key"
proof -
  have "fgets AUTH_KEY_LEN (key @ cs) = (key, cs)" using fgets_full [OF assms(2), of cs] assms(1) by (simp add: AUTH_KEY_LEN_def)
  moreover obtain c l where "key = c # l" using assms(1) by (cases key) auto
  ultimately show ?thesis using assms(1) by (simp add: read_key_def AUTH_KEY_LEN_def to_bytes_def)
qed

lemma auth_request_answered:
  assumes "files s ''auth_key'' = Some (key @ cs)" "length key = 64" "CHR 0x0A \<notin> set key"
    and "length (Message_Block (new_sha e)) = 64" "length salt \<le> 9992" "length (user s) < 32"
  shows "sr_handle_auth_request e (message VNS_AUTH_REQUEST salt) s =
    (let reply = message VNS_AUTH_REPLY (be32 (length (user s)) @ to_bytes (user s) @ digest_bytes (fips_sha1 (salt @ to_bytes key)))
     in Inr (if sends e reply then (True, s\<lparr>written := written s @ [reply]\<rparr>) else (False, s)))"
proof -
  obtain k where k: "read_key e (key @ cs) = Some k" "take AUTH_KEY_LEN k = to_bytes key"
    using read_key_full [OF assms(2,3)] by blast
  have "8 * length (concat [salt, to_bytes key]) < 2 ^ 64" using assms(2,5) by (simp add: to_bytes_def)
  then obtain c where c: "SHA1Result (SHA1Input (to_bytes key) (SHA1Input salt (SHA1Reset (new_sha e)))) = (True, c)"
    "Message_Digest c = fips_sha1 (salt @ to_bytes key)"
    using digest_of_pieces [OF assms(4), of "[salt, to_bytes key]"] by auto
  have "auth_reply (user s) d = message VNS_AUTH_REPLY (be32 (length (user s)) @ to_bytes (user s) @ digest_bytes d)" for d
    by (simp add: auth_reply_def message_def digest_bytes_def be32_def to_bytes_def split: prod.splits)
  then show ?thesis using assms(1,6) k c by (simp add: sr_handle_auth_request_def drop_message fits_def)
qed

text \<open>
  C32: The opening of a session, whatever pieces the stream arrives in: the router answers the
  server's salt with the SHA-1 of the standard of the salt followed by the key of its file, and asks
  for its topology if and only if the server then accepts the user. (The text of a refusal must end
  with a NUL, or it is printed past the end of the message.)
\<close>
theorem session_opens:
  assumes "connects e" "\<And>m. sends e m" "\<not> timer s" "templ s = []" "length (user s) < 32"
    and "length (Message_Block (new_sha e)) = 64"
    and "files s ''auth_key'' = Some (key @ cs)" "length key = 64" "CHR 0x0A \<notin> set key"
    and "list_all calm (incoming s)" "length salt \<le> 9992" "length text \<le> 9000"
      "ok = 0 \<longrightarrow> 0 \<in> set text"
    and "stream (incoming s) = message VNS_AUTH_REQUEST salt @ message VNS_AUTH_STATUS (ok # text) @ rest"
  shows "\<exists>evs. list_all calm evs \<and> stream evs = rest \<and> sr_connect_to_server e s =
    (let reply = message VNS_AUTH_REPLY (be32 (length (user s)) @ to_bytes (user s) @ digest_bytes (fips_sha1 (salt @ to_bytes key)));
         t = s\<lparr>incoming := evs, written := written s @ [reply]\<rparr>
     in Inr (if ok \<noteq> 0 then (0, t\<lparr>written := written t @ [open_message s]\<rparr>) else (- 1, t)))"
proof -
  define reply where "reply = message VNS_AUTH_REPLY (be32 (length (user s)) @ to_bytes (user s) @ digest_bytes (fips_sha1 (salt @ to_bytes key)))"
  obtain k1 evs1 where r1: "list_all calm evs1" "stream evs1 = message VNS_AUTH_STATUS (ok # text) @ rest"
    "sr_read_from_server_expect e VNS_AUTH_REQUEST s = rbind (ticks e k1 s) (\<lambda>s.
       vns_dispatch e VNS_AUTH_REQUEST (message VNS_AUTH_REQUEST salt) (s\<lparr>incoming := evs1\<rparr>))"
    by (rule read_message [OF assms(10,14,11), of e VNS_AUTH_REQUEST]) simp
  define s1 where "s1 = s\<lparr>incoming := evs1, written := written s @ [reply]\<rparr>"
  have a: "sr_read_from_server_expect e VNS_AUTH_REQUEST s = Inr (1, s1)"
    using auth_request_answered [OF _ assms(8,9,6,11), of "s\<lparr>incoming := evs1\<rparr>" cs] assms(2,3,5,7)
    by (simp add: r1(3) ticks_no_timer command_codes reply_def [symmetric] s1_def)
  have "list_all calm (incoming s1)" "stream (incoming s1) = message VNS_AUTH_STATUS (ok # text) @ rest" "length (ok # text) \<le> 9992"
    using r1(1,2) assms(12) by (simp_all add: s1_def)
  then obtain k2 evs2 where r2: "list_all calm evs2" "stream evs2 = rest"
    "sr_read_from_server_expect e VNS_AUTH_STATUS s1 = rbind (ticks e k2 s1) (\<lambda>s.
       vns_dispatch e VNS_AUTH_STATUS (message VNS_AUTH_STATUS (ok # text)) (s\<lparr>incoming := evs2\<rparr>))"
    by (rule read_message [of s1 _ _ _ e VNS_AUTH_STATUS]) simp
  have t: "\<not> timer s1" using assms(3) by (simp add: s1_def)
  have s1: "templ s1 = []" "open_message (s1\<lparr>incoming := evs2\<rparr>) = open_message s"
    using assms(4) by (simp_all add: s1_def open_message_def)
  have b: "sr_read_from_server_expect e VNS_AUTH_STATUS s1 = Inr (if ok \<noteq> 0 then 1 else - 1, s1\<lparr>incoming := evs2\<rparr>)"
  proof -
    have "message VNS_AUTH_STATUS (ok # text) ! 8 = ok"
      "drop 9 (message VNS_AUTH_STATUS (ok # text)) = text"
      by (simp_all add: message_def header_def be32_def nth_append)
    moreover have "length (user s1) < 32" using assms(5) by (simp add: s1_def)
    ultimately show ?thesis
      using assms(13)
      by (auto simp: r2(3) ticks_no_timer [OF t] command_codes sr_handle_auth_status_def need_def
          fits_def prints_def message_fields)
  qed
  have "sr_connect_to_server e s = Inr (if ok \<noteq> 0 then (0, s1\<lparr>incoming := evs2, written := written s1 @ [open_message s]\<rparr>) else (- 1, s1\<lparr>incoming := evs2\<rparr>))"
    using assms(1,2,4) s1 by (simp add: sr_connect_to_server_def expecting_def a b fits_def)
  then show ?thesis using r2(1,2) unfolding reply_def [symmetric] s1_def
    by (intro exI [of _ evs2]) (simp add: Let_def)
qed

section \<open>The main loop\<close>

text \<open>A frame as the server sends it: the name of the interface in 16 bytes, and the frame.\<close>

definition packet_body :: "frame \<times> string \<Rightarrow> byte list" where
  "packet_body f = (case f of (p, name) \<Rightarrow> fixed 16 name @ p)"

definition sendable :: "frame \<times> string \<Rightarrow> bool" where
  "sendable f \<longleftrightarrow> length (fst f) \<le> 9976 \<and> length (snd f) < 16 \<and> NUL \<notin> set (snd f)"

definition is_frame :: "router_event \<Rightarrow> bool" where
  "is_frame ev \<longleftrightarrow> ev \<noteq> Ev_second"

lemma is_frame_simps [simp]: "is_frame (Ev_frame p n)" "\<not> is_frame Ev_second"
  by (simp_all add: is_frame_def)

lemma unat_byte_of_char [simp]: "unat (of_nat (of_char c) :: byte) = of_char c"
proof -
  have "(of_char c :: nat) < 256" by simp
  then show ?thesis by (simp add: unat_of_nat)
qed

lemma byte_of_char_zero: "(of_nat (of_char c) :: byte) = 0 \<longleftrightarrow> c = NUL"
proof -
  have "(of_nat (of_char c) :: byte) = 0 \<longleftrightarrow> unat (of_nat (of_char c) :: byte) = 0"
    by (simp only: unsigned_eq_0_iff)
  also have "\<dots> \<longleftrightarrow> (of_char c :: nat) = of_char NUL" by (simp only: unat_byte_of_char) simp
  finally show ?thesis by (simp only: of_char_eq_iff)
qed

lemma cstring_to_bytes: "NUL \<notin> set n \<Longrightarrow> cstring (to_bytes n @ 0 # q) = n"
  by (induction n) (auto simp: cstring_def to_bytes_def byte_of_char_zero)

lemma packet_is_event:
  assumes "sendable f"
  shows "vns_dispatch e VNSPACKET (message VNSPACKET (packet_body f)) s
    = rbind (router_step (tm e) (Ev_frame (fst f) (snd f)) (sr s)) (\<lambda>r. Inr (1, s\<lparr>sr := r\<rparr>))"
proof -
  obtain p n where f: "f = (p, n)" by fastforce
  have n: "length n < 16" "NUL \<notin> set n" using assms by (simp_all add: sendable_def f)
  obtain k where k: "16 - length n = Suc k" using n(1) by (cases "16 - length n") auto
  have body: "packet_body f = to_bytes n @ 0 # replicate k 0 @ p" "length (to_bytes n) = 15 - k" "k < 16"
    using n(1) k by (simp_all add: packet_body_def f fixed_def to_bytes_def)
  have "drop 24 (message VNSPACKET (packet_body f)) = p"
    using drop_drop [of 16 8 "message VNSPACKET (packet_body f)"] body(2,3)
    by (simp add: drop_message body(1) Suc_diff_le [symmetric])
  moreover have "24 \<le> length (message VNSPACKET (packet_body f))"
    using body(2,3) by (simp add: message_fields body(1))
  ultimately show ?thesis
    using cstring_to_bytes [OF n(2)] body(1) by (simp add: command_codes read_packet_def drop_message f)
qed

lemma main_loop_unfold:
  assumes "sr_read_from_server e s = rbind m (\<lambda>s. Inr (r s, t s))"
  shows "main_loop e s = rbind m (\<lambda>s. if r s = 1 then main_loop e (t s) else Inr (t s))"
  by (subst main_loop.simps) (simp add: assms rbind_assoc)

text \<open>The main loop on frames and a message that ends the session: the events of the router.\<close>

lemma main_loop_events:
  assumes "timer s" "list_all calm (incoming s)" "list_all sendable fs" "length reason \<le> 9992"
    and nul: "0 \<in> set reason"
    and "stream (incoming s) = concat (map (\<lambda>f. message VNSPACKET (packet_body f)) fs) @ message VNSCLOSE reason @ rest"
  shows "\<exists>evs left. filter is_frame evs = map (\<lambda>f. Ev_frame (fst f) (snd f)) fs \<and> stream left = rest
    \<and> main_loop e s = rbind (run_events (router_step (tm e)) evs (sr s)) (\<lambda>r. Inr (s\<lparr>sr := r, incoming := left\<rparr>))"
  using assms(1-4,6)
proof (induction fs arbitrary: s)
  case Nil
  then have "stream (incoming s) = message VNSCLOSE reason @ rest" by simp
  then obtain k left where r: "list_all calm left" "stream left = rest" "sr_read_from_server_expect e 0 s = rbind (ticks e k s) (\<lambda>s.
       vns_dispatch e VNSCLOSE (message VNSCLOSE reason) (s\<lparr>incoming := left\<rparr>))"
    by (rule read_message [OF Nil.prems(2) _ Nil.prems(4), of _ _ e 0]) simp
  have "main_loop e s = rbind (ticks e k s) (\<lambda>s. if (0 :: int) = 1 then main_loop e (s\<lparr>incoming := left\<rparr>) else Inr (s\<lparr>incoming := left\<rparr>))"
    using nul by (intro main_loop_unfold)
      (simp add: sr_read_from_server_def r(3) command_codes prints_def drop_message)
  then show ?case using Nil.prems(1) r(2)
    by (intro exI [of _ "replicate k Ev_second"] exI [of _ left]) (simp add: ticks_timer rbind_assoc is_frame_def)
next
  case (Cons f fs)
  define m where "m = concat (map (\<lambda>f. message VNSPACKET (packet_body f)) fs) @ message VNSCLOSE reason @ rest"
  have f: "sendable f" "list_all sendable fs" using Cons.prems(3) by simp_all
  have "length (packet_body f) \<le> 9992" using f(1) by (auto simp: sendable_def packet_body_def fixed_def to_bytes_def split: prod.splits)
  moreover have "stream (incoming s) = message VNSPACKET (packet_body f) @ m" using Cons.prems(5) by (simp add: m_def)
  ultimately obtain k evs1 where r: "list_all calm evs1" "stream evs1 = m"
    "sr_read_from_server_expect e 0 s = rbind (ticks e k s) (\<lambda>s.
       vns_dispatch e VNSPACKET (message VNSPACKET (packet_body f)) (s\<lparr>incoming := evs1\<rparr>))"
    using read_message [OF Cons.prems(2), of VNSPACKET "packet_body f" m e 0 thesis] by auto
  define g where "g = (\<lambda>r. s\<lparr>incoming := evs1, sr := r\<rparr>)"
  define now where "now = rbind (run_events (router_step (tm e)) (replicate k Ev_second) (sr s)) (router_step (tm e) (Ev_frame (fst f) (snd f)))"
  have loop: "main_loop e s = rbind now (\<lambda>r. main_loop e (g r))"
    unfolding now_def using main_loop_unfold [of e s now "\<lambda>_. 1" g]
    by (simp add: sr_read_from_server_def r(3) packet_is_event [OF f(1)] ticks_timer [OF Cons.prems(1)] rbind_assoc now_def g_def)
  have ih: "\<exists>evs left. filter is_frame evs = map (\<lambda>f. Ev_frame (fst f) (snd f)) fs \<and> stream left = rest
    \<and> main_loop e (g r1) = rbind (run_events (router_step (tm e)) evs r1) (\<lambda>r. Inr ((g r1)\<lparr>sr := r, incoming := left\<rparr>))" for r1
    using Cons.IH [of "g r1"] Cons.prems(1,4) f(2) r(1,2) by (simp add: g_def m_def)
  have run: "run_events (router_step (tm e)) (replicate k Ev_second @ Ev_frame (fst f) (snd f) # evs) (sr s)
    = rbind now (run_events (router_step (tm e)) evs)" for evs
    unfolding router.run_append now_def
    by (cases "run_events (router_step (tm e)) (replicate k Ev_second) (sr s)") simp_all
  show ?case
  proof (cases now)
    case (Inl x)
    obtain evs left where "filter is_frame evs = map (\<lambda>f. Ev_frame (fst f) (snd f)) fs" "stream left = rest"
      using ih by blast
    then show ?thesis using loop Inl
      by (intro exI [of _ "replicate k Ev_second @ Ev_frame (fst f) (snd f) # evs"] exI [of _ left])
        (simp add: run)
  next
    case (Inr r1)
    obtain evs left where e: "filter is_frame evs = map (\<lambda>f. Ev_frame (fst f) (snd f)) fs" "stream left = rest"
      "main_loop e (g r1) = rbind (run_events (router_step (tm e)) evs r1) (\<lambda>r. Inr ((g r1)\<lparr>sr := r, incoming := left\<rparr>))"
      using ih by blast
    then show ?thesis using loop Inr
      by (intro exI [of _ "replicate k Ev_second @ Ev_frame (fst f) (snd f) # evs"] exI [of _ left])
        (simp add: run g_def)
  qed
qed

text \<open>
  C20: Frames in any pieces, between them rounds of the timeout thread, then the message that ends
  the session, whose reason holds a NUL: the main loop returns, never reads outside a message, and
  leaves the router as the frames and rounds leave it one after the other, each frame once and in
  order.
\<close>
theorem session_handles_frames:
  assumes "router_inv ifs rts (sr s)" "timer s" "list_all calm (incoming s)"
    and "length reason \<le> 9992" "0 \<in> set reason"
    and "list_all sendable fs" "list_all (\<lambda>(p, n). event_ok ifs (Ev_frame p n)) fs"
    and "stream (incoming s) = concat (map (\<lambda>f. message VNSPACKET (packet_body f)) fs) @ message VNSCLOSE reason @ rest"
  shows "\<exists>evs s'. filter is_frame evs = map (\<lambda>(p, n). Ev_frame p n) fs \<and> main_loop e s = Inr s'
    \<and> run_events (router_step (tm e)) evs (sr s) = Inr (sr s') \<and> router_inv ifs rts (sr s') \<and> stream (incoming s') = rest"
proof -
  obtain evs left where e: "filter is_frame evs = map (\<lambda>f. Ev_frame (fst f) (snd f)) fs" "stream left = rest"
    "main_loop e s = rbind (run_events (router_step (tm e)) evs (sr s)) (\<lambda>r. Inr (s\<lparr>sr := r, incoming := left\<rparr>))"
    using main_loop_events [OF assms(2,3,6,4,5,8)] by blast
  have "event_ok ifs ev" if "ev \<in> set evs" for ev
  proof (cases "is_frame ev")
    case True
    then have "ev \<in> set (filter is_frame evs)" using that by simp
    then show ?thesis using assms(7) unfolding e(1) by (auto simp: list_all_iff)
  qed (simp add: is_frame_def)
  then have "list_all (event_ok ifs) evs" by (simp add: list_all_iff)
  then obtain r where "run_events (router_step (tm e)) evs (sr s) = Inr r" "router_inv ifs rts r"
    using router.run_total [OF assms(1)] by blast
  then show ?thesis using e by (intro exI [of _ evs] exI [of _ "s\<lparr>sr := r, incoming := left\<rparr>"]) (simp add: case_prod_beta')
qed

text \<open>A stream that ends, or a message whose length is too small for its type.\<close>

lemma closed_stream_waits: "incoming s = Closed # evs \<Longrightarrow> main_loop e s = Inl No_return"
  by (subst main_loop.simps) (simp add: sr_read_from_server_def sr_read_from_server_expect_def)

lemma short_message_overruns:
  assumes "incoming s = [Data (be32 n @ b)]" "n < 8" "length b = n - 4"
  shows "main_loop e s = Inl Overrun"
  using assms sint_of_nat_small [of n]
  by (subst main_loop.simps)
    (auto simp: sr_read_from_server_def sr_read_from_server_expect_def be32_def Let_def)

section \<open>Instances\<close>

definition demo_env :: vns_env where
  "demo_env = \<lparr>tm = (\<lambda>n. 100 * int n), new_if = demo_ifs ! 0, new_sha = some_context, new_key = replicate 65 0,
     new_words = replicate 4 [], aton = (\<lambda>_. Some 0), sends = (\<lambda>_. True), writable = (\<lambda>_. True),
     connects = True, login = None\<rparr>"

definition demo_vns :: "bool \<Rightarrow> recv_ev list \<Rightarrow> vns" where
  "demo_vns t evs = \<lparr>sr = demo_router [] [], timer = t, incoming = evs, written = [], sock_closed = False,
     files = [''auth_key'' \<mapsto> replicate 64 (CHR ''k'') @ [CHR 0x0A]], user = ''me'', host = ''vrhost'',
     templ = [], topo_id = 7\<rparr>"

theorem session_opens_witness:
  "\<exists>evs s'. stream evs = [5] \<and> sr_connect_to_server demo_env
      (demo_vns False [Data (take 5 (message VNS_AUTH_REQUEST [1, 2, 3])), Tick,
         Data (drop 5 (message VNS_AUTH_REQUEST [1, 2, 3]) @ message VNS_AUTH_STATUS [1]), Intr, Data [5]])
    = Inr (0, s') \<and> length (written s') = 2 \<and> incoming s' = evs"
  using session_opens [of demo_env "demo_vns False [Data (take 5 (message VNS_AUTH_REQUEST [1, 2, 3])), Tick,
         Data (drop 5 (message VNS_AUTH_REQUEST [1, 2, 3]) @ message VNS_AUTH_STATUS [1]), Intr, Data [5]]"
      "replicate 64 (CHR ''k'')" "[CHR 0x0A]" "[1, 2, 3]" "[]" 1 "[5]"]
  by (auto simp: demo_env_def demo_vns_def some_context_def Let_def append_assoc [symmetric] simp del: append_assoc)

definition demo_frames :: "(frame \<times> string) list" where
  "demo_frames = [(demo_frame 9 17 0x0500000A (replicate 8 1), ''eth0''), (demo_reply, ''eth1'')]"

definition demo_stream :: "byte list" where
  "demo_stream = concat (map (\<lambda>f. message VNSPACKET (packet_body f)) demo_frames) @ message VNSCLOSE [0]"

theorem session_handles_frames_witness:
  "\<exists>evs s'. filter is_frame evs = map (\<lambda>(p, n). Ev_frame p n) demo_frames
    \<and> main_loop demo_env (demo_vns True [Data (take 3 demo_stream), Tick, Data (drop 3 demo_stream)]) = Inr s'
    \<and> run_events (router_step (tm demo_env)) evs (demo_router [] []) = Inr (sr s')"
proof -
  let ?s = "demo_vns True [Data (take 3 demo_stream), Tick, Data (drop 3 demo_stream)]"
  have "list_all (\<lambda>(p, n). event_ok demo_ifs (Ev_frame p n)) demo_frames" "list_all sendable demo_frames"
    by (simp_all add: demo_frames_def demo_frame_fields demo_reply_fields ETH_SIZE_def ARP_SIZE_def has_if_def
        demo_ifs_def strncmp_eq_def sendable_def)
  moreover have "sr ?s = demo_router [] []" "timer ?s" "list_all calm (incoming ?s)" "stream (incoming ?s) = demo_stream"
    by (simp_all add: demo_vns_def)
  moreover have "demo_stream = concat (map (\<lambda>f. message VNSPACKET (packet_body f)) demo_frames) @ message VNSCLOSE [0] @ []"
    by (simp add: demo_stream_def)
  ultimately have "\<exists>evs s'. filter is_frame evs = map (\<lambda>(p, n). Ev_frame p n) demo_frames \<and> main_loop demo_env ?s = Inr s'
    \<and> run_events (router_step (tm demo_env)) evs (sr ?s) = Inr (sr s') \<and> router_inv demo_ifs demo_rts (sr s') \<and> stream (incoming s') = []"
    using demo_empty_inv by (intro session_handles_frames [of _ _ _ "[0]"]) simp_all
  then show ?thesis using \<open>sr ?s = demo_router [] []\<close> by metis
qed

end
