(* ===== verification/Debug.thy ===== *)
theory Debug
  imports Prelude
begin

text \<open>
  The debug monitors of chitcpd (\<open>breakpoint.c\<close>): a client that watches a socket is asked at each
  breakpoint what to do. A monitor is shared by the sockets it was handed on to, counts them and the
  threads that wait for it, and is destroyed by the last thread that lets go of it. The threads run
  concurrently: a step is what one does between taking a mutex and releasing it.
\<close>

section \<open>The state\<close>

text \<open>
  A monitor is named by its place in the list of all that were allocated. \<open>holder\<close> is the thread
  that holds \<open>lock_sockfd\<close>. \<open>mon_freed\<close> is set by \<open>debug_mon_destroy\<close>.
\<close>

record debug_monitor =
  holder :: "nat option"
  numwaiters :: int
  dying :: bool
  mon_sockfd :: int
  ref_count :: int
  mon_freed :: bool

text \<open>What the monitors use of a socket entry.\<close>

record debug_entry =
  de_available :: bool
  de_monitor :: "nat option"
  de_flags :: u32

text \<open>
  Where a thread is: outside; in \<open>chitcpd_debug_breakpoint\<close> for a socket, event and new socket,
  waiting for the monitor, past \<open>debug_mon_lock\<close>, before the exchange of messages, with the
  response, at the test of \<open>dying\<close>, in the loop that removes the monitor, at its release; in
  \<open>chitcpd_free_socket_entry\<close> past the test of the pointer, with the pointer it read, waiting, locked,
  at the release, and at the end.
\<close>

datatype debug_pc =
    Idle
  | Waiting nat nat u32 nat
  | Locked nat nat u32 nat
  | Exchanging nat nat u32 nat
  | Replied nat nat u32 nat int
  | Checking nat int
  | Removing nat nat int
  | Releasing nat int
  | Answered int
  | Freeing nat
  | Detaching "nat option" nat
  | Detach_waiting nat nat
  | Detach_locked nat nat
  | Detach_release nat nat
  | Clearing nat

record debug_sys =
  running :: bool
  monitors :: "debug_monitor list"
  sockets :: "debug_entry list"
  pcs :: "debug_pc list"

definition DBG_EVT_PENDING_CONNECTION :: u32 where
  "DBG_EVT_PENDING_CONNECTION = 8"

definition RESP_NONE :: int where
  "RESP_NONE = 0"

definition RESP_STOP :: int where
  "RESP_STOP = 1"

definition RESP_ACCEPT_MONITOR :: int where
  "RESP_ACCEPT_MONITOR = 2"

definition goto :: "nat \<Rightarrow> debug_pc \<Rightarrow> debug_sys \<Rightarrow> debug_sys" where
  "goto t p s = s\<lparr>pcs := (pcs s)[t := p]\<rparr>"

definition upd_mon :: "nat \<Rightarrow> (debug_monitor \<Rightarrow> debug_monitor) \<Rightarrow> debug_sys \<Rightarrow> debug_sys" where
  "upd_mon m f s = s\<lparr>monitors := (monitors s)[m := f (monitors s ! m)]\<rparr>"

definition upd_sock :: "nat \<Rightarrow> (debug_entry \<Rightarrow> debug_entry) \<Rightarrow> debug_sys \<Rightarrow> debug_sys" where
  "upd_sock e f s = s\<lparr>sockets := (sockets s)[e := f (sockets s ! e)]\<rparr>"

text \<open>Any use of a monitor that was destroyed.\<close>

definition use_mon :: "nat \<Rightarrow> debug_sys \<Rightarrow> debug_sys res \<Rightarrow> debug_sys res" where
  "use_mon m s r = (if mon_freed (monitors s ! m) then Inl Freed else r)"

section \<open>Operations\<close>

definition new_monitor :: "int \<Rightarrow> debug_monitor" where
  "new_monitor client = \<lparr>holder = None, numwaiters = 0, dying = False, mon_sockfd = client, ref_count = 1, mon_freed = False\<rparr>"

definition valid_socket :: "debug_sys \<Rightarrow> int \<Rightarrow> bool" where
  "valid_socket s sockfd \<longleftrightarrow> 0 \<le> sockfd \<and> sockfd < int (length (sockets s)) \<and> \<not> de_available (sockets s ! nat sockfd)"

text \<open>The errors are \<open>EBADF\<close> and \<open>EAGAIN\<close>; \<open>malloc\<close> is taken to succeed.\<close>

definition chitcpd_init_debug_connection :: "int \<Rightarrow> u32 \<Rightarrow> int \<Rightarrow> debug_sys \<Rightarrow> int \<times> debug_sys" where
  "chitcpd_init_debug_connection sockfd event_flags client s =
     (if \<not> valid_socket s sockfd then (9, s)
      else if de_monitor (sockets s ! nat sockfd) \<noteq> None then (11, s)
      else (0, upd_sock (nat sockfd) (\<lambda>d. d\<lparr>de_flags := event_flags, de_monitor := Some (length (monitors s))\<rparr>)
                 (s\<lparr>monitors := monitors s @ [new_monitor client]\<rparr>)))"

definition valid_parameters :: "debug_sys \<Rightarrow> int \<Rightarrow> bool" where
  "valid_parameters s sockfd \<longleftrightarrow> running s \<and> valid_socket s sockfd"

definition socket_monitors_event :: "debug_entry \<Rightarrow> u32 \<Rightarrow> bool" where
  "socket_monitors_event d ev \<longleftrightarrow> de_monitor d \<noteq> None \<and> ev AND de_flags d \<noteq> 0"

text \<open>\<open>debug_mon_lock\<close>: the thread joins the waiters, then takes the mutex and leaves them.\<close>

definition join_waiters :: "nat \<Rightarrow> debug_sys \<Rightarrow> debug_sys" where
  "join_waiters m = upd_mon m (\<lambda>d. d\<lparr>numwaiters := numwaiters d + 1\<rparr>)"

definition take_lock :: "nat \<Rightarrow> nat \<Rightarrow> debug_sys \<Rightarrow> debug_sys" where
  "take_lock t m = upd_mon m (\<lambda>d. d\<lparr>holder := Some t, numwaiters := numwaiters d - 1\<rparr>)"

text \<open>The first half of \<open>obtain_debug_mon\<close>, under the entry's mutex.\<close>

definition enter_breakpoint :: "nat \<Rightarrow> int \<Rightarrow> u32 \<Rightarrow> nat \<Rightarrow> debug_sys \<Rightarrow> debug_sys res" where
  "enter_breakpoint t sockfd ev new s =
     (if \<not> valid_parameters s sockfd then Inr (goto t (Answered RESP_NONE) s)
      else let d = sockets s ! nat sockfd in
        if \<not> socket_monitors_event d ev then Inr (goto t (Answered RESP_NONE) s)
        else let m = the (de_monitor d) in
          use_mon m s (Inr (goto t (Waiting m (nat sockfd) ev new) (join_waiters m s))))"

text \<open>The second half: the monitor may have left the socket meanwhile.\<close>

definition still_monitored :: "nat \<Rightarrow> nat \<Rightarrow> nat \<Rightarrow> u32 \<Rightarrow> nat \<Rightarrow> debug_sys \<Rightarrow> debug_sys res" where
  "still_monitored t m e ev new s =
     Inr (goto t (if de_monitor (sockets s ! e) \<noteq> Some m then Releasing m RESP_NONE else Exchanging m e ev new) s)"

text \<open>The client's answer: None if the exchange fails.\<close>

definition exchange_breakpoint_messages ::
  "nat \<Rightarrow> nat \<Rightarrow> nat \<Rightarrow> u32 \<Rightarrow> nat \<Rightarrow> int option \<Rightarrow> debug_sys \<Rightarrow> debug_sys res" where
  "exchange_breakpoint_messages t m e ev new reply s =
     use_mon m s
       (case reply of
          None \<Rightarrow> Inr (goto t (Replied m e ev new RESP_NONE) (upd_mon m (\<lambda>d. d\<lparr>dying := True\<rparr>) s))
        | Some ret \<Rightarrow> if ret < 0 then Inl Assert_fail else Inr (goto t (Replied m e ev new ret) s))"

definition detach_monitor_from_entry :: "nat \<Rightarrow> nat \<Rightarrow> debug_sys \<Rightarrow> debug_sys" where
  "detach_monitor_from_entry m e s =
     (if de_monitor (sockets s ! e) = Some m then
        upd_mon m (\<lambda>d. d\<lparr>ref_count := ref_count d - 1, dying := (if ref_count d - 1 = 0 then True else dying d)\<rparr>)
          (upd_sock e (\<lambda>d. d\<lparr>de_monitor := None, de_flags := 0\<rparr>) s)
      else s)"

definition attach_monitor_and_flags_to_entry :: "nat \<Rightarrow> u32 \<Rightarrow> nat \<Rightarrow> debug_sys \<Rightarrow> debug_sys res" where
  "attach_monitor_and_flags_to_entry m event_flags e s =
     (if length (sockets s) \<le> e then Inl Overrun
      else Inr (upd_mon m (\<lambda>d. d\<lparr>ref_count := ref_count d + 1\<rparr>)
        (upd_sock e (\<lambda>d. d\<lparr>de_monitor := Some m, de_flags := event_flags\<rparr>) s)))"

definition handle_special_breakpoint_responses ::
  "nat \<Rightarrow> nat \<Rightarrow> u32 \<Rightarrow> nat \<Rightarrow> int \<Rightarrow> debug_sys \<Rightarrow> (int \<times> debug_sys) res" where
  "handle_special_breakpoint_responses m e ev new response s =
     (if response = RESP_STOP then Inr (RESP_NONE, detach_monitor_from_entry m e s)
      else if response = RESP_ACCEPT_MONITOR \<and> ev = DBG_EVT_PENDING_CONNECTION then
        rbind (attach_monitor_and_flags_to_entry m (de_flags (sockets s ! e)) new s) (\<lambda>s. Inr (RESP_NONE, s))
      else Inr (response, s))"

definition after_exchange :: "nat \<Rightarrow> nat \<Rightarrow> nat \<Rightarrow> u32 \<Rightarrow> nat \<Rightarrow> int \<Rightarrow> debug_sys \<Rightarrow> debug_sys res" where
  "after_exchange t m e ev new response s =
     use_mon m s (rbind (handle_special_breakpoint_responses m e ev new response s)
       (\<lambda>(r, s). Inr (goto t (Checking m r) s)))"

definition check_dying :: "nat \<Rightarrow> nat \<Rightarrow> int \<Rightarrow> debug_sys \<Rightarrow> debug_sys res" where
  "check_dying t m r s =
     use_mon m s (Inr (goto t (if dying (monitors s ! m) then Removing m 0 r else Releasing m r) s))"

text \<open>A turn of the loop of \<open>debug_mon_remove_from_chisocket_table\<close>.\<close>

definition remove_turn :: "nat \<Rightarrow> nat \<Rightarrow> nat \<Rightarrow> int \<Rightarrow> debug_sys \<Rightarrow> debug_sys res" where
  "remove_turn t m i r s =
     (if i < length (sockets s)
      then use_mon m s (Inr (goto t (Removing m (Suc i) r) (detach_monitor_from_entry m i s)))
      else Inr (goto t (Releasing m r) s))"

definition debug_mon_destroy :: "nat \<Rightarrow> debug_sys \<Rightarrow> debug_sys" where
  "debug_mon_destroy m = upd_mon m (\<lambda>d. d\<lparr>mon_freed := True, holder := None\<rparr>)"

definition debug_mon_unlock :: "nat \<Rightarrow> debug_sys \<Rightarrow> debug_sys" where
  "debug_mon_unlock m = upd_mon m (\<lambda>d. d\<lparr>holder := None\<rparr>)"

definition debug_mon_release :: "nat \<Rightarrow> debug_sys \<Rightarrow> debug_sys" where
  "debug_mon_release m s =
     (if dying (monitors s ! m) \<and> numwaiters (monitors s ! m) = 0
      then debug_mon_destroy m s else debug_mon_unlock m s)"

text \<open>
  \<open>chitcpd_free_socket_entry\<close> as far as the monitor goes: the pointer is tested, read again by
  \<open>chitcpd_debug_detach_monitor\<close>, both times without the entry's mutex, then locked.
\<close>

definition free_test :: "nat \<Rightarrow> nat \<Rightarrow> debug_sys \<Rightarrow> debug_sys res" where
  "free_test t e s = Inr (goto t (if de_monitor (sockets s ! e) \<noteq> None then Freeing e else Clearing e) s)"

definition detach_read :: "nat \<Rightarrow> nat \<Rightarrow> debug_sys \<Rightarrow> debug_sys res" where
  "detach_read t e s = Inr (goto t (Detaching (de_monitor (sockets s ! e)) e) s)"

definition detach_join :: "nat \<Rightarrow> nat option \<Rightarrow> nat \<Rightarrow> debug_sys \<Rightarrow> debug_sys res" where
  "detach_join t p e s =
     (case p of
        None \<Rightarrow> Inl Null_deref
      | Some m \<Rightarrow> use_mon m s (Inr (goto t (Detach_waiting m e) (join_waiters m s))))"

definition clear_entry :: "nat \<Rightarrow> nat \<Rightarrow> debug_sys \<Rightarrow> debug_sys" where
  "clear_entry t e s = goto t Idle (upd_sock e (\<lambda>_. \<lparr>de_available = True, de_monitor = None, de_flags = 0\<rparr>) s)"

section \<open>The threads\<close>

definition at :: "debug_sys \<Rightarrow> nat \<Rightarrow> debug_pc \<Rightarrow> bool" where
  "at s t p \<longleftrightarrow> t < length (pcs s) \<and> pcs s ! t = p"

definition outside :: "debug_sys \<Rightarrow> nat \<Rightarrow> bool" where
  "outside s t \<longleftrightarrow> at s t Idle \<or> (\<exists>r. at s t (Answered r))"

definition lock_free :: "debug_sys \<Rightarrow> nat \<Rightarrow> bool" where
  "lock_free s m \<longleftrightarrow> holder (monitors s ! m) = None"

inductive debug_step :: "debug_sys \<Rightarrow> debug_sys res \<Rightarrow> bool" where
  dbg_connect: "debug_step s (Inr (snd (chitcpd_init_debug_connection sockfd flags client s)))"
| dbg_allocate: "e < length (sockets s) \<Longrightarrow> de_available (sockets s ! e) \<Longrightarrow>
    debug_step s (Inr (upd_sock e (\<lambda>d. d\<lparr>de_available := False\<rparr>) s))"
| dbg_stop: "debug_step s (Inr (s\<lparr>running := False\<rparr>))"
| dbg_enter: "outside s t \<Longrightarrow> debug_step s (enter_breakpoint t sockfd ev new s)"
| dbg_lock: "at s t (Waiting m e ev new) \<Longrightarrow> lock_free s m \<Longrightarrow>
    debug_step s (use_mon m s (Inr (goto t (Locked m e ev new) (take_lock t m s))))"
| dbg_still: "at s t (Locked m e ev new) \<Longrightarrow> debug_step s (still_monitored t m e ev new s)"
| dbg_exchange: "at s t (Exchanging m e ev new) \<Longrightarrow>
    debug_step s (exchange_breakpoint_messages t m e ev new reply s)"
| dbg_special: "at s t (Replied m e ev new r) \<Longrightarrow> debug_step s (after_exchange t m e ev new r s)"
| dbg_dying: "at s t (Checking m r) \<Longrightarrow> debug_step s (check_dying t m r s)"
| dbg_remove: "at s t (Removing m i r) \<Longrightarrow> debug_step s (remove_turn t m i r s)"
| dbg_release: "at s t (Releasing m r) \<Longrightarrow>
    debug_step s (use_mon m s (Inr (goto t (Answered r) (debug_mon_release m s))))"
| dbg_free: "outside s t \<Longrightarrow> e < length (sockets s) \<Longrightarrow> \<not> de_available (sockets s ! e) \<Longrightarrow>
    debug_step s (free_test t e s)"
| dbg_read: "at s t (Freeing e) \<Longrightarrow> debug_step s (detach_read t e s)"
| dbg_join: "at s t (Detaching p e) \<Longrightarrow> debug_step s (detach_join t p e s)"
| dbg_detach_lock: "at s t (Detach_waiting m e) \<Longrightarrow> lock_free s m \<Longrightarrow>
    debug_step s (use_mon m s (Inr (goto t (Detach_locked m e) (take_lock t m s))))"
| dbg_detach: "at s t (Detach_locked m e) \<Longrightarrow>
    debug_step s (use_mon m s (Inr (goto t (Detach_release m e) (detach_monitor_from_entry m e s))))"
| dbg_detach_release: "at s t (Detach_release m e) \<Longrightarrow>
    debug_step s (use_mon m s (Inr (goto t (Clearing e) (debug_mon_release m s))))"
| dbg_clear: "at s t (Clearing e) \<Longrightarrow> debug_step s (Inr (clear_entry t e s))"

text \<open>A daemon with \<open>n\<close> sockets and \<open>k\<close> threads, as it starts.\<close>

definition debug_start :: "nat \<Rightarrow> nat \<Rightarrow> debug_sys" where
  "debug_start n k = \<lparr>running = True, monitors = [],
     sockets = replicate n \<lparr>de_available = True, de_monitor = None, de_flags = 0\<rparr>, pcs = replicate k Idle\<rparr>"

inductive debug_reachable :: "nat \<Rightarrow> nat \<Rightarrow> debug_sys \<Rightarrow> bool" for n k where
  debug_init: "debug_reachable n k (debug_start n k)"
| debug_next: "debug_reachable n k s \<Longrightarrow> debug_step s (Inr s') \<Longrightarrow> debug_reachable n k s'"

end
