(* ===== verification/Debug_Inv.thy ===== *)
theory Debug_Inv
  imports Debug
begin

text \<open>
  The invariant of the debug monitors under every interleaving of the threads: who holds a monitor,
  who waits for it, which sockets point to it, and that a dying monitor is pointed to only while its
  holder is removing it.
\<close>

section \<open>Who uses a monitor\<close>

fun held :: "debug_pc \<Rightarrow> nat option" where
  "held (Locked m e ev new) = Some m"
| "held (Exchanging m e ev new) = Some m"
| "held (Replied m e ev new r) = Some m"
| "held (Checking m r) = Some m"
| "held (Removing m i r) = Some m"
| "held (Releasing m r) = Some m"
| "held (Detach_locked m e) = Some m"
| "held (Detach_release m e) = Some m"
| "held _ = None"

fun awaited :: "debug_pc \<Rightarrow> nat option" where
  "awaited (Waiting m e ev new) = Some m"
| "awaited (Detach_waiting m e) = Some m"
| "awaited _ = None"

text \<open>The entry a thread works on.\<close>

fun entry_of :: "debug_pc \<Rightarrow> nat option" where
  "entry_of (Waiting m e ev new) = Some e"
| "entry_of (Locked m e ev new) = Some e"
| "entry_of (Exchanging m e ev new) = Some e"
| "entry_of (Replied m e ev new r) = Some e"
| "entry_of (Freeing e) = Some e"
| "entry_of (Detaching p e) = Some e"
| "entry_of (Detach_waiting m e) = Some e"
| "entry_of (Detach_locked m e) = Some e"
| "entry_of (Detach_release m e) = Some e"
| "entry_of (Clearing e) = Some e"
| "entry_of _ = None"

text \<open>Whether the holder of a dying monitor is still to remove it from entry \<open>e\<close>.\<close>

fun cleans :: "debug_pc \<Rightarrow> nat \<Rightarrow> bool" where
  "cleans (Replied m e' ev new r) e \<longleftrightarrow> True"
| "cleans (Checking m r) e \<longleftrightarrow> True"
| "cleans (Removing m i r) e \<longleftrightarrow> i \<le> e"
| "cleans _ e \<longleftrightarrow> False"

definition holders :: "debug_sys \<Rightarrow> nat \<Rightarrow> nat set" where
  "holders s m = {t. t < length (pcs s) \<and> held (pcs s ! t) = Some m}"

definition waiters :: "debug_sys \<Rightarrow> nat \<Rightarrow> nat set" where
  "waiters s m = {t. t < length (pcs s) \<and> awaited (pcs s ! t) = Some m}"

definition refs :: "debug_sys \<Rightarrow> nat \<Rightarrow> nat set" where
  "refs s m = {e. e < length (sockets s) \<and> de_monitor (sockets s ! e) = Some m}"

definition mon_inv :: "debug_sys \<Rightarrow> nat \<Rightarrow> bool" where
  "mon_inv s m \<longleftrightarrow> (let d = monitors s ! m in
     (mon_freed d \<longrightarrow> holder d = None \<and> waiters s m = {} \<and> refs s m = {})
     \<and> (\<forall>t. holder d = Some t \<longleftrightarrow> t \<in> holders s m)
     \<and> numwaiters d = int (card (waiters s m))
     \<and> int (card (refs s m)) \<le> ref_count d
     \<and> (dying d \<longrightarrow> (\<forall>e \<in> refs s m. \<exists>t. holder d = Some t \<and> cleans (pcs s ! t) e))
     \<and> (dying d \<and> \<not> mon_freed d \<longrightarrow> holders s m \<union> waiters s m \<noteq> {}))"

definition debug_inv :: "debug_sys \<Rightarrow> bool" where
  "debug_inv s \<longleftrightarrow> (\<forall>m < length (monitors s). mon_inv s m)
     \<and> (\<forall>d \<in> set (sockets s). \<forall>m. de_monitor d = Some m \<longrightarrow> m < length (monitors s))
     \<and> (\<forall>p \<in> set (pcs s). \<forall>m. held p = Some m \<or> awaited p = Some m \<or> (\<exists>e. p = Detaching (Some m) e) \<longrightarrow> m < length (monitors s))
     \<and> (\<forall>p \<in> set (pcs s). \<forall>e. entry_of p = Some e \<longrightarrow> e < length (sockets s))"

lemma entry_in_range: "debug_inv s \<Longrightarrow> at s t p \<Longrightarrow> entry_of p = Some e \<Longrightarrow> e < length (sockets s)"
  using nth_mem unfolding debug_inv_def at_def by blast

lemma finite_waiters [simp]: "finite (waiters s m)"
  by (rule finite_subset [of _ "{..<length (pcs s)}"]) (auto simp: waiters_def)

lemma finite_refs [simp]: "finite (refs s m)"
  by (rule finite_subset [of _ "{..<length (sockets s)}"]) (auto simp: refs_def)

text \<open>The state after a step of thread \<open>t\<close> with monitor \<open>m\<close>.\<close>

definition stepped :: "debug_sys \<Rightarrow> nat \<Rightarrow> debug_monitor \<Rightarrow> debug_entry list \<Rightarrow> nat \<Rightarrow> debug_pc \<Rightarrow> debug_sys" where
  "stepped s m d es t p = s\<lparr>monitors := (monitors s)[m := d], sockets := es, pcs := (pcs s)[t := p]\<rparr>"

lemma stepped_sets:
  assumes "t < length (pcs s)"
  shows "holders (stepped s m d es t p) k = (if held p = Some k then insert t (holders s k) else holders s k - {t})"
    "waiters (stepped s m d es t p) k = (if awaited p = Some k then insert t (waiters s k) else waiters s k - {t})"
    "refs (stepped s m d es t p) k = {e. e < length es \<and> de_monitor (es ! e) = Some k}"
    "sockets (stepped s m d es t p) = es" "monitors (stepped s m d es t p) = (monitors s)[m := d]" "pcs (stepped s m d es t p) = (pcs s)[t := p]"
  using assms by (auto simp: stepped_def holders_def waiters_def refs_def nth_list_update)

text \<open>Only the monitor of the step has to be looked at.\<close>

lemma stepped_inv:
  assumes inv: "debug_inv s" and t: "at s t old" and m: "m < length (monitors s)"
    and es: "length es = length (sockets s)" "\<And>k. k \<noteq> m \<Longrightarrow> refs (stepped s m d es t p) k \<subseteq> refs s k"
    and pc: "held old \<in> {None, Some m}" "held p \<in> {None, Some m}" "awaited old \<in> {None, Some m}" "awaited p \<in> {None, Some m}"
      "\<And>k e. p = Detaching (Some k) e \<Longrightarrow> k < length (monitors s)" "\<And>e. entry_of p = Some e \<Longrightarrow> e < length (sockets s)"
    and new: "mon_inv (stepped s m d es t p) m"
  shows "debug_inv (stepped s m d es t p)"
proof -
  let ?s = "stepped s m d es t p"
  have tl: "t < length (pcs s)" "pcs s ! t = old" using t by (simp_all add: at_def)
  have other: "mon_inv ?s k" if k: "k < length (monitors s)" "k \<noteq> m" for k
  proof -
    have i: "mon_inv s k" using inv k(1) by (simp add: debug_inv_def)
    have "t \<notin> holders s k" "t \<notin> waiters s k" using pc(1,3) tl k(2) by (auto simp: holders_def waiters_def)
    then have H: "holders ?s k = holders s k" "waiters ?s k = waiters s k"
      using pc(2,4) k(2) by (auto simp: stepped_sets(1,2) [OF tl(1)])
    have R: "refs ?s k \<subseteq> refs s k" using es(2) k(2) by blast
    then have c: "card (refs ?s k) \<le> card (refs s k)" by (rule card_mono [OF finite_refs])
    have p: "pcs ?s ! u = pcs s ! u" if "u \<in> holders s k" for u
      using that \<open>t \<notin> holders s k\<close> by (cases "u = t") (simp_all add: stepped_sets [OF tl(1)])
    have mk: "monitors ?s ! k = monitors s ! k" using k(2) by (simp add: stepped_sets [OF tl(1)])
    have "\<exists>u. holder (monitors s ! k) = Some u \<and> cleans (pcs ?s ! u) e" if d: "dying (monitors s ! k)" "e \<in> refs ?s k" for e
    proof -
      have "e \<in> refs s k" using R d by blast
      then obtain u where "holder (monitors s ! k) = Some u" "cleans (pcs s ! u) e"
        using i d unfolding mon_inv_def Let_def by blast
      moreover have "u \<in> holders s k" using i calculation(1) by (auto simp: mon_inv_def Let_def)
      ultimately show ?thesis using p by auto
    qed
    then show ?thesis using i H R c unfolding mon_inv_def Let_def mk by auto
  qed
  have "m' < length (monitors s)" if x: "de_monitor x = Some m'" "x \<in> set es" for x m'
  proof (rule ccontr)
    assume a: "\<not> m' < length (monitors s)"
    obtain e where "e < length es" "es ! e = x" using x(2) by (auto simp: in_set_conv_nth)
    then have "e \<in> refs ?s m'" using x(1) by (simp add: stepped_sets [OF tl(1)])
    moreover have "m' \<noteq> m" using a m by auto
    ultimately have "e \<in> refs s m'" using es(2) by blast
    then show False using inv a nth_mem by (fastforce simp: debug_inv_def refs_def)
  qed
  moreover have "m' < length (monitors s)" if "x \<in> set ((pcs s)[t := p])" "held x = Some m' \<or> awaited x = Some m' \<or> (\<exists>e. x = Detaching (Some m') e)" for x m'
    using set_update_subset_insert [of "pcs s" t p] that inv m pc(2,4,5) unfolding debug_inv_def by auto
  moreover have "e < length es" if "x \<in> set ((pcs s)[t := p])" "entry_of x = Some e" for x e
    using set_update_subset_insert [of "pcs s" t p] that inv pc(6) es(1) unfolding debug_inv_def by auto
  moreover have "mon_inv ?s k" if "k < length (monitors s)" for k
    using other [OF that] new by (cases "k = m") auto
  ultimately show ?thesis unfolding debug_inv_def by (auto simp: stepped_sets [OF tl(1)])
qed

lemma stepped_mon:
  assumes "t < length (pcs s)" "m < length (monitors s)"
  shows "mon_inv (stepped s m d es t p) m \<longleftrightarrow>
    (let H = (if held p = Some m then insert t (holders s m) else holders s m - {t});
         W = (if awaited p = Some m then insert t (waiters s m) else waiters s m - {t});
         R = {e. e < length es \<and> de_monitor (es ! e) = Some m} in
     (mon_freed d \<longrightarrow> holder d = None \<and> W = {} \<and> R = {}) \<and> (\<forall>t. holder d = Some t \<longleftrightarrow> t \<in> H)
     \<and> numwaiters d = int (card W) \<and> int (card R) \<le> ref_count d
     \<and> (dying d \<longrightarrow> (\<forall>e \<in> R. \<exists>u. holder d = Some u \<and> cleans ((pcs s)[t := p] ! u) e))
     \<and> (dying d \<and> \<not> mon_freed d \<longrightarrow> H \<union> W \<noteq> {}))"
  using assms(2) unfolding mon_inv_def Let_def by (simp add: stepped_sets [OF assms(1)])

lemma mon_invD:
  assumes "debug_inv s" "m < length (monitors s)"
  shows "mon_freed (monitors s ! m) \<Longrightarrow> holder (monitors s ! m) = None \<and> waiters s m = {} \<and> refs s m = {}"
    "holder (monitors s ! m) = Some t \<longleftrightarrow> t \<in> holders s m"
    "numwaiters (monitors s ! m) = int (card (waiters s m))"
    "int (card (refs s m)) \<le> ref_count (monitors s ! m)"
    "dying (monitors s ! m) \<Longrightarrow> e \<in> refs s m \<Longrightarrow> \<exists>t. holder (monitors s ! m) = Some t \<and> cleans (pcs s ! t) e"
    "dying (monitors s ! m) \<Longrightarrow> \<not> mon_freed (monitors s ! m) \<Longrightarrow> holders s m \<union> waiters s m \<noteq> {}"
proof -
  have "mon_inv s m" using assms by (simp add: debug_inv_def)
  note i = this [unfolded mon_inv_def Let_def]
  show "mon_freed (monitors s ! m) \<Longrightarrow> holder (monitors s ! m) = None \<and> waiters s m = {} \<and> refs s m = {}"
    using i by blast
  show "holder (monitors s ! m) = Some t \<longleftrightarrow> t \<in> holders s m" using i by blast
  show "numwaiters (monitors s ! m) = int (card (waiters s m))" using i by blast
  show "int (card (refs s m)) \<le> ref_count (monitors s ! m)" using i by blast
  show "dying (monitors s ! m) \<Longrightarrow> e \<in> refs s m \<Longrightarrow> \<exists>t. holder (monitors s ! m) = Some t \<and> cleans (pcs s ! t) e"
    using i by blast
  show "dying (monitors s ! m) \<Longrightarrow> \<not> mon_freed (monitors s ! m) \<Longrightarrow> holders s m \<union> waiters s m \<noteq> {}"
    using i by blast
qed

text \<open>The holder is one thread, and what it holds is alive.\<close>

lemma held_by:
  assumes "debug_inv s" "at s t p" "held p = Some m"
  shows "m < length (monitors s)" "\<not> mon_freed (monitors s ! m)" "holder (monitors s ! m) = Some t"
    "holders s m = {t}" "t \<notin> waiters s m"
    "dying (monitors s ! m) \<Longrightarrow> e \<in> refs s m \<Longrightarrow> cleans p e"
proof -
  have p: "t < length (pcs s)" "pcs s ! t = p" using assms(2) by (simp_all add: at_def)
  then show m: "m < length (monitors s)" using assms(1,3) nth_mem unfolding debug_inv_def by blast
  have t: "t \<in> holders s m" using p assms(3) by (simp add: holders_def)
  then show h: "holder (monitors s ! m) = Some t" using mon_invD(2) [OF assms(1) m] by simp
  then show "\<not> mon_freed (monitors s ! m)" using mon_invD(1) [OF assms(1) m] by auto
  have "u \<in> holders s m \<longleftrightarrow> u = t" for u using mon_invD(2) [OF assms(1) m, of u] h by auto
  then show "holders s m = {t}" by auto
  show "t \<notin> waiters s m" using p assms(3) by (cases p) (auto simp: waiters_def)
  show "cleans p e" if "dying (monitors s ! m)" "e \<in> refs s m"
    using mon_invD(5) [OF assms(1) m that] h p by auto
qed

lemma awaited_by:
  assumes "debug_inv s" "at s t p" "awaited p = Some m"
  shows "m < length (monitors s)" "\<not> mon_freed (monitors s ! m)" "t \<in> waiters s m" "t \<notin> holders s m"
proof -
  have p: "t < length (pcs s)" "pcs s ! t = p" using assms(2) by (simp_all add: at_def)
  then show m: "m < length (monitors s)" using assms(1,3) nth_mem unfolding debug_inv_def by blast
  show w: "t \<in> waiters s m" using p assms(3) by (simp add: waiters_def)
  then show "\<not> mon_freed (monitors s ! m)" using mon_invD(1) [OF assms(1) m] by auto
  show "t \<notin> holders s m" using p assms(3) by (cases p) (auto simp: holders_def)
qed

lemma idle_thread:
  assumes "at s t p" "held p = None" "awaited p = None"
  shows "t \<notin> holders s m" "t \<notin> waiters s m"
  using assms by (auto simp: at_def holders_def waiters_def)

section \<open>The steps keep it\<close>

text \<open>A step that changes the thread only.\<close>

lemma goto_stepped:
  "goto t p s = stepped s m (monitors s ! m) (sockets s) t p"
  "goto t p (upd_mon m f s) = stepped s m (f (monitors s ! m)) (sockets s) t p"
  "e < length (sockets s) \<Longrightarrow> goto t p (upd_sock e g s) = stepped s m (monitors s ! m) ((sockets s)[e := g (sockets s ! e)]) t p"
  "goto t p (upd_mon m f (upd_sock e g s)) = stepped s m (f (monitors s ! m)) ((sockets s)[e := g (sockets s ! e)]) t p"
  by (simp_all add: goto_def stepped_def upd_mon_def upd_sock_def)

lemma cleans_held: "held p = None \<Longrightarrow> \<not> cleans p e"
  by (cases p) auto

lemma idle_inv:
  assumes inv: "debug_inv s" and t: "at s t old" "held old = None" "awaited old = None"
    and p: "held p = None" "awaited p = None" "\<And>k e. p = Detaching (Some k) e \<Longrightarrow> k < length (monitors s)"
      "\<And>e. entry_of p = Some e \<Longrightarrow> e < length (sockets s)"
  shows "debug_inv (goto t p s)"
proof -
  let ?s = "goto t p s"
  have tl: "t < length (pcs s)" "pcs s ! t = old" using t(1) by (simp_all add: at_def)
  have sets: "holders ?s k = holders s k" "waiters ?s k = waiters s k" "refs ?s k = refs s k" for k
    using tl t(2,3) p(1,2) by (auto simp: goto_def holders_def waiters_def refs_def nth_list_update)
  have "cleans (pcs ?s ! u) e" if "cleans (pcs s ! u) e" for u e
    using that cleans_held tl t(2) by (cases "u = t") (auto simp: goto_def)
  then have "mon_inv ?s k" if "mon_inv s k" for k
    using that unfolding mon_inv_def Let_def sets by (simp add: goto_def) blast
  moreover have "m' < length (monitors s)" if "x \<in> set (pcs ?s)" "held x = Some m' \<or> awaited x = Some m' \<or> (\<exists>e. x = Detaching (Some m') e)" for x m'
    using set_update_subset_insert [of "pcs s" t p] that inv p unfolding debug_inv_def goto_def by auto
  moreover have "e < length (sockets s)" if "x \<in> set (pcs ?s)" "entry_of x = Some e" for x e
    using set_update_subset_insert [of "pcs s" t p] that inv p(4) unfolding debug_inv_def goto_def by auto
  ultimately show ?thesis using inv unfolding debug_inv_def by (auto simp: goto_def)
qed

lemma join_inv:
  assumes inv: "debug_inv s" and t: "at s t old" "held old = None" "awaited old = None"
    and m: "m < length (monitors s)" "\<not> mon_freed (monitors s ! m)" and p: "held p = None" "awaited p = Some m" "\<And>e. entry_of p = Some e \<Longrightarrow> e < length (sockets s)"
  shows "debug_inv (goto t p (join_waiters m s))"
proof -
  have tl: "t < length (pcs s)" using t(1) by (simp add: at_def)
  have d: "t \<notin> holders s m" "t \<notin> waiters s m" using idle_thread [OF t] by simp_all
  have c: "cleans ((pcs s)[t := p] ! u) e" if "cleans (pcs s ! u) e" for u e
    using that cleans_held t(1,2) by (cases "u = t") (auto simp: at_def)
  then have cl: "\<exists>u. u \<in> holders s m \<and> cleans ((pcs s)[t := p] ! u) e" if "dying (monitors s ! m)" "e \<in> refs s m" for e
    using mon_invD(2,5) [OF inv m(1)] that by metis
  show ?thesis unfolding join_waiters_def goto_stepped(2)
  proof (rule stepped_inv [OF inv t(1) m(1)])
    show "mon_inv (stepped s m ((monitors s ! m)\<lparr>numwaiters := numwaiters (monitors s ! m) + 1\<rparr>) (sockets s) t p) m"
      using d m(2) p mon_invD(1,2,3,4,6) [OF inv m(1)] cl unfolding stepped_mon [OF tl m(1)] Let_def
      by (auto simp flip: refs_def)
  qed (use t p in \<open>auto simp: stepped_sets [OF tl] refs_def\<close>)
qed

lemma lock_inv:
  assumes inv: "debug_inv s" and t: "at s t old" "awaited old = Some m" and free: "lock_free s m"
    and p: "held p = Some m" "awaited p = None" "\<And>e. entry_of p = Some e \<Longrightarrow> e < length (sockets s)"
  shows "debug_inv (goto t p (take_lock t m s))"
proof -
  have tl: "t < length (pcs s)" using t(1) by (simp add: at_def)
  note a = awaited_by [OF inv t]
  have h: "holders s m = {}" using free mon_invD(2) [OF inv a(1)] by (auto simp: lock_free_def)
  have r: "\<not> dying (monitors s ! m) \<or> refs s m = {}"
    using free mon_invD(5) [OF inv a(1)] by (auto simp: lock_free_def)
  have "held old = None" using t(2) by (cases old) auto
  show ?thesis unfolding take_lock_def goto_stepped(2)
  proof (rule stepped_inv [OF inv t(1) a(1)])
    show "mon_inv (stepped s m ((monitors s ! m)\<lparr>holder := Some t, numwaiters := numwaiters (monitors s ! m) - 1\<rparr>) (sockets s) t p) m"
      using a h r p mon_invD(3,4) [OF inv a(1)] card_gt_0_iff [of "waiters s m"]
      unfolding stepped_mon [OF tl a(1)] Let_def by (auto simp: of_nat_diff simp flip: refs_def)
  qed (use t p \<open>held old = None\<close> in \<open>auto simp: stepped_sets [OF tl] refs_def\<close>)
qed

text \<open>A step of the holder.\<close>

lemma holder_inv:
  assumes inv: "debug_inv s" and t: "at s t old" "held old = Some m" and p: "held p = Some m" "\<And>e. entry_of p = Some e \<Longrightarrow> e < length (sockets s)"
    and d: "\<not> mon_freed d" "holder d = Some t" "numwaiters d = numwaiters (monitors s ! m)"
    and es: "length es = length (sockets s)" "\<And>e k. e < length es \<Longrightarrow> de_monitor (es ! e) = Some k \<Longrightarrow> k \<noteq> m \<Longrightarrow> de_monitor (sockets s ! e) = Some k"
    and refs: "int (card {e. e < length es \<and> de_monitor (es ! e) = Some m}) \<le> ref_count d"
      "\<And>e. dying d \<Longrightarrow> e < length es \<Longrightarrow> de_monitor (es ! e) = Some m \<Longrightarrow> cleans p e"
  shows "debug_inv (stepped s m d es t p)"
proof -
  have tl: "t < length (pcs s)" using t(1) by (simp add: at_def)
  note h = held_by [OF inv t]
  have a: "awaited old = None" "awaited p = None" using t(2) p by (cases old; auto; fail) (use p(1) in \<open>cases p; auto\<close>)
  show ?thesis
  proof (rule stepped_inv [OF inv t(1) h(1) es(1)])
    show "mon_inv (stepped s m d es t p) m"
      using h(4,5) p a(2) d mon_invD(3) [OF inv h(1)] refs tl
      unfolding stepped_mon [OF tl h(1)] Let_def by auto
    show "refs (stepped s m d es t p) k \<subseteq> refs s k" if "k \<noteq> m" for k
      using that es by (auto simp: stepped_sets [OF tl] refs_def)
  qed (use t p a in auto)
qed

lemma holder_goto_inv:
  assumes "debug_inv s" "at s t old" "held old = Some m" "held p = Some m" "\<And>e. entry_of p = Some e \<Longrightarrow> e < length (sockets s)"
    and "\<And>e. dying (monitors s ! m) \<Longrightarrow> e \<in> refs s m \<Longrightarrow> cleans old e \<Longrightarrow> cleans p e"
  shows "debug_inv (goto t p s)"
  unfolding goto_stepped(1) [of t p s m]
  using held_by [OF assms(1,2,3)] mon_invD(4) [OF assms(1)] assms(6)
  by (intro holder_inv [OF assms(1-5)]) (auto simp: refs_def)

lemma detach_inv:
  assumes inv: "debug_inv s" and t: "at s t old" "held old = Some m" "held p = Some m" "\<And>e. entry_of p = Some e \<Longrightarrow> e < length (sockets s)" and el: "e < length (sockets s)"
    and e: "\<And>e'. dying (monitors s ! m) \<Longrightarrow> e' \<in> refs s m \<Longrightarrow> e' \<noteq> e \<Longrightarrow> cleans old e' \<Longrightarrow> cleans p e'"
  shows "debug_inv (goto t p (detach_monitor_from_entry m e s))"
proof (cases "de_monitor (sockets s ! e) = Some m")
  case True
  note h = held_by [OF inv t(1,2)]
  define d where "d = (monitors s ! m)\<lparr>ref_count := ref_count (monitors s ! m) - 1,
    dying := (if ref_count (monitors s ! m) - 1 = 0 then True else dying (monitors s ! m))\<rparr>"
  define es where "es = (sockets s)[e := (sockets s ! e)\<lparr>de_monitor := None, de_flags := 0\<rparr>]"
  have R: "{x. x < length es \<and> de_monitor (es ! x) = Some m} = refs s m - {e}"
    using el by (auto simp: es_def refs_def nth_list_update)
  have "e \<in> refs s m" using True el by (simp add: refs_def)
  then have c: "card (refs s m - {e}) = card (refs s m) - 1" "0 < card (refs s m)" by (auto simp: card_gt_0_iff)
  have one: "refs s m = {e}" if "ref_count (monitors s ! m) - 1 = 0"
  proof -
    have "card (refs s m) \<le> 1" using mon_invD(4) [OF inv h(1)] that by simp
    then show ?thesis using \<open>e \<in> refs s m\<close> card_le_Suc0_iff_eq [OF finite_refs, of s m] by auto
  qed
  have "debug_inv (stepped s m d es t p)"
  proof (rule holder_inv [OF inv t])
    show "int (card {x. x < length es \<and> de_monitor (es ! x) = Some m}) \<le> ref_count d"
      using mon_invD(4) [OF inv h(1)] c unfolding R by (simp add: d_def of_nat_diff)
    show "cleans p x" if "dying d" "x < length es" "de_monitor (es ! x) = Some m" for x
    proof -
      have x: "x \<in> refs s m" "x \<noteq> e" using that(2,3) R by blast+
      then have "dying (monitors s ! m)" using that(1) one by (auto simp: d_def split: if_splits)
      then show ?thesis using e x h(6) by blast
    qed
  qed (use h el in \<open>auto simp: d_def es_def nth_list_update split: if_splits\<close>)
  then show ?thesis using True goto_stepped(4) by (simp add: detach_monitor_from_entry_def d_def es_def)
next
  case False
  then have "x \<noteq> e" if "x \<in> refs s m" for x using that by (auto simp: refs_def)
  then have "debug_inv (goto t p s)" using e by (intro holder_goto_inv [OF assms(1-5)]) auto
  then show ?thesis using False by (simp add: detach_monitor_from_entry_def)
qed

lemma attach_inv:
  assumes inv: "debug_inv s" and t: "at s t old" "held old = Some m" "held p = Some m" "entry_of p = None" "\<And>e. cleans p e"
    and att: "attach_monitor_and_flags_to_entry m flags e s = Inr s'"
  shows "debug_inv (goto t p s')"
proof -
  note h = held_by [OF inv t(1,2)]
  have e: "e < length (sockets s)" using att by (auto simp: attach_monitor_and_flags_to_entry_def split: if_splits)
  define d where "d = (monitors s ! m)\<lparr>ref_count := ref_count (monitors s ! m) + 1\<rparr>"
  define es where "es = (sockets s)[e := (sockets s ! e)\<lparr>de_monitor := Some m, de_flags := flags\<rparr>]"
  have "{x. x < length es \<and> de_monitor (es ! x) = Some m} = insert e (refs s m)"
    using e by (auto simp: es_def refs_def nth_list_update)
  moreover have "card (insert e (refs s m)) \<le> Suc (card (refs s m))" by (simp add: card_insert_if)
  ultimately have "int (card {x. x < length es \<and> de_monitor (es ! x) = Some m}) \<le> ref_count d"
    using mon_invD(4) [OF inv h(1)] by (simp add: d_def)
  then have "debug_inv (stepped s m d es t p)"
    using h e t(4,5) by (intro holder_inv [OF inv t(1-3)]) (auto simp: d_def es_def nth_list_update split: if_splits)
  moreover have "s' = upd_mon m (\<lambda>d. d\<lparr>ref_count := ref_count d + 1\<rparr>) (upd_sock e (\<lambda>d. d\<lparr>de_monitor := Some m, de_flags := flags\<rparr>) s)"
    using att e by (simp add: attach_monitor_and_flags_to_entry_def)
  ultimately show ?thesis using goto_stepped(4) by (simp add: d_def es_def)
qed

lemma release_inv:
  assumes inv: "debug_inv s" and t: "at s t old" "held old = Some m" "\<And>e. \<not> cleans old e"
    and p: "held p = None" "awaited p = None" "\<And>k e. p \<noteq> Detaching (Some k) e" "\<And>e. entry_of p = Some e \<Longrightarrow> e < length (sockets s)"
  shows "debug_inv (goto t p (debug_mon_release m s))"
proof -
  have tl: "t < length (pcs s)" using t(1) by (simp add: at_def)
  note h = held_by [OF inv t(1,2)]
  have r: "refs s m = {}" if "dying (monitors s ! m)" using h(6) [OF that] t(3) by auto
  define d where "d = (if dying (monitors s ! m) \<and> numwaiters (monitors s ! m) = 0
    then (monitors s ! m)\<lparr>mon_freed := True, holder := None\<rparr> else (monitors s ! m)\<lparr>holder := None\<rparr>)"
  have w: "waiters s m = {}" if "numwaiters (monitors s ! m) = 0"
    using mon_invD(3) [OF inv h(1)] that by simp
  have "debug_inv (stepped s m d (sockets s) t p)"
  proof (rule stepped_inv [OF inv t(1) h(1)])
    show "mon_inv (stepped s m d (sockets s) t p) m"
    proof (cases "dying (monitors s ! m) \<and> numwaiters (monitors s ! m) = 0")
      case True
      then show ?thesis using h(4) p(1,2) r w mon_invD(4) [OF inv h(1)]
        unfolding stepped_mon [OF tl h(1)] Let_def refs_def [symmetric] by (simp add: d_def)
    next
      case False
      have "waiters s m \<noteq> {}" if "dying (monitors s ! m)" using False that mon_invD(3) [OF inv h(1)] by auto
      then show ?thesis using False h(2,4,5) p(1,2) r mon_invD(3,4) [OF inv h(1)]
        unfolding stepped_mon [OF tl h(1)] Let_def refs_def [symmetric] by (auto simp: d_def)
    qed
    show "awaited old \<in> {None, Some m}" using t(2) by (cases old) auto
  qed (use t p in \<open>auto simp: stepped_sets [OF tl] refs_def\<close>)
  moreover have "goto t p (debug_mon_release m s) = stepped s m d (sockets s) t p"
    by (simp add: debug_mon_release_def debug_mon_destroy_def debug_mon_unlock_def goto_stepped(2) d_def)
  ultimately show ?thesis by simp
qed

text \<open>Entries may lose their monitor at any time.\<close>

lemma sockets_inv:
  assumes inv: "debug_inv s" and "length es = length (sockets s)"
    and "\<And>e k. e < length es \<Longrightarrow> de_monitor (es ! e) = Some k \<Longrightarrow> de_monitor (sockets s ! e) = Some k"
  shows "debug_inv (s\<lparr>sockets := es\<rparr>)"
proof -
  let ?s = "s\<lparr>sockets := es\<rparr>"
  have sets: "holders ?s k = holders s k" "waiters ?s k = waiters s k" "refs ?s k \<subseteq> refs s k" for k
    using assms(2,3) by (auto simp: holders_def waiters_def refs_def)
  have c: "card (refs ?s k) \<le> card (refs s k)" for k using sets(3) by (rule card_mono [OF finite_refs])
  have "mon_inv ?s k" if k: "k < length (monitors s)" for k
  proof -
    note i = mon_invD [OF inv k]
    have "int (card (refs ?s k)) \<le> ref_count (monitors s ! k)" using i(4) c [of k] by simp
    moreover have "mon_freed (monitors s ! k) \<Longrightarrow> refs ?s k = {}" using i(1) sets(3) [of k] by auto
    moreover have "\<exists>t. holder (monitors s ! k) = Some t \<and> cleans (pcs s ! t) e" if "dying (monitors s ! k)" "e \<in> refs ?s k" for e
      using i(5) [OF that(1)] that(2) sets(3) [of k] by blast
    ultimately show ?thesis using i(1,2,3,6) unfolding mon_inv_def Let_def sets(1,2) by simp
  qed
  moreover have "k < length (monitors s)" if "x \<in> set es" "de_monitor x = Some k" for x k
    using that inv assms(2,3) unfolding debug_inv_def by (metis in_set_conv_nth)
  ultimately show ?thesis using inv assms(2) unfolding debug_inv_def by simp
qed

lemma debug_connect_inv:
  assumes inv: "debug_inv s"
  shows "debug_inv (snd (chitcpd_init_debug_connection sockfd flags client s))"
proof (cases "valid_socket s sockfd \<and> de_monitor (sockets s ! nat sockfd) = None")
  case True
  define n where "n = length (monitors s)"
  define e where "e = nat sockfd"
  define s' where "s' = snd (chitcpd_init_debug_connection sockfd flags client s)"
  have e: "e < length (sockets s)" "de_monitor (sockets s ! e) = None" using True by (auto simp: valid_socket_def e_def)
  have s': "monitors s' = monitors s @ [new_monitor client]" "pcs s' = pcs s"
    "sockets s' = (sockets s)[e := (sockets s ! e)\<lparr>de_flags := flags, de_monitor := Some n\<rparr>]"
    using True by (simp_all add: s'_def chitcpd_init_debug_connection_def upd_sock_def e_def n_def)
  have sets: "holders s' k = holders s k" "waiters s' k = waiters s k" for k
    using s'(2) by (simp_all add: holders_def waiters_def)
  have R: "refs s' k = (if k = n then insert e (refs s k) else refs s k)" for k
    using e by (auto simp: refs_def s'(3) nth_list_update)
  have new: "holders s n = {}" "waiters s n = {}" "refs s n = {}"
    using inv nth_mem unfolding debug_inv_def holders_def waiters_def refs_def n_def by fastforce+
  have "mon_inv s' k" if "k < Suc n" for k
  proof (cases "k = n")
    case True
    then show ?thesis unfolding mon_inv_def Let_def sets R s' using new by (simp add: n_def new_monitor_def)
  next
    case False
    then have k: "k < length (monitors s)" using that by (simp add: n_def)
    then have i: "mon_inv s k" using inv by (simp add: debug_inv_def)
    have eq: "monitors s' ! k = monitors s ! k" "refs s' k = refs s k"
      using k False by (simp_all add: s'(1) nth_append R)
    show ?thesis using i unfolding mon_inv_def Let_def sets s'(2) eq .
  qed
  moreover have "m < Suc n" if "d \<in> set (sockets s')" "de_monitor d = Some m" for d m
  proof (cases "d \<in> set (sockets s)")
    case True
    then show ?thesis using that(2) inv by (auto simp: debug_inv_def n_def less_Suc_eq)
  next
    case False
    then have "de_monitor d = Some n" using that(1) by (auto simp: s'(3) dest!: set_mp [OF set_update_subset_insert])
    then show ?thesis using that(2) by simp
  qed
  moreover have "length (monitors s') = Suc n" "length (sockets s') = length (sockets s)" by (simp_all add: s' n_def)
  moreover have "m < Suc n" if "p \<in> set (pcs s)" "held p = Some m \<or> awaited p = Some m \<or> (\<exists>e. p = Detaching (Some m) e)" for p m
    using that inv by (auto simp: debug_inv_def n_def less_Suc_eq)
  moreover have "e' < length (sockets s)" if "p \<in> set (pcs s)" "entry_of p = Some e'" for p e'
    using that inv by (auto simp: debug_inv_def)
  ultimately show ?thesis unfolding debug_inv_def s'_def [symmetric] s'(2) by simp
next
  case False
  then show ?thesis using inv by (auto simp: chitcpd_init_debug_connection_def)
qed

lemma debug_step_inv: "debug_step s r \<Longrightarrow> debug_inv s \<Longrightarrow> r = Inr s' \<Longrightarrow> debug_inv s'"
proof (induction rule: debug_step.induct)
  case (dbg_connect sockfd flags client s)
  then show ?case using debug_connect_inv by auto
next
  case (dbg_allocate e s)
  have "debug_inv (s\<lparr>sockets := (sockets s)[e := (sockets s ! e)\<lparr>de_available := False\<rparr>]\<rparr>)"
    by (rule sockets_inv [OF dbg_allocate.prems(1)])
      (use dbg_allocate.hyps in \<open>auto simp: nth_list_update split: if_splits\<close>)
  then show ?case using dbg_allocate.prems(2) by (auto simp: upd_sock_def)
next
  case (dbg_stop s)
  then show ?case by (auto simp: debug_inv_def mon_inv_def holders_def waiters_def refs_def)
next
  case (dbg_enter s t sockfd ev new)
  then obtain old where o: "at s t old" "held old = None" "awaited old = None" by (auto simp: outside_def)
  show ?case
  proof (cases "valid_parameters s sockfd \<and> socket_monitors_event (sockets s ! nat sockfd) ev")
    case True
    then obtain m where m: "de_monitor (sockets s ! nat sockfd) = Some m" "nat sockfd < length (sockets s)"
      by (auto simp: socket_monitors_event_def valid_parameters_def valid_socket_def)
    then have "m < length (monitors s)" using dbg_enter.prems(1) nth_mem unfolding debug_inv_def by blast
    then show ?thesis using True m dbg_enter.prems join_inv [OF _ o, of m "Waiting m (nat sockfd) ev new"]
      by (auto simp: enter_breakpoint_def use_mon_def split: if_splits)
  next
    case False
    then show ?thesis using dbg_enter.prems idle_inv [OF _ o, of "Answered RESP_NONE"] by (auto simp: enter_breakpoint_def Let_def split: if_splits)
  qed
next
  case (dbg_lock s t m e ev new)
  note t = dbg_lock.prems(1) dbg_lock.hyps(1)
  show ?case using dbg_lock.prems(2) lock_inv [where m = m, OF t _ dbg_lock.hyps(2), of "Locked m e ev new"] entry_in_range [OF t]
    by (auto simp: use_mon_def split: if_splits)
next
  case (dbg_still s t m e ev new)
  note t = dbg_still.prems(1) dbg_still.hyps
  show ?case using dbg_still.prems(2) entry_in_range [OF t]
    by (auto simp: still_monitored_def split: if_splits intro!: holder_goto_inv [where m = m, OF t])
next
  case (dbg_exchange s t m e ev new reply)
  note t = dbg_exchange.prems(1) dbg_exchange.hyps
  have r: "debug_inv (goto t (Replied m e ev new ret) s)" for ret
    using entry_in_range [OF t] by (intro holder_goto_inv [where m = m, OF t]) simp_all
  have "debug_inv (goto t (Replied m e ev new RESP_NONE) (upd_mon m (\<lambda>d. d\<lparr>dying := True\<rparr>) s))"
    unfolding goto_stepped(2)
    using held_by [where m = m, OF t] mon_invD(4) [OF t(1)] entry_in_range [OF t]
    by (intro holder_inv [where m = m, OF t]) (auto simp flip: refs_def)
  then show ?case using r dbg_exchange.prems(2)
    by (auto simp: exchange_breakpoint_messages_def use_mon_def split: if_splits option.splits)
next
  case (dbg_special s t m e ev new r)
  note t = dbg_special.prems(1) dbg_special.hyps
  have "debug_inv (goto t (Checking m r') s)" for r' by (rule holder_goto_inv [where m = m, OF t]) simp_all
  moreover have "debug_inv (goto t (Checking m r') (detach_monitor_from_entry m e s))" for r'
    using entry_in_range [OF t] by (intro detach_inv [where m = m, OF t]) simp_all
  moreover have "debug_inv (goto t (Checking m r') s1)" if "attach_monitor_and_flags_to_entry m flags new s = Inr s1" for r' flags s1
    by (rule attach_inv [where m = m, OF t _ _ _ _ that]) simp_all
  ultimately show ?case using dbg_special.prems(2)
    by (auto simp: after_exchange_def handle_special_breakpoint_responses_def use_mon_def split: if_splits)
next
  case (dbg_dying s t m r)
  note t = dbg_dying.prems(1) dbg_dying.hyps
  show ?case using dbg_dying.prems(2)
    by (auto simp: check_dying_def use_mon_def split: if_splits intro!: holder_goto_inv [where m = m, OF t])
next
  case (dbg_remove s t m i r)
  note t = dbg_remove.prems(1) dbg_remove.hyps
  have "debug_inv (goto t (Removing m (Suc i) r) (detach_monitor_from_entry m i s))" if "i < length (sockets s)"
    using that by (intro detach_inv [where m = m, OF t]) auto
  moreover have "debug_inv (goto t (Releasing m r) s)" if "\<not> i < length (sockets s)"
    using that by (intro holder_goto_inv [where m = m, OF t]) (auto simp: refs_def)
  ultimately show ?case using dbg_remove.prems(2) by (auto simp: remove_turn_def use_mon_def split: if_splits)
next
  case (dbg_release s t m r)
  note t = dbg_release.prems(1) dbg_release.hyps
  show ?case using dbg_release.prems(2)
    by (auto simp: use_mon_def split: if_splits intro!: release_inv [where m = m, OF t])
next
  case (dbg_free s t e)
  then obtain old where o: "at s t old" "held old = None" "awaited old = None" by (auto simp: outside_def)
  then show ?case using dbg_free by (auto simp: free_test_def split: if_splits intro!: idle_inv [OF dbg_free.prems(1) o])
next
  case (dbg_read s t e)
  have e: "e < length (sockets s)" using entry_in_range [OF dbg_read.prems(1) dbg_read.hyps] by simp
  have "m < length (monitors s)" if "de_monitor (sockets s ! e) = Some m" for m
    using that dbg_read.prems(1) nth_mem [OF e] unfolding debug_inv_def by blast
  then show ?case using e dbg_read.prems(2)
    by (auto simp: detach_read_def intro!: idle_inv [OF dbg_read.prems(1) dbg_read.hyps])
next
  case (dbg_join s t p e)
  have e: "e < length (sockets s)" using entry_in_range [OF dbg_join.prems(1) dbg_join.hyps] by simp
  have "m < length (monitors s)" if "p = Some m" for m
    using that dbg_join.hyps dbg_join.prems(1) nth_mem unfolding debug_inv_def at_def by blast
  then show ?case using e dbg_join.prems(2)
    by (auto simp: detach_join_def use_mon_def split: if_splits option.splits intro!: join_inv [OF dbg_join.prems(1) dbg_join.hyps])
next
  case (dbg_detach_lock s t m e)
  note t = dbg_detach_lock.prems(1) dbg_detach_lock.hyps(1)
  show ?case using dbg_detach_lock.prems(2) lock_inv [where m = m, OF t _ dbg_detach_lock.hyps(2), of "Detach_locked m e"] entry_in_range [OF t]
    by (auto simp: use_mon_def split: if_splits)
next
  case (dbg_detach s t m e)
  note t = dbg_detach.prems(1) dbg_detach.hyps
  show ?case using dbg_detach.prems(2) entry_in_range [OF t]
    by (auto simp: use_mon_def split: if_splits intro!: detach_inv [where m = m, OF t])
next
  case (dbg_detach_release s t m e)
  note t = dbg_detach_release.prems(1) dbg_detach_release.hyps
  show ?case using dbg_detach_release.prems(2) entry_in_range [OF t]
    by (auto simp: use_mon_def split: if_splits intro!: release_inv [where m = m, OF t])
next
  case (dbg_clear s t e)
  define es where "es = (sockets s)[e := \<lparr>de_available = True, de_monitor = None, de_flags = 0\<rparr>]"
  have "debug_inv (s\<lparr>sockets := es\<rparr>)"
    by (rule sockets_inv [OF dbg_clear.prems(1)])
      (use entry_in_range [OF dbg_clear.prems(1) dbg_clear.hyps] in \<open>auto simp: es_def nth_list_update split: if_splits\<close>)
  moreover have "at (s\<lparr>sockets := es\<rparr>) t (Clearing e)" using dbg_clear.hyps by (simp add: at_def)
  ultimately have "debug_inv (goto t Idle (s\<lparr>sockets := es\<rparr>))" by (rule idle_inv) simp_all
  then show ?case using dbg_clear.prems(2) by (auto simp: clear_entry_def upd_sock_def es_def)
qed

lemma reachable_inv: "debug_reachable n k s \<Longrightarrow> debug_inv s"
proof (induction rule: debug_reachable.induct)
  case debug_init
  show ?case by (auto simp: debug_start_def debug_inv_def)
next
  case (debug_next s s')
  then show ?case using debug_step_inv by blast
qed

end
