(* ===== verification/Debug_Props.thy ===== *)
theory Debug_Props
  imports Debug_Inv
begin

text \<open>
  Which threads can meet a destroyed debug monitor: none at a breakpoint, whatever the interleaving,
  but one that frees a socket can, and a run in which it does.
\<close>

lemma use_mon_fault: "use_mon m s r = Inl f \<Longrightarrow> \<not> mon_freed (monitors s ! m) \<Longrightarrow> r = Inl f"
  by (simp add: use_mon_def)

text \<open>A use of a destroyed monitor comes from \<open>chitcpd_debug_detach_monitor\<close>.\<close>

lemma only_detach_faults:
  "debug_step s r \<Longrightarrow> debug_inv s \<Longrightarrow> r = Inl f \<Longrightarrow> f = Freed \<or> f = Null_deref \<Longrightarrow>
   \<exists>t p e. at s t (Detaching p e) \<and> (\<forall>m. p = Some m \<longrightarrow> mon_freed (monitors s ! m))"
proof (induction rule: debug_step.induct)
  case (dbg_enter s t sockfd ev new)
  have "\<not> mon_freed (monitors s ! m)" if "valid_parameters s sockfd" "de_monitor (sockets s ! nat sockfd) = Some m" for m
  proof -
    have "nat sockfd \<in> refs s m" using that by (auto simp: refs_def valid_parameters_def valid_socket_def)
    moreover have "m < length (monitors s)"
      using calculation dbg_enter.prems(1) nth_mem unfolding debug_inv_def refs_def by blast
    ultimately show ?thesis using mon_invD(1) [OF dbg_enter.prems(1)] by blast
  qed
  then show ?case using dbg_enter.prems(2)
    by (auto simp: enter_breakpoint_def Let_def use_mon_def socket_monitors_event_def split: if_splits)
next
  case (dbg_lock s t m e ev new)
  then show ?case using awaited_by [of s t _ m] by (auto simp: use_mon_def split: if_splits)
next
  case (dbg_exchange s t m e ev new reply)
  then show ?case using held_by [of s t _ m]
    by (auto simp: exchange_breakpoint_messages_def use_mon_def split: if_splits option.splits)
next
  case (dbg_special s t m e ev new r)
  then show ?case using held_by [of s t _ m]
    by (auto simp: after_exchange_def handle_special_breakpoint_responses_def attach_monitor_and_flags_to_entry_def
        use_mon_def split: if_splits)
next
  case (dbg_detach_lock s t m e)
  then show ?case using awaited_by [of s t _ m] by (auto simp: use_mon_def split: if_splits)
next
  case (dbg_join s t p e)
  then show ?case by (auto simp: detach_join_def use_mon_def split: option.splits if_splits)
qed (use held_by(2) in \<open>fastforce simp: still_monitored_def check_dying_def remove_turn_def free_test_def detach_read_def
      use_mon_def split: if_splits\<close>)+

text \<open>
  C26: In every state a daemon of any size and any number of threads can reach, whatever its debug
  clients answer: a monitor is locked by one thread at a time; a monitor a socket points to is not
  destroyed; when no thread is in the middle of a call, every monitor that was marked as dying is
  destroyed (one that was overwritten at its only socket is never marked); and a thread that meets a
  destroyed monitor, or none, is one that frees a socket and read the pointer before.
\<close>
theorem debug_monitors_safe:
  assumes "debug_reachable n k s"
  shows "(\<forall>t u m p q. at s t p \<and> at s u q \<and> held p = Some m \<and> held q = Some m \<longrightarrow> t = u)
    \<and> (\<forall>e m. e < length (sockets s) \<and> de_monitor (sockets s ! e) = Some m \<longrightarrow> \<not> mon_freed (monitors s ! m))
    \<and> (\<forall>m < length (monitors s). dying (monitors s ! m) \<and> (\<forall>t < length (pcs s). outside s t) \<longrightarrow> mon_freed (monitors s ! m))
    \<and> (\<forall>f. debug_step s (Inl f) \<and> (f = Freed \<or> f = Null_deref) \<longrightarrow>
         (\<exists>t p e. at s t (Detaching p e) \<and> (\<forall>m. p = Some m \<longrightarrow> mon_freed (monitors s ! m))))"
proof (intro conjI allI impI)
  note inv = reachable_inv [OF assms]
  show "t = u" if "at s t p \<and> at s u q \<and> held p = Some m \<and> held q = Some m" for t u m p q
    using held_by(3) [OF inv, of t p m] held_by(3) [OF inv, of u q m] that by simp
  show "\<not> mon_freed (monitors s ! m)" if "e < length (sockets s) \<and> de_monitor (sockets s ! e) = Some m" for e m
    using that mon_invD(1) [OF inv, of m] inv nth_mem unfolding debug_inv_def refs_def by blast
  show "mon_freed (monitors s ! m)" if m: "m < length (monitors s)" and d: "dying (monitors s ! m) \<and> (\<forall>t < length (pcs s). outside s t)" for m
  proof (rule ccontr)
    assume "\<not> mon_freed (monitors s ! m)"
    then obtain t where t: "t \<in> holders s m \<union> waiters s m" using mon_invD(6) [OF inv m] d by blast
    then have "outside s t" using d by (auto simp: holders_def waiters_def)
    then show False using t by (auto simp: outside_def at_def holders_def waiters_def)
  qed
  show "\<exists>t p e. at s t (Detaching p e) \<and> (\<forall>m. p = Some m \<longrightarrow> mon_freed (monitors s ! m))"
    if "debug_step s (Inl f) \<and> (f = Freed \<or> f = Null_deref)" for f
    using only_detach_faults [OF _ inv] that by blast
qed

section \<open>A race\<close>

text \<open>One socket, one monitor, thread 0 at a breakpoint, thread 1 freeing the socket.\<close>

definition race :: "debug_pc \<Rightarrow> debug_pc \<Rightarrow> debug_monitor \<Rightarrow> nat option \<Rightarrow> u32 \<Rightarrow> debug_sys" where
  "race p q m d fl = \<lparr>running = True, monitors = [m], sockets = [\<lparr>de_available = False, de_monitor = d, de_flags = fl\<rparr>],
     pcs = [p, q]\<rparr>"

definition race_mon :: "nat option \<Rightarrow> int \<Rightarrow> bool \<Rightarrow> int \<Rightarrow> bool \<Rightarrow> debug_monitor" where
  "race_mon h w dy r fr = \<lparr>holder = h, numwaiters = w, dying = dy, mon_sockfd = 5, ref_count = r, mon_freed = fr\<rparr>"

lemma reach: "debug_reachable n k s \<Longrightarrow> debug_step s r \<Longrightarrow> r = Inr s' \<Longrightarrow> debug_reachable n k s'"
  by (auto intro: debug_next)

lemmas race_simps = race_def race_mon_def goto_def upd_mon_def upd_sock_def use_mon_def at_def lock_free_def

lemma race_watched: "debug_reachable 1 2 (race Idle Idle (race_mon None 0 False 1 False) (Some 0) 1)"
proof -
  have "debug_reachable 1 2 (upd_sock 0 (\<lambda>d. d\<lparr>de_available := False\<rparr>) (debug_start 1 2))"
    by (rule reach [OF debug_init dbg_allocate]) (simp_all add: debug_start_def)
  then show ?thesis
    by (rule reach [OF _ dbg_connect [of _ 0 1 5]])
      (simp add: debug_start_def chitcpd_init_debug_connection_def valid_socket_def race_simps new_monitor_def
        numeral_2_eq_2)
qed

lemma race_pointer_read:
  "debug_reachable 1 2 (race Idle (Detaching (Some 0) 0) (race_mon None 0 False 1 False) (Some 0) 1)"
proof -
  have "debug_reachable 1 2 (race Idle (Freeing 0) (race_mon None 0 False 1 False) (Some 0) 1)"
    by (rule reach [OF race_watched dbg_free [of _ 1 0]]) (simp_all add: race_simps outside_def free_test_def)
  then show ?thesis by (rule reach [OF _ dbg_read [of _ 1 0]]) (simp_all add: race_simps detach_read_def)
qed

lemma race_client_gone:
  "debug_reachable 1 2 (race (Removing 0 0 0) (Detaching (Some 0) 0) (race_mon (Some 0) 0 True 1 False) (Some 0) 1)"
proof -
  let ?q = "Detaching (Some 0) 0"
  have "debug_reachable 1 2 (race (Waiting 0 0 1 0) ?q (race_mon None 1 False 1 False) (Some 0) 1)"
    by (rule reach [OF race_pointer_read dbg_enter [of _ 0 0 1 0]])
      (simp_all add: race_simps outside_def enter_breakpoint_def valid_parameters_def valid_socket_def
        socket_monitors_event_def join_waiters_def)
  then have "debug_reachable 1 2 (race (Locked 0 0 1 0) ?q (race_mon (Some 0) 0 False 1 False) (Some 0) 1)"
    by (rule reach [OF _ dbg_lock [of _ 0 0 0 1 0]]) (simp_all add: race_simps take_lock_def)
  then have "debug_reachable 1 2 (race (Exchanging 0 0 1 0) ?q (race_mon (Some 0) 0 False 1 False) (Some 0) 1)"
    by (rule reach [OF _ dbg_still [of _ 0 0 0 1 0]]) (simp_all add: race_simps still_monitored_def)
  then have "debug_reachable 1 2 (race (Replied 0 0 1 0 0) ?q (race_mon (Some 0) 0 True 1 False) (Some 0) 1)"
    by (rule reach [OF _ dbg_exchange [of _ 0 0 0 1 0 None]])
      (simp_all add: race_simps exchange_breakpoint_messages_def RESP_NONE_def)
  then have "debug_reachable 1 2 (race (Checking 0 0) ?q (race_mon (Some 0) 0 True 1 False) (Some 0) 1)"
    by (rule reach [OF _ dbg_special [of _ 0 0 0 1 0 0]])
      (simp_all add: race_simps after_exchange_def handle_special_breakpoint_responses_def RESP_STOP_def
        RESP_ACCEPT_MONITOR_def)
  then show ?thesis by (rule reach [OF _ dbg_dying [of _ 0 0 0]]) (simp_all add: race_simps check_dying_def)
qed

lemma race_destroyed:
  "debug_reachable 1 2 (race (Answered 0) (Detaching (Some 0) 0) (race_mon None 0 True 0 True) None 0)"
proof -
  let ?q = "Detaching (Some 0) 0"
  have "debug_reachable 1 2 (race (Removing 0 1 0) ?q (race_mon (Some 0) 0 True 0 False) None 0)"
    by (rule reach [OF race_client_gone dbg_remove [of _ 0 0 0 0]])
      (simp_all add: race_simps remove_turn_def detach_monitor_from_entry_def)
  then have "debug_reachable 1 2 (race (Releasing 0 0) ?q (race_mon (Some 0) 0 True 0 False) None 0)"
    by (rule reach [OF _ dbg_remove [of _ 0 0 1 0]]) (simp_all add: race_simps remove_turn_def)
  then show ?thesis
    by (rule reach [OF _ dbg_release [of _ 0 0 0]])
      (simp_all add: race_simps debug_mon_release_def debug_mon_destroy_def)
qed

text \<open>
  A thread that frees a socket reads the pointer to its monitor, the client's connection fails at
  another thread's breakpoint, which destroys the monitor, and the first thread locks it.
\<close>

lemma freed_monitor_locked:
  "\<exists>s. debug_reachable 1 2 s \<and> debug_step s (Inl Freed)"
proof -
  let ?s = "race (Answered 0) (Detaching (Some 0) 0) (race_mon None 0 True 0 True) None 0"
  have "debug_step ?s (detach_join 1 (Some 0) 0 ?s)" by (rule dbg_join) (simp add: race_simps)
  moreover have "detach_join 1 (Some 0) 0 ?s = Inl Freed" by (simp add: detach_join_def race_simps)
  ultimately show ?thesis using race_destroyed by auto
qed

theorem debug_monitors_safe_witness:
  "\<exists>s. debug_reachable 1 2 s \<and> debug_step s (Inl Freed)
    \<and> (\<exists>t p e. at s t (Detaching p e) \<and> (\<forall>m. p = Some m \<longrightarrow> mon_freed (monitors s ! m)))"
  using freed_monitor_locked debug_monitors_safe [of 1 2] by blast

end
