(* ===== verification/Spec2Isabelle.thy ===== *)
theory Spec2Isabelle
  imports CircBuf Packet Tcp_Time Tcp Tcp_Frame Tcp_Inv Tcp_Props Tcp_Transfer Daemon Daemon_Inv Daemon_Props
    Router Router_Inv Router_Props BitPuzzles BitPuzzles_Props
    Irc Irc_Handlers Irc_Inv Irc_Props Lookup Bank Bank_Props Transpose Structures Sha1
    Vns Vns_Props Debug Debug_Inv Debug_Props
begin

text \<open>
  \<^bold>\<open>CMSC-Work: a verification development.\<close>

  The repository is the course work of one student. Its own logic is in C: three networking projects
  under \<open>src/cs233-win-15-amsadowski-nolanwinkler\<close>, and exercises under \<open>src/Systems\<close> and
  \<open>src/C\<close>. This development models the networking projects, and of the exercises those with a
  specification of their own.

  \<^item> \<^bold>\<open>chitcp\<close> is a TCP in user space. Applications call a socket library (\<open>libchitcp\<close>) that talks
    to a daemon (\<open>chitcpd\<close>), which runs one thread per socket. A thread waits for events, hands
    each to the handler of the socket's state (\<open>tcp.c\<close>), and exchanges packets with the peer's
    daemon over a real TCP connection. The bytes between application and thread go through two
    circular buffers.
  \<^item> \<^bold>\<open>simple-router\<close> is a router for a virtual network: it gets frames from a server, forwards IP
    packets by a static routing table, resolves next hops by ARP with a cache and a queue of
    waiting packets, and answers ICMP.
  \<^item> \<^bold>\<open>chirc\<close> is an IRC server: one thread per client cuts lines out of the stream and runs the
    handler of each line's command on the shared lists of clients and channels.

  \<^bold>\<open>Theories.\<close>

  \<^item> \<^bold>\<open>Prelude\<close>: the C integers as words, byte order, byte arrays, the faults a C function can
    end in (\<open>fault + 'a\<close>, \<open>rbind\<close>), and the locales of event-driven machines: an invariant that
    each event keeps is kept by every sequence of events.
  \<^item> \<^bold>\<open>CircBuf\<close>: \<open>libchitcp/buffer.c\<close>. The state is the record \<open>circular_buffer\<close> of \<open>buffer.h\<close>;
    an operation is one atomic step between two waits on a condition variable. The lemmas give the
    contents of the buffer after each operation (\<open>cb_bytes\<close>), under every interleaving.
  \<^item> \<^bold>\<open>Packet\<close>: \<open>packet.h\<close>, \<open>packet.c\<close>, the framing of \<open>connection.c\<close>.
  \<^item> \<^bold>\<open>Tcp_Time\<close>: the \<open>timespec\<close> arithmetic of \<open>tcp.c\<close>.
  \<^item> \<^bold>\<open>Tcp\<close>: \<open>tcp.c\<close>, the event loop of \<open>tcp_thread.c\<close>, and the handlers of the application's send,
    receive and close in \<open>handlers.c\<close>. \<^bold>\<open>Tcp_Frame\<close> says what each operation leaves alone,
    \<^bold>\<open>Tcp_Inv\<close> holds the socket invariant and the state diagram, \<^bold>\<open>Tcp_Props\<close> what the protocol
    does: handshake, delivery, retransmission, segmentation. \<^bold>\<open>Tcp_Transfer\<close> joins two sockets by
    their wires and connection threads: messages that take turns cross the connection in order, and a
    message that fills the receiver's buffer shuts its window for good.
  \<^item> \<^bold>\<open>Daemon\<close>: \<open>addr.c\<close>, \<open>serverinfo.c\<close>, \<open>connection.c\<close>, the handlers of \<open>handlers.c\<close> and the
    end of a socket's thread, on a record \<open>serverinfo\<close> of the socket, port and connection tables
    whose entries hold the sockets of \<open>Tcp\<close>. \<^bold>\<open>Daemon_Inv\<close> holds the invariant of the tables,
    \<^bold>\<open>Daemon_Props\<close> which socket gets a packet, how ports are taken and freed, and the opening of a
    connection from the SYN to ESTABLISHED through the listener, \<open>accept\<close> and the socket's thread.
  \<^item> \<^bold>\<open>Debug\<close>: \<open>breakpoint.c\<close>, the debug monitors, as concurrent threads: an inductive step relation
    whose steps are the sections between taking and releasing a mutex. \<^bold>\<open>Debug_Inv\<close> holds its
    invariant, \<^bold>\<open>Debug_Props\<close> who can meet a destroyed monitor. For the other theories a monitor's
    answer is a parameter.
  \<^item> \<^bold>\<open>Router\<close>: \<open>sr_if.c\<close>, \<open>sr_rt.c\<close>, \<open>sr_utils.c\<close>, \<open>sr_arpcache.c\<close>, \<open>sr_router.c\<close>, and the frame
    handling of \<open>sr_vns_comm.c\<close>. \<^bold>\<open>Router_Inv\<close> holds the invariant of a running router and that it
    never faults, \<^bold>\<open>Router_Props\<close> what becomes of each kind of frame.
  \<^item> \<^bold>\<open>Sha1\<close>: \<open>sha1.c\<close> of the router, and the function of the standard (FIPS 180) it computes.
    \<^bold>\<open>Vns\<close>: the session of \<open>sr_vns_comm.c\<close> and the start and main loop of \<open>sr_main.c\<close>, on a record
    \<open>vns\<close> that holds the router and the schedule of what arrives; a schedule says where \<open>recv\<close> cuts
    the stream and when the timeout thread runs. \<^bold>\<open>Vns_Props\<close>: the opening, and that the main loop
    on any pieces is the events of the router.
  \<^item> \<^bold>\<open>BitPuzzles\<close>: \<open>Systems/p1bitmanip\<close>, the solutions of \<open>changes.c\<close> and the reference functions of
    \<open>tests.c\<close> on 32-bit words. \<^bold>\<open>BitPuzzles_Props\<close> shows that they agree.
  \<^item> \<^bold>\<open>Irc\<close>: \<open>sockets.c\<close>, \<open>threads.c\<close> and \<open>channel.c\<close> of chirc, on a record \<open>irc\<close> of the structures
    allocated so far and the lists of pointers to them. \<^bold>\<open>Irc_Handlers\<close>: \<open>handlers.c\<close>, the dispatch of
    \<open>parse.c\<close>, and the reading loop of \<open>main.c\<close>. \<^bold>\<open>Irc_Inv\<close> holds the invariant of the server, kept
    by every handler, \<^bold>\<open>Irc_Props\<close> how lines are framed, who gets a message, who is an operator, and
    which lines end the server. A handler is one step: threads take turns line by line, so the list
    iterators are never left active. Lines sent are recorded; the log output is not modelled.
  \<^item> \<^bold>\<open>Lookup\<close>: the hash tables \<open>lookupa.c\<close> and \<open>lookupi.c\<close> of \<open>C/hw7\<close>, polymorphic in the value, and
    the locale of what a client of a table relies on, interpreted for both. \<^bold>\<open>Bank\<close>: their client
    \<open>tsl.c\<close>, and the map of accounts it stands for. \<^bold>\<open>Bank_Props\<close>: it implements that map; a file with
    complete lines ends it.
  \<^item> \<^bold>\<open>Transpose\<close>: \<open>Systems/p3cache/trans.c\<close>, the transposition in blocks and the plain one.
  \<^item> \<^bold>\<open>Structures\<close>: the string lists of \<open>C/hw5\<close> and \<open>C/lab4\<close> and the search tree of \<open>C/lab5\<close>, with
    lemmas that give the result of each operation.

  \<^bold>\<open>Parameters.\<close> What the code takes from outside is an argument of the definitions: the clock,
  the results of \<open>send\<close>, the answers of the debug monitor, \<open>rand\<close>, the products of an \<open>int\<close> and a
  \<open>double\<close>, \<open>list_sort\<close> of the vendored simclist, \<open>inet_aton\<close>, the float arithmetic of the bank, the
  size of the blocks \<open>malloc\<close> returns. \<open>tcp.c\<close> asks \<open>calloc\<close> for an array of no bytes (lines 343 and
  448) and then uses it per element of the retransmission queue: the block the allocator hands out
  for such a call is the parameter \<open>e_alloc\<close>, an access behind its end is the fault \<open>Overrun\<close>, and a
  property whose run goes on has the hypothesis \<open>alloc_room\<close>, that the blocks are large enough.

  \<^bold>\<open>Fuel.\<close> None is used. Loops are recursive functions with a termination proof, except the loop
  that cuts the send buffer into segments, which may run for ever and is a partial function whose
  value \<open>None\<close> is that case.

  \<^bold>\<open>Not modelled.\<close> Logging and printing, the transport of requests between library and daemon
  (generated protobuf code), the client side of the debug API, \<open>free\<close>, and the vendored libraries bstrlib and
  simclist. The Racket, database and Python parts of the repository are not C.
\<close>

end
